(* ===== verification/C_Prelude.thy ===== *)
theory C_Prelude
  imports Main "HOL-Library.Word" "HOL-Library.Signed_Division"
begin

text \<open>
  The vocabulary every component shares: the faults a C program can run into, the result
  type that carries them, counted loops, bounds-checked arrays, NUL-terminated strings and
  the checked arithmetic of \<^verbatim>\<open>int\<close>.  A read or write outside an array, the use of
  an indeterminate value, a signed overflow, a shift beyond the width, a division by zero, a missing return value and a
  loop that never ends are values of \<open>c_error\<close>, so that "the function is memory safe"
  is the statement that its result is an \<open>Inr\<close>.
\<close>

section \<open>Faults and results\<close>

datatype c_error =
    OutOfBounds
  | Indeterminate
  | SignedOverflow
  | DivisionByZero
  | NullPointer
  | NoReturnValue
  | InvalidShift
  | Diverges

type_synonym 'a c_result = "c_error + 'a"

named_theorems c_eval \<open>equations that evaluate the C primitives\<close>
named_theorems c_safe \<open>success of the C primitives under their bounds\<close>

definition c_bind :: "'a c_result \<Rightarrow> ('a \<Rightarrow> 'b c_result) \<Rightarrow> 'b c_result" where
  "c_bind m f = (case m of Inl e \<Rightarrow> Inl e | Inr x \<Rightarrow> f x)"

text \<open>A guard that faults: the check an access or an operation needs.\<close>

definition c_require :: "bool \<Rightarrow> c_error \<Rightarrow> unit c_result" where
  "c_require b e = (if b then Inr () else Inl e)"

section \<open>Loops\<close>

text \<open>\<open>c_fold\<close> runs a loop body over the values its counter takes.\<close>

primrec c_fold :: "('x \<Rightarrow> 's \<Rightarrow> 's c_result) \<Rightarrow> 'x list \<Rightarrow> 's \<Rightarrow> 's c_result" where
  "c_fold body [] s = Inr s"
| "c_fold body (x # xs) s = c_bind (body x s) (c_fold body xs)"

text \<open>\<^verbatim>\<open>for (i = lo; i < hi; i++) body\<close>\<close>

definition for_loop :: "nat \<Rightarrow> nat \<Rightarrow> (nat \<Rightarrow> 's \<Rightarrow> 's c_result) \<Rightarrow> 's \<Rightarrow> 's c_result" where
  "for_loop lo hi body = c_fold body [lo..<hi]"

text \<open>\<^verbatim>\<open>for (i = hi - 1; i >= lo; i--) body\<close>\<close>

definition for_down :: "nat \<Rightarrow> nat \<Rightarrow> (nat \<Rightarrow> 's \<Rightarrow> 's c_result) \<Rightarrow> 's \<Rightarrow> 's c_result" where
  "for_down lo hi body = c_fold body (rev [lo..<hi])"

section \<open>Arrays\<close>

definition load :: "'a list \<Rightarrow> nat \<Rightarrow> 'a c_result" where
  "load a i = (if i < length a then Inr (a ! i) else Inl OutOfBounds)"

definition store :: "'a list \<Rightarrow> nat \<Rightarrow> 'a \<Rightarrow> 'a list c_result" where
  "store a i v = (if i < length a then Inr (a[i := v]) else Inl OutOfBounds)"

text \<open>
  A pointer \<^verbatim>\<open>a + off\<close> handed to a function that writes through it: the function works on
  the cells from \<open>off\<close> on, and the array keeps the cells before.
\<close>

definition on_suffix :: "nat \<Rightarrow> ('a list \<Rightarrow> 'a list c_result) \<Rightarrow> 'a list \<Rightarrow> 'a list c_result" where
  "on_suffix off f a =
     (if off \<le> length a then c_bind (f (drop off a)) (\<lambda>d. Inr (take off a @ d))
      else Inl OutOfBounds)"

section \<open>NUL-terminated strings\<close>

abbreviation NUL :: char where
  "NUL \<equiv> CHR 0x00"

text \<open>The string a buffer holds, and \<^verbatim>\<open>strlen\<close> of a buffer, which faults without a NUL.\<close>

definition cstr :: "string \<Rightarrow> string" where
  "cstr b = takeWhile (\<lambda>c. c \<noteq> NUL) b"

definition c_strlen :: "string \<Rightarrow> nat c_result" where
  "c_strlen b = (if NUL \<in> set b then Inr (length (cstr b)) else Inl OutOfBounds)"

text \<open>Bytes and a string with its NUL written into a buffer.\<close>

definition mem_write :: "string \<Rightarrow> nat \<Rightarrow> string \<Rightarrow> string c_result" where
  "mem_write b off xs =
     (if off + length xs \<le> length b then Inr (take off b @ xs @ drop (off + length xs) b) else Inl OutOfBounds)"

definition str_write :: "string \<Rightarrow> string \<Rightarrow> string c_result" where
  "str_write b s = mem_write b 0 (s @ [NUL])"

text \<open>
  A string argument given by its contents: the cell after the last character is the NUL,
  and nothing beyond it may be read.
\<close>

definition str_at :: "string \<Rightarrow> nat \<Rightarrow> char c_result" where
  "str_at s i = (if i < length s then Inr (s ! i)
                 else if i = length s then Inr NUL else Inl OutOfBounds)"

text \<open>The value of a \<^verbatim>\<open>char\<close>, which is signed.\<close>

definition char_int :: "char \<Rightarrow> int" where
  "char_int c = (let n = of_char c in if n < 128 then n else n - 256)"

section \<open>Checked \<open>int\<close> arithmetic\<close>

definition INT_MAX :: int where "INT_MAX = 2 ^ 31 - 1"
definition INT_MIN :: int where "INT_MIN = - (2 ^ 31)"

definition c_int :: "int \<Rightarrow> int c_result" where
  "c_int x = (if INT_MIN \<le> x \<and> x \<le> INT_MAX then Inr x else Inl SignedOverflow)"

text \<open>Division truncates towards zero and faults on a zero divisor.\<close>

definition c_quot :: "int \<Rightarrow> int \<Rightarrow> int c_result" where
  "c_quot a b = (if b = 0 then Inl DivisionByZero else c_int (a sdiv b))"

definition c_rem :: "int \<Rightarrow> int \<Rightarrow> int c_result" where
  "c_rem a b = (if b = 0 then Inl DivisionByZero else c_int (a smod b))"

section \<open>Decimal output\<close>

text \<open>What \<^verbatim>\<open>%d\<close> prints.\<close>

definition digit_char :: "nat \<Rightarrow> char" where
  "digit_char d = char_of (48 + d)"

fun show_nat :: "nat \<Rightarrow> string" where
  "show_nat n = (if n < 10 then [digit_char n] else show_nat (n div 10) @ [digit_char (n mod 10)])"

declare show_nat.simps [simp del]

definition show_int :: "int \<Rightarrow> string" where
  "show_int n = (if n < 0 then CHR ''-'' # show_nat (nat (- n)) else show_nat (nat n))"

text \<open>\<^verbatim>\<open>atoi\<close>: blanks, a sign, digits; an overflow is undefined.\<close>

definition is_digit :: "char \<Rightarrow> bool" where
  "is_digit c \<longleftrightarrow> 48 \<le> (of_char c :: nat) \<and> (of_char c :: nat) \<le> 57"

definition is_space :: "char \<Rightarrow> bool" where
  "is_space c \<longleftrightarrow> c = CHR '' '' \<or> (9 \<le> (of_char c :: nat) \<and> (of_char c :: nat) \<le> 13)"

definition digits_value :: "string \<Rightarrow> int" where
  "digits_value s = foldl (\<lambda>n c. 10 * n + (of_char c - 48)) 0 s"

definition atoi :: "string \<Rightarrow> int c_result" where
  "atoi s =
     (let t = dropWhile is_space s;
          neg = (t \<noteq> [] \<and> hd t = CHR ''-'');
          u = (if t \<noteq> [] \<and> (hd t = CHR ''-'' \<or> hd t = CHR ''+'') then tl t else t);
          n = digits_value (takeWhile is_digit u) in
      c_int (if neg then - n else n))"

text \<open>What \<^verbatim>\<open>%X\<close> and \<^verbatim>\<open>%x\<close> print, and the zero padding of \<^verbatim>\<open>%04x\<close> and the like.\<close>

definition hex_char :: "bool \<Rightarrow> nat \<Rightarrow> char" where
  "hex_char upper d = (if d < 10 then char_of (48 + d) else char_of ((if upper then 55 else 87) + d))"

fun show_hex :: "bool \<Rightarrow> nat \<Rightarrow> string" where
  "show_hex upper n =
     (if n < 16 then [hex_char upper n] else show_hex upper (n div 16) @ [hex_char upper (n mod 16)])"

declare show_hex.simps [simp del]

definition pad_with :: "char \<Rightarrow> nat \<Rightarrow> string \<Rightarrow> string" where
  "pad_with c w s = replicate (w - length s) c @ s"

section \<open>Laws of results\<close>

lemma c_bind_simps [simp]:
  "c_bind (Inr x) f = f x"
  "c_bind (Inl e) f = Inl e"
  by (simp_all add: c_bind_def)

lemma c_bind_Inr_iff [simp]:
  "c_bind m f = Inr y \<longleftrightarrow> (\<exists>x. m = Inr x \<and> f x = Inr y)"
  by (cases m) simp_all

lemma c_bind_assoc:
  "c_bind (c_bind m f) g = c_bind m (\<lambda>x. c_bind (f x) g)"
  by (cases m) simp_all

lemma c_bind_return [simp]: "c_bind m Inr = m"
  by (cases m) simp_all

lemma c_bind_cong [fundef_cong]:
  assumes "m1 = m2" and "\<And>y. m2 = Inr y \<Longrightarrow> f1 y = f2 y"
  shows "c_bind m1 f1 = c_bind m2 f2"
  using assms by (cases m2) simp_all

lemma c_require_simps [simp]:
  "c_require True e = Inr ()"
  "c_require False e = Inl e"
  by (simp_all add: c_require_def)

lemma c_require_Inr [simp]: "c_require b e = Inr u \<longleftrightarrow> b"
  by (simp add: c_require_def)

section \<open>Laws of loops\<close>

lemma c_fold_append:
  "c_fold body (xs @ ys) s = c_bind (c_fold body xs s) (c_fold body ys)"
proof (induction xs arbitrary: s)
  case (Cons x xs)
  then have "c_fold body (xs @ ys) = (\<lambda>t. c_bind (c_fold body xs t) (c_fold body ys))"
    by (simp add: fun_eq_iff)
  then show ?case by (simp add: c_bind_assoc)
qed simp

lemma for_loop_done [simp]: "hi \<le> lo \<Longrightarrow> for_loop lo hi body s = Inr s"
  by (simp add: for_loop_def)

lemma for_loop_step:
  "lo < hi \<Longrightarrow> for_loop lo hi body s = c_bind (body lo s) (for_loop (Suc lo) hi body)"
  by (simp add: for_loop_def upt_conv_Cons)

lemma for_loop_Suc:
  "lo \<le> hi \<Longrightarrow> for_loop lo (Suc hi) body s = c_bind (for_loop lo hi body s) (body hi)"
  by (simp add: for_loop_def c_fold_append cong: c_bind_cong)

text \<open>The invariant rule, total: the body succeeds and keeps the invariant.\<close>

lemma for_loop_total:
  assumes "lo \<le> hi" and "I lo s"
    and step: "\<And>i s. lo \<le> i \<Longrightarrow> i < hi \<Longrightarrow> I i s \<Longrightarrow> \<exists>s'. body i s = Inr s' \<and> I (Suc i) s'"
  shows "\<exists>s'. for_loop lo hi body s = Inr s' \<and> I hi s'"
  using assms(1,2) step
proof (induction hi rule: dec_induct)
  case base
  then show ?case by simp
next
  case (step n)
  then obtain t where t: "for_loop lo n body s = Inr t" "I n t"
    by (metis less_SucI)
  with step.prems(2)[of n t] step.hyps(1) show ?case
    by (auto simp: for_loop_Suc)
qed

text \<open>The same for a loop that counts down.\<close>

lemma for_down_total:
  assumes "lo \<le> hi" and "I hi s"
    and step: "\<And>i s. lo \<le> i \<Longrightarrow> i < hi \<Longrightarrow> I (Suc i) s \<Longrightarrow> \<exists>s'. body i s = Inr s' \<and> I i s'"
  shows "\<exists>s'. for_down lo hi body s = Inr s' \<and> I lo s'"
  using assms(1,2) step
proof (induction hi arbitrary: s rule: dec_induct)
  case base
  then show ?case by (simp add: for_down_def)
next
  case (step n)
  then obtain t where t: "body n s = Inr t" "I n t" by blast
  with step.IH [OF t(2)] step.prems step.hyps show ?case
    by (auto simp: for_down_def)
qed

text \<open>The invariant rule, partial: if the loop returns, the invariant holds.\<close>

lemma for_loop_partial:
  assumes "for_loop lo hi body s = Inr s'" and "lo \<le> hi" and "I lo s"
    and step: "\<And>i s t. lo \<le> i \<Longrightarrow> i < hi \<Longrightarrow> I i s \<Longrightarrow> body i s = Inr t \<Longrightarrow> I (Suc i) t"
  shows "I hi s'"
  using assms(2,1,3) step
proof (induction hi arbitrary: s' rule: dec_induct)
  case base
  then show ?case by simp
next
  case (step n)
  from step.prems(1) step.hyps(1) obtain t
    where "for_loop lo n body s = Inr t" "body n t = Inr s'"
    by (auto simp: for_loop_Suc)
  with step.IH[of t] step.prems step.hyps show ?case
    by (metis less_Suc_eq)
qed

text \<open>The invariant rule with faults: every pass keeps the invariant or faults as \<open>E\<close> allows.\<close>

lemma for_loop_cases:
  assumes "lo \<le> hi" and "I lo s"
    and step: "\<And>i s. lo \<le> i \<Longrightarrow> i < hi \<Longrightarrow> I i s \<Longrightarrow>
      (\<exists>e. body i s = Inl e \<and> E i e) \<or> (\<exists>s'. body i s = Inr s' \<and> I (Suc i) s')"
  shows "(\<exists>i e. i < hi \<and> for_loop lo hi body s = Inl e \<and> E i e) \<or>
    (\<exists>s'. for_loop lo hi body s = Inr s' \<and> I hi s')"
  using assms(1,2) step
proof (induction hi rule: dec_induct)
  case base
  then show ?case by simp
next
  case (step n)
  then consider i e where "i < n" "for_loop lo n body s = Inl e" "E i e"
    | t where "for_loop lo n body s = Inr t" "I n t" by (metis less_SucI)
  then show ?case
  proof cases
    case 1
    with step.hyps(1) show ?thesis by (auto simp: for_loop_Suc less_Suc_eq)
  next
    case 2
    with step.prems(2) [of n t] step.hyps(1) show ?thesis by (auto simp: for_loop_Suc)
  qed
qed

text \<open>A loop whose body succeeds with a known value is that fold.\<close>

lemma c_fold_pure:
  assumes "\<And>x s. x \<in> set xs \<Longrightarrow> P s \<Longrightarrow> body x s = Inr (g x s) \<and> P (g x s)" and "P s"
  shows "c_fold body xs s = Inr (fold g xs s) \<and> P (fold g xs s)"
  using assms by (induction xs arbitrary: s) auto

text \<open>Two loops whose bodies keep a relation between their states.\<close>

lemma for_loop_related:
  assumes "for_loop lo hi f s = Inr s'" "lo \<le> hi" "R s t"
    and "\<And>i s s' t. lo \<le> i \<Longrightarrow> i < hi \<Longrightarrow> f i s = Inr s' \<Longrightarrow> R s t \<Longrightarrow> \<exists>t'. g i t = Inr t' \<and> R s' t'"
  shows "\<exists>t'. for_loop lo hi g t = Inr t' \<and> R s' t'"
  using assms(2,1,4)
proof (induction hi arbitrary: s' rule: dec_induct)
  case base
  then show ?case using assms(3) by simp
next
  case (step n)
  from step.prems(1) step.hyps(1) obtain u where u: "for_loop lo n f s = Inr u" "f n u = Inr s'"
    by (auto simp: for_loop_Suc)
  have "\<exists>t'. for_loop lo n g t = Inr t' \<and> R u t'" using step.prems(2) by (intro step.IH [OF u(1)]) simp
  then obtain v where v: "for_loop lo n g t = Inr v" "R u v" by blast
  with step.prems(2) [OF step.hyps(1) _ u(2) v(2)] step.hyps(1) show ?case by (auto simp: for_loop_Suc)
qed

section \<open>Laws of arrays\<close>

lemma load_Inr [simp]: "load a i = Inr v \<longleftrightarrow> i < length a \<and> v = a ! i"
  by (auto simp: load_def)

lemma store_Inr [simp]: "store a i v = Inr a' \<longleftrightarrow> i < length a \<and> a' = a[i := v]"
  by (auto simp: store_def)

lemma load_in [c_safe]: "i < length a \<Longrightarrow> load a i = Inr (a ! i)"
  by simp

lemma store_in [c_safe]: "i < length a \<Longrightarrow> store a i v = Inr (a[i := v])"
  by simp

lemma load_out: "length a \<le> i \<Longrightarrow> load a i = Inl OutOfBounds"
  by (simp add: load_def)

lemma store_out: "length a \<le> i \<Longrightarrow> store a i v = Inl OutOfBounds"
  by (simp add: store_def)

lemma on_suffix_in:
  "off \<le> length a \<Longrightarrow> f (drop off a) = Inr d \<Longrightarrow> on_suffix off f a = Inr (take off a @ d)"
  by (simp add: on_suffix_def)

text \<open>
  The loop \<^verbatim>\<open>for (i = 0; i < n; i++) a[i] = v(i)\<close> replaces the first \<open>n\<close> cells;
  \<open>v\<close> may fault, and reads cells that the loop does not write before.
\<close>

lemma fill_loop:
  assumes "n \<le> length a"
    and "\<And>i b. i < n \<Longrightarrow> length b = length a \<Longrightarrow> drop i b = drop i a \<Longrightarrow>
           body i b = Inr (b[i := v i])"
  shows "for_loop 0 n body a = Inr (map v [0..<n] @ drop n a)"
proof -
  have "\<exists>b. for_loop 0 n body a = Inr b \<and> (b = map v [0..<n] @ drop n a)"
  proof (rule for_loop_total)
    fix i b
    assume i: "(0::nat) \<le> i" "i < n" and b: "b = map v [0..<i] @ drop i a"
    have upd: "b[i := v i] = map v [0..<Suc i] @ drop (Suc i) a"
      using i assms(1) by (simp add: b list_update_append Cons_nth_drop_Suc [symmetric])
    have "body i b = Inr (b[i := v i])"
      using i assms(1) by (intro assms(2)) (auto simp: b)
    with upd show "\<exists>b'. body i b = Inr b' \<and> b' = map v [0..<Suc i] @ drop (Suc i) a"
      by simp
  qed auto
  then show ?thesis by blast
qed

section \<open>Laws of strings\<close>

lemma str_at_in [simp]: "i < length s \<Longrightarrow> str_at s i = Inr (s ! i)"
  by (simp add: str_at_def)

lemma str_at_end [simp]: "str_at s (length s) = Inr NUL"
  by (simp add: str_at_def)

lemma cstr_no_NUL [simp]: "NUL \<notin> set (cstr b)"
  by (auto simp: cstr_def dest: set_takeWhileD)

lemma cstr_append_NUL [simp]: "NUL \<notin> set s \<Longrightarrow> cstr (s @ NUL # rest) = s"
  unfolding cstr_def by (subst takeWhile_append2) auto

lemma c_strlen_append_NUL [simp]:
  "NUL \<notin> set s \<Longrightarrow> c_strlen (s @ NUL # rest) = Inr (length s)"
  by (simp add: c_strlen_def)

lemma length_cstr_le: "length (cstr b) \<le> length b"
  by (simp add: cstr_def length_takeWhile_le)

lemma show_nat_nonempty [simp]: "show_nat n \<noteq> []"
  by (subst show_nat.simps) simp

section \<open>Laws of \<open>int\<close> arithmetic\<close>

lemma c_int_Inr [simp]: "c_int x = Inr y \<longleftrightarrow> y = x \<and> INT_MIN \<le> x \<and> x \<le> INT_MAX"
  by (auto simp: c_int_def)

lemma c_int_in [c_safe]: "INT_MIN \<le> x \<Longrightarrow> x \<le> INT_MAX \<Longrightarrow> c_int x = Inr x"
  by (simp add: c_int_def)

lemma sdiv_nonneg: "0 \<le> a \<Longrightarrow> 0 < b \<Longrightarrow> (a::int) sdiv b = a div b"
  by (simp add: signed_divide_int_def sgn_if)

lemma smod_nonneg: "0 \<le> a \<Longrightarrow> 0 < b \<Longrightarrow> (a::int) smod b = a mod b"
  by (cases "a = 0") (simp_all add: signed_modulo_int_def sgn_if)

lemma c_quot_nonneg:
  assumes "0 \<le> a" "a \<le> INT_MAX" "0 < b"
  shows "c_quot a b = Inr (a div b)"
proof -
  have "a div b \<le> a" using assms by (cases "b = 1") (auto intro: zdiv_mono2 [of a 1 b, simplified])
  moreover have "0 \<le> a div b" using assms by (simp add: pos_imp_zdiv_nonneg_iff)
  ultimately show ?thesis
    using assms by (simp add: c_quot_def sdiv_nonneg INT_MIN_def)
qed

lemma c_rem_nonneg:
  assumes "0 \<le> a" "a \<le> INT_MAX" "0 < b"
  shows "c_rem a b = Inr (a mod b)"
proof -
  have "a mod b \<le> a" using assms by (simp add: zmod_le_nonneg_dividend)
  moreover have "0 \<le> a mod b" using assms by simp
  ultimately have "- 2147483648 \<le> a mod b" "a mod b \<le> INT_MAX"
    using assms(1,2) by linarith+
  then show ?thesis
    using assms by (simp add: c_rem_def smod_nonneg INT_MIN_def)
qed

section \<open>Loops that count\<close>

text \<open>A loop that adds the weight of each value of its counter to an \<^verbatim>\<open>int\<close> in range.\<close>

lemma c_fold_add:
  assumes "\<And>x t. x \<in> set xs \<Longrightarrow> 0 \<le> t \<Longrightarrow> t + w x \<le> INT_MAX \<Longrightarrow> body x t = Inr (t + w x)" "\<And>x. 0 \<le> w x"
    and "0 \<le> t" "t + sum_list (map w xs) \<le> INT_MAX"
  shows "c_fold body xs t = Inr (t + sum_list (map w xs))"
  using assms(1,3,4)
proof (induction xs arbitrary: t)
  case (Cons x xs)
  have "0 \<le> sum_list (map w xs)" using assms(2) by (induction xs) auto
  with Cons.prems(3) have "body x t = Inr (t + w x)" by (intro Cons.prems) auto
  with Cons.IH [of "t + w x"] Cons.prems assms(2) show ?case by (simp add: add.assoc)
qed simp

lemma sum_list_interval: "sum_list (map w [0..<n]) = (\<Sum>i<n. w i :: int)"
  by (simp add: interv_sum_list_conv_sum_set_nat atLeast0LessThan)

lemma for_loop_add:
  assumes "\<And>i t. i < n \<Longrightarrow> 0 \<le> t \<Longrightarrow> t + w i \<le> INT_MAX \<Longrightarrow> body i t = Inr (t + w i)" "\<And>i. 0 \<le> w i"
    and "0 \<le> t" "t + (\<Sum>i<n. w i) \<le> INT_MAX"
  shows "for_loop 0 n body t = Inr (t + (\<Sum>i<n. w i))"
  using c_fold_add [of "[0..<n]" w body t] assms by (simp add: for_loop_def sum_list_interval)

end
