(* ===== verification/Des.thy ===== *)
theory Des
  imports C_Prelude
begin

unbundle bit_operations_syntax

text \<open>
  The DES cipher of \<^verbatim>\<open>src/cpp/algorithm/3des.c\<close>.  A bit array of the source (an array of
  the enumeration \<^verbatim>\<open>bool\<close>) is a \<open>bool list\<close>, a \<^verbatim>\<open>char\<close> buffer is a list of
  bytes, and the file-level array \<^verbatim>\<open>sub_key\<close> is passed and returned.  The static scratch
  arrays (\<^verbatim>\<open>tmp\<close>, \<^verbatim>\<open>msg_e\<close>, \<^verbatim>\<open>key_bit\<close>, \<^verbatim>\<open>msg_bit\<close>) are overwritten before they
  are read in every call, so their contents between calls are not state; diagnostic
  \<^verbatim>\<open>printf\<close> output is left out.  Every access is bounds checked: that the cipher
  returns an \<open>Inr\<close> is its memory safety.

  The main results are that encryption followed by decryption under the same sub-keys gives
  the plain text back, for every key and message, by way of the locale \<open>feistel\<close>, and
  that key setup fills sixteen sub-keys of 48 bits.
\<close>

section \<open>Tables\<close>

type_synonym byte = "8 word"

definition ip_tbl :: "nat list" where
  "ip_tbl = [
    58, 50, 42, 34, 26, 18, 10, 2, 60, 52, 44, 36, 28, 20, 12, 4,
    62, 54, 46, 38, 30, 22, 14, 6, 64, 56, 48, 40, 32, 24, 16, 8,
    57, 49, 41, 33, 25, 17, 9, 1, 59, 51, 43, 35, 27, 19, 11, 3,
    61, 53, 45, 37, 29, 21, 13, 5, 63, 55, 47, 39, 31, 23, 15, 7]"

definition ipr_tbl :: "nat list" where
  "ipr_tbl = [
    40, 8, 48, 16, 56, 24, 64, 32, 39, 7, 47, 15, 55, 23, 63, 31,
    38, 6, 46, 14, 54, 22, 62, 30, 37, 5, 45, 13, 53, 21, 61, 29,
    36, 4, 44, 12, 52, 20, 60, 28, 35, 3, 43, 11, 51, 19, 59, 27,
    34, 2, 42, 10, 50, 18, 58, 26, 33, 1, 41, 9, 49, 17, 57, 25]"

definition e_tbl :: "nat list" where
  "e_tbl = [
    32, 1, 2, 3, 4, 5, 4, 5, 6, 7, 8, 9, 8, 9, 10, 11,
    12, 13, 12, 13, 14, 15, 16, 17, 16, 17, 18, 19, 20, 21, 20, 21,
    22, 23, 24, 25, 24, 25, 26, 27, 28, 29, 28, 29, 30, 31, 32, 1]"

definition pc1_tbl :: "nat list" where
  "pc1_tbl = [
    57, 49, 41, 33, 25, 17, 9, 1, 58, 50, 42, 34, 26, 18, 10, 2,
    59, 51, 43, 35, 27, 19, 11, 3, 60, 52, 44, 36, 63, 55, 47, 39,
    31, 23, 15, 7, 62, 54, 46, 38, 30, 22, 14, 6, 61, 53, 45, 37,
    29, 21, 13, 5, 28, 20, 12, 4]"

definition pc2_tbl :: "nat list" where
  "pc2_tbl = [
    14, 17, 11, 24, 1, 5, 3, 28, 15, 6, 21, 10, 23, 19, 12, 4,
    26, 8, 16, 7, 27, 20, 13, 2, 41, 52, 31, 37, 47, 55, 30, 40,
    51, 34, 33, 48, 44, 49, 39, 56, 34, 53, 46, 42, 50, 36, 29, 32]"

definition mv_tbl :: "nat list" where
  "mv_tbl = [
    1, 1, 2, 2, 2, 2, 2, 2, 1, 2, 2, 2, 2, 2, 2, 1]"

definition s_box :: "nat list list list" where
  "s_box = [
    [[14, 4, 13, 1, 2, 15, 11, 8, 3, 10, 6, 12, 5, 9, 0, 7],
     [0, 15, 7, 4, 14, 2, 13, 1, 10, 6, 12, 11, 9, 5, 3, 8],
     [4, 1, 14, 8, 13, 6, 2, 11, 15, 12, 9, 7, 3, 10, 5, 0],
     [15, 12, 8, 2, 4, 9, 1, 7, 5, 11, 3, 14, 10, 0, 6, 13]],
    [[15, 1, 8, 14, 6, 11, 3, 4, 9, 7, 2, 13, 12, 0, 5, 10],
     [3, 13, 4, 7, 15, 2, 8, 14, 12, 0, 1, 10, 6, 9, 11, 5],
     [0, 14, 7, 11, 10, 4, 13, 1, 5, 8, 12, 6, 9, 3, 2, 15],
     [13, 8, 10, 1, 3, 15, 4, 2, 11, 6, 7, 12, 0, 5, 14, 9]],
    [[10, 0, 9, 14, 6, 3, 15, 5, 1, 13, 12, 7, 11, 4, 2, 8],
     [13, 7, 0, 9, 3, 4, 6, 10, 2, 8, 5, 14, 12, 11, 15, 1],
     [13, 6, 4, 9, 8, 15, 3, 0, 11, 1, 2, 12, 5, 10, 14, 7],
     [1, 10, 13, 0, 6, 9, 8, 7, 4, 15, 14, 3, 11, 5, 2, 12]],
    [[7, 13, 14, 3, 0, 6, 9, 10, 1, 2, 8, 5, 11, 12, 4, 15],
     [13, 8, 11, 5, 6, 15, 0, 3, 4, 7, 2, 12, 1, 10, 14, 9],
     [10, 6, 9, 0, 12, 11, 7, 13, 15, 1, 3, 14, 5, 2, 8, 4],
     [3, 15, 0, 6, 10, 1, 13, 8, 9, 4, 5, 11, 12, 7, 2, 14]],
    [[2, 12, 4, 1, 7, 10, 11, 6, 8, 5, 3, 15, 13, 0, 14, 9],
     [14, 11, 2, 12, 4, 7, 13, 1, 5, 0, 15, 10, 3, 9, 8, 6],
     [4, 2, 1, 11, 10, 13, 7, 8, 15, 9, 12, 5, 6, 3, 0, 14],
     [11, 8, 12, 7, 1, 14, 2, 13, 6, 15, 0, 9, 10, 4, 5, 3]],
    [[12, 1, 10, 15, 9, 2, 6, 8, 0, 13, 3, 4, 14, 7, 5, 11],
     [10, 15, 4, 2, 7, 12, 0, 5, 6, 1, 13, 14, 0, 11, 3, 8],
     [9, 14, 15, 5, 2, 8, 12, 3, 7, 0, 4, 10, 1, 13, 11, 6],
     [4, 3, 2, 12, 9, 5, 15, 10, 11, 14, 1, 7, 6, 0, 8, 13]],
    [[4, 11, 2, 14, 15, 0, 8, 13, 3, 12, 9, 7, 5, 10, 6, 1],
     [13, 0, 11, 7, 4, 0, 1, 10, 14, 3, 5, 12, 2, 15, 8, 6],
     [1, 4, 11, 13, 12, 3, 7, 14, 10, 15, 6, 8, 0, 5, 9, 2],
     [6, 11, 13, 8, 1, 4, 10, 7, 9, 5, 0, 15, 14, 2, 3, 12]],
    [[13, 2, 8, 4, 6, 15, 11, 1, 10, 9, 3, 14, 5, 0, 12, 7],
     [1, 15, 13, 8, 10, 3, 7, 4, 12, 5, 6, 11, 0, 14, 9, 2],
     [7, 11, 4, 1, 9, 12, 14, 2, 0, 6, 10, 13, 15, 3, 5, 8],
     [2, 1, 14, 7, 4, 10, 8, 13, 15, 12, 9, 0, 3, 5, 6, 11]]]"

definition p_tbl :: "nat list" where
  "p_tbl = [
    16, 7, 20, 21, 29, 12, 28, 17, 1, 15, 23, 26, 5, 18, 31, 10,
    2, 8, 24, 14, 32, 27, 3, 9, 19, 13, 30, 6, 22, 11, 4, 25]"

section \<open>Bit array primitives\<close>

definition bit_cpy :: "bool list \<Rightarrow> bool list \<Rightarrow> nat \<Rightarrow> bool list c_result" where
  "bit_cpy data_out data_in num =
     for_loop 0 num (\<lambda>i out. c_bind (load data_in i) (store out i)) data_out"

text \<open>
  \<^verbatim>\<open>bit_cpy (data_out, data_out + off, num)\<close>: source and destination overlap, and every
  read sees the writes before it.
\<close>

definition bit_cpy_within :: "bool list \<Rightarrow> nat \<Rightarrow> nat \<Rightarrow> bool list c_result" where
  "bit_cpy_within data off num =
     for_loop 0 num (\<lambda>i d. c_bind (load d (off + i)) (store d i)) data"

definition byte_to_bit :: "bool list \<Rightarrow> byte list \<Rightarrow> nat \<Rightarrow> bool list c_result" where
  "byte_to_bit data_out data_in num =
     for_loop 0 num (\<lambda>i out.
       c_bind (load data_in (i div 8)) (\<lambda>b. store out i (bit b (i mod 8)))) data_out"

definition hex_digit :: "nat \<Rightarrow> byte" where
  "hex_digit d = (if d mod 16 > 9 then of_nat (d mod 16 + 55) else of_nat (d mod 16 + 48))"

definition bit_to_hex :: "byte list \<Rightarrow> bool list \<Rightarrow> nat \<Rightarrow> byte list c_result" where
  "bit_to_hex data_out data_in num =
     c_bind (for_loop 0 (num div 4) (\<lambda>i out. store out i 0) data_out)
       (for_loop 0 (num div 4) (\<lambda>i out.
          c_bind (load data_in (4 * i)) (\<lambda>b0.
          c_bind (load data_in (4 * i + 1)) (\<lambda>b1.
          c_bind (load data_in (4 * i + 2)) (\<lambda>b2.
          c_bind (load data_in (4 * i + 3)) (\<lambda>b3.
            store out i (hex_digit (of_bool b0 + of_bool b1 * 2 + of_bool b2 * 4 + of_bool b3 * 8))))))))"

text \<open>
  \<^verbatim>\<open>char\<close> is signed: the comparison with \<^verbatim>\<open>'9'\<close> and the subtraction are on the signed
  value, and the shift of the \<^verbatim>\<open>int\<close> is arithmetic.
\<close>

definition hex_to_bit :: "bool list \<Rightarrow> byte list \<Rightarrow> nat \<Rightarrow> bool list c_result" where
  "hex_to_bit data_out data_in num =
     for_loop 0 num (\<lambda>i out.
       c_bind (load data_in (i div 4)) (\<lambda>c.
         if sint c \<le> 57 then store out i (bit (sint c - 48) (i mod 4))
         else store out i (bit (sint c - 55) (i mod 4)))) data_out"

definition bit_to_byte :: "byte list \<Rightarrow> bool list \<Rightarrow> nat \<Rightarrow> byte list c_result" where
  "bit_to_byte my_msg msg_in num =
     c_bind (for_loop 0 (num div 8) (\<lambda>i out. store out i 0) my_msg)
       (for_loop 0 num (\<lambda>i out.
          c_bind (load msg_in i) (\<lambda>b.
          c_bind (load out (i div 8)) (\<lambda>w.
            store out (i div 8) (w OR push_bit (i mod 8) (of_bool b))))))"

definition tbl_replace :: "bool list \<Rightarrow> bool list \<Rightarrow> nat list \<Rightarrow> nat \<Rightarrow> bool list c_result" where
  "tbl_replace data_out data_in table num =
     c_bind (for_loop 0 num (\<lambda>i tmp.
               c_bind (load table i) (\<lambda>t.
               c_bind (c_require (1 \<le> t) OutOfBounds) (\<lambda>_.
               c_bind (load data_in (t - 1)) (store tmp i)))) (replicate 256 False))
       (\<lambda>tmp. bit_cpy data_out tmp num)"

definition loop_bit :: "bool list \<Rightarrow> nat \<Rightarrow> nat \<Rightarrow> bool list c_result" where
  "loop_bit data_out mv_step len =
     c_bind (bit_cpy (replicate 256 False) data_out mv_step) (\<lambda>tmp.
     c_bind (bit_cpy_within data_out mv_step (len - mv_step)) (\<lambda>d.
       on_suffix (len - mv_step) (\<lambda>r. bit_cpy r tmp mv_step) d))"

definition xor_bits :: "bool list \<Rightarrow> bool list \<Rightarrow> nat \<Rightarrow> bool list c_result" where
  "xor_bits msg_out msg_in num =
     for_loop 0 num (\<lambda>i out.
       c_bind (load out i) (\<lambda>a. c_bind (load msg_in i) (\<lambda>b. store out i (a \<noteq> b)))) msg_out"

section \<open>Key setup\<close>

definition set_key_round :: "nat \<Rightarrow> bool list \<times> bool list list \<Rightarrow> (bool list \<times> bool list list) c_result" where
  "set_key_round i = (\<lambda>(key_bit, sub_key).
     c_bind (load mv_tbl i) (\<lambda>mv.
     c_bind (loop_bit key_bit mv 28) (\<lambda>key_bit.
     c_bind (on_suffix 28 (\<lambda>key_bit_r. loop_bit key_bit_r mv 28) key_bit) (\<lambda>key_bit.
     c_bind (load sub_key i) (\<lambda>k.
     c_bind (tbl_replace k key_bit pc2_tbl 48) (\<lambda>k.
     c_bind (store sub_key i k) (\<lambda>sub_key.
       Inr (key_bit, sub_key))))))))"

definition set_key :: "bool list list \<Rightarrow> byte list \<Rightarrow> bool list list c_result" where
  "set_key sub_key my_key =
     c_bind (byte_to_bit (replicate 64 False) my_key 64) (\<lambda>key_bit.
     c_bind (tbl_replace key_bit key_bit pc1_tbl 56) (\<lambda>key_bit.
     c_bind (for_loop 0 16 set_key_round (key_bit, sub_key)) (\<lambda>(key_bit, sub_key).
       Inr sub_key)))"

text \<open>The initial contents of the static array.\<close>

definition sub_key_init :: "bool list list" where
  "sub_key_init = replicate 16 (replicate 48 False)"

section \<open>The round function\<close>

definition s_change_step :: "bool list \<Rightarrow> nat \<Rightarrow> bool list \<Rightarrow> bool list c_result" where
  "s_change_step data_in i data_out =
     c_bind (load data_in (6 * i)) (\<lambda>d0.
     c_bind (load data_in (6 * i + 5)) (\<lambda>d5.
     c_bind (load data_in (6 * i + 1)) (\<lambda>d1.
     c_bind (load data_in (6 * i + 2)) (\<lambda>d2.
     c_bind (load data_in (6 * i + 3)) (\<lambda>d3.
     c_bind (load data_in (6 * i + 4)) (\<lambda>d4.
     c_bind (load s_box i) (\<lambda>sb.
     c_bind (load sb (of_bool d0 * 2 + of_bool d5 * 1)) (\<lambda>row.
     c_bind (load row (of_bool d1 * 8 + of_bool d2 * 4 + of_bool d3 * 2 + of_bool d4 * 1)) (\<lambda>v.
       on_suffix (4 * i) (\<lambda>out. byte_to_bit out [of_nat v] 4) data_out)))))))))"

definition s_change :: "bool list \<Rightarrow> bool list \<Rightarrow> bool list c_result" where
  "s_change data_out data_in = for_loop 0 8 (s_change_step data_in) data_out"

definition f_change :: "bool list \<Rightarrow> bool list \<Rightarrow> bool list c_result" where
  "f_change data_out data_in =
     c_bind (tbl_replace (replicate 48 False) data_out e_tbl 48) (\<lambda>msg_e.
     c_bind (xor_bits msg_e data_in 48) (\<lambda>msg_e.
     c_bind (s_change data_out msg_e) (\<lambda>data_out.
       tbl_replace data_out data_out p_tbl 32)))"

section \<open>Encryption and decryption\<close>

definition encrypt_round :: "bool list list \<Rightarrow> nat \<Rightarrow> bool list \<Rightarrow> bool list c_result" where
  "encrypt_round sub_key i msg_bit =
     c_bind (bit_cpy (replicate 32 False) (drop 32 msg_bit) 32) (\<lambda>tmp.
     c_bind (load sub_key i) (\<lambda>k.
     c_bind (on_suffix 32 (\<lambda>msg_bit_r. f_change msg_bit_r k) msg_bit) (\<lambda>msg_bit.
     c_bind (on_suffix 32 (\<lambda>msg_bit_r. xor_bits msg_bit_r msg_bit 32) msg_bit) (\<lambda>msg_bit.
       bit_cpy msg_bit tmp 32))))"

text \<open>
  \<^verbatim>\<open>encrypt\<close> calls \<^verbatim>\<open>strlen (plain)\<close> for its diagnostic output, so \<^verbatim>\<open>plain\<close> must be
  terminated.
\<close>

definition encrypt :: "bool list list \<Rightarrow> byte list \<Rightarrow> byte list \<Rightarrow> byte list c_result" where
  "encrypt sub_key plain cypher =
     c_bind (c_require (0 \<in> set plain) OutOfBounds) (\<lambda>_.
     c_bind (byte_to_bit (replicate 64 False) plain 64) (\<lambda>msg_bit.
     c_bind (tbl_replace msg_bit msg_bit ip_tbl 64) (\<lambda>msg_bit.
     c_bind (for_loop 0 16 (encrypt_round sub_key) msg_bit) (\<lambda>msg_bit.
     c_bind (tbl_replace msg_bit msg_bit ipr_tbl 64) (\<lambda>msg_bit.
       bit_to_hex cypher msg_bit 64)))))"

definition decrypt_round :: "bool list list \<Rightarrow> nat \<Rightarrow> bool list \<Rightarrow> bool list c_result" where
  "decrypt_round sub_key i msg_bit =
     c_bind (bit_cpy (replicate 32 False) msg_bit 32) (\<lambda>tmp.
     c_bind (load sub_key i) (\<lambda>k.
     c_bind (f_change msg_bit k) (\<lambda>msg_bit.
     c_bind (xor_bits msg_bit (drop 32 msg_bit) 32) (\<lambda>msg_bit.
       on_suffix 32 (\<lambda>msg_bit_r. bit_cpy msg_bit_r tmp 32) msg_bit))))"

definition decrypt :: "bool list list \<Rightarrow> byte list \<Rightarrow> byte list \<Rightarrow> byte list c_result" where
  "decrypt sub_key plain cypher =
     c_bind (hex_to_bit (replicate 64 False) cypher 64) (\<lambda>msg_bit.
     c_bind (tbl_replace msg_bit msg_bit ip_tbl 64) (\<lambda>msg_bit.
     c_bind (for_down 0 16 (decrypt_round sub_key) msg_bit) (\<lambda>msg_bit.
     c_bind (tbl_replace msg_bit msg_bit ipr_tbl 64) (\<lambda>msg_bit.
       bit_to_byte plain msg_bit 64))))"

section \<open>The demonstration programs\<close>

definition byte_string :: "string \<Rightarrow> byte list" where
  "byte_string s = map (\<lambda>c. of_char c) s @ [0]"

text \<open>\<^verbatim>\<open>main\<close>: the sub-keys, the cipher text and the decrypted text it prints.\<close>

definition des_main :: "(bool list list \<times> byte list \<times> byte list) c_result" where
  "des_main =
     (let plain = byte_string ''hellodec'';
          enc_key = byte_string ''hellokey'';
          cypher_str = byte_string ''8656C6C6F6465636''
      in c_bind (set_key sub_key_init enc_key) (\<lambda>sub_key.
         c_bind (encrypt sub_key plain (replicate 17 0)) (\<lambda>cypher.
         c_bind (decrypt sub_key (replicate 9 0) cypher_str) (\<lambda>dec_plain.
           Inr (sub_key, cypher, dec_plain)))))"

text \<open>
  \<^verbatim>\<open>scanf ("%s", buf)\<close> with the next word of the input: the word and its NUL are written.
\<close>

definition scanf_word :: "byte list \<Rightarrow> byte list \<Rightarrow> byte list c_result" where
  "scanf_word buf w = (if length w < length buf then Inr (w @ 0 # drop (Suc (length w)) buf)
                       else Inl OutOfBounds)"

definition byte_strlen :: "byte list \<Rightarrow> nat c_result" where
  "byte_strlen b = (if 0 \<in> set b then Inr (length (takeWhile (\<lambda>c. c \<noteq> 0) b)) else Inl OutOfBounds)"

text \<open>
  The loop that asks for a key again until \<^verbatim>\<open>strlen\<close> is 8.  The words still to be read are
  a list; \<open>None\<close> is a loop that goes on asking after the end of the input.
\<close>

fun read_key :: "byte list \<Rightarrow> byte list list \<Rightarrow> (byte list \<times> byte list list) c_result option" where
  "read_key buf ws =
     (case byte_strlen buf of
        Inl e \<Rightarrow> Some (Inl e)
      | Inr n \<Rightarrow>
          if n = 8 then Some (Inr (buf, ws))
          else (case ws of [] \<Rightarrow> None
                | w # ws' \<Rightarrow> (case scanf_word buf w of
                     Inl e \<Rightarrow> Some (Inl e)
                   | Inr b \<Rightarrow> read_key b ws')))"

declare read_key.simps [simp del]

text \<open>One \<^verbatim>\<open>scanf\<close> and the loop after it.\<close>

definition ask_key :: "byte list \<Rightarrow> byte list list \<Rightarrow> (byte list \<times> byte list list) c_result option" where
  "ask_key buf ws = (case ws of [] \<Rightarrow> read_key buf []
      | w # ws' \<Rightarrow> (case scanf_word buf w of Inl e \<Rightarrow> Some (Inl e) | Inr b \<Rightarrow> read_key b ws'))"

definition des_test :: "byte list list \<Rightarrow> (byte list \<times> byte list) c_result option" where
  "des_test ws =
     (let enc_key = replicate 8 0; dec_key = replicate 8 0; plain = replicate 9 0;
          cypher = replicate 17 0; dec_plain = replicate 9 0;
          first = (case ws of [] \<Rightarrow> Inr (plain, [])
                   | w # ws' \<Rightarrow> c_bind (scanf_word plain w) (\<lambda>b. Inr (b, ws')))
      in case first of Inl e \<Rightarrow> Some (Inl e) | Inr (plain, ws) \<Rightarrow>
        (case ask_key enc_key ws of None \<Rightarrow> None | Some (Inl e) \<Rightarrow> Some (Inl e)
         | Some (Inr (enc_key, ws)) \<Rightarrow>
            (case c_bind (set_key sub_key_init enc_key) (\<lambda>ks.
                  c_bind (encrypt ks plain cypher) (\<lambda>c. Inr (ks, c))) of
               Inl e \<Rightarrow> Some (Inl e)
             | Inr (ks, cypher) \<Rightarrow>
               (case ask_key dec_key ws of None \<Rightarrow> None | Some (Inl e) \<Rightarrow> Some (Inl e)
                | Some (Inr (dec_key, ws)) \<Rightarrow>
                   Some (c_bind (set_key ks dec_key) (\<lambda>ks.
                         c_bind (decrypt ks dec_plain cypher) (\<lambda>p. Inr (cypher, p))))))))"

section \<open>Functional forms of the primitives\<close>

lemma bit_cpy_eq [c_safe]:
  assumes "num \<le> length out" "num \<le> length inp"
  shows "bit_cpy out inp num = Inr (take num inp @ drop num out)"
proof -
  have "bit_cpy out inp num = Inr (map ((!) inp) [0..<num] @ drop num out)"
    unfolding bit_cpy_def using assms by (intro fill_loop) (simp_all add: c_safe)
  also have "map ((!) inp) [0..<num] = take num inp"
    using assms(2) by (metis map_nth take_map take_upt add_0 length_map length_upt diff_zero)
  finally show ?thesis .
qed

lemma bit_cpy_within_eq [c_safe]:
  assumes "off + num \<le> length d"
  shows "bit_cpy_within d off num = Inr (take num (drop off d) @ drop num d)"
proof -
  have "bit_cpy_within d off num = Inr (map (\<lambda>i. d ! (off + i)) [0..<num] @ drop num d)"
    unfolding bit_cpy_within_def
  proof (rule fill_loop)
    fix i b
    assume i: "i < num" and b: "length b = length d" "drop i b = drop i d"
    have "b ! (off + i) = drop i b ! off" using i b(1) assms by (simp add: add.commute)
    also have "\<dots> = d ! (off + i)" unfolding b(2) using i assms by (simp add: add.commute)
    finally show "c_bind (load b (off + i)) (store b i) = Inr (b[i := d ! (off + i)])"
      using i b assms by (simp add: c_safe)
  qed (use assms in simp)
  also have "map (\<lambda>i. d ! (off + i)) [0..<num] = take num (drop off d)"
    using assms by (intro nth_equalityI) simp_all
  finally show ?thesis .
qed

lemma byte_to_bit_eq [c_safe]:
  assumes "num \<le> length out" "num \<le> 8 * length inp"
  shows "byte_to_bit out inp num =
    Inr (map (\<lambda>i. bit (inp ! (i div 8)) (i mod 8)) [0..<num] @ drop num out)"
proof -
  have "i div 8 < length inp" if "i < num" for i
    using that assms(2) by (simp add: less_mult_imp_div_less)
  then show ?thesis
    unfolding byte_to_bit_def using assms by (intro fill_loop) (simp_all add: c_safe)
qed

text \<open>The bitwise exclusive or of two bit arrays.\<close>

definition mix_bits :: "bool list \<Rightarrow> bool list \<Rightarrow> bool list" where
  "mix_bits = map2 (\<noteq>)"

lemma length_mix_bits [simp]: "length (mix_bits a b) = min (length a) (length b)"
  by (simp add: mix_bits_def)

lemma xor_bits_eq [c_safe]:
  assumes "num \<le> length out" "num \<le> length inp"
  shows "xor_bits out inp num = Inr (mix_bits (take num out) (take num inp) @ drop num out)"
proof -
  have "xor_bits out inp num = Inr (map (\<lambda>i. out ! i \<noteq> inp ! i) [0..<num] @ drop num out)"
    unfolding xor_bits_def
  proof (rule fill_loop)
    fix i b
    assume i: "i < num" and b: "length b = length out" "drop i b = drop i out"
    then have "b ! i = out ! i"
      using assms(1) by (metis hd_drop_conv_nth order_less_le_trans)
    with i b assms show "c_bind (load b i) (\<lambda>a. c_bind (load inp i) (\<lambda>c. store b i (a \<noteq> c))) =
        Inr (b[i := (out ! i \<noteq> inp ! i)])"
      by (simp add: c_safe)
  qed (use assms in simp)
  also have "map (\<lambda>i. out ! i \<noteq> inp ! i) [0..<num] = mix_bits (take num out) (take num inp)"
    using assms by (intro nth_equalityI) (simp_all add: mix_bits_def)
  finally show ?thesis .
qed

text \<open>The permutation a table describes.\<close>

definition permute :: "nat list \<Rightarrow> bool list \<Rightarrow> bool list" where
  "permute table xs = map (\<lambda>t. xs ! (t - 1)) table"

lemma length_permute [simp]: "length (permute table xs) = length table"
  by (simp add: permute_def)

lemma tbl_replace_eq:
  assumes "num \<le> 256" "length table = num" "num \<le> length out"
    and "list_all (\<lambda>t. 1 \<le> t \<and> t \<le> n) table" "n \<le> length inp"
  shows "tbl_replace out inp table num = Inr (permute table inp @ drop num out)"
proof -
  let ?body = "\<lambda>i tmp. c_bind (load table i) (\<lambda>t.
               c_bind (c_require (1 \<le> t) OutOfBounds) (\<lambda>_.
               c_bind (load inp (t - 1)) (store tmp i)))"
  have "for_loop 0 num ?body (replicate 256 False) =
      Inr (map (\<lambda>i. inp ! (table ! i - 1)) [0..<num] @ drop num (replicate 256 False))"
  proof (rule fill_loop)
    fix i b
    assume i: "i < num" and b: "length (b :: bool list) = length (replicate 256 False)"
    then have t: "1 \<le> table ! i" "table ! i \<le> n"
      using assms(2,4) by (auto simp: list_all_length)
    have "table ! i - 1 < length inp" using t assms(5) by linarith
    then show "?body i b = Inr (b[i := inp ! (table ! i - 1)])"
      using i b t(1) assms(1,2) by (simp add: c_safe)
  qed (use assms in simp)
  also have "map (\<lambda>i. inp ! (table ! i - 1)) [0..<num] = permute table inp"
    using assms(2) by (intro nth_equalityI) (simp_all add: permute_def)
  finally show ?thesis
    using assms(1-3) by (simp add: tbl_replace_def c_safe)
qed

lemma loop_bit_eq:
  assumes "mv \<le> len" "len \<le> length d" "mv \<le> 256"
  shows "loop_bit d mv len = Inr (take (len - mv) (drop mv d) @ take mv d @ drop len d)"
proof -
  let ?d = "take (len - mv) (drop mv d) @ drop (len - mv) d"
  have "bit_cpy_within d mv (len - mv) = Inr ?d"
    using assms by (simp add: c_safe)
  moreover have "drop (len - mv) ?d = drop (len - mv) d" "take (len - mv) ?d = take (len - mv) (drop mv d)"
    using assms by simp_all
  ultimately show ?thesis
    using assms by (simp add: loop_bit_def c_safe on_suffix_def)
qed

section \<open>The tables are well formed\<close>

lemma tables_in_range:
  "list_all (\<lambda>t. 1 \<le> t \<and> t \<le> 64) ip_tbl"
  "list_all (\<lambda>t. 1 \<le> t \<and> t \<le> 64) ipr_tbl"
  "list_all (\<lambda>t. 1 \<le> t \<and> t \<le> 32) e_tbl"
  "list_all (\<lambda>t. 1 \<le> t \<and> t \<le> 64) pc1_tbl"
  "list_all (\<lambda>t. 1 \<le> t \<and> t \<le> 56) pc2_tbl"
  "list_all (\<lambda>t. 1 \<le> t \<and> t \<le> 32) p_tbl"
  "list_all (\<lambda>t. t \<le> 2) mv_tbl"
  by (simp_all add: ip_tbl_def ipr_tbl_def e_tbl_def pc1_tbl_def pc2_tbl_def p_tbl_def mv_tbl_def)

lemma table_lengths [simp]:
  "length ip_tbl = 64" "length ipr_tbl = 64" "length e_tbl = 48" "length pc1_tbl = 56"
  "length pc2_tbl = 48" "length p_tbl = 32" "length mv_tbl = 16" "length s_box = 8"
  by (simp_all add: ip_tbl_def ipr_tbl_def e_tbl_def pc1_tbl_def pc2_tbl_def p_tbl_def mv_tbl_def
      s_box_def)

lemma s_box_shape: "list_all (\<lambda>b. length b = 4 \<and> list_all (\<lambda>r. length r = 16) b) s_box"
  by (simp add: s_box_def)

lemma ip_ipr_inverse:
  "map (\<lambda>t. ip_tbl ! (t - 1) - 1) ipr_tbl = [0..<64]"
  "map (\<lambda>t. ipr_tbl ! (t - 1) - 1) ip_tbl = [0..<64]"
  by code_simp+

lemma permute_permute:
  assumes "list_all (\<lambda>t. 1 \<le> t \<and> t \<le> length t1) t2"
  shows "permute t2 (permute t1 xs) = map (\<lambda>i. xs ! i) (map (\<lambda>t. t1 ! (t - 1) - 1) t2)"
  using assms by (auto simp: permute_def list_all_iff)

lemma permute_ip_ipr [simp]:
  assumes "length xs = 64"
  shows "permute ipr_tbl (permute ip_tbl xs) = xs" "permute ip_tbl (permute ipr_tbl xs) = xs"
  unfolding permute_permute [of ip_tbl ipr_tbl, unfolded table_lengths, OF tables_in_range(2)]
    permute_permute [of ipr_tbl ip_tbl, unfolded table_lengths, OF tables_in_range(1)] ip_ipr_inverse
  using map_nth [of xs] assms by simp_all

section \<open>The round function, functionally\<close>

text \<open>The four bits the \<open>i\<close>-th S-box gives for its six input bits.\<close>

definition s_bits :: "bool list \<Rightarrow> nat \<Rightarrow> bool list" where
  "s_bits inp i =
     map (bit (of_nat (s_box ! i ! (of_bool (inp ! (6 * i)) * 2 + of_bool (inp ! (6 * i + 5)))
       ! (of_bool (inp ! (6 * i + 1)) * 8 + of_bool (inp ! (6 * i + 2)) * 4
          + of_bool (inp ! (6 * i + 3)) * 2 + of_bool (inp ! (6 * i + 4)))) :: byte)) [0..<4]"

definition s_all :: "bool list \<Rightarrow> nat \<Rightarrow> bool list" where
  "s_all inp n = concat (map (s_bits inp) [0..<n])"

lemma length_s_all [simp]: "length (s_all inp n) = 4 * n"
  by (induction n) (simp_all add: s_all_def s_bits_def)

lemma s_change_step_eq:
  assumes "i < 8" "48 \<le> length inp" "32 \<le> length out"
  shows "s_change_step inp i (s_all inp i @ drop (4 * i) out) =
    Inr (s_all inp (Suc i) @ drop (4 * Suc i) out)"
proof -
  have sb: "length (s_box ! i) = 4" "\<And>r. r < 4 \<Longrightarrow> length (s_box ! i ! r) = 16"
    using s_box_shape assms(1) by (auto simp: list_all_length)
  have r: "of_bool a * 2 + of_bool b < (4::nat)" for a b by simp
  have c: "of_bool a * 8 + of_bool b * 4 + of_bool d * 2 + of_bool e < (16::nat)" for a b d e by simp
  have bits: "byte_to_bit (drop (4 * i) out) [w] 4 =
      Inr (map (bit w) [0..<4] @ drop (4 * Suc i) out)" for w
  proof -
    have "map (\<lambda>k. bit ([w] ! (k div 8)) (k mod 8)) [0..<4] = map (bit w) [0..<4]" by simp
    then show ?thesis using assms by (simp add: c_safe)
  qed
  have "on_suffix (4 * i) (\<lambda>out. byte_to_bit out [w] 4) (s_all inp i @ drop (4 * i) out) =
      Inr (s_all inp i @ map (bit w) [0..<4] @ drop (4 * Suc i) out)" for w
    using bits [of w] by (simp add: on_suffix_def)
  then show ?thesis
    using assms sb r c
    by (simp add: s_change_step_def c_safe s_all_def s_bits_def del: mult_Suc_right)
qed

lemma s_change_eq:
  assumes "48 \<le> length inp" "32 \<le> length out"
  shows "s_change out inp = Inr (s_all inp 8 @ drop 32 out)"
proof -
  have "\<exists>s'. for_loop 0 8 (s_change_step inp) out = Inr s' \<and> s' = s_all inp 8 @ drop (4 * 8) out"
  proof (rule for_loop_total)
    show "out = s_all inp 0 @ drop (4 * 0) out" by (simp add: s_all_def)
  next
    fix i s
    assume "i < 8" "s = s_all inp i @ drop (4 * i) out"
    then show "\<exists>s'. s_change_step inp i s = Inr s' \<and> s' = s_all inp (Suc i) @ drop (4 * Suc i) out"
      using s_change_step_eq [OF _ assms, of i] by simp
  qed simp
  then show ?thesis by (simp add: s_change_def)
qed

definition round_fn :: "bool list \<Rightarrow> bool list \<Rightarrow> bool list" where
  "round_fn k r = permute p_tbl (s_all (mix_bits (permute e_tbl r) (take 48 k)) 8)"

lemma length_round_fn [simp]: "length (round_fn k r) = 32"
  by (simp add: round_fn_def)

lemma f_change_eq:
  assumes "32 \<le> length out" "48 \<le> length k"
  shows "f_change out k = Inr (round_fn k (take 32 out) @ drop 32 out)"
proof -
  have e: "permute e_tbl out = permute e_tbl (take 32 out)"
    using tables_in_range(3) by (auto simp: permute_def list_all_iff)
  have e_fact: "tbl_replace (replicate 48 False) out e_tbl 48 = Inr (permute e_tbl out)"
    using tbl_replace_eq [OF _ _ _ tables_in_range(3), of 48 "replicate 48 False" out] assms by simp
  let ?m = "mix_bits (permute e_tbl out) (take 48 k)"
  have x_fact: "xor_bits (permute e_tbl out) k 48 = Inr ?m"
    using assms by (simp add: c_safe)
  have s_fact: "s_change out ?m = Inr (s_all ?m 8 @ drop 32 out)"
    using assms by (intro s_change_eq) simp_all
  have p: "permute p_tbl (s_all ?m 8 @ drop 32 out) = permute p_tbl (s_all ?m 8)"
    using tables_in_range(6) by (auto simp: permute_def list_all_iff nth_append)
  have "tbl_replace (s_all ?m 8 @ drop 32 out) (s_all ?m 8 @ drop 32 out) p_tbl 32 =
      Inr (permute p_tbl (s_all ?m 8) @ drop 32 out)"
    using tbl_replace_eq [OF _ _ _ tables_in_range(6), of 32 "s_all ?m 8 @ drop 32 out"
        "s_all ?m 8 @ drop 32 out"] assms by (simp add: p)
  then show ?thesis
    unfolding round_fn_def e [symmetric] by (simp add: f_change_def e_fact x_fact s_fact)
qed

section \<open>Feistel networks\<close>

text \<open>
  What the cipher relies on: a way of mixing two halves that can be undone, and a round
  function, which need not be invertible.  One round of encryption sends \<open>(l, r)\<close> to
  \<open>(r, rnd k r mixed with l)\<close>; decryption runs the rounds backwards.
\<close>

fun enc_half :: "('h \<Rightarrow> 'h \<Rightarrow> 'h) \<Rightarrow> ('k \<Rightarrow> 'h \<Rightarrow> 'h) \<Rightarrow> 'k \<Rightarrow> 'h \<times> 'h \<Rightarrow> 'h \<times> 'h" where
  "enc_half mix rnd k (l, r) = (r, mix (rnd k r) l)"

fun dec_half :: "('h \<Rightarrow> 'h \<Rightarrow> 'h) \<Rightarrow> ('k \<Rightarrow> 'h \<Rightarrow> 'h) \<Rightarrow> 'k \<Rightarrow> 'h \<times> 'h \<Rightarrow> 'h \<times> 'h" where
  "dec_half mix rnd k (l, r) = (mix (rnd k l) r, l)"

locale feistel =
  fixes half :: "'h \<Rightarrow> bool"
    and mix :: "'h \<Rightarrow> 'h \<Rightarrow> 'h"
    and rnd :: "'k \<Rightarrow> 'h \<Rightarrow> 'h"
  assumes mix_half: "half a \<Longrightarrow> half b \<Longrightarrow> half (mix a b)"
    and rnd_half: "half a \<Longrightarrow> half (rnd k a)"
    and mix_cancel: "half a \<Longrightarrow> half b \<Longrightarrow> mix a (mix a b) = b"
begin

definition block :: "'h \<times> 'h \<Rightarrow> bool" where
  "block m \<longleftrightarrow> half (fst m) \<and> half (snd m)"

lemma enc_half_block: "block m \<Longrightarrow> block (enc_half mix rnd k m)"
  by (cases m) (simp add: block_def mix_half rnd_half)

lemma dec_enc_half: "block m \<Longrightarrow> dec_half mix rnd k (enc_half mix rnd k m) = m"
  by (cases m) (simp add: block_def mix_cancel rnd_half)

lemma rounds_block: "block m \<Longrightarrow> block (fold (enc_half mix rnd) ks m)"
  by (induction ks arbitrary: m) (simp_all add: enc_half_block)

lemma rounds_inverse:
  "block m \<Longrightarrow> fold (dec_half mix rnd) (rev ks) (fold (enc_half mix rnd) ks m) = m"
  by (induction ks arbitrary: m) (simp_all add: enc_half_block dec_enc_half)

end

definition half32 :: "bool list \<Rightarrow> bool" where
  "half32 h \<longleftrightarrow> length h = 32"

lemma xor_cancel:
  "length a = length b \<Longrightarrow> mix_bits a (mix_bits a b) = b"
  unfolding mix_bits_def by (induction a b rule: list_induct2) auto

interpretation des: feistel half32 mix_bits round_fn
  by unfold_locales (simp_all add: half32_def xor_cancel)

text \<open>The cipher's rounds are those of the network.\<close>

definition halves :: "bool list \<Rightarrow> bool list \<times> bool list" where
  "halves m = (take 32 m, drop 32 m)"

definition unhalves :: "bool list \<times> bool list \<Rightarrow> bool list" where
  "unhalves m = fst m @ snd m"

lemma block_halves: "length m = 64 \<Longrightarrow> des.block (halves m)"
  by (simp add: des.block_def halves_def half32_def)

lemma halves_unhalves [simp]: "des.block m \<Longrightarrow> halves (unhalves m) = m"
  by (cases m) (simp add: halves_def unhalves_def des.block_def half32_def)

lemma unhalves_halves [simp]: "unhalves (halves m) = m"
  by (simp add: halves_def unhalves_def)

lemma length_unhalves [simp]: "des.block m \<Longrightarrow> length (unhalves m) = 64"
  by (simp add: unhalves_def des.block_def half32_def)

lemma encrypt_round_eq:
  assumes "length m = 64" "i < length ks" "48 \<le> length (ks ! i)"
  shows "encrypt_round ks i m = Inr (unhalves (enc_half mix_bits round_fn (ks ! i) (halves m)))"
  using assms
  by (simp add: encrypt_round_def c_safe on_suffix_def f_change_eq halves_def unhalves_def)

lemma decrypt_round_eq:
  assumes "length m = 64" "i < length ks" "48 \<le> length (ks ! i)"
  shows "decrypt_round ks i m = Inr (unhalves (dec_half mix_bits round_fn (ks ! i) (halves m)))"
  using assms
  by (simp add: decrypt_round_def c_safe on_suffix_def f_change_eq halves_def unhalves_def)

definition keys_ok :: "bool list list \<Rightarrow> bool" where
  "keys_ok ks \<longleftrightarrow> length ks = 16 \<and> list_all (\<lambda>k. length k = 48) ks"

lemma keys_okD: "keys_ok ks \<Longrightarrow> i < 16 \<Longrightarrow> i < length ks \<and> 48 \<le> length (ks ! i)"
  by (auto simp: keys_ok_def list_all_length)

lemma encrypt_rounds:
  assumes "keys_ok ks" "set is \<subseteq> {..<16}" "length m = 64"
  shows "c_fold (encrypt_round ks) is m =
    Inr (unhalves (fold (enc_half mix_bits round_fn) (map ((!) ks) is) (halves m)))"
  using assms(2,3)
proof (induction "is" arbitrary: m)
  case (Cons i "is")
  then show ?case
    using keys_okD [OF assms(1), of i] des.enc_half_block [OF block_halves [of m]]
    by (simp add: encrypt_round_eq)
qed simp

lemma dec_half_block: "des.block m \<Longrightarrow> des.block (dec_half mix_bits round_fn k m)"
  by (cases m) (simp add: des.block_def half32_def)

lemma decrypt_rounds:
  assumes "keys_ok ks" "set is \<subseteq> {..<16}" "length m = 64"
  shows "c_fold (decrypt_round ks) is m =
    Inr (unhalves (fold (dec_half mix_bits round_fn) (map ((!) ks) is) (halves m)))"
  using assms(2,3)
proof (induction "is" arbitrary: m)
  case (Cons i "is")
  then show ?case
    using keys_okD [OF assms(1), of i] dec_half_block [OF block_halves [of m]]
    by (simp add: decrypt_round_eq)
qed simp

section \<open>Hexadecimal and byte conversions\<close>

definition nibble :: "bool list \<Rightarrow> nat \<Rightarrow> nat" where
  "nibble bits i = of_bool (bits ! (4 * i)) + of_bool (bits ! (4 * i + 1)) * 2
     + of_bool (bits ! (4 * i + 2)) * 4 + of_bool (bits ! (4 * i + 3)) * 8"

lemma bit_to_hex_eq:
  assumes "16 \<le> length out" "64 \<le> length bits"
  shows "bit_to_hex out bits 64 = Inr (map (\<lambda>i. hex_digit (nibble bits i)) [0..<16] @ drop 16 out)"
proof -
  have z: "for_loop 0 16 (\<lambda>i out. store out i 0) out = Inr (map (\<lambda>_. 0) [0..<16] @ drop 16 out)"
    using assms by (intro fill_loop) (simp_all add: c_safe)
  let ?out = "map (\<lambda>_. 0) [0..<16::nat] @ drop 16 out"
  let ?body = "\<lambda>i out. c_bind (load bits (4 * i)) (\<lambda>b0.
          c_bind (load bits (4 * i + 1)) (\<lambda>b1.
          c_bind (load bits (4 * i + 2)) (\<lambda>b2.
          c_bind (load bits (4 * i + 3)) (\<lambda>b3.
            store out i (hex_digit (of_bool b0 + of_bool b1 * 2 + of_bool b2 * 4 + of_bool b3 * 8))))))"
  have "for_loop 0 16 ?body ?out =
      Inr (map (\<lambda>i. hex_digit (nibble bits i)) [0..<16] @ drop 16 ?out)"
    using assms by (intro fill_loop) (simp_all add: c_safe nibble_def del: upt_rec_numeral)
  then show ?thesis using z by (simp add: bit_to_hex_def del: upt_rec_numeral)
qed

lemma hex_digit_decode:
  assumes "d < 16"
  shows "(if sint (hex_digit d) \<le> 57 then sint (hex_digit d) - 48 else sint (hex_digit d) - 55) = int d"
proof -
  have "list_all (\<lambda>d. (if sint (hex_digit d) \<le> 57 then sint (hex_digit d) - 48
      else sint (hex_digit d) - 55) = int d) [0..<16]"
    by code_simp
  then show ?thesis using assms by (simp add: list_all_iff)
qed

lemma bit_nibble:
  assumes "k < 4"
  shows "bit (int (nibble bits i)) k \<longleftrightarrow> bits ! (4 * i + k)"
proof -
  have *: "bit (int (of_bool a + of_bool b * 2 + of_bool c * 4 + of_bool d * 8)) k
      \<longleftrightarrow> [a, b, c, d] ! k" for a b c d
    using assms by (cases a; cases b; cases c; cases d)
      (auto simp: less_Suc_eq numeral_eq_Suc bit_iff_odd)
  show ?thesis
    using assms unfolding nibble_def * by (auto simp: less_Suc_eq numeral_eq_Suc)
qed

lemma nibble_less: "nibble bits i < 16"
  by (simp add: nibble_def)

lemma hex_to_bit_hex:
  assumes "length bits = 64" "length rest = 64"
  shows "hex_to_bit rest (map (\<lambda>i. hex_digit (nibble bits i)) [0..<16] @ tail) 64 = Inr bits"
proof -
  let ?h = "map (\<lambda>i. hex_digit (nibble bits i)) [0..<16] @ tail"
  let ?body = "\<lambda>i out. c_bind (load ?h (i div 4)) (\<lambda>c.
         if sint c \<le> 57 then store out i (bit (sint c - 48) (i mod 4))
         else store out i (bit (sint c - 55) (i mod 4)))"
  have "for_loop 0 64 ?body rest = Inr (map (\<lambda>i. bits ! i) [0..<64] @ drop 64 rest)"
  proof (rule fill_loop)
    fix i :: nat and b :: "bool list"
    assume i: "i < 64" and b: "length b = length rest"
    let ?c = "hex_digit (nibble bits (i div 4))"
    have h: "?h ! (i div 4) = ?c"
      using i by (simp add: nth_append less_mult_imp_div_less del: upt_rec_numeral)
    have l: "load ?h (i div 4) = Inr ?c"
      using h i by (simp add: less_mult_imp_div_less del: upt_rec_numeral)
    have "bits ! i \<longleftrightarrow> bit (int (nibble bits (i div 4))) (i mod 4)"
      by (simp add: bit_nibble)
    also have "\<dots> \<longleftrightarrow> bit (if sint ?c \<le> 57 then sint ?c - 48 else sint ?c - 55) (i mod 4)"
      by (simp add: hex_digit_decode nibble_less)
    finally show "?body i b = Inr (b[i := bits ! i])"
      using i b assms(2) by (simp only: l) (auto simp: c_safe)
  qed (use assms in simp)
  then show ?thesis
    using assms map_nth [of bits] by (simp add: hex_to_bit_def del: upt_rec_numeral)
qed

lemma bit_to_byte_eq:
  assumes "8 \<le> length out" "length bits = 64"
  shows "\<exists>p. bit_to_byte out bits 64 = Inr p \<and> length p = length out \<and> drop 8 p = drop 8 out \<and>
    (\<forall>j < 8. \<forall>k < 8. bit (p ! j) k = bits ! (8 * j + k))"
proof -
  have z: "for_loop 0 8 (\<lambda>i out. store out i 0) out = Inr (map (\<lambda>_. 0) [0..<8] @ drop 8 out)"
    using assms by (intro fill_loop) (simp_all add: c_safe)
  let ?z = "map (\<lambda>_. 0) [0..<8::nat] @ drop 8 out"
  let ?I = "\<lambda>i p. length p = length out \<and> drop 8 p = drop 8 out \<and>
    (\<forall>j < 8. \<forall>k < 8. bit (p ! j) k = (8 * j + k < i \<and> bits ! (8 * j + k)))"
  let ?body = "\<lambda>i out. c_bind (load bits i) (\<lambda>b. c_bind (load out (i div 8)) (\<lambda>w.
            store out (i div 8) (w OR push_bit (i mod 8) (of_bool b))))"
  have "\<exists>p. for_loop 0 64 ?body ?z = Inr p \<and> ?I 64 p"
  proof (rule for_loop_total)
    show "?I 0 ?z" using assms(1) by (simp add: nth_append del: upt_rec_numeral)
  next
    fix i p
    assume i: "i < 64" and I: "?I i p"
    have j: "i div 8 < 8" "i div 8 < length p" using i I assms(1) by linarith+
    let ?w = "p ! (i div 8) OR push_bit (i mod 8) (of_bool (bits ! i)) :: byte"
    have "?body i p = Inr (p[i div 8 := ?w])"
      using i j assms(2) by (simp add: c_safe)
    moreover have "?I (Suc i) (p[i div 8 := ?w])"
    proof (intro conjI allI impI)
      fix j' k :: nat
      assume j': "j' < 8" "k < 8"
      have pos: "8 * j' + k = i \<longleftrightarrow> j' = i div 8 \<and> k = i mod 8" using j'(2) by auto
      show "bit (p[i div 8 := ?w] ! j') k = (8 * j' + k < Suc i \<and> bits ! (8 * j' + k))"
      proof (cases "j' = i div 8")
        case True
        have "bit ?w k = (bit (p ! j') k \<or> k = i mod 8 \<and> bits ! i)"
          using j'(2) True by (auto simp: bit_or_iff bit_push_bit_iff bit_of_bool_iff)
        then show ?thesis
          using I j j' True pos by (auto simp: less_Suc_eq)
      next
        case False
        then show ?thesis using I j' pos by (auto simp: less_Suc_eq)
      qed
    qed (use I j in auto)
    ultimately show "\<exists>p'. ?body i p = Inr p' \<and> ?I (Suc i) p'" by blast
  qed simp
  then obtain p where p: "for_loop 0 64 ?body ?z = Inr p" "?I 64 p" by blast
  have "bit_to_byte out bits 64 = Inr p"
    using z p(1) by (simp add: bit_to_byte_def del: upt_rec_numeral)
  moreover have "\<forall>j < 8. \<forall>k < 8. bit (p ! j) k = bits ! (8 * j + k)"
    using p(2) by simp
  ultimately show ?thesis using p(2) by blast
qed

section \<open>Key setup\<close>

text \<open>The two 28-bit registers rotate left by the round's shift.\<close>

definition rot28 :: "nat \<Rightarrow> bool list \<Rightarrow> bool list" where
  "rot28 mv kb = (let l = take 28 kb; r = take 28 (drop 28 kb) in
     rotate mv l @ rotate mv r @ drop 56 kb)"

lemma loop_bit_28:
  assumes "mv \<le> 2" "28 \<le> length d"
  shows "loop_bit d mv 28 = Inr (rotate mv (take 28 d) @ drop 28 d)"
proof -
  have "rotate mv (take 28 d) = take (28 - mv) (drop mv d) @ take mv d"
    using assms by (simp add: rotate_drop_take min_def drop_take)
  then show ?thesis using assms by (simp add: loop_bit_eq)
qed

lemma set_key_round_eq:
  assumes "i < 16" "length kb = 64" "length ks = 16" "length (ks ! i) = 48"
  shows "set_key_round i (kb, ks) =
    Inr (rot28 (mv_tbl ! i) kb, ks[i := permute pc2_tbl (rot28 (mv_tbl ! i) kb)])"
proof -
  let ?mv = "mv_tbl ! i"
  have mv: "?mv \<le> 2" using tables_in_range(7) assms(1) by (simp add: list_all_length)
  let ?k1 = "rotate ?mv (take 28 kb) @ drop 28 kb"
  have l: "loop_bit kb ?mv 28 = Inr ?k1"
    using assms mv by (intro loop_bit_28) auto
  have r: "on_suffix 28 (\<lambda>r. loop_bit r ?mv 28) ?k1 = Inr (rot28 ?mv kb)"
    using assms mv by (simp add: on_suffix_def loop_bit_28 rot28_def)
  have "length (rot28 ?mv kb) = 64" using assms by (simp add: rot28_def Let_def)
  then have "tbl_replace (ks ! i) (rot28 ?mv kb) pc2_tbl 48 = Inr (permute pc2_tbl (rot28 ?mv kb))"
    using tbl_replace_eq [OF _ _ _ tables_in_range(5), of 48 "ks ! i" "rot28 ?mv kb"] assms by simp
  then show ?thesis
    using assms l r by (simp add: set_key_round_def c_safe)
qed

lemma length_rot28 [simp]: "56 \<le> length kb \<Longrightarrow> length (rot28 mv kb) = length kb"
  by (simp add: rot28_def Let_def)

text \<open>The register after \<open>i\<close> rounds, and the sub-key taken from it.\<close>

primrec key_reg :: "bool list \<Rightarrow> nat \<Rightarrow> bool list" where
  "key_reg kb 0 = kb"
| "key_reg kb (Suc i) = rot28 (mv_tbl ! i) (key_reg kb i)"

lemma length_key_reg [simp]: "length kb = 64 \<Longrightarrow> length (key_reg kb i) = 64"
  by (induction i) simp_all

definition key_bits :: "byte list \<Rightarrow> bool list" where
  "key_bits key = (let b = map (\<lambda>i. bit (key ! (i div 8)) (i mod 8)) [0..<64] in
     permute pc1_tbl b @ drop 56 b)"

definition key_schedule :: "byte list \<Rightarrow> bool list list" where
  "key_schedule key = map (\<lambda>i. permute pc2_tbl (key_reg (key_bits key) (Suc i))) [0..<16]"

lemma length_key_bits [simp]: "length (key_bits key) = 64"
  by (simp add: key_bits_def Let_def del: upt_rec_numeral)

lemma set_key_eq:
  assumes "8 \<le> length key" "keys_ok ks"
  shows "set_key ks key = Inr (key_schedule key)"
proof -
  let ?b = "map (\<lambda>i. bit (key ! (i div 8)) (i mod 8)) [0..<64]"
  let ?kb = "key_bits key"
  have b: "byte_to_bit (replicate 64 False) key 64 = Inr ?b"
    using assms(1) by (simp add: c_safe del: upt_rec_numeral)
  have p: "tbl_replace ?b ?b pc1_tbl 56 = Inr ?kb"
    using tbl_replace_eq [OF _ _ _ tables_in_range(4), of 56 ?b ?b]
    by (simp add: key_bits_def Let_def del: upt_rec_numeral)
  let ?sub = "\<lambda>i. permute pc2_tbl (key_reg ?kb (Suc i))"
  let ?I = "\<lambda>i s. s = (key_reg ?kb i, map ?sub [0..<i] @ drop i ks)"
  have "\<exists>s. for_loop 0 16 set_key_round (?kb, ks) = Inr s \<and> ?I 16 s"
  proof (rule for_loop_total)
    fix i s
    assume i: "i < 16" and s: "?I i s"
    let ?ks = "map ?sub [0..<i] @ drop i ks"
    have ki: "length (?ks ! i) = 48" "length ?ks = 16"
      using assms(2) i by (auto simp: nth_append keys_ok_def list_all_length)
    have "?ks[i := ?sub i] = map ?sub [0..<Suc i] @ drop (Suc i) ks"
      using i assms(2) by (simp add: keys_ok_def list_update_append Cons_nth_drop_Suc [symmetric])
    moreover have "set_key_round i (key_reg ?kb i, ?ks) = Inr (key_reg ?kb (Suc i), ?ks[i := ?sub i])"
      using set_key_round_eq [of i "key_reg ?kb i" ?ks] i ki by simp
    ultimately show "\<exists>s'. set_key_round i s = Inr s' \<and> ?I (Suc i) s'"
      by (simp add: s)
  qed simp_all
  then show ?thesis
    using b p assms(2) by (simp add: set_key_def key_schedule_def keys_ok_def del: upt_rec_numeral)
qed

lemma keys_ok_init: "keys_ok sub_key_init"
  by (simp add: keys_ok_def sub_key_init_def list_all_iff)

lemma keys_ok_schedule: "keys_ok (key_schedule key)"
  by (simp add: keys_ok_def key_schedule_def list_all_length del: upt_rec_numeral)

section \<open>The cipher\<close>

lemma encrypt_eq:
  assumes "keys_ok ks" "8 \<le> length plain" "0 \<in> set plain" "16 \<le> length cypher"
  defines "msg \<equiv> map (\<lambda>i. bit (plain ! (i div 8)) (i mod 8)) [0..<64]"
  shows "encrypt ks plain cypher =
    Inr (map (\<lambda>i. hex_digit (nibble (permute ipr_tbl (unhalves
        (fold (enc_half mix_bits round_fn) ks (halves (permute ip_tbl msg))))) i)) [0..<16]
      @ drop 16 cypher)"
proof -
  have b: "byte_to_bit (replicate 64 False) plain 64 = Inr msg"
    using assms(2) by (simp add: c_safe msg_def del: upt_rec_numeral)
  have lm: "length msg = 64" by (simp add: msg_def)
  have ip: "tbl_replace msg msg ip_tbl 64 = Inr (permute ip_tbl msg)"
    using tbl_replace_eq [OF _ _ _ tables_in_range(1), of 64 msg msg] lm by simp
  let ?m = "unhalves (fold (enc_half mix_bits round_fn) ks (halves (permute ip_tbl msg)))"
  have "map ((!) ks) [0..<16] = ks"
    using assms(1) map_nth [of ks] by (simp add: keys_ok_def)
  then have rounds: "for_loop 0 16 (encrypt_round ks) (permute ip_tbl msg) = Inr ?m"
    using encrypt_rounds [OF assms(1), of "[0..<16]" "permute ip_tbl msg"]
    unfolding for_loop_def by (simp add: atLeast0LessThan del: upt_rec_numeral)
  have lr: "length ?m = 64"
    using des.rounds_block [OF block_halves [of "permute ip_tbl msg"], of ks] by simp
  have ipr: "tbl_replace ?m ?m ipr_tbl 64 = Inr (permute ipr_tbl ?m)"
    using tbl_replace_eq [OF _ _ _ tables_in_range(2), of 64 ?m ?m] lr by simp
  show ?thesis
    using assms(3,4) bit_to_hex_eq [of cypher "permute ipr_tbl ?m"]
    by (simp add: encrypt_def b ip rounds ipr del: upt_rec_numeral)
qed

lemma decrypt_eq:
  assumes "keys_ok ks" "hex_to_bit (replicate 64 False) cypher 64 = Inr msg" "length msg = 64"
  defines "m \<equiv> unhalves (fold (dec_half mix_bits round_fn) (rev ks) (halves (permute ip_tbl msg)))"
  shows "decrypt ks out cypher = bit_to_byte out (permute ipr_tbl m) 64"
proof -
  have ip: "tbl_replace msg msg ip_tbl 64 = Inr (permute ip_tbl msg)"
    using tbl_replace_eq [OF _ _ _ tables_in_range(1), of 64 msg msg] assms(3) by simp
  have "map ((!) ks) (rev [0..<16]) = rev ks"
    using assms(1) map_nth [of ks] by (simp add: keys_ok_def rev_map [symmetric] del: upt_rec_numeral)
  then have rounds: "for_down 0 16 (decrypt_round ks) (permute ip_tbl msg) = Inr m"
    using decrypt_rounds [OF assms(1), of "rev [0..<16]" "permute ip_tbl msg"]
    unfolding for_down_def m_def by (simp add: atLeast0LessThan del: upt_rec_numeral)
  have "des.block (fold (dec_half mix_bits round_fn) ks' (halves (permute ip_tbl msg)))" for ks'
  proof -
    have "des.block b \<Longrightarrow> des.block (fold (dec_half mix_bits round_fn) ks' b)" for b
      by (induction ks' arbitrary: b) (simp_all add: dec_half_block)
    then show ?thesis by (simp add: block_halves)
  qed
  then have "length m = 64" by (simp add: m_def)
  then have "tbl_replace m m ipr_tbl 64 = Inr (permute ipr_tbl m)"
    using tbl_replace_eq [OF _ _ _ tables_in_range(2), of 64 m m] by simp
  then show ?thesis using assms(2) ip rounds by (simp add: decrypt_def)
qed

lemma bytes_eqI:
  assumes "8 \<le> length p" "8 \<le> length q"
    and "\<And>j k. j < 8 \<Longrightarrow> k < 8 \<Longrightarrow> bit (p ! j :: byte) k = bit (q ! j) k"
  shows "take 8 p = take 8 q"
  using assms by (intro nth_equalityI bit_word_eqI) simp_all

lemma decrypt_encrypt:
  assumes "keys_ok ks" "8 \<le> length plain" "0 \<in> set plain" "16 \<le> length cypher" "8 \<le> length out"
  shows "\<exists>c p. encrypt ks plain cypher = Inr c \<and> decrypt ks out c = Inr p \<and>
    take 8 p = take 8 plain \<and> drop 8 p = drop 8 out"
proof -
  define msg where "msg = map (\<lambda>i. bit (plain ! (i div 8)) (i mod 8)) [0..<64]"
  have lm: "length msg = 64" by (simp add: msg_def)
  let ?enc = "fold (enc_half mix_bits round_fn) ks (halves (permute ip_tbl msg))"
  have block: "des.block ?enc"
    by (simp add: des.rounds_block block_halves)
  let ?bits = "permute ipr_tbl (unhalves ?enc)"
  let ?c = "map (\<lambda>i. hex_digit (nibble ?bits i)) [0..<16] @ drop 16 cypher"
  have enc: "encrypt ks plain cypher = Inr ?c"
    using encrypt_eq [OF assms(1-4)] by (simp add: msg_def)
  have "hex_to_bit (replicate 64 False) ?c 64 = Inr ?bits"
    by (rule hex_to_bit_hex) simp_all
  from decrypt_eq [OF assms(1) this, of out]
  have "decrypt ks out ?c = bit_to_byte out (permute ipr_tbl (unhalves
      (fold (dec_half mix_bits round_fn) (rev ks) (halves (permute ip_tbl ?bits))))) 64"
    by simp
  also have "halves (permute ip_tbl ?bits) = ?enc"
    using block by simp
  also have "fold (dec_half mix_bits round_fn) (rev ks) ?enc = halves (permute ip_tbl msg)"
    by (rule des.rounds_inverse) (simp add: block_halves)
  also have "permute ipr_tbl (unhalves (halves (permute ip_tbl msg))) = msg"
    using lm by simp
  finally have dec: "decrypt ks out ?c = bit_to_byte out msg 64" .
  from bit_to_byte_eq [OF assms(5) lm] obtain p
    where p: "bit_to_byte out msg 64 = Inr p" "length p = length out" "drop 8 p = drop 8 out"
      "\<forall>j < 8. \<forall>k < 8. bit (p ! j) k = msg ! (8 * j + k)" by blast
  have "bit (p ! j) k = bit (plain ! j) k" if "j < 8" "k < 8" for j k
  proof -
    have "8 * j + k < 64" "(8 * j + k) div 8 = j" "(8 * j + k) mod 8 = k"
      using that by simp_all
    then show ?thesis using p(4) that by (simp add: msg_def)
  qed
  then have "take 8 p = take 8 plain"
    using p(2) assms(2,5) by (intro bytes_eqI) simp_all
  then show ?thesis using enc dec p(1,3) by auto
qed

section \<open>The key loop overflows its buffer\<close>

lemma byte_strlen_less: "byte_strlen b = Inr n \<Longrightarrow> n < length b"
proof -
  assume "byte_strlen b = Inr n"
  then have "0 \<in> set b" and n: "n = length (takeWhile (\<lambda>c. c \<noteq> 0) b)"
    by (auto simp: byte_strlen_def split: if_splits)
  then have "takeWhile (\<lambda>c. c \<noteq> 0) b \<noteq> b"
    by (metis (mono_tags) set_takeWhileD)
  then show "n < length b"
    unfolding n by (metis length_takeWhile_le nat_less_le takeWhile_eq_take take_all_iff)
qed

lemma length_scanf_word: "scanf_word buf w = Inr b \<Longrightarrow> length b = length buf"
  by (auto simp: scanf_word_def split: if_splits)

lemma read_key_never:
  "length buf = 8 \<Longrightarrow> read_key buf ws \<noteq> Some (Inr r)"
proof (induction buf ws rule: read_key.induct)
  case (1 buf ws)
  show ?case
  proof
    assume "read_key buf ws = Some (Inr r)"
    then show False
      using "1" byte_strlen_less [of buf] length_scanf_word [of buf]
      by (subst (asm) read_key.simps) (auto split: sum.splits if_splits list.splits)
  qed
qed

lemma ask_key_never: "length buf = 8 \<Longrightarrow> ask_key buf ws \<noteq> Some (Inr r)"
  using length_scanf_word [of buf]
  by (auto simp: ask_key_def read_key_never split: list.splits sum.splits)

section \<open>Properties\<close>

text \<open>C1: Decryption undoes encryption.  For every 8-byte key, every terminated message buffer
  of at least 8 bytes and every initial sub-key array, key setup, encryption and decryption
  all return (no access leaves its array), and the 8 bytes that decryption writes are the 8
  bytes that were encrypted; the rest of the output buffer is untouched.\<close>

theorem des_round_trip:
  assumes "8 \<le> length key" "keys_ok ks0"
    and "8 \<le> length plain" "0 \<in> set plain" "16 \<le> length cypher" "8 \<le> length out"
  shows "\<exists>ks c p. set_key ks0 key = Inr ks \<and> encrypt ks plain cypher = Inr c \<and>
    decrypt ks out c = Inr p \<and> take 8 p = take 8 plain \<and> drop 8 p = drop 8 out"
  using set_key_eq [OF assms(1,2)] decrypt_encrypt [OF keys_ok_schedule assms(3-6), of key] by blast

theorem des_round_trip_witness:
  "\<exists>ks c p. set_key sub_key_init (byte_string ''hellokey'') = Inr ks \<and>
    encrypt ks (byte_string ''hellodec'') (replicate 17 0) = Inr c \<and>
    decrypt ks (replicate 9 0) c = Inr p \<and>
    take 8 p = take 8 (byte_string ''hellodec'') \<and> drop 8 p = drop 8 (replicate 9 0)"
  by (rule des_round_trip) (simp_all add: byte_string_def keys_ok_init)

text \<open>C22: Key setup computes the key schedule: sub-key \<open>i\<close> is the PC-2 selection of the two
  28-bit registers rotated left by the shifts of rounds 0 to \<open>i\<close>, starting from the PC-1
  selection of the key; the old contents of \<^verbatim>\<open>sub_key\<close> do not matter.\<close>

theorem set_key_schedule:
  assumes "8 \<le> length key" "keys_ok ks0"
  shows "set_key ks0 key = Inr (key_schedule key) \<and> keys_ok (key_schedule key)"
  by (simp add: set_key_eq [OF assms] keys_ok_schedule)

theorem set_key_schedule_witness:
  "set_key sub_key_init (byte_string ''hellokey'') = Inr (key_schedule (byte_string ''hellokey''))
   \<and> keys_ok (key_schedule (byte_string ''hellokey''))"
  by (rule set_key_schedule) (simp_all add: byte_string_def keys_ok_init)

text \<open>The tables deviate from DES.  PC-2 selects register position 34 twice and never
  position 45, so no sub-key depends on that bit; and two of the 32 S-box rows, row 1 of S6
  and row 1 of S7, are not permutations of 0..15 (both hold 0 where the standard has 9).\<close>

theorem des_table_defects:
  "45 \<notin> set pc2_tbl \<and> count_list pc2_tbl 34 = 2 \<and>
   [(b, r). b \<leftarrow> [0..<8], r \<leftarrow> [0..<4], sort (s_box ! b ! r) \<noteq> [0..<16]] = [(5, 1), (6, 1)]"
  by (intro conjI) (simp add: pc2_tbl_def, simp add: pc2_tbl_def, code_simp)

text \<open>The interactive program cannot succeed: the key buffer has 8 bytes, an accepted key
  has 8 characters, and \<^verbatim>\<open>scanf\<close> writes the terminator in the ninth, so whatever words are
  read the program faults or keeps asking, and never returns.\<close>

theorem des_test_never_returns: "des_test ws \<noteq> Some (Inr r)"
  by (auto simp: des_test_def Let_def ask_key_never split: list.splits sum.splits option.splits)

end
