(* ===== verification/BigNum.thy ===== *)
theory BigNum
  imports C_Prelude
begin

text \<open>
  The decimal big numbers of \<^verbatim>\<open>src/cpp/algorithm/big_num.c\<close>.  A \<^verbatim>\<open>BigNum\<close> is a record of
  its digit array (least significant digit first), the allocated size \<^verbatim>\<open>_arrLen\<close> and the
  number of digits \<^verbatim>\<open>wei\<close>.  A cell that \<^verbatim>\<open>malloc\<close> or \<^verbatim>\<open>realloc\<close> left unwritten is
  \<open>None\<close>, and reading it is the fault \<open>Indeterminate\<close>.  Functions that update
  their arguments through pointers return the updated objects; the arguments of a call are
  different objects, as in every call of the source.  Allocation never fails, and sizes,
  which are \<^verbatim>\<open>long long\<close> in the source, are natural numbers.
\<close>

section \<open>The data type and allocation\<close>

record big_num =
  arr :: "int option list"
  arr_len :: nat
  wei :: nat

definition get_cell :: "int option list \<Rightarrow> nat \<Rightarrow> int c_result" where
  "get_cell a i = c_bind (load a i) (\<lambda>c. case c of None \<Rightarrow> Inl Indeterminate | Some d \<Rightarrow> Inr d)"

definition put_cell :: "int option list \<Rightarrow> nat \<Rightarrow> int \<Rightarrow> int option list c_result" where
  "put_cell a i d = store a i (Some d)"

definition realloc :: "int option list \<Rightarrow> nat \<Rightarrow> int option list" where
  "realloc a n = take n a @ replicate (n - length a) None"

definition get_zero :: big_num where
  "get_zero = \<lparr>arr = [Some 0, None], arr_len = 2, wei = 1\<rparr>"

definition extend_big_num :: "big_num \<Rightarrow> big_num" where
  "extend_big_num b = b\<lparr>arr_len := arr_len b * 2, arr := realloc (arr b) (arr_len b * 2)\<rparr>"

text \<open>\<^verbatim>\<open>while (b->_arrLen < n) extend_big_num (b);\<close>\<close>

function extend_until :: "nat \<Rightarrow> big_num \<Rightarrow> big_num c_result" where
  "extend_until n b =
     (if arr_len b < n then
        if arr_len b = 0 then Inl Diverges else extend_until n (extend_big_num b)
      else Inr b)"
  by pat_completeness auto
termination
  by (relation "measure (\<lambda>(n, b). n - arr_len b)") (auto simp: extend_big_num_def)

declare extend_until.simps [simp del]

section \<open>Conversions\<close>

definition my_pow :: "int \<Rightarrow> nat \<Rightarrow> int c_result" where
  "my_pow n m = (if m = 0 then Inr 1 else for_loop 1 m (\<lambda>i res. c_int (res * n)) n)"

text \<open>The \<^verbatim>\<open>do ... while (m > 0)\<close> loop; the first argument counts the digits.\<close>

function count_bits :: "nat \<Rightarrow> int \<Rightarrow> nat" where
  "count_bits n m = (if m sdiv 10 > 0 then count_bits (Suc n) (m sdiv 10) else Suc n)"
  by pat_completeness auto
termination
  by (relation "measure (\<lambda>(n, m). nat m)") (auto simp: signed_divide_int_def sgn_if split: if_splits)

declare count_bits.simps [simp del]

definition count_int_bit :: "int \<Rightarrow> nat" where
  "count_int_bit m = count_bits 0 m"

definition int_to_big_num :: "int \<Rightarrow> big_num c_result" where
  "int_to_big_num m =
     (let n = count_int_bit m in
      c_bind (extend_until n get_zero) (\<lambda>res.
      c_bind (for_loop 1 (Suc n) (\<lambda>i a.
                c_bind (my_pow 10 i) (\<lambda>p.
                c_bind (c_rem m p) (\<lambda>r.
                c_bind (my_pow 10 (i - 1)) (\<lambda>q.
                c_bind (c_quot r q) (\<lambda>dig. put_cell a (i - 1) dig))))) (arr res)) (\<lambda>a.
        Inr (res\<lparr>arr := a, wei := n\<rparr>))))"

definition str_to_big_num :: "string \<Rightarrow> big_num c_result" where
  "str_to_big_num s =
     c_bind (extend_until (length s) get_zero) (\<lambda>res.
     c_bind (for_loop 0 (length s) (\<lambda>i a.
               put_cell a (length s - i - 1) (char_int (s ! i) - 48)) (arr res)) (\<lambda>a.
       Inr (res\<lparr>arr := a, wei := length s\<rparr>)))"

text \<open>What \<^verbatim>\<open>print_bit_num_ln\<close> and \<^verbatim>\<open>print_bit_num_obj\<close> write.\<close>

definition print_digits :: "big_num \<Rightarrow> string c_result" where
  "print_digits b =
     for_down 0 (wei b) (\<lambda>i out. c_bind (get_cell (arr b) i) (\<lambda>d. Inr (out @ show_int d))) []"

definition print_bit_num_ln :: "big_num \<Rightarrow> string c_result" where
  "print_bit_num_ln b = c_bind (print_digits b) (\<lambda>s. Inr (s @ [CHR 0x0A]))"

definition print_bit_num_obj :: "big_num \<Rightarrow> string c_result" where
  "print_bit_num_obj b =
     c_bind (print_digits b) (\<lambda>ds.
     c_bind (for_loop 0 (wei b) (\<lambda>i out.
               c_bind (get_cell (arr b) i) (\<lambda>d. Inr (out @ show_int d @ '' ''))) []) (\<lambda>cells.
       Inr (''big_num='' @ ds @ '', int_array=['' @ cells @ ''], array_size='' @
            show_nat (arr_len b) @ '', decimal_bit='' @ show_nat (wei b) @ [CHR 0x0A])))"

section \<open>Arithmetic in place\<close>

text \<open>The digit and carry of a position that adds up to \<open>s\<close>, as the addition loops compute them.\<close>

definition add_digit :: "int option list \<Rightarrow> nat \<Rightarrow> int \<Rightarrow> (int option list \<times> int) c_result" where
  "add_digit a i s =
     (if s < 10 then c_bind (put_cell a i s) (\<lambda>a. Inr (a, 0))
      else c_bind (put_cell a i (s - 10)) (\<lambda>a. Inr (a, 1)))"

definition big_num_add_0_self :: "big_num \<Rightarrow> big_num c_result" where
  "big_num_add_0_self b =
     c_bind (c_require (1 \<le> wei b) OutOfBounds) (\<lambda>_.
     c_bind (get_cell (arr b) (wei b - 1)) (\<lambda>top.
     let b = (if top \<ge> 5 \<and> wei b = arr_len b then extend_big_num b else b) in
     c_bind (for_loop 0 (wei b) (\<lambda>i (a, next).
               c_bind (get_cell a i) (\<lambda>d. add_digit a i (d * 2 + next))) (arr b, 0)) (\<lambda>(a, next).
       if next = 1 then
         c_bind (put_cell a (wei b) 1) (\<lambda>a. Inr (b\<lparr>arr := a, wei := wei b + 1\<rparr>))
       else Inr (b\<lparr>arr := a\<rparr>))))"

text \<open>\<^verbatim>\<open>for (i = lo; i < hi; i++) arr[i] = 0;\<close>\<close>

definition zero_cells :: "nat \<Rightarrow> nat \<Rightarrow> int option list \<Rightarrow> int option list c_result" where
  "zero_cells lo hi a = for_loop lo hi (\<lambda>i a. put_cell a i 0) a"

definition big_num_cpy :: "big_num \<Rightarrow> big_num \<Rightarrow> big_num c_result" where
  "big_num_cpy b1 b2 =
     (let b1 = (if arr_len b1 < arr_len b2
                then b1\<lparr>arr_len := arr_len b2, arr := realloc (arr b1) (arr_len b2)\<rparr> else b1) in
      c_bind (zero_cells 0 (arr_len b1) (arr b1)) (\<lambda>a.
      c_bind (for_loop 0 (wei b2) (\<lambda>i a. c_bind (get_cell (arr b2) i) (put_cell a i)) a) (\<lambda>a.
        Inr (b1\<lparr>arr := a, wei := wei b2\<rparr>))))"

section \<open>Comparison and addition\<close>

text \<open>The loop of \<^verbatim>\<open>big_num_cmp\<close> over the positions below \<open>i\<close>, from the highest.\<close>

primrec cmp_digits :: "int option list \<Rightarrow> int option list \<Rightarrow> nat \<Rightarrow> int c_result" where
  "cmp_digits a1 a2 0 = Inr 0"
| "cmp_digits a1 a2 (Suc i) =
     c_bind (get_cell a1 i) (\<lambda>x. c_bind (get_cell a2 i) (\<lambda>y.
       if x > y then Inr 1 else if x < y then Inr (- 1) else cmp_digits a1 a2 i))"

definition big_num_cmp :: "big_num \<Rightarrow> big_num \<Rightarrow> int c_result" where
  "big_num_cmp b1 b2 =
     (if wei b1 > wei b2 then Inr 1
      else if wei b1 < wei b2 then Inr (- 1)
      else cmp_digits (arr b1) (arr b2) (wei b1))"

text \<open>
  The body of \<^verbatim>\<open>big_num_add\<close> after the swap: the sum, and both arguments, which it may
  have extended.
\<close>

definition add_ordered :: "big_num \<Rightarrow> big_num \<Rightarrow> (big_num \<times> big_num \<times> big_num) c_result" where
  "add_ordered b1 b2 =
     (let b1 = (if wei b1 = arr_len b1 then extend_big_num b1 else b1) in
      c_bind (big_num_cpy get_zero b1) (\<lambda>res.
      c_bind (if arr_len b2 < arr_len res then
                c_bind (zero_cells (wei b2) (arr_len res) (realloc (arr b2) (arr_len res))) (\<lambda>a.
                  Inr (b2\<lparr>arr_len := arr_len res, arr := a\<rparr>))
              else Inr b2) (\<lambda>b2.
      c_bind (extend_until (Suc (arr_len res)) b2) (\<lambda>b2.
      c_bind (for_loop 0 (wei res) (\<lambda>i (a, next).
                c_bind (get_cell (arr b2) i) (\<lambda>y. c_bind (get_cell a i) (\<lambda>x.
                  add_digit a i (y + x + next)))) (arr res, 0)) (\<lambda>(a, next).
      c_bind (if next = 1 then
                c_bind (put_cell a (wei res) 1) (\<lambda>a. Inr (res\<lparr>arr := a, wei := wei res + 1\<rparr>))
              else Inr (res\<lparr>arr := a\<rparr>)) (\<lambda>res.
        Inr (res, b1, b2)))))))"

definition big_num_add :: "big_num \<Rightarrow> big_num \<Rightarrow> (big_num \<times> big_num \<times> big_num) c_result" where
  "big_num_add b1 b2 =
     c_bind (big_num_cmp b1 b2) (\<lambda>f.
       if f = - 1 then c_bind (add_ordered b2 b1) (\<lambda>(res, b2, b1). Inr (res, b1, b2))
       else add_ordered b1 b2)"

definition big_num_add_0 :: "big_num \<Rightarrow> big_num \<Rightarrow> big_num c_result" where
  "big_num_add_0 b1 b2 =
     (let b1 = (if wei b1 = arr_len b1 then extend_big_num b1 else b1) in
      c_bind (big_num_cmp b1 b2) (\<lambda>flag.
      c_bind (if flag = - 1 then
                c_bind (extend_until (arr_len b2) b1) (\<lambda>b1.
                c_bind (zero_cells (wei b1) (arr_len b1) (arr b1)) (\<lambda>a. Inr (b1\<lparr>arr := a\<rparr>)))
              else Inr b1) (\<lambda>b1.
      c_bind (for_loop 0 (wei b2) (\<lambda>i (a, next).
                c_bind (get_cell a i) (\<lambda>x. c_bind (get_cell (arr b2) i) (\<lambda>y.
                  add_digit a i (x + y + next)))) (arr b1, 0)) (\<lambda>(a, next).
      let w = (if wei b2 > wei b1 then wei b2 else wei b1) in
      if next = 1 then
        c_bind (get_cell a w) (\<lambda>d. c_bind (put_cell a w (d + 1)) (\<lambda>a.
          Inr (b1\<lparr>arr := a, wei := w + 1\<rparr>)))
      else Inr (b1\<lparr>arr := a, wei := w\<rparr>)))))"

section \<open>Multiplication\<close>

definition multi_dig_step :: "int \<Rightarrow> nat \<Rightarrow> int option list \<times> int \<Rightarrow> (int option list \<times> int) c_result" where
  "multi_dig_step m i = (\<lambda>(a, next).
     c_bind (get_cell a i) (\<lambda>d.
     c_bind (c_int (d * m)) (\<lambda>p.
     c_bind (c_int (p + next)) (\<lambda>s.
       if s < 10 then c_bind (put_cell a i s) (\<lambda>a. Inr (a, 0))
       else c_bind (c_quot s 10) (\<lambda>q. c_bind (c_rem s 10) (\<lambda>r.
            c_bind (put_cell a i r) (\<lambda>a. Inr (a, q))))))))"

definition big_num_multi_dig :: "big_num \<Rightarrow> int \<Rightarrow> big_num c_result" where
  "big_num_multi_dig b m =
     (if m = 0 then c_bind (put_cell (arr b) 0 0) (\<lambda>a. Inr (b\<lparr>wei := 1, arr := a\<rparr>))
      else
       (let b = (if wei b = arr_len b then extend_big_num b else b) in
        c_bind (for_loop 0 (wei b) (multi_dig_step m) (arr b, 0)) (\<lambda>(a, next).
          if next \<noteq> 0 then
            c_bind (put_cell a (wei b) next) (\<lambda>a. Inr (b\<lparr>arr := a, wei := wei b + 1\<rparr>))
          else Inr (b\<lparr>arr := a\<rparr>))))"

definition big_num_append0 :: "big_num \<Rightarrow> nat \<Rightarrow> big_num c_result" where
  "big_num_append0 b n =
     (if n = 0 then Inr b
      else
        c_bind (extend_until (wei b + n) b) (\<lambda>b.
        c_bind (for_down 0 (wei b) (\<lambda>i a. c_bind (load a i) (store a (i + n))) (arr b)) (\<lambda>a.
        c_bind (zero_cells 0 n a) (\<lambda>a.
          Inr (b\<lparr>arr := a, wei := wei b + n\<rparr>)))))"

text \<open>One pass of the loop of \<^verbatim>\<open>big_num_multi\<close>, and the loop over the smaller factor.\<close>

definition multi_step :: "big_num \<Rightarrow> big_num \<Rightarrow> nat \<Rightarrow> big_num \<Rightarrow> big_num c_result" where
  "multi_step b1 b2 i res =
     c_bind (get_cell (arr b2) i) (\<lambda>w.
     c_bind (big_num_cpy get_zero b1) (\<lambda>newBg.
     c_bind (big_num_multi_dig newBg w) (\<lambda>newBg.
     c_bind (big_num_append0 newBg i) (\<lambda>newBg.
       big_num_add_0 res newBg))))"

definition multi_ordered :: "big_num \<Rightarrow> big_num \<Rightarrow> big_num c_result" where
  "multi_ordered b1 b2 = for_loop 0 (wei b2) (multi_step b1 b2) get_zero"

definition big_num_multi :: "big_num \<Rightarrow> big_num \<Rightarrow> big_num c_result" where
  "big_num_multi b1 b2 =
     c_bind (big_num_cmp b1 b2) (\<lambda>f. if f = - 1 then multi_ordered b2 b1 else multi_ordered b1 b2)"

definition factorial :: "nat \<Rightarrow> big_num c_result" where
  "factorial n =
     c_bind (put_cell (arr get_zero) 0 1) (\<lambda>a.
       for_loop 1 (Suc n) (\<lambda>i res.
         c_bind (int_to_big_num (int i)) (\<lambda>bigI. big_num_multi res bigI)) (get_zero\<lparr>arr := a\<rparr>))"

text \<open>
  What \<^verbatim>\<open>main\<close> writes; \<open>say\<close> is a \<^verbatim>\<open>printf\<close> and \<open>out_of\<close> a printing function.
\<close>

definition say :: "string \<Rightarrow> string \<Rightarrow> string c_result" where
  "say s out = Inr (out @ s)"

definition out_of :: "string c_result \<Rightarrow> string \<Rightarrow> string c_result" where
  "out_of p out = c_bind p (\<lambda>s. Inr (out @ s))"

definition big_num_main :: "string c_result" where
  "big_num_main =
     c_bind (int_to_big_num 1) (\<lambda>b1.
     c_bind (out_of (print_bit_num_obj b1) (''big_number b1='' @ show_int 1 @ [CHR 0x0A])) (\<lambda>out.
     c_bind (int_to_big_num 95599) (\<lambda>b2.
     c_bind (say (''big_number b2='' @ show_int 95599 @ [CHR 0x0A]) out) (\<lambda>out.
     c_bind (out_of (print_bit_num_obj b2) out) (\<lambda>out.
     c_bind (big_num_add b1 b2) (\<lambda>(b3, b1, b2).
     c_bind (say (''b2 + b3 ='' @ [CHR 0x0A]) out) (\<lambda>out.
     c_bind (out_of (print_bit_num_obj b3) out) (\<lambda>out.
     c_bind (int_to_big_num 11665544) (\<lambda>bg1.
     c_bind (big_num_multi_dig bg1 6) (\<lambda>bg1.
     c_bind (say (''big_number '' @ show_int 11665544 @ '' * 6 ='' @ [CHR 0x0A]) out) (\<lambda>out.
     c_bind (out_of (print_bit_num_obj bg1) out) (\<lambda>out.
     c_bind (int_to_big_num 166655466) (\<lambda>bg3.
     c_bind (int_to_big_num 443335544) (\<lambda>bg4.
     c_bind (big_num_multi bg3 bg4) (\<lambda>bg5.
     c_bind (out_of (print_bit_num_obj bg5) out) (\<lambda>out.
     c_bind (str_to_big_num ''8717829120915684686898899879870'') (\<lambda>bgn1.
     c_bind (str_to_big_num ''1555888888564684684684684888888'') (\<lambda>bgn2.
     c_bind (big_num_multi bgn1 bgn2) (\<lambda>bgn3.
     c_bind (out_of (print_bit_num_obj bgn3) out) (\<lambda>out.
     c_bind (say ([CHR 0xE8, CHR 0xAE, CHR 0xA1, CHR 0xE7, CHR 0xAE, CHR 0x97] @ '' '' @ show_int 3 @ '' '' @
                  [CHR 0xE7, CHR 0x9A, CHR 0x84, CHR 0xE9, CHR 0x98, CHR 0xB6, CHR 0xE4, CHR 0xB9, CHR 0x98] @
                  '':'' @ [CHR 0x0A]) out) (\<lambda>out.
     c_bind (factorial 3) (\<lambda>result.
       out_of (print_bit_num_ln result) out))))))))))))))))))))))"

section \<open>Digit lists\<close>

definition digit_ok :: "int \<Rightarrow> bool" where
  "digit_ok d \<longleftrightarrow> 0 \<le> d \<and> d \<le> 9"

primrec val10 :: "int list \<Rightarrow> int" where
  "val10 [] = 0"
| "val10 (d # ds) = d + 10 * val10 ds"

text \<open>Adding up position by position with a carry, the reference of every arithmetic loop.\<close>

fun ripple :: "int list \<Rightarrow> int \<Rightarrow> int list \<times> int" where
  "ripple [] c = ([], c)"
| "ripple (s # ss) c =
     (let (ds, c') = ripple ss ((s + c) div 10) in ((s + c) mod 10 # ds, c'))"

lemma val10_append: "val10 (xs @ ys) = val10 xs + 10 ^ length xs * val10 ys"
  by (induction xs) (simp_all add: algebra_simps)

lemma val10_replicate_0 [simp]: "val10 (replicate n 0) = 0"
  by (induction n) simp_all

lemma val10_bounds: "list_all digit_ok ds \<Longrightarrow> 0 \<le> val10 ds \<and> val10 ds < 10 ^ length ds"
  by (induction ds) (auto simp: digit_ok_def)

lemma val10_take_bounds:
  assumes "list_all digit_ok ds" "n \<le> length ds"
  shows "0 \<le> val10 (take n ds)" "val10 (take n ds) < 10 ^ n"
proof -
  have "list_all digit_ok (take n ds)" "length (take n ds) = n"
    using assms by (auto simp: list_all_iff dest: in_set_takeD)
  with val10_bounds [of "take n ds"] show "0 \<le> val10 (take n ds)" "val10 (take n ds) < 10 ^ n"
    by simp_all
qed

lemma ripple_append:
  "ripple (xs @ ys) c =
     (let (ds, c') = ripple xs c; (es, c'') = ripple ys c' in (ds @ es, c''))"
  by (induction xs c rule: ripple.induct) (auto simp: Let_def split: prod.splits)

lemma length_ripple [simp]: "length (fst (ripple ss c)) = length ss"
  by (induction ss c rule: ripple.induct) (auto simp: Let_def split: prod.splits)

lemma digit_ok_mod [simp]: "digit_ok (x mod 10)"
  unfolding digit_ok_def by presburger

lemma ripple_digits: "list_all digit_ok (fst (ripple ss c))"
  by (induction ss c rule: ripple.induct)
    (simp_all add: Let_def split_beta)

lemma ripple_val:
  "val10 (fst (ripple ss c)) + 10 ^ length ss * snd (ripple ss c) = val10 ss + c"
proof (induction ss c rule: ripple.induct)
  case (2 s ss c)
  obtain ds c' where r: "ripple ss ((s + c) div 10) = (ds, c')" by fastforce
  with "2" have IH: "val10 ds + 10 ^ length ss * c' = val10 ss + (s + c) div 10" by simp
  have "val10 (fst (ripple (s # ss) c)) + 10 ^ length (s # ss) * snd (ripple (s # ss) c) =
      (s + c) mod 10 + 10 * (val10 ds + 10 ^ length ss * c')"
    using r by (simp add: algebra_simps)
  also have "\<dots> = 10 * val10 ss + (10 * ((s + c) div 10) + (s + c) mod 10)"
    unfolding IH by simp
  also have "\<dots> = val10 (s # ss) + c"
    unfolding mult_div_mod_eq by simp
  finally show ?case .
qed simp

lemma ripple_carry:
  assumes "list_all (\<lambda>s. 0 \<le> s \<and> s \<le> 9 * m) ss" "0 \<le> c" "c \<le> m - 1" "1 \<le> m" "m \<le> 9"
  shows "0 \<le> snd (ripple ss c) \<and> snd (ripple ss c) \<le> m - 1"
  using assms(1-3)
proof (induction ss c rule: ripple.induct)
  case (2 s ss c)
  then have "0 \<le> s + c" "s + c \<le> 10 * m - 1" by simp_all
  then have "0 \<le> (s + c) div 10" "(s + c) div 10 \<le> m - 1" by linarith+
  with "2" show ?case by (auto simp: Let_def split: prod.splits)
qed simp

lemma get_cell_rep [simp]: "i < length ds \<Longrightarrow> get_cell (map Some ds @ rest) i = Inr (ds ! i)"
  by (simp add: get_cell_def c_safe nth_append)

lemma get_cell_Some: "i < length a \<Longrightarrow> a ! i = Some d \<Longrightarrow> get_cell a i = Inr d"
  by (simp add: get_cell_def c_safe)

lemma put_cell_in [simp]: "i < length a \<Longrightarrow> put_cell a i d = Inr (a[i := Some d])"
  by (simp add: put_cell_def c_safe)

lemma put_cell_out: "length a \<le> i \<Longrightarrow> put_cell a i d = Inl OutOfBounds"
  by (simp add: put_cell_def store_out)

text \<open>
  An in-place loop whose body adds \<open>ss ! i\<close> and the carry at position \<open>i\<close>
  computes \<open>ripple ss\<close>.
\<close>

lemma ripple_loop:
  assumes "length ss \<le> length a" "1 \<le> m" "m \<le> 9" "list_all (\<lambda>s. 0 \<le> s \<and> s \<le> 9 * m) ss"
    and body: "\<And>i a' c. i < length ss \<Longrightarrow> length a' = length a \<Longrightarrow> drop i a' = drop i a \<Longrightarrow>
      0 \<le> c \<Longrightarrow> c \<le> m - 1 \<Longrightarrow>
      body i (a', c) = Inr (a'[i := Some ((ss ! i + c) mod 10)], (ss ! i + c) div 10)"
  shows "for_loop 0 (length ss) body (a, 0) =
    Inr (map Some (fst (ripple ss 0)) @ drop (length ss) a, snd (ripple ss 0))"
proof -
  let ?r = "\<lambda>i. ripple (take i ss) 0"
  let ?I = "\<lambda>i s. s = (map Some (fst (?r i)) @ drop i a, snd (?r i))"
  have "\<exists>s. for_loop 0 (length ss) body (a, 0) = Inr s \<and> ?I (length ss) s"
  proof (rule for_loop_total)
    fix i s
    assume i: "i < length ss" and s: "?I i s"
    let ?a = "map Some (fst (?r i)) @ drop i a" and ?c = "snd (?r i)"
    have len: "length (fst (?r i)) = i" using i by simp
    have "list_all (\<lambda>s. 0 \<le> s \<and> s \<le> 9 * m) (take i ss)"
      using assms(4) by (metis append_take_drop_id list_all_append)
    then have c: "0 \<le> ?c" "?c \<le> m - 1"
      using ripple_carry [of m "take i ss" 0] assms(2,3) by auto
    have "?r (Suc i) = (fst (?r i) @ [(ss ! i + ?c) mod 10], (ss ! i + ?c) div 10)"
      using i by (simp add: take_Suc_conv_app_nth ripple_append Let_def split: prod.splits)
    moreover have "body i (?a, ?c) = Inr (?a[i := Some ((ss ! i + ?c) mod 10)], (ss ! i + ?c) div 10)"
      using i assms(1) len c by (intro body) auto
    moreover have "?a[i := v] = map Some (fst (?r i)) @ v # drop (Suc i) a" for v
      using i assms(1) len by (simp add: list_update_append Cons_nth_drop_Suc [symmetric])
    ultimately show "\<exists>s'. body i s = Inr s' \<and> ?I (Suc i) s'"
      by (simp add: s)
  qed simp_all
  then show ?thesis by simp
qed

lemma add_digit_eq:
  assumes "i < length a" "0 \<le> s" "s \<le> 19"
  shows "add_digit a i s = Inr (a[i := Some (s mod 10)], s div 10)"
proof (cases "s < 10")
  case True
  then show ?thesis using assms by (simp add: add_digit_def)
next
  case False
  then have "s mod 10 = s - 10" "s div 10 = 1" using assms by presburger+
  with False show ?thesis using assms by (simp add: add_digit_def)
qed

section \<open>Representation\<close>

text \<open>
  \<open>rep b ds rest\<close>: the object holds the digits \<open>ds\<close>, least significant first, and
  the allocated cells after them are \<open>rest\<close>.  \<open>wf\<close> is the invariant of the type and
  \<open>num\<close> the number an object stands for.
\<close>

definition rep :: "big_num \<Rightarrow> int list \<Rightarrow> int option list \<Rightarrow> bool" where
  "rep b ds rest \<longleftrightarrow> arr b = map Some ds @ rest \<and> wei b = length ds \<and>
     arr_len b = length ds + length rest \<and> ds \<noteq> [] \<and> list_all digit_ok ds"

definition wf_num :: "big_num \<Rightarrow> bool" where
  "wf_num b \<longleftrightarrow> arr_len b = length (arr b) \<and> 1 \<le> wei b \<and> wei b \<le> arr_len b \<and>
     list_all (\<lambda>c. case c of None \<Rightarrow> False | Some d \<Rightarrow> digit_ok d) (take (wei b) (arr b))"

definition digits :: "big_num \<Rightarrow> int list" where
  "digits b = map the (take (wei b) (arr b))"

definition num :: "big_num \<Rightarrow> int" where
  "num b = val10 (digits b)"

lemma wf_num_rep: "wf_num b \<longleftrightarrow> rep b (digits b) (drop (wei b) (arr b))"
proof
  assume wf: "wf_num b"
  have "map Some (map the xs) = xs \<and> list_all digit_ok (map the xs)"
    if "list_all (\<lambda>c. case c of None \<Rightarrow> False | Some d \<Rightarrow> digit_ok d) xs" for xs
    using that by (induction xs) (auto split: option.splits)
  with wf have d: "map Some (digits b) = take (wei b) (arr b)" "list_all digit_ok (digits b)"
    by (auto simp: wf_num_def digits_def)
  with wf show "rep b (digits b) (drop (wei b) (arr b))"
    by (auto simp: rep_def wf_num_def digits_def min_def)
next
  assume r: "rep b (digits b) (drop (wei b) (arr b))"
  then have "take (wei b) (arr b) = map Some (digits b)"
    by (metis append_eq_conv_conj length_map rep_def)
  moreover from r have "length (arr b) = arr_len b" by (metis length_append length_map rep_def)
  ultimately show "wf_num b"
    using r by (auto simp: rep_def wf_num_def list_all_iff Suc_le_eq split: option.splits)
qed

lemma rep_digits: "rep b ds rest \<Longrightarrow> digits b = ds \<and> drop (wei b) (arr b) = rest"
  by (auto simp: rep_def digits_def comp_def)

lemma rep_wf: "rep b ds rest \<Longrightarrow> wf_num b \<and> num b = val10 ds"
  using rep_digits [of b ds rest] wf_num_rep [of b] by (simp add: num_def)

lemma wf_numE:
  assumes "wf_num b"
  obtains ds rest where "rep b ds rest" "num b = val10 ds"
  using assms rep_wf wf_num_rep by blast

lemma rep_zero: "rep get_zero [0] [None]"
  by (simp add: rep_def get_zero_def digit_ok_def)

lemma rep_extend: "rep b ds rest \<Longrightarrow>
    rep (extend_big_num b) ds (rest @ replicate (length ds + length rest) None)"
  by (auto simp: rep_def extend_big_num_def realloc_def)

lemma rep_extend_until:
  "rep b ds rest \<Longrightarrow> \<exists>k b'. extend_until n b = Inr b' \<and> rep b' ds (rest @ replicate k None) \<and>
     n \<le> arr_len b' \<and> (n \<le> arr_len b \<longrightarrow> b' = b)"
proof (induction n b arbitrary: rest rule: extend_until.induct)
  case (1 n b)
  show ?case
  proof (cases "arr_len b < n")
    case True
    have pos: "arr_len b \<noteq> 0" using "1.prems" by (auto simp: rep_def)
    from "1.IH" [OF True pos rep_extend [OF "1.prems"]] obtain k b' where
      "extend_until n (extend_big_num b) = Inr b'"
      "rep b' ds (rest @ replicate (length ds + length rest + k) None)" "n \<le> arr_len b'"
      by (auto simp: replicate_add)
    with True pos show ?thesis by (subst extend_until.simps) auto
  next
    case False
    then have "extend_until n b = Inr b" by (subst extend_until.simps) simp
    moreover have "rep b ds (rest @ replicate 0 None)" using "1.prems" by simp
    ultimately show ?thesis using False by (metis linorder_not_le)
  qed
qed

lemma zero_cells_eq:
  assumes "lo \<le> hi" "hi \<le> length a"
  shows "zero_cells lo hi a = Inr (take lo a @ replicate (hi - lo) (Some 0) @ drop hi a)"
proof -
  let ?I = "\<lambda>i b. b = take lo a @ replicate (i - lo) (Some 0) @ drop i a"
  have "\<exists>b. for_loop lo hi (\<lambda>i a. put_cell a i 0) a = Inr b \<and> ?I hi b"
  proof (rule for_loop_total)
    fix i b
    assume i: "lo \<le> i" "i < hi" and b: "?I i b"
    have "b[i := Some 0] = take lo a @ replicate (Suc i - lo) (Some 0) @ drop (Suc i) a"
      using i assms(2) unfolding b
      by (simp add: list_update_append min_def Suc_diff_le Cons_nth_drop_Suc [symmetric]
          replicate_append_same)
    moreover have "put_cell b i 0 = Inr (b[i := Some 0])"
      using i assms(2) unfolding b by simp
    ultimately show "\<exists>b'. put_cell b i 0 = Inr b' \<and> ?I (Suc i) b'" by simp
  qed (use assms(1) in simp_all)
  then show ?thesis by (simp add: zero_cells_def)
qed

section \<open>Copying and comparing\<close>

lemma rep_cpy:
  assumes "rep b1 ds1 rest1" "rep b2 ds2 rest2"
  shows "\<exists>b k. big_num_cpy b1 b2 = Inr b \<and> rep b ds2 (replicate k (Some 0)) \<and>
    arr_len b = max (arr_len b1) (arr_len b2)"
proof -
  let ?n = "max (arr_len b1) (arr_len b2)"
  let ?b = "if arr_len b1 < arr_len b2
            then b1\<lparr>arr_len := arr_len b2, arr := realloc (arr b1) (arr_len b2)\<rparr> else b1"
  have b: "arr_len ?b = ?n" "length (arr ?b) = ?n"
    using assms by (auto simp: rep_def realloc_def)
  have z: "zero_cells 0 (arr_len ?b) (arr ?b) = Inr (replicate ?n (Some 0))"
    using zero_cells_eq [of 0 ?n "arr ?b"] b by simp
  have l: "length ds2 \<le> ?n" using assms(2) by (simp add: rep_def)
  have "for_loop 0 (wei b2) (\<lambda>i a. c_bind (get_cell (arr b2) i) (put_cell a i)) (replicate ?n (Some 0))
      = Inr (map (\<lambda>i. Some (ds2 ! i)) [0..<length ds2] @ replicate (?n - length ds2) (Some 0))"
    using fill_loop [of "length ds2" "replicate ?n (Some 0)"
        "\<lambda>i a. c_bind (get_cell (arr b2) i) (put_cell a i)" "\<lambda>i. Some (ds2 ! i)"] assms(2) l
    by (simp add: rep_def)
  also have "map (\<lambda>i. Some (ds2 ! i)) [0..<length ds2] = map Some ds2"
    by (intro nth_equalityI) simp_all
  finally have c: "big_num_cpy b1 b2 =
      Inr (?b\<lparr>arr := map Some ds2 @ replicate (?n - length ds2) (Some 0), wei := length ds2\<rparr>)"
    using z assms(2) by (simp add: big_num_cpy_def Let_def rep_def)
  show ?thesis
    unfolding c using assms(2) b(1) l by (auto simp: rep_def)
qed

lemma cmp_digits_eq:
  assumes "n \<le> length ds1" "n \<le> length ds2" "list_all digit_ok ds1" "list_all digit_ok ds2"
  shows "cmp_digits (map Some ds1 @ r1) (map Some ds2 @ r2) n =
    Inr (sgn (val10 (take n ds1) - val10 (take n ds2)))"
  using assms(1,2)
proof (induction n)
  case (Suc n)
  let ?u = "val10 (take n ds1)" and ?v = "val10 (take n ds2)"
  let ?x = "ds1 ! n" and ?y = "ds2 ! n"
  have uv: "0 \<le> ?u" "?u < 10 ^ n" "0 \<le> ?v" "?v < 10 ^ n"
    using val10_bounds [of "take n ds1"] val10_bounds [of "take n ds2"] assms(3,4) Suc.prems
    by (auto simp: list_all_iff min_def dest: in_set_takeD)
  have eqs: "val10 (take (Suc n) ds1) = ?u + 10 ^ n * ?x" "val10 (take (Suc n) ds2) = ?v + 10 ^ n * ?y"
    using Suc.prems by (simp_all add: take_Suc_conv_app_nth val10_append min_def)
  have gt: "?v + 10 ^ n * ?y < ?u + 10 ^ n * ?x" if "?y < ?x"
  proof -
    have "(10::int) ^ n * (?y + 1) \<le> 10 ^ n * ?x" using that by (intro mult_left_mono) simp_all
    with uv show ?thesis by (simp add: algebra_simps)
  qed
  have lt: "?u + 10 ^ n * ?x < ?v + 10 ^ n * ?y" if "?x < ?y"
  proof -
    have "(10::int) ^ n * (?x + 1) \<le> 10 ^ n * ?y" using that by (intro mult_left_mono) simp_all
    with uv show ?thesis by (simp add: algebra_simps)
  qed
  consider "?x > ?y" | "?x < ?y" | "?x = ?y" by linarith
  then show ?case
    by cases (use Suc gt lt in \<open>auto simp: eqs\<close>)
qed simp

text \<open>
  \<open>normal\<close>: no leading zeros.  Comparison is by the numbers for normal objects, and for
  any two objects of the same length.
\<close>

definition normal_num :: "big_num \<Rightarrow> bool" where
  "normal_num b \<longleftrightarrow> wei b = 1 \<or> 10 ^ (wei b - 1) \<le> num b"

lemma cmp_same_length:
  assumes "rep b1 ds1 r1" "rep b2 ds2 r2" "length ds1 = length ds2"
  shows "big_num_cmp b1 b2 = Inr (sgn (val10 ds1 - val10 ds2))"
  using assms cmp_digits_eq [of "length ds1" ds1 ds2 r1 r2] by (simp add: big_num_cmp_def rep_def)

lemma cmp_order:
  assumes "rep b1 ds1 r1" "rep b2 ds2 r2"
  shows "\<exists>f. big_num_cmp b1 b2 = Inr f \<and>
    (if f = - 1 then length ds1 \<le> length ds2 else length ds2 \<le> length ds1)"
proof (cases "length ds1 = length ds2")
  case True
  with cmp_same_length [OF assms] show ?thesis by simp
next
  case False
  have "wei b1 = length ds1" "wei b2 = length ds2" using assms by (simp_all add: rep_def)
  with False show ?thesis by (cases "length ds1 < length ds2") (simp_all add: big_num_cmp_def)
qed

lemma normal_shorter:
  assumes "wf_num b1" "wf_num b2" "normal_num b2" "wei b1 < wei b2"
  shows "num b1 < num b2"
proof -
  from assms(1) have "num b1 < 10 ^ wei b1"
    using val10_bounds by (metis rep_def rep_digits wf_numE)
  also have "(10::int) ^ wei b1 \<le> 10 ^ (wei b2 - 1)"
    using assms(4) by (intro power_increasing) auto
  also have "\<dots> \<le> num b2"
    using assms by (auto simp: normal_num_def wf_num_def)
  finally show ?thesis .
qed

lemma cmp_normal:
  assumes "wf_num b1" "wf_num b2" "normal_num b1" "normal_num b2"
  shows "big_num_cmp b1 b2 = Inr (sgn (num b1 - num b2))"
proof -
  consider "wei b1 < wei b2" | "wei b2 < wei b1" | "wei b1 = wei b2" by linarith
  then show ?thesis
  proof cases
    case 1
    with normal_shorter assms have "num b1 < num b2" by blast
    with 1 show ?thesis by (simp add: big_num_cmp_def)
  next
    case 2
    with normal_shorter assms have "num b2 < num b1" by blast
    with 2 show ?thesis by (simp add: big_num_cmp_def)
  next
    case 3
    obtain ds1 r1 ds2 r2 where r: "rep b1 ds1 r1" "rep b2 ds2 r2" "num b1 = val10 ds1" "num b2 = val10 ds2"
      using assms(1,2) by (elim wf_numE)
    with 3 have "length ds1 = length ds2" by (simp add: rep_def)
    with cmp_same_length [OF r(1,2)] r(3,4) show ?thesis by simp
  qed
qed

section \<open>Addition\<close>

lemma val10_map2_add:
  "length xs = length ys \<Longrightarrow> val10 (map2 (+) xs ys) = val10 xs + val10 ys"
  by (induction xs ys rule: list_induct2) (simp_all add: algebra_simps)

lemma sum_digits_bounds:
  assumes "list_all digit_ok xs" "list_all digit_ok ys"
  shows "list_all (\<lambda>s. 0 \<le> s \<and> s \<le> 9 * 2) (map2 (+) xs ys)"
  using assms by (auto simp: list_all_length digit_ok_def add_nonneg_nonneg intro: add_mono [of _ 9 _ 9, simplified])

text \<open>
  The carry loop shared by the additions: \<open>a\<close> holds the digits \<open>xs\<close>, the other array
  the digits \<open>ys\<close>, as many.
\<close>

lemma add_loop:
  assumes "length xs = length ys" "list_all digit_ok xs" "list_all digit_ok ys"
    and "\<And>i a c. i < length xs \<Longrightarrow> body i (a, c) =
      c_bind (get_cell a i) (\<lambda>x. c_bind (get_cell (map Some ys @ ry) i) (\<lambda>y. add_digit a i (x + y + c)))"
  shows "\<exists>zs c. for_loop 0 (length xs) body (map Some xs @ rx, 0) = Inr (map Some zs @ rx, c) \<and>
    length zs = length xs \<and> list_all digit_ok zs \<and> (c = 0 \<or> c = 1) \<and>
    val10 zs + 10 ^ length xs * c = val10 xs + val10 ys"
proof -
  let ?ss = "map2 (+) xs ys" and ?r = "ripple (map2 (+) xs ys) 0"
  have len: "length ?ss = length xs" using assms(1) by simp
  have b: "list_all (\<lambda>s. 0 \<le> s \<and> s \<le> 9 * 2) ?ss" by (rule sum_digits_bounds [OF assms(2,3)])
  have "for_loop 0 (length ?ss) body (map Some xs @ rx, 0) =
      Inr (map Some (fst ?r) @ drop (length ?ss) (map Some xs @ rx), snd ?r)"
  proof (rule ripple_loop [where m = 2, OF _ _ _ b])
    fix i a' and c :: int
    assume i: "i < length ?ss" and l: "length a' = length (map Some xs @ rx)"
      and d: "drop i a' = drop i (map Some xs @ rx)" and c: "0 \<le> c" "c \<le> 2 - 1"
    have "a' ! i = Some (xs ! i)"
    proof -
      have "a' ! i = drop i a' ! 0" using i l by simp
      also have "\<dots> = Some (xs ! i)" unfolding d using i by (simp add: nth_append)
      finally show ?thesis .
    qed
    then have g: "get_cell a' i = Inr (xs ! i)" using i l by (intro get_cell_Some) simp_all
    have "0 \<le> xs ! i" "xs ! i \<le> 9" "0 \<le> ys ! i" "ys ! i \<le> 9"
      using i assms(1-3) by (auto simp: list_all_length digit_ok_def)
    then show "body i (a', c) = Inr (a'[i := Some ((?ss ! i + c) mod 10)], (?ss ! i + c) div 10)"
      using i l c assms(1) g by (simp add: assms(4) add_digit_eq)
  qed (use assms(1) in simp_all)
  moreover have "0 \<le> snd ?r" "snd ?r \<le> 1" using ripple_carry [OF b, of 0] by simp_all
  moreover have "val10 (fst ?r) + 10 ^ length xs * snd ?r = val10 xs + val10 ys"
    using ripple_val [of ?ss 0] len val10_map2_add [OF assms(1)] by simp
  ultimately show ?thesis
    using len ripple_digits [of ?ss 0]
    by (intro exI [of _ "fst ?r"] exI [of _ "snd ?r"]) auto
qed

text \<open>The digits with the final carry, and the step that writes it.\<close>

definition carry_digits :: "int list \<Rightarrow> int \<Rightarrow> int list" where
  "carry_digits zs c = zs @ (if c = 0 then [] else [c])"

lemma val10_carry_digits: "val10 (carry_digits zs c) = val10 zs + 10 ^ length zs * c"
  by (simp add: carry_digits_def val10_append)

lemma rep_carry_out:
  assumes "wei b = length zs" "arr_len b = length zs + length rx" "zs \<noteq> []"
    and "list_all digit_ok zs" "digit_ok c" "rx \<noteq> [] \<or> c = 0"
  shows "\<exists>r rest. (if c \<noteq> 0 then
        c_bind (put_cell (map Some zs @ rx) (wei b) c) (\<lambda>a. Inr (b\<lparr>arr := a, wei := wei b + 1\<rparr>))
      else Inr (b\<lparr>arr := map Some zs @ rx\<rparr>)) = Inr r \<and> rep r (carry_digits zs c) rest \<and>
      arr_len r = arr_len b"
proof (cases "c = 0")
  case True
  then show ?thesis using assms by (auto simp: rep_def carry_digits_def)
next
  case False
  with assms obtain x rx' where "rx = x # rx'" by (cases rx) auto
  then show ?thesis
    using False assms by (auto simp: rep_def carry_digits_def list_update_append)
qed

text \<open>
  The sum when the second number's spare cells are zeroed by the function or already zero
  up to the length of the first.
\<close>

definition spare_zero :: "big_num \<Rightarrow> nat \<Rightarrow> bool" where
  "spare_zero b n \<longleftrightarrow> (\<forall>i. wei b \<le> i \<longrightarrow> i < n \<longrightarrow> arr b ! i = Some 0)"

definition grown_len :: "big_num \<Rightarrow> nat" where
  "grown_len b = (if wei b = arr_len b then 2 * arr_len b else arr_len b)"

lemma rep_grow:
  assumes "rep b ds rest"
  shows "\<exists>rest'. rep (if wei b = arr_len b then extend_big_num b else b) ds rest' \<and> rest' \<noteq> [] \<and>
    arr_len (if wei b = arr_len b then extend_big_num b else b) = grown_len b"
proof (cases "wei b = arr_len b")
  case True
  then have "rep (extend_big_num b) ds (rest @ replicate (length ds + length rest) None)"
    by (intro rep_extend assms)
  with True assms show ?thesis by (auto simp: rep_def grown_len_def extend_big_num_def)
next
  case False
  with assms show ?thesis by (auto simp: rep_def grown_len_def)
qed

lemma rep_pad:
  assumes "rep b2 ds2 r2" "length ds2 \<le> n" "n < m" "m \<le> arr_len b2 \<longrightarrow> spare_zero b2 n"
  shows "\<exists>b rest. (if arr_len b2 < m then
        c_bind (zero_cells (wei b2) m (realloc (arr b2) m)) (\<lambda>a. Inr (b2\<lparr>arr_len := m, arr := a\<rparr>))
      else Inr b2) = Inr b \<and> rep b ds2 (replicate (n - length ds2) (Some 0) @ rest)"
proof (cases "arr_len b2 < m")
  case True
  have re: "realloc (arr b2) m = map Some ds2 @ r2 @ replicate (m - arr_len b2) None"
    using True assms(1) by (simp add: realloc_def rep_def)
  have "zero_cells (wei b2) m (realloc (arr b2) m) =
      Inr (map Some ds2 @ replicate (m - length ds2) (Some 0))"
    using True assms zero_cells_eq [of "wei b2" m "realloc (arr b2) m"] unfolding re
    by (auto simp: rep_def)
  moreover have "replicate (m - length ds2) (Some 0) =
      replicate (n - length ds2) (Some 0) @ replicate (m - n) (Some (0::int))"
    using assms(2,3) by (simp add: replicate_add [symmetric])
  moreover have "rep (b2\<lparr>arr_len := m, arr := map Some ds2 @ replicate (m - length ds2) (Some 0)\<rparr>) ds2
      (replicate (m - length ds2) (Some 0))"
    using assms by (auto simp: rep_def)
  ultimately show ?thesis using True by auto
next
  case False
  let ?k = "n - length ds2"
  have lens: "?k \<le> length r2" using False assms(1-3) by (auto simp: rep_def)
  have "take ?k r2 = replicate ?k (Some 0)"
  proof (rule nth_equalityI)
    fix i assume "i < length (take ?k r2)"
    then have i: "i < ?k" by simp
    have "arr b2 ! (length ds2 + i) = Some 0"
      using False assms i by (simp add: spare_zero_def rep_def)
    then show "take ?k r2 ! i = replicate ?k (Some 0) ! i"
      using i assms(1) by (simp add: rep_def nth_append)
  qed (use lens in simp)
  then have "r2 = replicate ?k (Some 0) @ drop ?k r2"
    by (metis append_take_drop_id)
  then show ?thesis using False assms(1) by (metis (no_types))
qed

lemma add_ordered_correct:
  assumes "rep b1 ds1 r1" "rep b2 ds2 r2" "length ds2 \<le> length ds1"
    and spare: "grown_len b1 \<le> arr_len b2 \<longrightarrow> spare_zero b2 (wei b1)"
  shows "\<exists>res b1' b2' r1' r2' ds rest. add_ordered b1 b2 = Inr (res, b1', b2') \<and> rep res ds rest \<and>
    val10 ds = val10 ds1 + val10 ds2 \<and> rep b1' ds1 r1' \<and> rep b2' ds2 r2'"
proof -
  let ?g = "if wei b1 = arr_len b1 then extend_big_num b1 else b1"
  from rep_grow [OF assms(1)] obtain r1' where g: "rep ?g ds1 r1'" "r1' \<noteq> []" "arr_len ?g = grown_len b1"
    by blast
  have g2: "length ds1 < arr_len ?g" "2 \<le> arr_len ?g"
    using g(1,2) by (cases ds1; cases r1'; auto simp: rep_def)+
  from rep_cpy [OF rep_zero g(1)] obtain res k where res: "big_num_cpy get_zero ?g = Inr res"
    "rep res ds1 (replicate k (Some 0))" "arr_len res = arr_len ?g"
    using g2 by (auto simp: get_zero_def)
  have k: "0 < k" using res(2,3) g2 by (simp add: rep_def)
  have "length ds1 < arr_len res" "arr_len res \<le> arr_len b2 \<longrightarrow> spare_zero b2 (length ds1)"
    using spare res(3) g2 g(3) assms(1) by (simp_all add: rep_def)
  from rep_pad [OF assms(2,3) this] obtain b2a rest2 where
    pad: "(if arr_len b2 < arr_len res then
        c_bind (zero_cells (wei b2) (arr_len res) (realloc (arr b2) (arr_len res)))
          (\<lambda>a. Inr (b2\<lparr>arr_len := arr_len res, arr := a\<rparr>)) else Inr b2) = Inr b2a"
    "rep b2a ds2 (replicate (length ds1 - length ds2) (Some 0) @ rest2)" by blast
  from rep_extend_until [OF pad(2), of "Suc (arr_len res)"] obtain k2 b2b where
    b2b: "extend_until (Suc (arr_len res)) b2a = Inr b2b"
    "rep b2b ds2 ((replicate (length ds1 - length ds2) (Some 0) @ rest2) @ replicate k2 None)" by blast
  let ?ys = "ds2 @ replicate (length ds1 - length ds2) 0"
  have ys: "length ds1 = length ?ys" "list_all digit_ok ds1" "list_all digit_ok ?ys"
    using assms(1-3) by (auto simp: rep_def list_all_iff digit_ok_def)
  have arr2: "arr b2b = map Some ?ys @ rest2 @ replicate k2 None"
    using b2b(2) by (simp add: rep_def)
  have cell: "get_cell (arr b2b) i = Inr (?ys ! i)" if "i < length ds1" for i
    unfolding arr2 by (rule get_cell_rep) (use that ys(1) in simp)
  let ?body = "\<lambda>i (a, next). c_bind (get_cell (arr b2b) i) (\<lambda>y. c_bind (get_cell a i) (\<lambda>x.
                  add_digit a i (y + x + next)))"
  have "\<exists>zs c. for_loop 0 (length ds1) ?body (map Some ds1 @ replicate k (Some 0), 0) =
      Inr (map Some zs @ replicate k (Some 0), c) \<and> length zs = length ds1 \<and>
      list_all digit_ok zs \<and> (c = 0 \<or> c = 1) \<and> val10 zs + 10 ^ length ds1 * c = val10 ds1 + val10 ?ys"
    by (rule add_loop [OF ys, where ry = "rest2 @ replicate k2 None"])
      (simp add: arr2 [symmetric] cell add.commute del: append_assoc map_append)
  then obtain zs c where z: "for_loop 0 (wei res) ?body (arr res, 0) =
      Inr (map Some zs @ replicate k (Some 0), c)" "length zs = length ds1" "list_all digit_ok zs"
      "c = 0 \<or> c = 1" "val10 zs + 10 ^ length ds1 * c = val10 ds1 + val10 ds2"
    using res(2) by (auto simp: rep_def val10_append)
  have "wei res = length zs" "arr_len res = length zs + length (replicate k (Some (0::int)))" "zs \<noteq> []"
      "digit_ok c" "replicate k (Some (0::int)) \<noteq> [] \<or> c = 0"
    using z(2,4) res(2) k by (auto simp: rep_def digit_ok_def)
  from rep_carry_out [OF this(1-3) z(3) this(4,5)] obtain r rest where r: "(if c \<noteq> 0 then
        c_bind (put_cell (map Some zs @ replicate k (Some 0)) (wei res) c)
          (\<lambda>a. Inr (res\<lparr>arr := a, wei := wei res + 1\<rparr>))
      else Inr (res\<lparr>arr := map Some zs @ replicate k (Some 0)\<rparr>)) = Inr r"
      "rep r (carry_digits zs c) rest" by blast
  have fin: "(if c = 1 then
        c_bind (put_cell (map Some zs @ replicate k (Some 0)) (wei res) 1)
          (\<lambda>a. Inr (res\<lparr>arr := a, wei := wei res + 1\<rparr>))
      else Inr (res\<lparr>arr := map Some zs @ replicate k (Some 0)\<rparr>)) = Inr r"
    using r(1) z(4) by auto
  have "add_ordered b1 b2 = Inr (r, ?g, b2b)"
    by (simp only: add_ordered_def Let_def res(1) pad(1) b2b(1) z(1) fin c_bind_simps prod.case)
  moreover have "val10 (carry_digits zs c) = val10 ds1 + val10 ds2"
    using z(2,5) by (simp add: val10_carry_digits)
  ultimately show ?thesis using g(1) b2b(2) r(2) by blast
qed

section \<open>Addition in place\<close>

lemma rep_zeroed:
  assumes "rep b ds rest" "n \<le> arr_len b" "length ds \<le> n"
  shows "zero_cells (wei b) (arr_len b) (arr b) =
    Inr (map Some (ds @ replicate (n - length ds) 0) @ replicate (arr_len b - n) (Some 0))"
proof -
  have "zero_cells (wei b) (arr_len b) (arr b) =
      Inr (map Some ds @ replicate (arr_len b - length ds) (Some 0))"
    using assms(1) zero_cells_eq [of "wei b" "arr_len b" "arr b"] by (auto simp: rep_def)
  also have "replicate (arr_len b - length ds) (Some 0) =
      replicate (n - length ds) (Some 0) @ replicate (arr_len b - n) (Some (0::int))"
    using assms(2,3) by (simp add: replicate_add [symmetric])
  finally show ?thesis by simp
qed

text \<open>
  The carry of \<^verbatim>\<open>big_num_add_0\<close> goes to the cell after the digits of the longer number;
  with no such cell the write is out of bounds.
\<close>

lemma add_0_smaller:
  assumes "rep b1 ds1 r1" "rep b2 ds2 r2"
    and less: "length ds1 < length ds2 \<or> length ds1 = length ds2 \<and> val10 ds1 < val10 ds2"
  shows "big_num_add_0 b1 b2 = Inl OutOfBounds \<and> arr_len b2 = wei b2 \<and>
      10 ^ length ds2 \<le> val10 ds1 + val10 ds2 \<or>
    (\<exists>r ds rest. big_num_add_0 b1 b2 = Inr r \<and> rep r ds rest \<and> val10 ds = val10 ds1 + val10 ds2 \<and>
       (length ds = length ds2 \<or> length ds = Suc (length ds2) \<and> 10 ^ length ds2 \<le> val10 ds))"
proof -
  let ?g = "if wei b1 = arr_len b1 then extend_big_num b1 else b1"
  from rep_grow [OF assms(1)] obtain r1' where g: "rep ?g ds1 r1'" by blast
  have cmp: "big_num_cmp ?g b2 = Inr (- 1)"
  proof (cases "length ds1 = length ds2")
    case True
    with less cmp_same_length [OF g assms(2)] show ?thesis by simp
  next
    case False
    with less g assms(2) show ?thesis by (simp add: big_num_cmp_def rep_def)
  qed
  from rep_extend_until [OF g, of "arr_len b2"] obtain k b where
    b: "extend_until (arr_len b2) ?g = Inr b" "rep b ds1 (r1' @ replicate k None)" "arr_len b2 \<le> arr_len b"
    by blast
  have le: "length ds1 \<le> length ds2" "length ds2 \<le> arr_len b2"
    using less assms(2) by (auto simp: rep_def)
  let ?xs = "ds1 @ replicate (length ds2 - length ds1) 0"
  let ?rx = "replicate (arr_len b - length ds2) (Some 0)"
  have z: "zero_cells (wei b) (arr_len b) (arr b) = Inr (map Some ?xs @ ?rx)"
    using rep_zeroed [OF b(2), of "length ds2"] b(3) le by simp
  have xs: "length ?xs = length ds2" "list_all digit_ok ?xs" "list_all digit_ok ds2" "arr b2 = map Some ds2 @ r2"
    using assms(1,2) le by (auto simp: rep_def list_all_iff digit_ok_def)
  let ?body = "\<lambda>i (a, next). c_bind (get_cell a i) (\<lambda>x. c_bind (get_cell (arr b2) i) (\<lambda>y.
                  add_digit a i (x + y + next)))"
  have "\<exists>zs c. for_loop 0 (length ?xs) ?body (map Some ?xs @ ?rx, 0) = Inr (map Some zs @ ?rx, c) \<and>
      length zs = length ?xs \<and> list_all digit_ok zs \<and> (c = 0 \<or> c = 1) \<and>
      val10 zs + 10 ^ length ?xs * c = val10 ?xs + val10 ds2"
    by (rule add_loop [OF xs(1-3), where ry = r2]) (simp add: xs(4))
  then obtain zs c where zs: "for_loop 0 (wei b2) ?body (map Some ?xs @ ?rx, 0) = Inr (map Some zs @ ?rx, c)"
      "length zs = length ds2" "list_all digit_ok zs" "c = 0 \<or> c = 1"
      "val10 zs + 10 ^ length ds2 * c = val10 ds1 + val10 ds2"
    using assms(2) xs(1) by (auto simp: rep_def val10_append simp del: length_append map_append)
  have w: "(if wei b2 > wei b then wei b2 else wei b) = length ds2"
    using b(2) assms(2) le by (simp add: rep_def)
  have run: "big_num_add_0 b1 b2 = (if c = 1 then
      c_bind (get_cell (map Some zs @ ?rx) (length ds2)) (\<lambda>d.
      c_bind (put_cell (map Some zs @ ?rx) (length ds2) (d + 1)) (\<lambda>a.
        Inr (b\<lparr>arr := a, wei := length ds2 + 1\<rparr>)))
      else Inr (b\<lparr>arr := map Some zs @ ?rx, wei := length ds2\<rparr>))"
    by (simp add: big_num_add_0_def Let_def cmp b(1) z zs(1) w del: map_append split del: if_split cong: if_cong)
  show ?thesis
  proof (cases "c = 1 \<and> arr_len b = length ds2")
    case True
    then have "big_num_add_0 b1 b2 = Inl OutOfBounds"
      using run zs(2) by (simp add: get_cell_def load_out)
    moreover have "10 ^ length ds2 \<le> val10 ds1 + val10 ds2"
      using True zs(5) val10_bounds [OF zs(3)] by simp
    ultimately show ?thesis using True b(3) le assms(2) by (simp add: rep_def)
  next
    case False
    let ?b = "b\<lparr>wei := length ds2\<rparr>"
    have "wei ?b = length zs" "arr_len ?b = length zs + length ?rx" "zs \<noteq> []" "digit_ok c" "?rx \<noteq> [] \<or> c = 0"
      using False zs(2,4) le b(3) assms(2) by (auto simp: rep_def digit_ok_def)
    from rep_carry_out [OF this(1-3) zs(3) this(4,5)] obtain r rest where
      r: "(if c \<noteq> 0 then c_bind (put_cell (map Some zs @ ?rx) (wei ?b) c)
            (\<lambda>a. Inr (?b\<lparr>arr := a, wei := wei ?b + 1\<rparr>)) else Inr (?b\<lparr>arr := map Some zs @ ?rx\<rparr>)) = Inr r"
      "rep r (carry_digits zs c) rest" by blast
    have "get_cell (map Some zs @ ?rx) (length ds2) = Inr 0" if "c = 1"
      using that False b(3) le zs(2) by (intro get_cell_Some) (auto simp: nth_append)
    then have "big_num_add_0 b1 b2 = Inr r"
      using r(1) zs(4) unfolding run by auto
    moreover have "0 \<le> val10 zs" using val10_bounds [OF zs(3)] by simp
    ultimately show ?thesis
      using r(2) zs(2,4,5) by (auto simp: val10_carry_digits carry_digits_def val10_append)
  qed
qed

lemma val10_zero_iff: "list_all digit_ok ds \<Longrightarrow> val10 ds = 0 \<Longrightarrow> ds = replicate (length ds) 0"
proof (induction ds)
  case (Cons d ds)
  then have "0 \<le> d" "0 \<le> val10 ds" using val10_bounds [of ds] by (auto simp: digit_ok_def)
  with Cons show ?case by auto
qed simp

lemma add_0_zeros:
  assumes "rep b1 ds1 r1" "rep b2 (replicate n 0) r2"
  shows "\<exists>r ds rest. big_num_add_0 b1 b2 = Inr r \<and> rep r ds rest \<and> val10 ds = val10 ds1 \<and>
    length ds = max (length ds1) n"
proof (cases "length ds1 < n")
  case True
  have "val10 ds1 < 10 ^ length ds1" using val10_bounds [of ds1] assms(1) by (simp add: rep_def)
  also have "(10::int) ^ length ds1 < 10 ^ n" using True by simp
  finally have "\<not> (10::int) ^ n \<le> val10 ds1" by simp
  then show ?thesis
    using add_0_smaller [OF assms] True by auto
next
  case False
  let ?g = "if wei b1 = arr_len b1 then extend_big_num b1 else b1"
  from rep_grow [OF assms(1)] obtain r1' where g: "rep ?g ds1 r1'" by blast
  have nonneg: "0 \<le> val10 ds1" using val10_bounds [of ds1] assms(1) by (simp add: rep_def)
  have "\<exists>f. big_num_cmp ?g b2 = Inr f \<and> f \<noteq> - 1"
  proof (cases "length ds1 = n")
    case True
    with cmp_same_length [OF g assms(2)] nonneg show ?thesis by (simp add: sgn_if)
  next
    case longer: False
    with False g assms(2) show ?thesis by (simp add: big_num_cmp_def rep_def)
  qed
  then obtain f where f: "big_num_cmp ?g b2 = Inr f" "f \<noteq> - 1" by blast
  let ?xs = "take n ds1" and ?rx = "map Some (drop n ds1) @ r1'"
  have split: "arr ?g = map Some ?xs @ ?rx"
    using g by (simp only: rep_def append_assoc [symmetric] map_append [symmetric] append_take_drop_id)
  have xs: "length ?xs = length (replicate n (0::int))" "list_all digit_ok ?xs"
      "list_all digit_ok (replicate n 0)" "list_all digit_ok (drop n ds1)"
    using False assms by (auto simp: rep_def list_all_iff dest: in_set_takeD in_set_dropD)
  let ?body = "\<lambda>i (a, next). c_bind (get_cell a i) (\<lambda>x. c_bind (get_cell (arr b2) i) (\<lambda>y.
                  add_digit a i (x + y + next)))"
  have "\<exists>zs c. for_loop 0 (length ?xs) ?body (map Some ?xs @ ?rx, 0) = Inr (map Some zs @ ?rx, c) \<and>
      length zs = length ?xs \<and> list_all digit_ok zs \<and> (c = 0 \<or> c = 1) \<and>
      val10 zs + 10 ^ length ?xs * c = val10 ?xs + val10 (replicate n 0)"
    by (rule add_loop [OF xs(1-3), where ry = r2]) (use assms(2) in \<open>simp add: rep_def\<close>)
  then obtain zs c where zs: "for_loop 0 (wei b2) ?body (arr ?g, 0) = Inr (map Some zs @ ?rx, c)"
      "length zs = n" "list_all digit_ok zs" "c = 0 \<or> c = 1" "val10 zs + 10 ^ n * c = val10 ?xs"
    using assms(2) xs(1) by (auto simp: rep_def split)
  have c: "c = 0"
    using zs(4,5) val10_bounds [OF zs(3)] val10_bounds [OF xs(2)] xs(1) by auto
  have w: "(if wei b2 > wei ?g then wei b2 else wei ?g) = length ds1"
    using g assms(2) False by (auto simp: rep_def)
  have "big_num_add_0 b1 b2 = Inr (?g\<lparr>arr := map Some zs @ ?rx, wei := length ds1\<rparr>)"
    by (simp add: big_num_add_0_def Let_def f zs(1) w c del: map_append c_bind_Inr_iff split del: if_split)
  moreover have "rep (?g\<lparr>arr := map Some zs @ ?rx, wei := length ds1\<rparr>) (zs @ drop n ds1) r1'"
    using g zs(2,3) xs(4) False by (auto simp: rep_def)
  moreover have "val10 (zs @ drop n ds1) = val10 ds1"
    using zs(2,5) c val10_append [of ?xs "drop n ds1"] xs(1) by (simp add: val10_append)
  moreover have "length (zs @ drop n ds1) = max (length ds1) n" using zs(2) False by simp
  ultimately show ?thesis by blast
qed

section \<open>Multiplication\<close>

lemma val10_map_mult: "val10 (map ((*) m) ds) = m * val10 ds"
  by (induction ds) (simp_all add: algebra_simps)

lemma multi_dig_step_eq:
  assumes "i < length a" "a ! i = Some d" "digit_ok d" "digit_ok m" "0 \<le> c" "c \<le> 9"
  shows "multi_dig_step m i (a, c) = Inr (a[i := Some ((m * d + c) mod 10)], (m * d + c) div 10)"
proof -
  have dm: "0 \<le> d * m" "d * m \<le> 9 * 9"
    using assms(3,4) by (auto simp: digit_ok_def intro: mult_mono [of d 9 m 9, simplified])
  then have s: "0 \<le> d * m + c" "d * m + c \<le> INT_MAX" "c_int (d * m) = Inr (d * m)"
      "c_int (d * m + c) = Inr (d * m + c)"
    using assms(5,6) by (simp_all add: INT_MAX_def INT_MIN_def)
  show ?thesis
  proof (cases "d * m + c < 10")
    case True
    then show ?thesis
      using assms(1,2) s by (simp add: multi_dig_step_def get_cell_Some mult.commute)
  next
    case False
    then show ?thesis
      using assms(1,2) s c_quot_nonneg [OF s(1,2), of 10] c_rem_nonneg [OF s(1,2), of 10]
      by (simp add: multi_dig_step_def get_cell_Some mult.commute)
  qed
qed

lemma multi_dig_correct:
  assumes "rep b ds r" "digit_ok m" "m \<noteq> 0"
  shows "\<exists>b' ds' rest. big_num_multi_dig b m = Inr b' \<and> rep b' ds' rest \<and> val10 ds' = m * val10 ds \<and>
    arr_len b' = grown_len b \<and> length ds \<le> length ds' \<and> length ds' \<le> Suc (length ds)"
proof -
  let ?g = "if wei b = arr_len b then extend_big_num b else b"
  from rep_grow [OF assms(1)] obtain r' where g: "rep ?g ds r'" "r' \<noteq> []" "arr_len ?g = grown_len b"
    by blast
  let ?ss = "map ((*) m) ds" and ?r = "ripple (map ((*) m) ds) 0"
  have ds: "list_all digit_ok ds" "ds \<noteq> []" using assms(1) by (simp_all add: rep_def)
  have m: "1 \<le> m" "m \<le> 9" using assms(2,3) by (simp_all add: digit_ok_def)
  have b: "list_all (\<lambda>s. 0 \<le> s \<and> s \<le> 9 * m) ?ss"
    using ds(1) m by (auto simp: list_all_iff digit_ok_def)
  have "for_loop 0 (length ?ss) (multi_dig_step m) (arr ?g, 0) =
      Inr (map Some (fst ?r) @ drop (length ?ss) (arr ?g), snd ?r)"
  proof (rule ripple_loop [OF _ m b])
    fix i a' and c :: int
    assume i: "i < length ?ss" and l: "length a' = length (arr ?g)"
      and d: "drop i a' = drop i (arr ?g)" and c: "0 \<le> c" "c \<le> m - 1"
    have "a' ! i = drop i a' ! 0" using i l g(1) by (simp add: rep_def)
    also have "\<dots> = Some (ds ! i)" unfolding d using i g(1) by (simp add: rep_def nth_append)
    finally have "a' ! i = Some (ds ! i)" .
    moreover have "digit_ok (ds ! i)" using i ds(1) by (simp add: list_all_length)
    moreover have "i < length a'" using i l g(1) by (simp add: rep_def)
    ultimately show "multi_dig_step m i (a', c) =
        Inr (a'[i := Some ((?ss ! i + c) mod 10)], (?ss ! i + c) div 10)"
      using i c m assms(2) multi_dig_step_eq [of i a' "ds ! i" m c] by simp
  qed (use g(1) in \<open>simp add: rep_def\<close>)
  then have loop: "for_loop 0 (wei ?g) (multi_dig_step m) (arr ?g, 0) = Inr (map Some (fst ?r) @ r', snd ?r)"
    using g(1) by (simp add: rep_def)
  have carry: "0 \<le> snd ?r" "snd ?r \<le> m - 1" using ripple_carry [OF b, of 0] m by simp_all
  have "wei ?g = length (fst ?r)" "arr_len ?g = length (fst ?r) + length r'"
    using g(1) by (simp_all add: rep_def)
  moreover have "fst ?r \<noteq> []" using ds(2) length_ripple [of ?ss 0] by fastforce
  moreover have "digit_ok (snd ?r)" using carry m by (simp add: digit_ok_def)
  ultimately obtain b' rest where
    b': "(if snd ?r \<noteq> 0 then c_bind (put_cell (map Some (fst ?r) @ r') (wei ?g) (snd ?r))
            (\<lambda>a. Inr (?g\<lparr>arr := a, wei := wei ?g + 1\<rparr>)) else Inr (?g\<lparr>arr := map Some (fst ?r) @ r'\<rparr>)) = Inr b'"
    "rep b' (carry_digits (fst ?r) (snd ?r)) rest" "arr_len b' = arr_len ?g"
    using rep_carry_out [of ?g "fst ?r" r' "snd ?r"] ripple_digits [of ?ss 0] g(2) by blast
  have "big_num_multi_dig b m = Inr b'"
    by (simp only: big_num_multi_dig_def Let_def loop assms(3) b'(1) c_bind_simps prod.case if_False)
  moreover have "val10 (carry_digits (fst ?r) (snd ?r)) = m * val10 ds"
    using ripple_val [of ?ss 0] by (simp add: val10_carry_digits val10_map_mult)
  moreover have "length ds \<le> length (carry_digits (fst ?r) (snd ?r))"
      "length (carry_digits (fst ?r) (snd ?r)) \<le> Suc (length ds)"
    by (simp_all add: carry_digits_def)
  ultimately show ?thesis using b'(2,3) g(3) by (intro exI conjI) auto
qed

lemma multi_dig_zero:
  assumes "rep b ds r"
  shows "\<exists>b' rest. big_num_multi_dig b 0 = Inr b' \<and> rep b' [0] rest \<and> arr_len b' = arr_len b"
proof -
  from assms obtain d ds' where ds: "ds = d # ds'" by (cases ds) (auto simp: rep_def)
  with assms have "rep (b\<lparr>wei := 1, arr := Some 0 # map Some ds' @ r\<rparr>) [0] (map Some ds' @ r)"
    by (simp add: rep_def digit_ok_def)
  moreover have "big_num_multi_dig b 0 = Inr (b\<lparr>wei := 1, arr := Some 0 # map Some ds' @ r\<rparr>)"
    using assms ds by (simp add: big_num_multi_dig_def rep_def)
  ultimately show ?thesis by auto
qed

text \<open>The loop of \<^verbatim>\<open>big_num_append0\<close> moves the digits up by \<open>n\<close> cells.\<close>

lemma shift_loop:
  assumes "length ds + n \<le> length a" "take (length ds) a = map Some ds" "0 < n"
  shows "\<exists>a'. for_down 0 (length ds) (\<lambda>i a. c_bind (load a i) (store a (i + n))) a = Inr a' \<and>
    length a' = length a \<and> drop n (take (length ds + n) a') = map Some ds"
proof -
  let ?I = "\<lambda>i a'. length a' = length a \<and>
    (\<forall>j < length a. a' ! j = (if i + n \<le> j \<and> j < length ds + n then Some (ds ! (j - n)) else a ! j))"
  have "\<exists>a'. for_down 0 (length ds) (\<lambda>i a. c_bind (load a i) (store a (i + n))) a = Inr a' \<and> ?I 0 a'"
  proof (rule for_down_total)
    fix i a'
    assume i: "i < length ds" and I: "?I (Suc i) a'"
    have "take (length ds) a ! i = Some (ds ! i)" using i unfolding assms(2) by simp
    then have "a' ! i = Some (ds ! i)" using I i assms(1) by simp
    then have "c_bind (load a' i) (store a' (i + n)) = Inr (a'[i + n := Some (ds ! i)])"
      using I i assms(1) by (simp add: load_in)
    moreover have "?I i (a'[i + n := Some (ds ! i)])"
      using I i assms(1) by (auto simp: nth_list_update)
    ultimately show "\<exists>s'. c_bind (load a' i) (store a' (i + n)) = Inr s' \<and> ?I i s'" by blast
  qed auto
  then obtain a' where a': "for_down 0 (length ds) (\<lambda>i a. c_bind (load a i) (store a (i + n))) a = Inr a'"
    "?I 0 a'" by blast
  moreover have "drop n (take (length ds + n) a') = map Some ds"
    using a'(2) assms(1) by (intro nth_equalityI) auto
  ultimately show ?thesis by blast
qed

lemma append0_correct:
  assumes "rep b ds r"
  shows "\<exists>b' rest. big_num_append0 b n = Inr b' \<and> rep b' (replicate n 0 @ ds) rest \<and> arr_len b \<le> arr_len b'"
proof (cases "n = 0")
  case True
  with assms show ?thesis by (auto simp: big_num_append0_def)
next
  case False
  from rep_extend_until [OF assms, of "wei b + n"] obtain k e where
    e: "extend_until (wei b + n) b = Inr e" "rep e ds (r @ replicate k None)" "wei b + n \<le> arr_len e" by blast
  have we: "wei e = length ds" "wei b = length ds" "length (arr e) = arr_len e"
    using e(2) assms by (auto simp: rep_def)
  have "length ds + n \<le> length (arr e)" "take (length ds) (arr e) = map Some ds"
    using e(2,3) we by (auto simp: rep_def)
  from shift_loop [OF this] False obtain a' where
    a': "for_down 0 (wei e) (\<lambda>i a. c_bind (load a i) (store a (i + n))) (arr e) = Inr a'"
      "length a' = arr_len e" "drop n (take (length ds + n) a') = map Some ds"
    using we by auto
  have z: "zero_cells 0 n a' = Inr (replicate n (Some 0) @ drop n a')"
    using zero_cells_eq [of 0 n a'] a'(2) e(3) by simp
  have d: "drop n a' = map Some ds @ drop (length ds + n) a'"
    using append_take_drop_id [of "length ds" "drop n a'"] a'(3) by (simp add: drop_take add.commute)
  have "big_num_append0 b n =
      Inr (e\<lparr>arr := map Some (replicate n 0 @ ds) @ drop (length ds + n) a', wei := length ds + n\<rparr>)"
    using False z a'(1) d we e(1) by (simp add: big_num_append0_def)
  moreover have "rep (e\<lparr>arr := map Some (replicate n 0 @ ds) @ drop (length ds + n) a', wei := length ds + n\<rparr>)
      (replicate n 0 @ ds) (drop (length ds + n) a')"
    using e(2,3) a'(2) we by (auto simp: rep_def list_all_iff digit_ok_def)
  moreover have "arr_len b \<le> arr_len e" using e(2) assms by (simp add: rep_def)
  ultimately show ?thesis by auto
qed

text \<open>The multiple of the first factor that a pass of \<^verbatim>\<open>big_num_multi\<close> adds.\<close>

lemma partial_product:
  assumes "rep b1 ds1 r1" "digit_ok w"
  shows "\<exists>nb ds rest. c_bind (big_num_cpy get_zero b1) (\<lambda>newBg.
      c_bind (big_num_multi_dig newBg w) (\<lambda>newBg. big_num_append0 newBg i)) = Inr nb \<and>
    rep nb ds rest \<and> val10 ds = 10 ^ i * (w * val10 ds1) \<and> length ds \<le> length ds1 + i + 1 \<and>
    arr_len b1 \<le> arr_len nb \<and> (w \<noteq> 0 \<longrightarrow> length ds1 + i \<le> length ds)"
proof -
  from rep_cpy [OF rep_zero assms(1)] obtain c k where
    c: "big_num_cpy get_zero b1 = Inr c" "rep c ds1 (replicate k (Some 0))" "arr_len b1 \<le> arr_len c" by auto
  have "\<exists>d ds rest. big_num_multi_dig c w = Inr d \<and> rep d ds rest \<and> val10 ds = w * val10 ds1 \<and>
      arr_len c \<le> arr_len d \<and> length ds \<le> Suc (length ds1) \<and> (w \<noteq> 0 \<longrightarrow> length ds1 \<le> length ds)"
  proof (cases "w = 0")
    case True
    with multi_dig_zero [OF c(2)] obtain d rest where
      "big_num_multi_dig c w = Inr d" "rep d [0] rest" "arr_len d = arr_len c" by auto
    with True show ?thesis by (intro exI [of _ d] exI [of _ "[0]"] exI [of _ rest]) simp
  next
    case False
    from multi_dig_correct [OF c(2) assms(2) False] obtain d ds rest where
      d: "big_num_multi_dig c w = Inr d" "rep d ds rest" "val10 ds = w * val10 ds1"
        "arr_len d = grown_len c" "length ds1 \<le> length ds" "length ds \<le> Suc (length ds1)" by blast
    moreover have "arr_len c \<le> grown_len c" by (simp add: grown_len_def)
    ultimately show ?thesis by auto
  qed
  then obtain d ds rest where d: "big_num_multi_dig c w = Inr d" "rep d ds rest"
      "val10 ds = w * val10 ds1" "arr_len c \<le> arr_len d" "length ds \<le> Suc (length ds1)"
      "w \<noteq> 0 \<longrightarrow> length ds1 \<le> length ds" by blast
  from append0_correct [OF d(2), of i] obtain nb rest' where
    nb: "big_num_append0 d i = Inr nb" "rep nb (replicate i 0 @ ds) rest'" "arr_len d \<le> arr_len nb" by blast
  show ?thesis
    using c(1,3) d nb by (intro exI [of _ nb] exI [of _ "replicate i 0 @ ds"] exI [of _ rest'])
      (auto simp: val10_append)
qed

lemma val10_take_le:
  assumes "list_all digit_ok ds"
  shows "val10 (take n ds) \<le> val10 ds"
proof -
  have "list_all digit_ok (take n ds)" "list_all digit_ok (drop n ds)"
    using assms by (auto simp: list_all_iff dest: in_set_takeD in_set_dropD)
  then have "0 \<le> val10 (drop n ds)" using val10_bounds by blast
  then show ?thesis using val10_append [of "take n ds" "drop n ds"] by simp
qed

lemma multi_step_correct:
  assumes "rep b1 ds1 r1" "rep b2 ds2 r2" "i < length ds2"
    and "rep res ds r" "val10 ds = val10 ds1 * val10 (take i ds2)" "length ds \<le> length ds1 + i"
  shows "multi_step b1 b2 i res = Inl OutOfBounds \<and> arr_len b1 \<le> length ds1 + i \<and>
      10 ^ arr_len b1 \<le> val10 ds1 * val10 ds2 \<or>
    (\<exists>res' ds' rest. multi_step b1 b2 i res = Inr res' \<and> rep res' ds' rest \<and>
       val10 ds' = val10 ds1 * val10 (take (Suc i) ds2) \<and> length ds' \<le> length ds1 + Suc i)"
proof -
  let ?w = "ds2 ! i"
  have ok: "list_all digit_ok ds1" "list_all digit_ok ds2" "digit_ok ?w" "list_all digit_ok ds"
    using assms(1-4) by (auto simp: rep_def list_all_length)
  from partial_product [OF assms(1) ok(3), of i] obtain nb dsn rn where
    nb: "c_bind (big_num_cpy get_zero b1) (\<lambda>newBg.
      c_bind (big_num_multi_dig newBg ?w) (\<lambda>newBg. big_num_append0 newBg i)) = Inr nb"
    "rep nb dsn rn" "val10 dsn = 10 ^ i * (?w * val10 ds1)" "length dsn \<le> length ds1 + i + 1"
    "arr_len b1 \<le> arr_len nb" "?w \<noteq> 0 \<longrightarrow> length ds1 + i \<le> length dsn" by blast
  have run: "multi_step b1 b2 i res = big_num_add_0 res nb"
    using assms(2,3) nb(1) by (auto simp: multi_step_def rep_def)
  note low = val10_take_bounds [OF ok(2) less_imp_le [OF assms(3)]]
  have b1: "0 \<le> val10 ds1" "val10 ds1 < 10 ^ length ds1" using val10_bounds [OF ok(1)] by auto
  have sum: "val10 ds + val10 dsn = val10 ds1 * val10 (take (Suc i) ds2)"
    using assms(3,5) nb(3) by (simp add: take_Suc_conv_app_nth val10_append algebra_simps)
  note lt = val10_take_bounds [OF ok(2) Suc_leI [OF assms(3)]]
  have bound: "val10 ds1 * val10 (take (Suc i) ds2) < 10 ^ (length ds1 + Suc i)"
    using mult_strict_mono' [OF b1(2) lt(2) b1(1) lt(1)] by (simp only: power_add)
  show ?thesis
  proof (cases "val10 dsn = 0")
    case True
    have "rep nb (replicate (length dsn) 0) rn"
      using val10_zero_iff [OF _ True] nb(2) by (metis rep_def)
    from add_0_zeros [OF assms(4) this] obtain r' ds' rest' where
      "big_num_add_0 res nb = Inr r'" "rep r' ds' rest'" "val10 ds' = val10 ds"
      "length ds' = max (length ds) (length dsn)" by blast
    with True sum run nb(4) assms(6) show ?thesis by (intro disjI2) auto
  next
    case False
    then have w: "?w \<noteq> 0" "1 \<le> ?w" "0 < val10 ds1" using nb(3) ok(3) b1(1) by (auto simp: digit_ok_def)
    have "val10 ds < val10 ds1 * 10 ^ i" unfolding assms(5) using low(2) w(3) by simp
    also have "\<dots> \<le> val10 ds1 * 10 ^ i * ?w" using w(2,3) by simp
    also have "\<dots> = val10 dsn" using nb(3) by (simp add: algebra_simps)
    finally have "length ds < length dsn \<or> length ds = length dsn \<and> val10 ds < val10 dsn"
      using nb(6) w(1) assms(6) by auto
    from add_0_smaller [OF assms(4) nb(2) this] show ?thesis
    proof (elim disjE exE conjE)
      assume oob: "big_num_add_0 res nb = Inl OutOfBounds" "arr_len nb = wei nb"
        "10 ^ length dsn \<le> val10 ds + val10 dsn"
      then have "(10::int) ^ length dsn < 10 ^ (length ds1 + Suc i)" using bound sum by simp
      then have short: "length dsn < length ds1 + Suc i" by (simp only: power_strict_increasing_iff)
      have cells: "arr_len b1 \<le> length dsn" using oob(2) nb(2,5) by (simp add: rep_def)
      have "(10::int) ^ arr_len b1 \<le> 10 ^ length dsn" using cells by (simp add: power_increasing)
      also have "\<dots> \<le> val10 ds1 * val10 (take (Suc i) ds2)" using oob(3) sum by simp
      also have "\<dots> \<le> val10 ds1 * val10 ds2"
        using mult_left_mono [OF val10_take_le [OF ok(2)] b1(1)] .
      finally show ?thesis using oob(1) cells short run by simp
    next
      fix r' ds' rest'
      assume ok: "big_num_add_0 res nb = Inr r'" "rep r' ds' rest'" "val10 ds' = val10 ds + val10 dsn"
        and "length ds' = length dsn"
      then show ?thesis using run sum nb(4) by auto
    next
      fix r' ds' rest'
      assume ok: "big_num_add_0 res nb = Inr r'" "rep r' ds' rest'" "val10 ds' = val10 ds + val10 dsn"
        and carry: "length ds' = Suc (length dsn)" "10 ^ length dsn \<le> val10 ds'"
      then have "(10::int) ^ length dsn < 10 ^ (length ds1 + Suc i)" using bound sum by simp
      then have "length dsn < length ds1 + Suc i" by (simp only: power_strict_increasing_iff)
      with ok carry run sum show ?thesis by auto
    qed
  qed
qed

lemma product_base:
  assumes "rep b1 ds1 r1"
  shows "\<exists>ds rest. rep get_zero ds rest \<and> val10 ds = val10 ds1 * val10 (take 0 ds2) \<and>
    length ds \<le> length ds1 + 0"
proof -
  have "1 \<le> length ds1" using assms by (cases ds1) (auto simp: rep_def)
  then have "rep get_zero [0] [None] \<and> val10 [0] = val10 ds1 * val10 (take 0 ds2) \<and>
    length [0::int] \<le> length ds1 + 0" using rep_zero by simp
  then show ?thesis by blast
qed

lemma multi_ordered_result:
  assumes "rep b1 ds1 r1" "rep b2 ds2 r2"
  shows "multi_ordered b1 b2 = Inl OutOfBounds \<and> arr_len b1 < length ds1 + length ds2 \<and>
      10 ^ arr_len b1 \<le> val10 ds1 * val10 ds2 \<or>
    (\<exists>r ds rest. multi_ordered b1 b2 = Inr r \<and> rep r ds rest \<and> val10 ds = val10 ds1 * val10 ds2)"
proof -
  let ?I = "\<lambda>i res. \<exists>ds rest. rep res ds rest \<and> val10 ds = val10 ds1 * val10 (take i ds2) \<and>
    length ds \<le> length ds1 + i"
  let ?E = "\<lambda>i e. e = OutOfBounds \<and> arr_len b1 \<le> length ds1 + i \<and>
    10 ^ arr_len b1 \<le> val10 ds1 * val10 ds2"
  have w: "wei b2 = length ds2" using assms(2) by (simp add: rep_def)
  have "(\<exists>i e. i < wei b2 \<and> for_loop 0 (wei b2) (multi_step b1 b2) get_zero = Inl e \<and> ?E i e) \<or>
    (\<exists>r. for_loop 0 (wei b2) (multi_step b1 b2) get_zero = Inr r \<and> ?I (wei b2) r)"
  proof (rule for_loop_cases [where I = ?I and E = ?E])
    show "?I 0 get_zero" by (rule product_base [OF assms(1)])
  next
    fix i s
    assume i: "i < wei b2" and I: "?I i s"
    then show "(\<exists>e. multi_step b1 b2 i s = Inl e \<and> ?E i e) \<or>
        (\<exists>s'. multi_step b1 b2 i s = Inr s' \<and> ?I (Suc i) s')"
      using multi_step_correct [OF assms] w by metis
  qed simp
  then show ?thesis by (auto simp: multi_ordered_def w)
qed

lemma ten_min_le: "(10::int) ^ m \<le> k \<Longrightarrow> 10 ^ min m n \<le> k"
  by (rule order_trans [OF power_increasing]) auto

lemma big_num_multi_result:
  assumes "wf_num b1" "wf_num b2"
  shows "big_num_multi b1 b2 = Inl OutOfBounds \<and> min (arr_len b1) (arr_len b2) < wei b1 + wei b2 \<and>
      10 ^ min (arr_len b1) (arr_len b2) \<le> num b1 * num b2 \<or>
    (\<exists>r. big_num_multi b1 b2 = Inr r \<and> wf_num r \<and> num r = num b1 * num b2)"
proof -
  obtain ds1 r1 ds2 r2 where r: "rep b1 ds1 r1" "rep b2 ds2 r2" "num b1 = val10 ds1" "num b2 = val10 ds2"
    using assms by (elim wf_numE)
  have w: "wei b1 = length ds1" "wei b2 = length ds2" using r by (simp_all add: rep_def)
  obtain f where f: "big_num_cmp b1 b2 = Inr f" using cmp_order [OF r(1,2)] by blast
  show ?thesis
  proof (cases "f = - 1")
    case True
    have "big_num_multi b1 b2 = multi_ordered b2 b1" using True f by (simp add: big_num_multi_def)
    with multi_ordered_result [OF r(2,1)] r(3,4) w rep_wf ten_min_le [of "arr_len b2" _ "arr_len b1"]
    show ?thesis by (fastforce simp: mult.commute min.commute)
  next
    case False
    then have "big_num_multi b1 b2 = multi_ordered b1 b2" using f by (simp add: big_num_multi_def)
    with multi_ordered_result [OF r(1,2)] r(3,4) w rep_wf ten_min_le [of "arr_len b1" _ "arr_len b2"]
    show ?thesis by fastforce
  qed
qed

section \<open>Conversion from \<open>int\<close>\<close>

lemma my_pow_eq:
  assumes "m \<le> 9"
  shows "my_pow 10 m = Inr (10 ^ m)"
proof (cases "m = 0")
  case False
  have "\<exists>r. for_loop 1 m (\<lambda>i res. c_int (res * 10)) 10 = Inr r \<and> r = 10 ^ m"
  proof (rule for_loop_total)
    fix i and s :: int
    assume i: "1 \<le> i" "i < m" and s: "s = 10 ^ i"
    have "(10::int) ^ Suc i \<le> 10 ^ 9" using i assms by (intro power_increasing) simp_all
    then have le: "0 \<le> s * 10" "s * 10 \<le> 10 ^ 9" unfolding s by simp_all
    have "INT_MIN \<le> s * 10" "s * 10 \<le> INT_MAX"
      using le(1) order_trans [OF le(2), of INT_MAX] by (simp_all add: INT_MIN_def INT_MAX_def)
    then show "\<exists>s'. c_int (s * 10) = Inr s' \<and> s' = 10 ^ Suc i"
      unfolding c_int_Inr by (simp add: s)
  qed (use False in simp_all)
  with False show ?thesis by (simp add: my_pow_def)
qed (simp add: my_pow_def)

lemma my_pow_overflow: "my_pow 10 10 = Inl SignedOverflow"
  by code_simp

lemma count_bits_bounds:
  assumes "0 \<le> m"
  shows "\<exists>d. count_bits n m = n + Suc d \<and> m < 10 ^ Suc d \<and> (d = 0 \<or> 10 ^ d \<le> m)"
  using assms
proof (induction n m rule: count_bits.induct)
  case (1 n m)
  have sd: "m sdiv 10 = m div 10" using "1.prems" by (simp add: sdiv_nonneg)
  show ?case
  proof (cases "m div 10 > 0")
    case True
    with "1.IH" sd obtain d where d: "count_bits (Suc n) (m div 10) = Suc n + Suc d"
      "m div 10 < 10 ^ Suc d" "d = 0 \<or> 10 ^ d \<le> m div 10" by auto
    have "count_bits n m = n + Suc (Suc d)"
      using True d(1) sd by (subst count_bits.simps) simp
    moreover have "m < 10 ^ Suc (Suc d)" using d(2) by simp
    moreover have "10 ^ Suc d \<le> m"
      using d(3) True by (cases d) (auto dest: zdiv_mono1)
    ultimately show ?thesis by blast
  next
    case False
    then have "count_bits n m = n + Suc 0" using sd by (subst count_bits.simps) simp
    moreover have "m < 10 ^ Suc 0" using False by simp
    ultimately show ?thesis by blast
  qed
qed

text \<open>The loop that extracts the digits of \<open>m\<close>.\<close>

definition dig :: "int \<Rightarrow> nat \<Rightarrow> int" where
  "dig m i = m div 10 ^ i mod 10"

lemma val10_dig: "0 \<le> m \<Longrightarrow> val10 (map (dig m) [0..<n]) = m mod 10 ^ n"
  by (induction n) (simp_all add: val10_append dig_def zmod_zmult2_eq mult.commute [of 10])

lemma int_digit_step:
  assumes "0 \<le> m" "m \<le> INT_MAX" "1 \<le> i" "i \<le> 9"
  shows "c_bind (my_pow 10 i) (\<lambda>p. c_bind (c_rem m p) (\<lambda>r. c_bind (my_pow 10 (i - 1)) (\<lambda>q.
      c_bind (c_quot r q) k))) = k (dig m (i - 1))"
proof -
  obtain j where j: "i = Suc j" using assms(3) by (cases i) auto
  have r: "0 \<le> m mod 10 ^ i" "m mod 10 ^ i \<le> INT_MAX"
    using assms(1,2) zmod_le_nonneg_dividend [of m "10 ^ i"] by auto
  have "(10::int) ^ j \<noteq> 0" by simp
  have "m mod (10 ^ j * 10) = 10 ^ j * (m div 10 ^ j mod 10) + m mod 10 ^ j"
    by (rule zmod_zmult2_eq) simp
  then have "m mod 10 ^ i div 10 ^ j = dig m j"
    by (simp add: j dig_def mult.commute [of 10])
  then show ?thesis
    using assms j r by (simp add: my_pow_eq c_rem_nonneg c_quot_nonneg)
qed

lemma int_digits_loop:
  assumes "0 \<le> m" "m \<le> INT_MAX" "n \<le> 9" "n \<le> length a"
  shows "for_loop 1 (Suc n) (\<lambda>i a. c_bind (my_pow 10 i) (\<lambda>p. c_bind (c_rem m p) (\<lambda>r.
      c_bind (my_pow 10 (i - 1)) (\<lambda>q. c_bind (c_quot r q) (\<lambda>dig. put_cell a (i - 1) dig))))) a =
    Inr (map Some (map (dig m) [0..<n]) @ drop n a)"
proof -
  let ?I = "\<lambda>i b. b = map Some (map (dig m) [0..<i - 1]) @ drop (i - 1) a"
  let ?body = "\<lambda>i a. c_bind (my_pow 10 i) (\<lambda>p. c_bind (c_rem m p) (\<lambda>r.
      c_bind (my_pow 10 (i - 1)) (\<lambda>q. c_bind (c_quot r q) (\<lambda>dig. put_cell a (i - 1) dig))))"
  have "\<exists>b. for_loop 1 (Suc n) ?body a = Inr b \<and> ?I (Suc n) b"
  proof (rule for_loop_total)
    fix i b
    assume i: "1 \<le> i" "i < Suc n" and b: "?I i b"
    obtain j where j: "i = Suc j" using i by (cases i) auto
    have "?body i b = put_cell b (i - 1) (dig m (i - 1))"
      by (rule int_digit_step) (use i assms in auto)
    moreover have "b[j := Some (dig m j)] = map Some (map (dig m) [0..<Suc j]) @ drop (Suc j) a"
      using i assms(4) unfolding b j by (simp add: list_update_append Cons_nth_drop_Suc [symmetric])
    moreover have "j < length b" using b i j assms(4) by simp
    ultimately show "\<exists>b'. ?body i b = Inr b' \<and> ?I (Suc i) b'" using j by simp
  qed simp_all
  then show ?thesis by simp
qed

lemma int_to_big_num_small:
  assumes "0 \<le> m" "m < 10 ^ 9"
  shows "\<exists>b. int_to_big_num m = Inr b \<and> wf_num b \<and> normal_num b \<and> num b = m"
proof -
  from count_bits_bounds [OF assms(1), of 0] obtain d where
    d: "count_int_bit m = Suc d" "m < 10 ^ Suc d" "d = 0 \<or> 10 ^ d \<le> m" by (auto simp: count_int_bit_def)
  have "Suc d \<le> 9"
  proof (rule ccontr)
    assume "\<not> Suc d \<le> 9"
    then have "(10::int) ^ 9 \<le> 10 ^ d" by (intro power_increasing) simp_all
    with \<open>\<not> Suc d \<le> 9\<close> d(3) assms(2) show False by auto
  qed
  from rep_extend_until [OF rep_zero, of "Suc d"] obtain k e where
    e: "extend_until (Suc d) get_zero = Inr e" "rep e [0] ([None] @ replicate k None)" "Suc d \<le> arr_len e"
    by blast
  have len: "length (arr e) = arr_len e" using e(2) by (simp add: rep_def)
  have le: "m \<le> INT_MAX" using assms(2) by (simp add: INT_MAX_def)
  let ?b = "e\<lparr>arr := map Some (map (dig m) [0..<Suc d]) @ drop (Suc d) (arr e), wei := Suc d\<rparr>"
  have "Suc d \<le> length (arr e)" using e(3) len by simp
  note loop = int_digits_loop [OF assms(1) le \<open>Suc d \<le> 9\<close> this]
  have run: "int_to_big_num m = Inr ?b"
    by (simp only: int_to_big_num_def Let_def d(1) e(1) loop c_bind_simps)
  have rep: "rep ?b (map (dig m) [0..<Suc d]) (drop (Suc d) (arr e))"
    using e(2,3) by (simp add: rep_def list_all_iff dig_def)
  then have wf: "wf_num ?b" "num ?b = m"
    using rep_wf [OF rep] val10_dig [OF assms(1), of "Suc d"] assms(1) d(2) by simp_all
  moreover have "normal_num ?b" using wf(2) d(3) by (auto simp: normal_num_def)
  ultimately show ?thesis using run by blast
qed

lemma int_to_big_num_overflow:
  assumes "10 ^ 9 \<le> m" "m \<le> INT_MAX"
  shows "int_to_big_num m = Inl SignedOverflow"
proof -
  have m: "0 \<le> m" using assms(1) by simp
  from count_bits_bounds [OF m, of 0] obtain d where
    d: "count_int_bit m = Suc d" "m < 10 ^ Suc d" "d = 0 \<or> 10 ^ d \<le> m" by (auto simp: count_int_bit_def)
  have "d = 9"
  proof (rule antisym)
    show "d \<le> 9"
    proof (rule ccontr)
      assume "\<not> d \<le> 9"
      then have "(10::int) ^ 10 \<le> 10 ^ d" by (intro power_increasing) simp_all
      with \<open>\<not> d \<le> 9\<close> d(3) assms(2) show False by (auto simp: INT_MAX_def)
    qed
    show "9 \<le> d"
    proof (rule ccontr)
      assume "\<not> 9 \<le> d"
      then have "(10::int) ^ Suc d \<le> 10 ^ 9" by (intro power_increasing) simp_all
      with d(2) assms(1) show False by simp
    qed
  qed
  from rep_extend_until [OF rep_zero, of "Suc d"] obtain k e where
    e: "extend_until (Suc d) get_zero = Inr e" "rep e [0] ([None] @ replicate k None)" "Suc d \<le> arr_len e"
    by blast
  have "9 \<le> length (arr e)" using e(2,3) \<open>d = 9\<close> by (simp add: rep_def)
  note loop = int_digits_loop [OF m assms(2) order_refl this]
  have pow: "my_pow 10 (Suc 9) = Inl SignedOverflow" using my_pow_overflow by simp
  have last: "for_loop 1 (Suc (Suc 9)) body a = c_bind (for_loop 1 (Suc 9) body a) (body (Suc 9))"
    for body :: "nat \<Rightarrow> int option list \<Rightarrow> int option list c_result" and a
    by (rule for_loop_Suc) simp
  show ?thesis
    by (simp only: int_to_big_num_def Let_def d(1) e(1) [unfolded \<open>d = 9\<close>] \<open>d = 9\<close> c_bind_simps last loop pow)
qed

section \<open>Strings\<close>

definition decimal :: "string \<Rightarrow> bool" where
  "decimal s \<longleftrightarrow> list_all (\<lambda>c. c \<in> set ''0123456789'') s"

definition char_dig :: "char \<Rightarrow> int" where
  "char_dig c = char_int c - 48"

lemma decimal_chars:
  "list_all (\<lambda>c. digit_ok (char_dig c) \<and> show_int (char_dig c) = [c]) ''0123456789''"
  by code_simp

lemma decimal_char:
  "c \<in> set ''0123456789'' \<Longrightarrow> digit_ok (char_dig c) \<and> show_int (char_dig c) = [c]"
  using decimal_chars unfolding list_all_iff by blast

lemma str_loop:
  assumes "length s \<le> length a"
  shows "for_loop 0 (length s) (\<lambda>i a. put_cell a (length s - i - 1) (char_int (s ! i) - 48)) a =
    Inr (map Some (rev (map char_dig s)) @ drop (length s) a)"
proof -
  let ?n = "length s"
  let ?I = "\<lambda>i b. b = take (?n - i) a @ map Some (rev (map char_dig (take i s))) @ drop ?n a"
  have "\<exists>b. for_loop 0 ?n (\<lambda>i a. put_cell a (?n - i - 1) (char_int (s ! i) - 48)) a = Inr b \<and> ?I ?n b"
  proof (rule for_loop_total [where I = ?I])
    fix i b
    assume i: "i < ?n" and b: "?I i b"
    define k where "k = ?n - Suc i"
    have k: "?n - i = Suc k" "?n - i - 1 = k" "k < length a" using i assms by (simp_all add: k_def)
    have "b[k := Some (char_dig (s ! i))] =
        take k a @ map Some (rev (map char_dig (take (Suc i) s))) @ drop ?n a"
      using k i by (simp add: b take_Suc_conv_app_nth list_update_append)
    moreover have "k < length b" using k i assms by (simp add: b)
    ultimately show "\<exists>b'. put_cell b (?n - i - 1) (char_int (s ! i) - 48) = Inr b' \<and> ?I (Suc i) b'"
      unfolding k(2) char_dig_def [symmetric] by (simp add: k_def)
  qed simp_all
  then show ?thesis by simp
qed

lemma str_to_big_num_rep:
  assumes "s \<noteq> []" "decimal s"
  shows "\<exists>b rest. str_to_big_num s = Inr b \<and> rep b (rev (map char_dig s)) rest"
proof -
  from rep_extend_until [OF rep_zero, of "length s"] obtain k e where
    e: "extend_until (length s) get_zero = Inr e" "rep e [0] ([None] @ replicate k None)"
      "length s \<le> arr_len e" by blast
  then have "length s \<le> length (arr e)" by (simp add: rep_def)
  from str_loop [OF this] have "str_to_big_num s =
      Inr (e\<lparr>arr := map Some (rev (map char_dig s)) @ drop (length s) (arr e), wei := length s\<rparr>)"
    by (simp add: str_to_big_num_def e(1))
  moreover have "rep (e\<lparr>arr := map Some (rev (map char_dig s)) @ drop (length s) (arr e), wei := length s\<rparr>)
      (rev (map char_dig s)) (drop (length s) (arr e))"
    using e(2,3) assms decimal_char by (auto simp: rep_def list_all_iff decimal_def)
  ultimately show ?thesis by blast
qed

lemma print_digits_rep:
  assumes "rep b ds rest"
  shows "print_digits b = Inr (concat (map show_int (rev ds)))"
proof -
  let ?body = "\<lambda>i out. c_bind (get_cell (arr b) i) (\<lambda>d. Inr (out @ show_int d))"
  have "\<exists>out. for_down 0 (length ds) ?body [] = Inr out \<and> out = concat (map show_int (rev (drop 0 ds)))"
  proof (rule for_down_total)
    fix i out
    assume i: "i < length ds" and out: "out = concat (map show_int (rev (drop (Suc i) ds)))"
    have "get_cell (arr b) i = Inr (ds ! i)" using assms i by (simp add: rep_def)
    moreover have "drop i ds = ds ! i # drop (Suc i) ds" using i by (simp add: Cons_nth_drop_Suc)
    ultimately show "\<exists>out'. ?body i out = Inr out' \<and> out' = concat (map show_int (rev (drop i ds)))"
      by (simp add: out)
  qed simp_all
  with assms show ?thesis by (simp add: print_digits_def rep_def)
qed

section \<open>Doubling\<close>

lemma add_0_self_loop:
  assumes "rep b ds rest"
  defines "r \<equiv> ripple (map ((*) 2) ds) 0"
  shows "for_loop 0 (wei b) (\<lambda>i (a, next). c_bind (get_cell a i) (\<lambda>d. add_digit a i (d * 2 + next))) (arr b, 0)
    = Inr (map Some (fst r) @ rest, snd r)"
proof -
  let ?ss = "map ((*) 2) ds"
  let ?body = "\<lambda>i (a, next). c_bind (get_cell a i) (\<lambda>d. add_digit a i (d * 2 + next))"
  have bd: "list_all (\<lambda>s. 0 \<le> s \<and> s \<le> 9 * 2) ?ss"
    using assms(1) by (auto simp: rep_def list_all_iff digit_ok_def)
  have "for_loop 0 (length ?ss) ?body (arr b, 0) = Inr (map Some (fst r) @ drop (length ?ss) (arr b), snd r)"
    unfolding r_def
  proof (rule ripple_loop [where m = 2, OF _ _ _ bd])
    fix i a' and c :: int
    assume i: "i < length ?ss" and l: "length a' = length (arr b)"
      and d: "drop i a' = drop i (arr b)" and c: "0 \<le> c" "c \<le> 2 - 1"
    have "a' ! i = drop i a' ! 0" using i l assms(1) by (simp add: rep_def)
    also have "\<dots> = Some (ds ! i)" unfolding d using i assms(1) by (simp add: rep_def nth_append)
    finally have "get_cell a' i = Inr (ds ! i)" using i l assms(1) by (simp add: rep_def get_cell_Some)
    moreover have "digit_ok (ds ! i)" using i assms(1) by (simp add: rep_def list_all_length)
    ultimately show "?body i (a', c) = Inr (a'[i := Some ((?ss ! i + c) mod 10)], (?ss ! i + c) div 10)"
      using i l c assms(1) by (simp add: add_digit_eq digit_ok_def mult.commute rep_def)
  qed (use assms(1) in \<open>simp_all add: rep_def\<close>)
  with assms(1) show ?thesis by (simp add: rep_def)
qed

text \<open>The top digit decides whether doubling adds a digit.\<close>

lemma top_digit_small:
  assumes "list_all digit_ok ds" "ds \<noteq> []" "last ds < 5"
  shows "2 * val10 ds < 10 ^ length ds"
proof -
  have "val10 ds = val10 (butlast ds @ [last ds])" using assms(2) by simp
  then have "val10 ds = val10 (butlast ds) + 10 ^ (length ds - 1) * last ds"
    unfolding val10_append by simp
  moreover have "list_all digit_ok (butlast ds)"
    using assms(1) by (auto simp: list_all_iff dest: in_set_butlastD)
  then have "val10 (butlast ds) < 10 ^ (length ds - 1)" using val10_bounds by fastforce
  moreover have "(10::int) ^ (length ds - 1) * last ds \<le> 10 ^ (length ds - 1) * 4"
    using assms(3) by (intro mult_left_mono) auto
  moreover have "(10::int) ^ length ds = 10 * 10 ^ (length ds - 1)"
    using assms(2) by (cases ds) simp_all
  ultimately show ?thesis by linarith
qed

lemma add_0_self_rep:
  assumes "rep b ds rest"
  shows "\<exists>b' ds' rest'. big_num_add_0_self b = Inr b' \<and> rep b' ds' rest' \<and> val10 ds' = 2 * val10 ds"
proof -
  have ds: "ds \<noteq> []" "list_all digit_ok ds" "wei b = length ds" using assms by (simp_all add: rep_def)
  have top: "get_cell (arr b) (wei b - 1) = Inr (last ds)"
    using assms ds(1) by (simp add: rep_def last_conv_nth)
  let ?c = "last ds \<ge> 5 \<and> wei b = arr_len b"
  let ?g = "if ?c then extend_big_num b else b"
  obtain r' where g: "rep ?g ds r'" "?c \<longrightarrow> r' \<noteq> []" "\<not> ?c \<longrightarrow> r' = rest"
    using assms rep_extend [OF assms] ds(1) by (cases ?c) auto
  let ?r = "ripple (map ((*) 2) ds) 0"
  note loop = add_0_self_loop [OF g(1)]
  have bd: "list_all (\<lambda>s. 0 \<le> s \<and> s \<le> 9 * 2) (map ((*) 2) ds)"
    using ds(2) by (auto simp: list_all_iff digit_ok_def)
  have carry: "0 \<le> snd ?r" "snd ?r \<le> 1" using ripple_carry [OF bd, of 0] by simp_all
  have val: "val10 (fst ?r) + 10 ^ length ds * snd ?r = 2 * val10 ds"
    using ripple_val [of "map ((*) 2) ds" 0] by (simp add: val10_map_mult)
  have room: "r' \<noteq> [] \<or> snd ?r = 0"
  proof (rule ccontr)
    assume no: "\<not> (r' \<noteq> [] \<or> snd ?r = 0)"
    then have "\<not> ?c" "rest = []" using g by auto
    then have "last ds < 5" using assms by (simp add: rep_def)
    moreover have "snd ?r = 1" using no carry by simp
    ultimately show False using top_digit_small [OF ds(2,1)] val val10_bounds [OF ripple_digits [of "map ((*) 2) ds" 0]]
      by simp
  qed
  have "wei ?g = length (fst ?r)" "arr_len ?g = length (fst ?r) + length r'"
    using g(1) by (simp_all add: rep_def)
  moreover have "fst ?r \<noteq> []" using ds(1) length_ripple [of "map ((*) 2) ds" 0] by fastforce
  moreover have "digit_ok (snd ?r)" using carry by (simp add: digit_ok_def)
  ultimately obtain b' rest' where
    b': "(if snd ?r \<noteq> 0 then c_bind (put_cell (map Some (fst ?r) @ r') (wei ?g) (snd ?r))
            (\<lambda>a. Inr (?g\<lparr>arr := a, wei := wei ?g + 1\<rparr>)) else Inr (?g\<lparr>arr := map Some (fst ?r) @ r'\<rparr>)) = Inr b'"
    "rep b' (carry_digits (fst ?r) (snd ?r)) rest'"
    using rep_carry_out [of ?g "fst ?r" r' "snd ?r"] ripple_digits [of "map ((*) 2) ds" 0] room by blast
  have fin: "(if snd ?r = 1 then c_bind (put_cell (map Some (fst ?r) @ r') (wei ?g) 1)
            (\<lambda>a. Inr (?g\<lparr>arr := a, wei := wei ?g + 1\<rparr>)) else Inr (?g\<lparr>arr := map Some (fst ?r) @ r'\<rparr>)) = Inr b'"
  proof (cases "snd ?r = 0")
    case True
    then show ?thesis using b'(1) by (simp split del: if_split)
  next
    case False
    then have "snd ?r = 1" using carry by simp
    then show ?thesis using b'(1) by (simp split del: if_split)
  qed
  have "1 \<le> wei b" using ds by (cases ds) auto
  then have "big_num_add_0_self b = Inr b'"
    by (simp only: big_num_add_0_self_def c_require_def if_True Let_def top loop fin c_bind_simps prod.case)
  moreover have "val10 (carry_digits (fst ?r) (snd ?r)) = 2 * val10 ds"
    using val by (simp add: val10_carry_digits)
  ultimately show ?thesis using b'(2) by blast
qed

section \<open>The factorial over an interface of checked multiplication\<close>

locale checked_numbers =
  fixes wf :: "'b \<Rightarrow> bool" and val :: "'b \<Rightarrow> int" and conv :: "int \<Rightarrow> 'b c_result"
    and mul :: "'b \<Rightarrow> 'b \<Rightarrow> 'b c_result" and lim :: int
  assumes conv_small: "0 \<le> m \<Longrightarrow> m < lim \<Longrightarrow> \<exists>b. conv m = Inr b \<and> wf b \<and> val b = m"
    and mul_result: "wf a \<Longrightarrow> wf b \<Longrightarrow>
      mul a b = Inl OutOfBounds \<or> (\<exists>r. mul a b = Inr r \<and> wf r \<and> val r = val a * val b)"
begin

lemma product_loop:
  assumes "wf one" "val one = 1" "int n < lim"
  shows "for_loop 1 (Suc n) (\<lambda>i res. c_bind (conv (int i)) (\<lambda>b. mul res b)) one = Inl OutOfBounds \<or>
    (\<exists>r. for_loop 1 (Suc n) (\<lambda>i res. c_bind (conv (int i)) (\<lambda>b. mul res b)) one = Inr r \<and>
       wf r \<and> val r = fact n)"
proof -
  let ?body = "\<lambda>i res. c_bind (conv (int i)) (\<lambda>b. mul res b)"
  let ?I = "\<lambda>i r. wf r \<and> val r = fact (i - 1)"
  have "(\<exists>i e. i < Suc n \<and> for_loop 1 (Suc n) ?body one = Inl e \<and> e = OutOfBounds) \<or>
    (\<exists>r. for_loop 1 (Suc n) ?body one = Inr r \<and> ?I (Suc n) r)"
  proof (rule for_loop_cases [where I = ?I and E = "\<lambda>i e. e = OutOfBounds"])
    fix i r
    assume i: "1 \<le> i" "i < Suc n" and I: "?I i r"
    from conv_small [of "int i"] i assms(3) obtain b where
      b: "conv (int i) = Inr b" "wf b" "val b = int i" by auto
    have "fact i = int i * fact (i - 1)" using i by (metis fact_num_eq_if not_one_le_zero of_nat_fact of_nat_mult)
    with mul_result [of r b] b I show "(\<exists>e. ?body i r = Inl e \<and> e = OutOfBounds) \<or>
        (\<exists>s'. ?body i r = Inr s' \<and> ?I (Suc i) s')"
      by (auto simp: mult.commute)
  qed (use assms in simp_all)
  then show ?thesis by auto
qed

end

interpretation big: checked_numbers wf_num num int_to_big_num big_num_multi "10 ^ 9"
  using int_to_big_num_small big_num_multi_result by unfold_locales blast+

section \<open>Properties\<close>

text \<open>
  Converting an \<^verbatim>\<open>int\<close> below \<open>10 ^ 9\<close> yields a well-formed number without leading
  zeros that stands for it; from \<open>10 ^ 9\<close> on, \<^verbatim>\<open>my_pow (10, 10)\<close> overflows.
\<close>

theorem int_to_big_num_correct:
  assumes "0 \<le> m" "m \<le> INT_MAX"
  shows "if m < 10 ^ 9
    then \<exists>b. int_to_big_num m = Inr b \<and> wf_num b \<and> normal_num b \<and> num b = m
    else int_to_big_num m = Inl SignedOverflow"
  using assms int_to_big_num_small int_to_big_num_overflow by simp

theorem int_to_big_num_correct_witness:
  "int_to_big_num 1000000000 = Inl SignedOverflow \<and> (\<exists>b. int_to_big_num 95599 = Inr b \<and> num b = 95599)"
  using int_to_big_num_correct [of 1000000000] int_to_big_num_correct [of 95599] by (auto simp: INT_MAX_def)

text \<open>
  A decimal string read by \<^verbatim>\<open>str_to_big_num\<close> is a well-formed number, and
  \<^verbatim>\<open>print_bit_num_ln\<close> prints the same string with a newline.
\<close>

theorem str_print_round_trip:
  assumes "s \<noteq> []" "decimal s"
  shows "\<exists>b. str_to_big_num s = Inr b \<and> wf_num b \<and> print_bit_num_ln b = Inr (s @ [CHR 0x0A])"
proof -
  from str_to_big_num_rep [OF assms] obtain b rest where
    b: "str_to_big_num s = Inr b" "rep b (rev (map char_dig s)) rest" by blast
  have "concat (map show_int (map char_dig s)) = s"
    using assms(2) decimal_char by (induction s) (auto simp: decimal_def)
  with print_digits_rep [OF b(2)] have "print_bit_num_ln b = Inr (s @ [CHR 0x0A])"
    by (simp add: print_bit_num_ln_def comp_def)
  with b rep_wf show ?thesis by blast
qed

theorem str_print_round_trip_witness:
  "\<exists>b. str_to_big_num ''8717829120915684686898899879870'' = Inr b \<and>
     print_bit_num_ln b = Inr (''8717829120915684686898899879870'' @ [CHR 0x0A])"
  using str_print_round_trip [of "''8717829120915684686898899879870''"] by (auto simp: decimal_def)

text \<open>
  The function \<^verbatim>\<open>big_num_cmp\<close> of two numbers without leading zeros is the sign of their difference.
\<close>

theorem big_num_cmp_correct:
  assumes "wf_num b1" "wf_num b2" "normal_num b1" "normal_num b2"
  shows "big_num_cmp b1 b2 = Inr (sgn (num b1 - num b2))"
  by (rule cmp_normal [OF assms])

definition sample :: "int list \<Rightarrow> int option list \<Rightarrow> big_num" where
  "sample ds rest = \<lparr>arr = map Some ds @ rest, arr_len = length ds + length rest, wei = length ds\<rparr>"

theorem big_num_cmp_correct_witness:
  "big_num_cmp (sample [9, 9] []) (sample [0, 0, 1] [None]) = Inr (- 1)"
proof -
  have "wf_num (sample [9, 9] [])" "wf_num (sample [0, 0, 1] [None])" by code_simp+
  moreover have "normal_num (sample [9, 9] [])" "normal_num (sample [0, 0, 1] [None])"
    "sgn (num (sample [9, 9] []) - num (sample [0, 0, 1] [None])) = - 1" by code_simp+
  ultimately show ?thesis using big_num_cmp_correct by metis
qed

definition add_ready :: "big_num \<Rightarrow> big_num \<Rightarrow> bool" where
  "add_ready b1 b2 \<longleftrightarrow> (grown_len b1 \<le> arr_len b2 \<longrightarrow> spare_zero b2 (wei b1))"

text \<open>
  C19: \<^verbatim>\<open>big_num_add\<close> returns the sum and leaves both arguments standing for the same
  numbers, provided the spare cells of the shorter argument, which it may read, hold zeros
  unless the function itself clears them.
\<close>

theorem big_num_add_correct:
  assumes "wf_num b1" "wf_num b2" "add_ready b1 b2" "add_ready b2 b1"
  shows "\<exists>res b1' b2'. big_num_add b1 b2 = Inr (res, b1', b2') \<and> wf_num res \<and>
    num res = num b1 + num b2 \<and> wf_num b1' \<and> num b1' = num b1 \<and> wf_num b2' \<and> num b2' = num b2"
proof -
  obtain ds1 r1 ds2 r2 where r: "rep b1 ds1 r1" "rep b2 ds2 r2" "num b1 = val10 ds1" "num b2 = val10 ds2"
    using assms(1,2) by (elim wf_numE)
  obtain f where f: "big_num_cmp b1 b2 = Inr f" "if f = - 1 then length ds1 \<le> length ds2 else length ds2 \<le> length ds1"
    using cmp_order [OF r(1,2)] by blast
  show ?thesis
  proof (cases "f = - 1")
    case True
    with f add_ordered_correct [OF r(2,1)] assms(4) obtain res a b ra rb ds rest where
      "add_ordered b2 b1 = Inr (res, a, b)" "rep res ds rest" "val10 ds = val10 ds2 + val10 ds1"
      "rep a ds2 ra" "rep b ds1 rb" by (auto simp: add_ready_def)
    with True f(1) r(3,4) show ?thesis by (auto simp: big_num_add_def dest!: rep_wf)
  next
    case False
    with f add_ordered_correct [OF r(1,2)] assms(3) obtain res a b ra rb ds rest where
      "add_ordered b1 b2 = Inr (res, a, b)" "rep res ds rest" "val10 ds = val10 ds1 + val10 ds2"
      "rep a ds1 ra" "rep b ds2 rb" by (auto simp: add_ready_def)
    with False f(1) r(3,4) show ?thesis by (auto simp: big_num_add_def dest!: rep_wf)
  qed
qed

theorem big_num_add_correct_witness:
  "\<exists>res b1' b2'. big_num_add (sample [1] [None]) (sample [9, 9] []) = Inr (res, b1', b2') \<and> num res = 100"
proof -
  have "wf_num (sample [1] [None])" "wf_num (sample [9, 9] [])" by code_simp+
  moreover have "add_ready (sample [1] [None]) (sample [9, 9] [])" "add_ready (sample [9, 9] []) (sample [1] [None])"
    by (simp_all add: add_ready_def grown_len_def spare_zero_def sample_def)
  moreover have "num (sample [1] [None]) + num (sample [9, 9] []) = 100" by code_simp
  ultimately show ?thesis using big_num_add_correct by metis
qed

text \<open>
  C3: \<^verbatim>\<open>big_num_multi\<close> of two well-formed numbers either returns their product or writes
  its carry one cell past an array. The latter happens only when the product has more
  digits than one of the two arguments has cells (\<open>10 ^ n \<le> product\<close> for the smaller cell
  count \<open>n\<close>), and only when that cell count is below the sum of the two digit counts.
\<close>

theorem big_num_multi_correct:
  assumes "wf_num b1" "wf_num b2"
  shows "big_num_multi b1 b2 = Inl OutOfBounds \<and> min (arr_len b1) (arr_len b2) < wei b1 + wei b2 \<and>
      10 ^ min (arr_len b1) (arr_len b2) \<le> num b1 * num b2 \<or>
    (\<exists>r. big_num_multi b1 b2 = Inr r \<and> wf_num r \<and> num r = num b1 * num b2)"
  by (rule big_num_multi_result [OF assms])

theorem big_num_multi_correct_witness:
  "\<exists>r. big_num_multi (sample [5, 2] [None, None]) (sample [4] [None, None]) = Inr r \<and> num r = 100"
proof -
  have "wf_num (sample [5, 2] [None, None])" "wf_num (sample [4] [None, None])" by code_simp+
  from big_num_multi_correct [OF this] have
    "\<exists>r. big_num_multi (sample [5, 2] [None, None]) (sample [4] [None, None]) = Inr r \<and>
       num r = num (sample [5, 2] [None, None]) * num (sample [4] [None, None])"
    by (auto simp: sample_def)
  moreover have "num (sample [5, 2] [None, None]) * num (sample [4] [None, None]) = 100" by code_simp
  ultimately show ?thesis by simp
qed

text \<open>
  Multiplying in place by a one-digit number is correct for every well-formed number,
  and so are appending zeros and doubling.
\<close>

theorem big_num_in_place_correct:
  assumes "wf_num b" "0 \<le> m" "m \<le> 9"
  shows "\<exists>p s d. big_num_multi_dig b m = Inr p \<and> wf_num p \<and> num p = m * num b \<and>
    big_num_append0 b n = Inr s \<and> wf_num s \<and> num s = 10 ^ n * num b \<and>
    big_num_add_0_self b = Inr d \<and> wf_num d \<and> num d = 2 * num b"
proof -
  obtain ds r where r: "rep b ds r" "num b = val10 ds" using assms(1) by (elim wf_numE)
  have "\<exists>p. big_num_multi_dig b m = Inr p \<and> wf_num p \<and> num p = m * num b"
  proof (cases "m = 0")
    case True
    with multi_dig_zero [OF r(1)] show ?thesis by (auto dest!: rep_wf)
  next
    case False
    with multi_dig_correct [OF r(1) _ False] assms(2,3) r(2) show ?thesis
      by (auto simp: digit_ok_def dest!: rep_wf)
  qed
  moreover have "\<exists>s. big_num_append0 b n = Inr s \<and> wf_num s \<and> num s = 10 ^ n * num b"
    using append0_correct [OF r(1), of n] r(2) by (auto simp: val10_append dest!: rep_wf)
  moreover have "\<exists>d. big_num_add_0_self b = Inr d \<and> wf_num d \<and> num d = 2 * num b"
    using add_0_self_rep [OF r(1)] r(2) by (auto dest!: rep_wf)
  ultimately show ?thesis by blast
qed

theorem big_num_in_place_correct_witness:
  "\<exists>p s d. big_num_multi_dig (sample [5, 2] []) 6 = Inr p \<and> num p = 150 \<and>
    big_num_append0 (sample [5, 2] []) 3 = Inr s \<and> num s = 25000 \<and>
    big_num_add_0_self (sample [5, 2] []) = Inr d \<and> num d = 50"
proof -
  have "wf_num (sample [5, 2] [])" "num (sample [5, 2] []) = 25" by code_simp+
  with big_num_in_place_correct [of "sample [5, 2] []" 6 3] show ?thesis by auto
qed

text \<open>
  C27: \<^verbatim>\<open>factorial\<close> never returns a wrong number: for an argument below \<open>10 ^ 9\<close> it
  returns \<open>n!\<close> or faults in a multiplication.
\<close>

theorem factorial_correct:
  assumes "n < 10 ^ 9"
  shows "factorial n = Inl OutOfBounds \<or> (\<exists>r. factorial n = Inr r \<and> wf_num r \<and> num r = fact n)"
proof -
  let ?one = "get_zero\<lparr>arr := [Some 1, None]\<rparr>"
  have one: "wf_num ?one" "num ?one = 1" by code_simp+
  have "int n < 10 ^ 9" using assms by simp
  from big.product_loop [OF one this] show ?thesis
    by (simp add: factorial_def get_zero_def put_cell_def store_def)
qed

theorem factorial_correct_witness: "\<exists>r. factorial 5 = Inr r \<and> num r = 120"
proof -
  have "factorial 5 \<noteq> Inl OutOfBounds" by code_simp
  with factorial_correct [of 5] show ?thesis by (auto simp: fact_numeral)
qed

text \<open>
  Three defects.  The product of 999 and 111 writes its carry past the heap block; the
  sum of 999999 and 12345 reads a cell that \<^verbatim>\<open>realloc\<close> left indeterminate; and
  \<^verbatim>\<open>big_num_add_0\<close> does not propagate a carry past the shorter number: 999 + 1 adds it to
  the cell after the longer number.
\<close>

theorem big_num_defects:
  "c_bind (int_to_big_num 999) (\<lambda>a. c_bind (int_to_big_num 111) (big_num_multi a)) = Inl OutOfBounds \<and>
   c_bind (int_to_big_num 999999) (\<lambda>a. c_bind (int_to_big_num 12345) (big_num_add a)) = Inl Indeterminate \<and>
   c_bind (int_to_big_num 999) (\<lambda>a. c_bind (int_to_big_num 1) (big_num_add_0 a)) = Inl Indeterminate \<and>
   c_bind (big_num_add_0 (sample [9, 9, 9] [Some 0]) (sample [1] [])) print_bit_num_ln =
     Inr (''1990'' @ [CHR 0x0A])"
  by (intro conjI; code_simp)

end
