(* ===== verification/Sorting.thy ===== *)
theory Sorting
  imports C_Prelude "HOL-Library.Multiset"
begin

text \<open>
  The sorting routines of \<^verbatim>\<open>src/cpp/algorithm/algorithm.c\<close> and their random numbers
  (\<^verbatim>\<open>src/cpp/random_xid.c\<close> has the same generator).  \<open>sort_state\<close> holds the array
  \<^verbatim>\<open>a\<close>, the global counter \<^verbatim>\<open>round\<close> and what has been printed.  The system calls of
  \<open>random_xid\<close> answer from a record of what the system does, and \<^verbatim>\<open>rand\<close> is a sequence
  that depends on the seed.
\<close>

section \<open>Random numbers\<close>

text \<open>
  The replies of the system: the descriptor of \<^verbatim>\<open>open\<close>, the result of \<^verbatim>\<open>read\<close> and the
  eight bytes it would fill, the text of \<^verbatim>\<open>errno\<close>, the time, and the sequence of
  \<^verbatim>\<open>rand\<close> for each seed.
\<close>

record rng_env =
  open_fd :: int
  read_ret :: int
  read_seed :: "64 word"
  err_text :: string
  now :: "64 word"
  rand_seq :: "32 word \<Rightarrow> nat \<Rightarrow> nat"

record rng_state =
  initialized :: nat
  seeded :: "32 word"
  drawn :: nat
  closed :: "int list"
  rng_out :: string

text \<open>A \<^verbatim>\<open>read\<close> of fewer than eight bytes leaves part of \<^verbatim>\<open>seed\<close> indeterminate.\<close>

definition random_xid :: "rng_env \<Rightarrow> rng_state \<Rightarrow> (nat \<times> rng_state) c_result" where
  "random_xid env st =
     c_bind (if initialized st = 0 then
               let bad = (open_fd env < 0 \<or> read_ret env < 0);
                   st1 = (if bad then st\<lparr>rng_out := rng_out st @
                            ''Could not load seed from /dev/urandom: '' @ err_text env\<rparr> else st);
                   st2 = (if open_fd env \<ge> 0 then st1\<lparr>closed := closed st1 @ [open_fd env]\<rparr> else st1)
               in c_bind (if bad then Inr (now env)
                          else c_bind (c_require (8 \<le> read_ret env) Indeterminate) (\<lambda>_. Inr (read_seed env)))
                    (\<lambda>seed. Inr (st2\<lparr>seeded := ucast seed, drawn := 0, initialized := Suc (initialized st2)\<rparr>))
             else Inr st) (\<lambda>st.
       Inr (rand_seq env (seeded st) (drawn st), st\<lparr>drawn := Suc (drawn st)\<rparr>))"

section \<open>Printing\<close>

record sort_state =
  cells :: "int list"
  rounds :: nat
  printed :: string

text \<open>\<^verbatim>\<open>%3d\<close>\<close>

definition pad3 :: "string \<Rightarrow> string" where
  "pad3 s = pad_with (CHR '' '') 3 s"

definition printa :: "int list \<Rightarrow> nat \<Rightarrow> string c_result" where
  "printa p l =
     c_bind (for_loop 0 l (\<lambda>i out.
       c_bind (load p i) (\<lambda>v.
         Inr (out @ pad3 (show_int v) @ '' '' @ (if (i + 1) mod 10 = 0 then [CHR 0x0A] else [])))) [])
       (\<lambda>out. Inr (out @ [CHR 0x0A]))"

definition print_line :: "string \<Rightarrow> sort_state \<Rightarrow> sort_state" where
  "print_line s st = st\<lparr>printed := printed st @ s\<rparr>"

definition print_array :: "nat \<Rightarrow> sort_state \<Rightarrow> sort_state c_result" where
  "print_array l st = c_bind (printa (cells st) l) (\<lambda>s. Inr (print_line s st))"

section \<open>The exchange sort\<close>

definition popup_step :: "nat \<Rightarrow> nat \<Rightarrow> sort_state \<Rightarrow> sort_state c_result" where
  "popup_step i j st =
     c_bind (load (cells st) i) (\<lambda>x. c_bind (load (cells st) j) (\<lambda>y.
     let st = st\<lparr>rounds := Suc (rounds st)\<rparr> in
     if x < y then
       c_bind (store (cells st) i y) (\<lambda>a. c_bind (store a j x) (\<lambda>a. Inr (st\<lparr>cells := a\<rparr>)))
     else Inr st))"

definition popup_loops :: "nat \<Rightarrow> sort_state \<Rightarrow> sort_state c_result" where
  "popup_loops l st = for_loop 0 l (\<lambda>i. for_loop i l (popup_step i)) st"

text \<open>Ten draws fill the array of both sorts.\<close>

definition fill_random :: "rng_env \<Rightarrow> rng_state \<Rightarrow> (int list \<times> rng_state) c_result" where
  "fill_random env rs =
     for_loop 0 10 (\<lambda>i (a, rs). c_bind (random_xid env rs) (\<lambda>(x, rs). Inr (a @ [int (x mod 10)], rs))) ([], rs)"

definition popup :: "rng_env \<Rightarrow> rng_state \<Rightarrow> nat \<Rightarrow> (sort_state \<times> rng_state) c_result" where
  "popup env rs r0 =
     c_bind (fill_random env rs) (\<lambda>(a, rs).
     let st = \<lparr>cells = a, rounds = r0, printed = ''popup sort.'' @ [CHR 0x0A] @ ''sort 10 random number'' @ [CHR 0x0A]\<rparr> in
     c_bind (print_array 10 st) (\<lambda>st.
     c_bind (popup_loops 10 st) (\<lambda>st.
     c_bind (print_array 10 (print_line ([CHR 0x0A] @ ''run '' @ show_nat (rounds st) @ '' round, after popup:'' @ [CHR 0x0A]) st))
       (\<lambda>st. Inr (st, rs)))))"

section \<open>Quicksort\<close>

text \<open>Indices are \<^verbatim>\<open>int\<close>: the left call gets \<^verbatim>\<open>i - 1\<close>, which may be \<open>-1\<close>.\<close>

definition load_at :: "int list \<Rightarrow> int \<Rightarrow> int c_result" where
  "load_at a i = (if i < 0 then Inl OutOfBounds else load a (nat i))"

definition store_at :: "int list \<Rightarrow> int \<Rightarrow> int \<Rightarrow> int list c_result" where
  "store_at a i v = (if i < 0 then Inl OutOfBounds else store a (nat i) v)"

text \<open>The two inner loops; the last argument is \<^verbatim>\<open>round\<close>.\<close>

function scan_down :: "int list \<Rightarrow> int \<Rightarrow> int \<Rightarrow> int \<Rightarrow> nat \<Rightarrow> (int \<times> nat) c_result" where
  "scan_down a key i j r =
     (if i < j then c_bind (load_at a j) (\<lambda>x.
        if key \<le> x then scan_down a key i (j - 1) (Suc r) else Inr (j, r))
      else Inr (j, r))"
  by pat_completeness auto
termination by (relation "measure (\<lambda>(a, key, i, j, r). nat (j - i))") auto

function scan_up :: "int list \<Rightarrow> int \<Rightarrow> int \<Rightarrow> int \<Rightarrow> nat \<Rightarrow> (int \<times> nat) c_result" where
  "scan_up a key i j r =
     (if i < j then c_bind (load_at a i) (\<lambda>x.
        if key \<ge> x then scan_up a key (i + 1) j (Suc r) else Inr (i, r))
      else Inr (i, r))"
  by pat_completeness auto
termination by (relation "measure (\<lambda>(a, key, i, j, r). nat (j - i))") auto

declare scan_down.simps [simp del] scan_up.simps [simp del]

lemma load_at_Inr: "load_at a i = Inr v \<longleftrightarrow> 0 \<le> i \<and> i < int (length a) \<and> v = a ! nat i"
  by (auto simp: load_at_def nat_less_iff)

lemma store_at_Inr: "store_at a i v = Inr a' \<longleftrightarrow> 0 \<le> i \<and> i < int (length a) \<and> a' = a[nat i := v]"
  by (auto simp: store_at_def nat_less_iff)

lemma scan_down_result:
  "scan_down a key i j r = Inr (j', r') \<Longrightarrow> i \<le> j \<Longrightarrow>
     i \<le> j' \<and> j' \<le> j \<and> (\<forall>k. j' < k \<and> k \<le> j \<longrightarrow> key \<le> a ! nat k) \<and> (i < j' \<longrightarrow> a ! nat j' < key)"
proof (induction a key i j r rule: scan_down.induct)
  case (1 a key i j r)
  show ?case
  proof (cases "i < j \<and> key \<le> a ! nat j")
    case True
    with "1.prems" have l: "load_at a j = Inr (a ! nat j)" and rec: "scan_down a key i (j - 1) (Suc r) = Inr (j', r')"
      by (subst (asm) scan_down.simps, auto simp: load_at_Inr)+
    have "i \<le> j' \<and> j' \<le> j - 1 \<and> (\<forall>k. j' < k \<and> k \<le> j - 1 \<longrightarrow> key \<le> a ! nat k) \<and> (i < j' \<longrightarrow> a ! nat j' < key)"
      using "1.IH" [OF _ l] True rec by simp
    moreover have "k \<le> j - 1 \<or> k = j" if "k \<le> j" for k using that by linarith
    ultimately show ?thesis using True by fastforce
  next
    case False
    with "1.prems" have "j' = j"
      by (subst (asm) scan_down.simps) (auto simp: load_at_Inr split: if_splits)
    with False "1.prems" show ?thesis by auto
  qed
qed

lemma scan_up_result:
  "scan_up a key i j r = Inr (i', r') \<Longrightarrow> i \<le> j \<Longrightarrow>
     i \<le> i' \<and> i' \<le> j \<and> (\<forall>k. i \<le> k \<and> k < i' \<longrightarrow> a ! nat k \<le> key) \<and> (i' < j \<longrightarrow> key < a ! nat i')"
proof (induction a key i j r rule: scan_up.induct)
  case (1 a key i j r)
  show ?case
  proof (cases "i < j \<and> a ! nat i \<le> key")
    case True
    with "1.prems" have l: "load_at a i = Inr (a ! nat i)" and rec: "scan_up a key (i + 1) j (Suc r) = Inr (i', r')"
      by (subst (asm) scan_up.simps, auto simp: load_at_Inr)+
    have "i + 1 \<le> i' \<and> i' \<le> j \<and> (\<forall>k. i + 1 \<le> k \<and> k < i' \<longrightarrow> a ! nat k \<le> key) \<and> (i' < j \<longrightarrow> key < a ! nat i')"
      using "1.IH" [OF _ l] True rec by simp
    moreover have "i + 1 \<le> k \<or> k = i" if "i \<le> k" for k using that by linarith
    ultimately show ?thesis using True by fastforce
  next
    case False
    with "1.prems" have "i' = i"
      by (subst (asm) scan_up.simps) (auto simp: load_at_Inr split: if_splits)
    with False "1.prems" show ?thesis by auto
  qed
qed

text \<open>The outer loop: the array, the final \<^verbatim>\<open>i\<close> and the counter.\<close>

function partition_loop :: "int list \<Rightarrow> int \<Rightarrow> int \<Rightarrow> int \<Rightarrow> nat \<Rightarrow> (int list \<times> int \<times> nat) c_result" where
  "partition_loop a key i j r =
     (if i < j then
        c_bind (scan_down a key i j r) (\<lambda>(j', r).
        c_bind (c_bind (load_at a j') (store_at a i)) (\<lambda>a.
        c_bind (scan_up a key i j' r) (\<lambda>(i', r).
        c_bind (c_bind (load_at a i') (store_at a j')) (\<lambda>a.
          partition_loop a key i' j' r))))
      else Inr (a, i, r))"
  by pat_completeness auto
termination
proof (relation "measure (\<lambda>(a, key, i, j, r). nat (j - i))")
  fix a :: "int list" and key i j :: int and r p1 j' r1 a1 p2 i' r2 a2
  assume ij: "i < j" and d: "scan_down a key i j r = Inr p1" and p1: "(j', r1) = p1"
    and s1: "c_bind (load_at a j') (store_at a i) = Inr a1"
    and u: "scan_up a1 key i j' r1 = Inr p2" and p2: "(i', r2) = p2"
  have down: "i \<le> j'" "j' \<le> j" "i < j' \<longrightarrow> a ! nat j' < key"
    using scan_down_result [of a key i j r j' r1] d p1 ij by auto
  have up: "i \<le> i'" "i' \<le> j'" "i' < j' \<longrightarrow> key < a1 ! nat i'"
    using scan_up_result [of a1 key i j' r1 i' r2] u p2 down by auto
  have "j' - i' < j - i"
  proof (cases "i < j'")
    case True
    from s1 have "a1 ! nat i = a ! nat j'" by (auto simp: load_at_Inr store_at_Inr nat_less_iff)
    with True down(3) up have "i' \<noteq> i" by auto
    with up down show ?thesis by linarith
  next
    case False
    with up down ij show ?thesis by linarith
  qed
  with up ij show "((a2, key, i', j', r2), a, key, i, j, r) \<in> measure (\<lambda>(a, key, i, j, r). nat (j - i))"
    by auto
qed simp

declare partition_loop.simps [simp del]

lemma partition_loop_bounds:
  "partition_loop a key i j r = Inr (a', p, r') \<Longrightarrow> i \<le> j \<Longrightarrow> i \<le> p \<and> p \<le> j"
proof (induction a key i j r rule: partition_loop.induct)
  case (1 a key i j r)
  show ?case
  proof (cases "i < j")
    case True
    note run = "1.prems"(1) [unfolded partition_loop.simps [of a key i j r] if_P [OF True]]
    from run obtain j' r1 a1 i' r2 a2 where
      st: "scan_down a key i j r = Inr (j', r1)" "c_bind (load_at a j') (store_at a i) = Inr a1"
        "scan_up a1 key i j' r1 = Inr (i', r2)" "c_bind (load_at a1 i') (store_at a1 j') = Inr a2"
        "partition_loop a2 key i' j' r2 = Inr (a', p, r')"
      by auto
    have "i \<le> j'" "j' \<le> j" using scan_down_result [OF st(1)] True by auto
    moreover have "i \<le> i'" "i' \<le> j'" using scan_up_result [OF st(3)] \<open>i \<le> j'\<close> by auto
    ultimately show ?thesis using "1.IH" [OF True st(1) refl st(2,3) refl st(4,5)] by linarith
  next
    case False
    with "1.prems" show ?thesis by (subst (asm) partition_loop.simps) auto
  qed
qed

function q_sort :: "sort_state \<Rightarrow> int \<Rightarrow> int \<Rightarrow> sort_state c_result" where
  "q_sort st left right =
     (if left \<ge> right then Inr st
      else
        c_bind (load_at (cells st) left) (\<lambda>key.
        c_bind (partition_loop (cells st) key left right (rounds st)) (\<lambda>(a, i, r).
        c_bind (store_at a i key) (\<lambda>a.
        c_bind (print_array 10 (st\<lparr>cells := a, rounds := r\<rparr>)) (\<lambda>st.
        c_bind (q_sort st left (i - 1)) (\<lambda>st.
          q_sort st (i + 1) right))))))"
  by pat_completeness auto
termination
  by (relation "measure (\<lambda>(st, left, right). nat (right - left + 1))")
    (auto dest!: partition_loop_bounds)

declare q_sort.simps [simp del]

definition myqsort :: "rng_env \<Rightarrow> rng_state \<Rightarrow> nat \<Rightarrow> (sort_state \<times> rng_state) c_result" where
  "myqsort env rs r0 =
     c_bind (fill_random env rs) (\<lambda>(a, rs).
     let st = \<lparr>cells = a, rounds = r0, printed = ''run myqsort'' @ [CHR 0x0A] @ ''sort 10 random number'' @ [CHR 0x0A]\<rparr> in
     c_bind (print_array 10 st) (\<lambda>st.
     c_bind (q_sort st 0 (10 - 1)) (\<lambda>st.
     c_bind (print_array 10 (print_line (''after run '' @ show_nat (rounds st) @ '' round'' @ [CHR 0x0A]) st))
       (\<lambda>st. Inr (st, rs)))))"

section \<open>Rearranging a stretch of the array\<close>

definition perm_in :: "int list \<Rightarrow> int list \<Rightarrow> int \<Rightarrow> int \<Rightarrow> bool" where
  "perm_in b a i j \<longleftrightarrow> mset b = mset a \<and> length b = length a \<and>
     (\<forall>k. int k < i \<or> j < int k \<longrightarrow> b ! k = a ! k) \<and>
     (\<forall>k < length a. i \<le> int k \<and> int k \<le> j \<longrightarrow> (\<exists>m < length a. i \<le> int m \<and> int m \<le> j \<and> b ! k = a ! m))"

definition sorted_in :: "int list \<Rightarrow> int \<Rightarrow> int \<Rightarrow> bool" where
  "sorted_in a i j \<longleftrightarrow> (\<forall>k m. i \<le> int k \<and> k \<le> m \<and> int m \<le> j \<longrightarrow> a ! k \<le> a ! m)"

lemma perm_in_refl: "perm_in a a i j"
  by (auto simp: perm_in_def)

lemma perm_in_trans: "perm_in c b i j \<Longrightarrow> perm_in b a i j \<Longrightarrow> perm_in c a i j"
  unfolding perm_in_def by metis

lemma perm_in_widen:
  assumes "perm_in b a i j" "i' \<le> i" "j \<le> j'"
  shows "perm_in b a i' j'"
  unfolding perm_in_def
proof (intro conjI allI impI)
  fix k assume k: "k < length a" "i' \<le> int k \<and> int k \<le> j'"
  show "\<exists>m < length a. i' \<le> int m \<and> int m \<le> j' \<and> b ! k = a ! m"
  proof (cases "i \<le> int k \<and> int k \<le> j")
    case True
    with k assms obtain m where "m < length a" "i \<le> int m" "int m \<le> j" "b ! k = a ! m"
      unfolding perm_in_def by blast
    with assms(2,3) show ?thesis by (intro exI [of _ m]) simp
  next
    case False
    then have "b ! k = a ! k" using assms(1) unfolding perm_in_def by force
    with k show ?thesis by blast
  qed
qed (use assms in \<open>auto simp: perm_in_def\<close>)

text \<open>Moving the hole that waits for the key from \<open>x\<close> to \<open>y\<close>.\<close>

lemma move_hole:
  assumes "i \<le> int x" "int x \<le> j" "i \<le> int y" "int y \<le> j" "x < length a" "y < length a"
  shows "perm_in (a[x := a ! y, y := key]) (a[x := key]) i j"
proof (cases "x = y")
  case True
  then show ?thesis by (simp add: perm_in_refl)
next
  case False
  have eq: "a[x := a ! y, y := key] = (a[x := key])[x := a[x := key] ! y, y := a[x := key] ! x]"
    using assms(5,6) False by simp
  have "mset (a[x := a ! y, y := key]) = mset (a[x := key])"
    unfolding eq using assms(5,6) by (intro mset_swap) simp_all
  moreover have "\<exists>m < length (a[x := key]). i \<le> int m \<and> int m \<le> j \<and> a[x := a ! y, y := key] ! k = a[x := key] ! m"
    if k: "k < length (a[x := key])" "i \<le> int k \<and> int k \<le> j" for k
  proof -
    consider "k = y" | "k = x" | "k \<noteq> x" "k \<noteq> y" by blast
    then show ?thesis
    proof cases
      case 1
      with assms False show ?thesis by (intro exI [of _ x]) simp
    next
      case 2
      with assms False show ?thesis by (intro exI [of _ y]) simp
    next
      case 3
      with k show ?thesis by (intro exI [of _ k]) simp
    qed
  qed
  ultimately show ?thesis using assms unfolding perm_in_def by (auto simp: nth_list_update)
qed

section \<open>The partition\<close>

lemma scan_down_total:
  "0 \<le> i \<Longrightarrow> j < int (length a) \<Longrightarrow> \<exists>j' r'. scan_down a key i j r = Inr (j', r')"
proof (induction a key i j r rule: scan_down.induct)
  case (1 a key i j r)
  show ?case
  proof (cases "i < j")
    case True
    then have l: "load_at a j = Inr (a ! nat j)" using "1.prems" by (simp add: load_at_Inr)
    with True "1.IH" [OF True l] "1.prems" show ?thesis by (subst scan_down.simps) auto
  qed (subst scan_down.simps, simp)
qed

lemma scan_up_total:
  "0 \<le> i \<Longrightarrow> j \<le> int (length a) \<Longrightarrow> \<exists>i' r'. scan_up a key i j r = Inr (i', r')"
proof (induction a key i j r rule: scan_up.induct)
  case (1 a key i j r)
  show ?case
  proof (cases "i < j")
    case True
    then have l: "load_at a i = Inr (a ! nat i)" using "1.prems" by (simp add: load_at_Inr)
    with True "1.IH" [OF True l] "1.prems" show ?thesis by (subst scan_up.simps) auto
  qed (subst scan_up.simps, simp)
qed

text \<open>What one pass of the outer loop has done when it returns to the test.\<close>

definition pass_done :: "int list \<Rightarrow> int \<Rightarrow> int \<Rightarrow> int \<Rightarrow> int list \<Rightarrow> int \<Rightarrow> int \<Rightarrow> bool" where
  "pass_done a key i j b i' j' \<longleftrightarrow> i \<le> i' \<and> i' \<le> j' \<and> j' \<le> j \<and>
     perm_in (b[nat i' := key]) (a[nat i := key]) i j \<and> length b = length a \<and>
     (\<forall>k. int k < i \<or> j < int k \<longrightarrow> b ! k = a ! k) \<and>
     (\<forall>k. i \<le> int k \<and> int k < i' \<longrightarrow> b ! k \<le> key) \<and>
     (\<forall>k. j' < int k \<and> int k \<le> j \<longrightarrow> key \<le> b ! k)"

lemma pass_correct:
  assumes "0 \<le> i" "i < j" "j < int (length a)"
  shows "\<exists>j' r1 a1 i' r2 a2. scan_down a key i j r = Inr (j', r1) \<and>
    c_bind (load_at a j') (store_at a i) = Inr a1 \<and> scan_up a1 key i j' r1 = Inr (i', r2) \<and>
    c_bind (load_at a1 i') (store_at a1 j') = Inr a2 \<and> pass_done a key i j a2 i' j'"
proof -
  obtain j' r1 where d: "scan_down a key i j r = Inr (j', r1)" using scan_down_total assms(1,3) by blast
  have dr: "i \<le> j'" "j' \<le> j" "\<forall>k. j' < k \<and> k \<le> j \<longrightarrow> key \<le> a ! nat k"
    using scan_down_result [OF d] assms(2) by auto
  let ?a1 = "a[nat i := a ! nat j']"
  have s1: "c_bind (load_at a j') (store_at a i) = Inr ?a1"
    using dr assms by (simp add: load_at_Inr store_at_Inr)
  obtain i' r2 where u: "scan_up ?a1 key i j' r1 = Inr (i', r2)"
    using scan_up_total [of i j' ?a1 key r1] assms dr by auto
  have ur: "i \<le> i'" "i' \<le> j'" "\<forall>k. i \<le> k \<and> k < i' \<longrightarrow> ?a1 ! nat k \<le> key"
    using scan_up_result [OF u dr(1)] by auto
  let ?a2 = "?a1[nat j' := ?a1 ! nat i']"
  have s2: "c_bind (load_at ?a1 i') (store_at ?a1 j') = Inr ?a2"
    using dr ur assms by (simp add: load_at_Inr store_at_Inr)
  have "perm_in (?a2[nat i' := key]) (?a1[nat j' := key]) i j"
    using dr ur assms by (intro move_hole) auto
  moreover have "perm_in (?a1[nat j' := key]) (a[nat i := key]) i j"
    using dr assms by (intro move_hole) auto
  ultimately have perm: "perm_in (?a2[nat i' := key]) (a[nat i := key]) i j" by (rule perm_in_trans)
  have out: "\<forall>k. int k < i \<or> j < int k \<longrightarrow> ?a2 ! k = a ! k"
    using dr ur assms by (auto simp: nth_list_update)
  have low: "?a2 ! k \<le> key" if "i \<le> int k" "int k < i'" for k
    using ur(3) [rule_format, of "int k"] that ur(2) by (subst nth_list_update_neq) auto
  have high: "key \<le> ?a2 ! k" if "j' < int k" "int k \<le> j" for k
  proof -
    have "nat j' \<noteq> k" "nat i \<noteq> k" using that dr(1) assms(1) by auto
    with dr(3) [rule_format, of "int k"] that show ?thesis by simp
  qed
  have "pass_done a key i j ?a2 i' j'"
    unfolding pass_done_def using dr(2) ur(1,2) perm out low high by (intro conjI) (blast | simp)+
  with d s1 u s2 show ?thesis by blast
qed

lemma pass_done_trans:
  assumes "pass_done a key i j b i' j'" "pass_done b key i' j' c p q"
  shows "pass_done a key i j c p q"
proof -
  have p1: "perm_in (b[nat i' := key]) (a[nat i := key]) i j" "i \<le> i'" "j' \<le> j"
    and p2: "perm_in (c[nat p := key]) (b[nat i' := key]) i' j'"
    using assms by (simp_all add: pass_done_def)
  have "perm_in (c[nat p := key]) (a[nat i := key]) i j"
    using perm_in_trans [OF perm_in_widen [OF p2 p1(2,3)] p1(1)] .
  moreover have "c ! k \<le> key" if "i \<le> int k" "int k < p" for k
  proof (cases "int k < i'")
    case True
    then have "c ! k = b ! k" "b ! k \<le> key" using assms that by (auto simp: pass_done_def)
    then show ?thesis by simp
  qed (use assms that in \<open>simp add: pass_done_def\<close>)
  moreover have "key \<le> c ! k" if "q < int k" "int k \<le> j" for k
  proof (cases "j' < int k")
    case True
    then have "c ! k = b ! k" "key \<le> b ! k" using assms that by (auto simp: pass_done_def)
    then show ?thesis by simp
  qed (use assms that in \<open>simp add: pass_done_def\<close>)
  moreover have "\<forall>k. int k < i \<or> j < int k \<longrightarrow> c ! k = a ! k"
    using assms p1(2,3) unfolding pass_done_def by (metis dual_order.strict_trans1 dual_order.strict_trans2)
  ultimately show ?thesis using assms unfolding pass_done_def by auto
qed

lemma partition_correct:
  "0 \<le> i \<Longrightarrow> i \<le> j \<Longrightarrow> j < int (length a) \<Longrightarrow>
     \<exists>b p r'. partition_loop a key i j r = Inr (b, p, r') \<and> pass_done a key i j b p p"
proof (induction a key i j r rule: partition_loop.induct)
  case (1 a key i j r)
  show ?case
  proof (cases "i < j")
    case True
    from pass_correct [OF "1.prems"(1) True "1.prems"(3), of key r] obtain j' r1 a1 i' r2 a2 where
      st: "scan_down a key i j r = Inr (j', r1)" "c_bind (load_at a j') (store_at a i) = Inr a1"
        "scan_up a1 key i j' r1 = Inr (i', r2)" "c_bind (load_at a1 i') (store_at a1 j') = Inr a2"
      and pd: "pass_done a key i j a2 i' j'" by blast
    have "0 \<le> i'" "i' \<le> j'" "j' < int (length a2)"
      using pd "1.prems" by (auto simp: pass_done_def)
    from "1.IH" [OF True st(1) refl st(2,3) refl st(4) this] obtain b p r' where
      b: "partition_loop a2 key i' j' r2 = Inr (b, p, r')" "pass_done a2 key i' j' b p p" by blast
    have "partition_loop a key i j r = Inr (b, p, r')"
      using True st b(1) by (subst partition_loop.simps) (simp del: c_bind_Inr_iff)
    with pass_done_trans [OF pd b(2)] show ?thesis by blast
  next
    case False
    with "1.prems" have "i = j" by simp
    moreover from this have "pass_done a key i j a i i" by (auto simp: pass_done_def perm_in_refl)
    ultimately show ?thesis by (subst partition_loop.simps) simp
  qed
qed

section \<open>Quicksort sorts\<close>

lemma printa_total: "l \<le> length p \<Longrightarrow> \<exists>s. printa p l = Inr s"
proof -
  assume l: "l \<le> length p"
  have "\<exists>out. for_loop 0 l (\<lambda>i out. c_bind (load p i) (\<lambda>v.
      Inr (out @ pad3 (show_int v) @ '' '' @ (if (i + 1) mod 10 = 0 then [CHR 0x0A] else [])))) [] = Inr out \<and> True"
    by (rule for_loop_total) (use l in \<open>auto simp: load_in\<close>)
  then show ?thesis by (auto simp: printa_def)
qed

lemma print_array_total:
  assumes "l \<le> length (cells st)"
  shows "\<exists>s. print_array l st = Inr (print_line s st)"
  using printa_total [OF assms] by (auto simp: print_array_def)

lemma print_line_simps [simp]:
  "cells (print_line s st) = cells st" "rounds (print_line s st) = rounds st"
  by (simp_all add: print_line_def)

text \<open>Sorted halves around the key are a sorted whole.\<close>

lemma sorted_in_join:
  assumes "sorted_in b i (p - 1)" "sorted_in b (p + 1) j"
    and "\<forall>k. i \<le> int k \<and> int k < p \<longrightarrow> b ! k \<le> b ! nat p"
    and "\<forall>k. p < int k \<and> int k \<le> j \<longrightarrow> b ! nat p \<le> b ! k" "0 \<le> p"
  shows "sorted_in b i j"
  unfolding sorted_in_def
proof (intro allI impI)
  fix k m
  assume km: "i \<le> int k \<and> k \<le> m \<and> int m \<le> j"
  consider "int m < p" | "p < int k" | "int k \<le> p" "p \<le> int m" by linarith
  then show "b ! k \<le> b ! m"
  proof cases
    case 1
    with assms(1) km show ?thesis by (simp add: sorted_in_def)
  next
    case 2
    with assms(2) km show ?thesis by (simp add: sorted_in_def)
  next
    case 3
    have "b ! k \<le> b ! nat p" using 3 km assms(3,5) by (cases "int k = p") auto
    also have "b ! nat p \<le> b ! m" using 3 km assms(4,5) by (cases "int m = p") auto
    finally show ?thesis .
  qed
qed

text \<open>A bound on the values of a stretch survives its rearrangement.\<close>

lemma perm_in_bound:
  assumes "perm_in b a i j" "\<forall>k. i \<le> int k \<and> int k \<le> j \<longrightarrow> Q (a ! k)" "i \<le> int k" "int k \<le> j" "k < length a"
  shows "Q (b ! k)"
  using assms unfolding perm_in_def by metis

lemma q_sort_correct:
  "0 \<le> left \<Longrightarrow> right < int (length (cells st)) \<Longrightarrow> 10 \<le> length (cells st) \<Longrightarrow>
     \<exists>st'. q_sort st left right = Inr st' \<and> perm_in (cells st') (cells st) left right \<and>
       sorted_in (cells st') left right"
proof (induction st left right rule: q_sort.induct)
  case (1 st left right)
  show ?case
  proof (cases "left \<ge> right")
    case True
    then have "sorted_in (cells st) left right"
      by (auto simp: sorted_in_def dest!: order_antisym)
    with True show ?thesis by (subst q_sort.simps) (simp add: perm_in_refl)
  next
    case False
    let ?a = "cells st"
    let ?key = "?a ! nat left"
    have l: "load_at ?a left = Inr ?key" using "1.prems" False by (simp add: load_at_Inr)
    from partition_correct [of left right ?a ?key "rounds st"] "1.prems" False obtain b p r' where
      b: "partition_loop ?a ?key left right (rounds st) = Inr (b, p, r')" "pass_done ?a ?key left right b p p"
      by auto
    have lp: "left \<le> p" "p \<le> right" and len: "length b = length ?a"
      and perm: "perm_in (b[nat p := ?key]) ?a left right"
      using b(2) by (simp_all add: pass_done_def)
    let ?c = "b[nat p := ?key]"
    have s: "store_at b p ?key = Inr ?c" using lp len "1.prems" by (simp add: store_at_Inr)
    obtain out where pr: "print_array 10 (st\<lparr>cells := ?c, rounds := r'\<rparr>) =
        Inr (print_line out (st\<lparr>cells := ?c, rounds := r'\<rparr>))"
      using print_array_total [of 10 "st\<lparr>cells := ?c, rounds := r'\<rparr>"] len "1.prems" by auto
    let ?s1 = "print_line out (st\<lparr>cells := ?c, rounds := r'\<rparr>)"
    have pre1: "0 \<le> left" "p - 1 < int (length (cells ?s1))" "10 \<le> length (cells ?s1)"
      using "1.prems" lp len by simp_all
    from "1.IH"(1) [OF False l b(1) refl refl s pr pre1] obtain s2 where
      s2: "q_sort ?s1 left (p - 1) = Inr s2" "perm_in (cells s2) ?c left (p - 1)" "sorted_in (cells s2) left (p - 1)"
      by auto
    have len2: "length (cells s2) = length ?a" using s2(2) len by (simp add: perm_in_def)
    have pre2: "0 \<le> p + 1" "right < int (length (cells s2))" "10 \<le> length (cells s2)"
      using "1.prems" lp len2 by simp_all
    from "1.IH"(2) [OF False l b(1) refl refl s pr s2(1) pre2] obtain s3 where
      s3: "q_sort s2 (p + 1) right = Inr s3" "perm_in (cells s3) (cells s2) (p + 1) right"
        "sorted_in (cells s3) (p + 1) right" by blast
    have run: "q_sort st left right = Inr s3"
      using False l b(1) s pr s2(1) s3(1) by (subst q_sort.simps) (simp del: c_bind_Inr_iff)
    have perm3: "perm_in (cells s3) ?a left right"
      using perm_in_trans [OF perm_in_widen [OF s3(2)] perm_in_trans [OF perm_in_widen [OF s2(2)] perm]] lp
      by simp
    have key: "cells s3 ! nat p = ?key"
      using s2(2) s3(2) lp "1.prems"(1,2) len by (auto simp: perm_in_def)
    have low: "cells s3 ! k \<le> ?key" if "left \<le> int k" "int k < p" for k
    proof -
      have "\<forall>k. left \<le> int k \<and> int k \<le> p - 1 \<longrightarrow> ?c ! k \<le> ?key"
        using b(2) by (auto simp: pass_done_def nth_list_update)
      then have "cells s2 ! k \<le> ?key"
        using perm_in_bound [OF s2(2), of "\<lambda>x. x \<le> ?key" k] that lp "1.prems" len by auto
      with s3(2) that show ?thesis by (simp add: perm_in_def)
    qed
    have high: "?key \<le> cells s3 ! k" if "p < int k" "int k \<le> right" for k
    proof -
      have "?key \<le> cells s2 ! k" if "p + 1 \<le> int k" "int k \<le> right" for k
      proof -
        have "cells s2 ! k = ?c ! k" "nat p \<noteq> k"
          using s2(2) that lp(1) "1.prems"(1) by (auto simp: perm_in_def)
        with b(2) that show ?thesis by (simp add: pass_done_def)
      qed
      then show ?thesis
        using perm_in_bound [OF s3(2), of "\<lambda>x. ?key \<le> x" k] that "1.prems" len2 by auto
    qed
    have "sorted_in (cells s3) left (p - 1)"
      using s2(3) s3(2) by (auto simp: sorted_in_def perm_in_def)
    moreover have "0 \<le> p" using lp(1) "1.prems"(1) by simp
    ultimately have "sorted_in (cells s3) left right"
      using sorted_in_join [OF _ s3(3)] low high unfolding key by blast
    with run perm3 show ?thesis by blast
  qed
qed

lemma q_sort_whole:
  assumes "10 \<le> length (cells st)"
  shows "\<exists>st'. q_sort st 0 (int (length (cells st)) - 1) = Inr st' \<and> sorted (cells st') \<and>
    mset (cells st') = mset (cells st)"
proof -
  obtain st' where st': "q_sort st 0 (int (length (cells st)) - 1) = Inr st'"
    "perm_in (cells st') (cells st) 0 (int (length (cells st)) - 1)"
    "sorted_in (cells st') 0 (int (length (cells st)) - 1)"
    using q_sort_correct [of 0 "int (length (cells st)) - 1" st] assms by auto
  then have "mset (cells st') = mset (cells st)" "length (cells st') = length (cells st)"
    by (simp_all add: perm_in_def)
  moreover have "sorted (cells st')"
    using st'(3) \<open>length (cells st') = length (cells st)\<close>
    unfolding sorted_in_def sorted_iff_nth_mono by force
  ultimately show ?thesis using st'(1) by blast
qed

section \<open>The exchange sort sorts in descending order\<close>

lemma swap_perm_in:
  assumes "i \<le> int x" "int x \<le> j" "i \<le> int y" "int y \<le> j" "x < length a" "y < length a"
  shows "perm_in (a[x := a ! y, y := a ! x]) a i j"
proof -
  have "a[x := a ! x] = a" by simp
  with move_hole [OF assms, of "a ! x"] show ?thesis by simp
qed

lemma popup_inner:
  assumes "i < l" "l = length (cells st)"
  shows "\<exists>st'. for_loop i l (popup_step i) st = Inr st' \<and> rounds st' = rounds st + (l - i) \<and>
    perm_in (cells st') (cells st) (int i) (int l - 1) \<and> (\<forall>k. i \<le> k \<and> k < l \<longrightarrow> cells st' ! k \<le> cells st' ! i)"
proof -
  let ?I = "\<lambda>j (s :: sort_state). rounds s = rounds st + (j - i) \<and> perm_in (cells s) (cells st) (int i) (int l - 1) \<and>
    (\<forall>k. i \<le> k \<and> k < j \<longrightarrow> cells s ! k \<le> cells s ! i)"
  have "\<exists>s. for_loop i l (popup_step i) st = Inr s \<and> ?I l s"
  proof (rule for_loop_total [where I = ?I])
    fix j s
    assume j: "i \<le> j" "j < l" and I: "?I j s"
    have len: "length (cells s) = l" using I assms(2) by (simp add: perm_in_def)
    let ?a = "cells s"
    let ?s = "s\<lparr>rounds := Suc (rounds s), cells := (if ?a ! i < ?a ! j then ?a[i := ?a ! j, j := ?a ! i] else ?a)\<rparr>"
    have run: "popup_step i j s = Inr ?s"
      using j assms(1) len by (simp add: popup_step_def load_in)
    have "perm_in (cells ?s) ?a (int i) (int l - 1)"
      using j assms(1) len swap_perm_in [of "int i" i "int l - 1" j ?a] by (simp add: perm_in_refl)
    then have perm: "perm_in (cells ?s) (cells st) (int i) (int l - 1)" using I perm_in_trans by blast
    have "cells ?s ! k \<le> cells ?s ! i" if "i \<le> k" "k < Suc j" for k
    proof (cases "?a ! i < ?a ! j")
      case True
      have "?a ! k \<le> ?a ! j" if "k < j" using that \<open>i \<le> k\<close> I True by force
      with True that j assms(1) len show ?thesis by (auto simp: nth_list_update less_Suc_eq)
    next
      case False
      with that I show ?thesis by (auto simp: less_Suc_eq)
    qed
    with run perm I j show "\<exists>s'. popup_step i j s = Inr s' \<and> ?I (Suc j) s'"
      by (intro exI [of _ ?s]) simp
  qed (use assms in \<open>auto simp: perm_in_refl\<close>)
  then show ?thesis by blast
qed

lemma popup_loops_correct:
  assumes "l = length (cells st)"
  shows "\<exists>st'. popup_loops l st = Inr st' \<and> rounds st' = rounds st + (\<Sum>k < l. l - k) \<and>
    mset (cells st') = mset (cells st) \<and> sorted (rev (cells st'))"
proof -
  let ?I = "\<lambda>i (s :: sort_state). rounds s = rounds st + (\<Sum>k < i. l - k) \<and> perm_in (cells s) (cells st) 0 (int l - 1) \<and>
    (\<forall>k m. k < i \<and> k \<le> m \<and> m < l \<longrightarrow> cells s ! m \<le> cells s ! k)"
  have "\<exists>s. for_loop 0 l (\<lambda>i. for_loop i l (popup_step i)) st = Inr s \<and> ?I l s"
  proof (rule for_loop_total [where I = ?I])
    fix i s
    assume i: "i < l" and I: "?I i s"
    have len: "l = length (cells s)" using I assms by (simp add: perm_in_def)
    from popup_inner [OF i len] obtain t where t: "for_loop i l (popup_step i) s = Inr t"
      "rounds t = rounds s + (l - i)" "perm_in (cells t) (cells s) (int i) (int l - 1)"
      "\<forall>k. i \<le> k \<and> k < l \<longrightarrow> cells t ! k \<le> cells t ! i" by blast
    have perm: "perm_in (cells t) (cells st) 0 (int l - 1)"
      using perm_in_trans [OF perm_in_widen [OF t(3)]] I by simp
    have "cells t ! m \<le> cells t ! k" if "k < Suc i" "k \<le> m" "m < l" for k m
    proof (cases "k = i")
      case False
      then have k: "k < i" "cells t ! k = cells s ! k" using that t(3) by (auto simp: perm_in_def)
      have "\<forall>m'. int i \<le> int m' \<and> int m' \<le> int l - 1 \<longrightarrow> cells s ! m' \<le> cells s ! k"
        using I k(1) by auto
      then have "cells t ! m \<le> cells s ! k" if "i \<le> m"
        using perm_in_bound [OF t(3), of "\<lambda>x. x \<le> cells s ! k" m] that \<open>m < l\<close> len by auto
      moreover have "cells t ! m = cells s ! m" if "m < i" using that t(3) by (simp add: perm_in_def)
      ultimately show ?thesis using k I that by (cases "m < i") auto
    qed (use that t(4) in auto)
    with t(1,2) perm I show "\<exists>s'. for_loop i l (popup_step i) s = Inr s' \<and> ?I (Suc i) s'" by simp
  qed (auto simp: perm_in_refl)
  then obtain s where s: "popup_loops l st = Inr s" "?I l s" by (auto simp: popup_loops_def)
  have len: "length (cells s) = l" using s(2) assms by (simp add: perm_in_def)
  have "sorted (rev (cells s))"
    unfolding sorted_iff_nth_mono
  proof (intro allI impI)
    fix x y assume xy: "x \<le> y" "y < length (rev (cells s))"
    then have "l - Suc y < l" "l - Suc y \<le> l - Suc x" "l - Suc x < l" using len by auto
    with s(2) have "cells s ! (l - Suc x) \<le> cells s ! (l - Suc y)" by blast
    with xy len show "rev (cells s) ! x \<le> rev (cells s) ! y" by (simp add: rev_nth)
  qed
  with s show ?thesis by (auto simp: perm_in_def)
qed

section \<open>Drawing the numbers\<close>

definition seed_ok :: "rng_env \<Rightarrow> bool" where
  "seed_ok env \<longleftrightarrow> open_fd env < 0 \<or> read_ret env < 0 \<or> 8 \<le> read_ret env"

definition seed_of :: "rng_env \<Rightarrow> 32 word" where
  "seed_of env = ucast (if open_fd env < 0 \<or> read_ret env < 0 then now env else read_seed env)"

definition fresh_rng :: rng_state where
  "fresh_rng = \<lparr>initialized = 0, seeded = 0, drawn = 0, closed = [], rng_out = []\<rparr>"

lemma random_xid_next:
  "initialized st \<noteq> 0 \<Longrightarrow>
     random_xid env st = Inr (rand_seq env (seeded st) (drawn st), st\<lparr>drawn := Suc (drawn st)\<rparr>)"
  by (simp add: random_xid_def)

lemma random_xid_first:
  assumes "seed_ok env"
  shows "\<exists>st. random_xid env fresh_rng = Inr (rand_seq env (seed_of env) 0, st) \<and> initialized st = 1 \<and>
    seeded st = seed_of env \<and> drawn st = 1 \<and> closed st = (if open_fd env < 0 then [] else [open_fd env])"
  using assms by (auto simp: random_xid_def seed_ok_def seed_of_def fresh_rng_def Let_def)

lemma fill_random_correct:
  assumes "seed_ok env"
  shows "\<exists>rs. fill_random env fresh_rng =
      Inr (map (\<lambda>k. int (rand_seq env (seed_of env) k mod 10)) [0..<10], rs) \<and>
    initialized rs = 1 \<and> closed rs = (if open_fd env < 0 then [] else [open_fd env])"
proof -
  let ?v = "\<lambda>k. int (rand_seq env (seed_of env) k mod 10)"
  let ?body = "\<lambda>(i::nat) (a, rs). c_bind (random_xid env rs) (\<lambda>(x, rs). Inr (a @ [int (x mod 10)], rs))"
  let ?I = "\<lambda>i (s :: int list \<times> rng_state). fst s = map ?v [0..<i] \<and> initialized (snd s) = 1 \<and> seeded (snd s) = seed_of env \<and>
    drawn (snd s) = i \<and> closed (snd s) = (if open_fd env < 0 then [] else [open_fd env])"
  from random_xid_first [OF assms] obtain st where
    st: "random_xid env fresh_rng = Inr (rand_seq env (seed_of env) 0, st)" "?I 1 ([?v 0], st)" by auto
  have "\<exists>s. for_loop 1 10 ?body ([?v 0], st) = Inr s \<and> ?I 10 s"
  proof (rule for_loop_total [where I = ?I])
    fix i s
    assume "?I i s"
    then show "\<exists>s'. ?body i s = Inr s' \<and> ?I (Suc i) s'"
      by (cases s) (simp add: random_xid_next)
  qed (use st(2) in simp_all)
  moreover have "fill_random env fresh_rng = for_loop 1 10 ?body ([?v 0], st)"
    using st(1) by (simp add: fill_random_def for_loop_step [of 0])
  ultimately show ?thesis by auto
qed

section \<open>Properties\<close>

text \<open>
  C5: \<^verbatim>\<open>q_sort\<close> on a stretch of an array of at least ten cells (it prints ten) returns,
  permutes exactly that stretch and leaves it in ascending order; over the whole array the
  result is the sorted list.
\<close>

theorem q_sort_sorts:
  assumes "0 \<le> left" "right < int (length (cells st))" "10 \<le> length (cells st)"
  shows "\<exists>st'. q_sort st left right = Inr st' \<and> mset (cells st') = mset (cells st) \<and>
    (\<forall>k. int k < left \<or> right < int k \<longrightarrow> cells st' ! k = cells st ! k) \<and>
    (\<forall>k m. left \<le> int k \<and> k \<le> m \<and> int m \<le> right \<longrightarrow> cells st' ! k \<le> cells st' ! m)"
  using q_sort_correct [OF assms] unfolding perm_in_def sorted_in_def by blast

theorem q_sort_sorts_witness:
  "\<exists>st'. q_sort \<lparr>cells = [3, 1, 2, 9, 8, 7, 4, 6, 5, 0], rounds = 0, printed = []\<rparr> 2 5 = Inr st' \<and>
     cells st' ! 0 = 3 \<and> cells st' ! 2 \<le> cells st' ! 3"
proof -
  let ?st = "\<lparr>cells = [3, 1, 2, 9, 8, 7, 4, 6, 5, 0], rounds = 0, printed = []\<rparr>"
  obtain st' where st': "q_sort ?st 2 5 = Inr st'"
    "\<forall>k. int k < 2 \<or> 5 < int k \<longrightarrow> cells st' ! k = cells ?st ! k"
    "\<forall>k m. 2 \<le> int k \<and> k \<le> m \<and> int m \<le> 5 \<longrightarrow> cells st' ! k \<le> cells st' ! m"
    using q_sort_sorts [of 2 5 ?st] by auto
  have "cells st' ! 0 = 3" using st'(2) [rule_format, of 0] by simp
  moreover have "cells st' ! 2 \<le> cells st' ! 3" using st'(3) [rule_format, of 2 3] by simp
  ultimately show ?thesis using st'(1) by blast
qed

text \<open>
  The function \<^verbatim>\<open>myqsort\<close> seeds the generator once, closes the descriptor it opened, and ends with
  the ten drawn digits in ascending order, whatever the generator delivers.
\<close>

theorem myqsort_correct:
  assumes "seed_ok env"
  shows "\<exists>st rs. myqsort env fresh_rng r0 = Inr (st, rs) \<and>
    cells st = sort (map (\<lambda>k. int (rand_seq env (seed_of env) k mod 10)) [0..<10]) \<and>
    initialized rs = 1 \<and> closed rs = (if open_fd env < 0 then [] else [open_fd env])"
proof -
  let ?a = "map (\<lambda>k. int (rand_seq env (seed_of env) k mod 10)) [0..<10]"
  from fill_random_correct [OF assms] obtain rs where rs: "fill_random env fresh_rng = Inr (?a, rs)"
    "initialized rs = 1" "closed rs = (if open_fd env < 0 then [] else [open_fd env])" by blast
  let ?st = "\<lparr>cells = ?a, rounds = r0, printed = ''run myqsort'' @ [CHR 0x0A] @ ''sort 10 random number'' @ [CHR 0x0A]\<rparr>"
  have "10 \<le> length (cells ?st)" by simp
  from print_array_total [OF this] obtain t where t: "print_array 10 ?st = Inr (print_line t ?st)" by blast
  have "10 \<le> length (cells (print_line t ?st))" by simp
  from q_sort_whole [OF this] obtain st1 where st1: "q_sort (print_line t ?st) 0 (10 - 1) = Inr st1"
    "sorted (cells st1)" "mset (cells st1) = mset ?a" by auto
  have len: "length (cells st1) = 10" using st1(3) by (metis length_map length_upt mset_eq_length diff_zero)
  let ?s2 = "print_line (''after run '' @ show_nat (rounds st1) @ '' round'' @ [CHR 0x0A]) st1"
  obtain u where u: "print_array 10 ?s2 = Inr (print_line u ?s2)"
    using print_array_total [of 10 ?s2] len by auto
  have "myqsort env fresh_rng r0 = Inr (print_line u ?s2, rs)"
    unfolding myqsort_def Let_def
    by (simp only: rs(1) t st1(1) u c_bind_simps prod.case)
  moreover have "cells st1 = sort ?a" using st1(2,3) by (metis properties_for_sort)
  ultimately show ?thesis using rs(2,3) by auto
qed

definition sample_env :: rng_env where
  "sample_env = \<lparr>open_fd = 3, read_ret = 8, read_seed = 42, err_text = [], now = 0,
     rand_seq = (\<lambda>s k. (7 * k + 3))\<rparr>"

theorem myqsort_correct_witness:
  "\<exists>st rs. myqsort sample_env fresh_rng 0 = Inr (st, rs) \<and> cells st = [0, 1, 2, 3, 4, 5, 6, 7, 8, 9] \<and>
     closed rs = [3]"
proof -
  have "seed_ok sample_env" by (simp add: seed_ok_def sample_env_def)
  moreover have "sort (map (\<lambda>k. int (rand_seq sample_env (seed_of sample_env) k mod 10)) [0..<10]) =
      [0, 1, 2, 3, 4, 5, 6, 7, 8, 9]"
    by (simp add: sample_env_def upt_rec)
  moreover have "open_fd sample_env = 3" by (simp add: sample_env_def)
  ultimately show ?thesis using myqsort_correct [of sample_env 0] by auto
qed

text \<open>
  The exchange loops of \<^verbatim>\<open>popup\<close> leave the array in descending order after exactly
  \<open>l + (l - 1) + ... + 1\<close> rounds.
\<close>

theorem popup_loops_descending:
  assumes "l = length (cells st)"
  shows "\<exists>st'. popup_loops l st = Inr st' \<and> rounds st' = rounds st + (\<Sum>k < l. l - k) \<and>
    cells st' = rev (sort (cells st))"
proof -
  from popup_loops_correct [OF assms] obtain st' where st': "popup_loops l st = Inr st'"
    "rounds st' = rounds st + (\<Sum>k < l. l - k)" "mset (cells st') = mset (cells st)" "sorted (rev (cells st'))" by blast
  have "rev (cells st') = sort (cells st)"
    using st'(3,4) by (metis mset_rev properties_for_sort)
  with st' show ?thesis by (metis rev_rev_ident)
qed

theorem popup_loops_descending_witness:
  "\<exists>st'. popup_loops 3 \<lparr>cells = [4, 9, 5], rounds = 0, printed = []\<rparr> = Inr st' \<and> rounds st' = 6 \<and>
     cells st' = [9, 5, 4]"
  using popup_loops_descending [of 3 "\<lparr>cells = [4, 9, 5], rounds = 0, printed = []\<rparr>"]
  by (auto simp: numeral_3_eq_3 lessThan_Suc)

end
