(* ===== verification/Crc16.thy ===== *)
theory Crc16
  imports C_Prelude
begin

unbundle bit_operations_syntax

text \<open>
  The checksum of \<^verbatim>\<open>src/cpp/algorithm/crc16_xmodem.c\<close>.  The register is a
  \<^verbatim>\<open>unsigned short\<close> (\<open>16 word\<close>), the message an array of \<^verbatim>\<open>unsigned char\<close>, and
  reading past the message is a fault.  The specification side is the division step as a
  linear map on the register.
\<close>

section \<open>The code\<close>

text \<open>One pass of the inner loop.\<close>

definition crc_bit :: "16 word \<Rightarrow> 16 word" where
  "crc_bit c = (if c AND 0x8000 \<noteq> 0 then push_bit 1 c XOR 0x1021 else push_bit 1 c)"

definition crc_byte :: "8 word \<Rightarrow> 16 word \<Rightarrow> 16 word" where
  "crc_byte w c = (crc_bit ^^ 8) (c XOR push_bit 8 (ucast w))"

text \<open>\<^verbatim>\<open>while (usDataLen--)\<close>: the counter is unsigned, so a length of zero reads nothing.\<close>

definition CRC16_XMODEM :: "8 word list \<Rightarrow> nat \<Rightarrow> 16 word c_result" where
  "CRC16_XMODEM msg len =
     for_loop 0 len (\<lambda>i c. c_bind (load msg i) (\<lambda>w. Inr (crc_byte w c))) 0"

definition test_data :: "8 word list" where
  "test_data = [0x98, 0x00, 0x12, 0x01, 0x00, 0x01, 0x12, 0x34, 0x56, 0x78, 0x5A, 0x26, 0x08, 0xCE, 0x23]"

definition test_CRC16_Xmode :: "string c_result" where
  "test_CRC16_Xmode =
     c_bind (CRC16_XMODEM test_data 15) (\<lambda>c. Inr (show_hex True (unat c) @ [CHR 0x0D, CHR 0x0A]))"

section \<open>The register as a linear map\<close>

definition crc_fold :: "8 word list \<Rightarrow> 16 word \<Rightarrow> 16 word" where
  "crc_fold msg c = fold crc_byte msg c"

lemma crc_loop:
  assumes "n \<le> length msg"
  shows "for_loop 0 n (\<lambda>i c. c_bind (load msg i) (\<lambda>w. Inr (crc_byte w c))) c = Inr (crc_fold (take n msg) c)"
proof -
  have "\<exists>s. for_loop 0 n (\<lambda>i c. c_bind (load msg i) (\<lambda>w. Inr (crc_byte w c))) c = Inr s \<and>
      s = crc_fold (take n msg) c"
    by (rule for_loop_total) (use assms in \<open>auto simp: load_in crc_fold_def take_Suc_conv_app_nth\<close>)
  then show ?thesis by blast
qed

lemma crc_fold_append: "crc_fold (xs @ ys) c = crc_fold ys (crc_fold xs c)"
  by (simp add: crc_fold_def)

lemma top_bit: "(c AND 0x8000 \<noteq> 0) = bit (c :: 16 word) 15"
proof -
  have "(0x8000 :: 16 word) = push_bit 15 1" by (simp add: push_bit_eq_mult)
  then show ?thesis
    by (metis (no_types) and_exp_eq_0_iff_not_bit push_bit_of_1)
qed

lemma crc_bit_xor: "crc_bit (c XOR d) = crc_bit c XOR crc_bit d"
  unfolding crc_bit_def top_bit
  by (rule bit_word_eqI) (auto simp: bit_simps)

lemma crc_bit_zero [simp]: "crc_bit 0 = 0"
  by (simp add: crc_bit_def)

lemma crc_bits_xor: "(crc_bit ^^ n) (c XOR d) = (crc_bit ^^ n) c XOR (crc_bit ^^ n) d"
  by (induction n) (simp_all add: crc_bit_xor)

lemma crc_byte_xor: "crc_byte (v XOR w) (c XOR d) = crc_byte v c XOR crc_byte w d"
proof -
  have "push_bit 8 (ucast (v XOR w)) = push_bit 8 (ucast v) XOR (push_bit 8 (ucast w) :: 16 word)"
    by (rule bit_word_eqI) (auto simp: bit_simps)
  then show ?thesis by (simp add: crc_byte_def crc_bits_xor ac_simps)
qed

text \<open>
  The polynomial has the constant term 1: a step that subtracts it leaves an odd register,
  so an even register was only shifted, and a division step loses nothing.
\<close>

lemma crc_bit_odd: "bit (crc_bit c) 0 = bit c 15"
proof (cases "bit c 15")
  case True
  then show ?thesis unfolding crc_bit_def top_bit if_P [OF True] bit_xor_iff bit_push_bit_iff by simp
next
  case False
  then show ?thesis unfolding crc_bit_def top_bit if_not_P [OF False] bit_push_bit_iff by simp
qed

lemma crc_bit_even: "\<not> bit (crc_bit c) 0 \<Longrightarrow> crc_bit c = push_bit 1 c"
  by (simp only: crc_bit_odd) (simp add: crc_bit_def top_bit)

lemma crc_bits_even:
  "(\<forall>k < n. \<not> bit ((crc_bit ^^ n) c) k) \<Longrightarrow> (crc_bit ^^ n) c = push_bit n c"
proof (induction n)
  case (Suc n)
  let ?s = "(crc_bit ^^ n) c"
  have shift: "crc_bit ?s = push_bit 1 ?s"
    using Suc.prems by (intro crc_bit_even) simp
  have "\<not> bit ?s k" if "k < n" for k
  proof
    assume b: "bit ?s k"
    then have "\<not> bit (crc_bit ?s) (Suc k)" using Suc.prems that by simp
    then have "\<not> Suc k < 16" using b unfolding shift bit_push_bit_iff by simp
    with b have "k = 15" using bit_imp_le_length [OF b] by auto
    moreover have "\<not> bit ?s 15" using Suc.prems crc_bit_odd [of ?s] by simp
    ultimately show False using b by simp
  qed
  with Suc.IH have eq: "?s = push_bit n c" by blast
  have "(crc_bit ^^ Suc n) c = push_bit 1 ?s" by (simp only: funpow.simps comp_apply shift)
  also have "\<dots> = push_bit (Suc n) c" by (simp only: eq push_bit_push_bit plus_1_eq_Suc)
  finally show ?case .
qed simp

lemma crc_bit_kernel:
  assumes "crc_bit c = 0"
  shows "c = 0"
proof (rule bit_word_eqI)
  fix n assume n: "n < LENGTH(16)"
  have top: "\<not> bit c 15" using assms crc_bit_odd [of c] by simp
  have "push_bit 1 c = 0" using assms crc_bit_even [of c] by simp
  then have "\<not> bit (push_bit 1 c) (Suc n)" by simp
  with n top show "bit c n = bit 0 n" unfolding bit_push_bit_iff by (cases "n = 15") auto
qed

lemma crc_bits_kernel: "(crc_bit ^^ n) c = 0 \<Longrightarrow> c = 0"
  by (induction n) (auto dest: crc_bit_kernel)

lemma xor_zero_eq: "c XOR d = 0 \<Longrightarrow> c = (d :: 'a :: len word)"
proof -
  assume z: "c XOR d = 0"
  have "d = c XOR (c XOR d)" by (simp flip: xor.assoc)
  with z show "c = d" by simp
qed

lemma crc_byte_inj:
  assumes "crc_byte w c = crc_byte w d"
  shows "c = d"
proof -
  have "crc_byte 0 (c XOR d) = crc_byte w c XOR crc_byte w d"
    using crc_byte_xor [of w w c d] by simp
  with assms have "(crc_bit ^^ 8) (c XOR d) = 0" by (simp add: crc_byte_def)
  then show ?thesis by (rule xor_zero_eq [OF crc_bits_kernel])
qed

lemma crc_fold_inj: "crc_fold s c = crc_fold s d \<Longrightarrow> c = d"
  unfolding crc_fold_def by (induction s arbitrary: c d) (auto dest: crc_byte_inj)

text \<open>A byte in the low half of the register is only moved to the high half.\<close>

lemma low_byte_shifts: "n \<le> 8 \<Longrightarrow> (crc_bit ^^ n) (ucast (w :: 8 word)) = push_bit n (ucast w)"
proof (induction n)
  case (Suc n)
  have "\<not> bit w (15 - n)" using Suc.prems bit_imp_le_length [of w "15 - n"] by auto
  then have "\<not> bit (push_bit n (ucast w) :: 16 word) 15"
    using Suc.prems by (simp add: bit_push_bit_iff bit_ucast_iff)
  then have "crc_bit (push_bit n (ucast w)) = push_bit 1 (push_bit n (ucast w))"
    by (simp add: crc_bit_def top_bit)
  moreover have "(crc_bit ^^ Suc n) (ucast w) = crc_bit (push_bit n (ucast w))"
    using Suc by (simp only: funpow.simps comp_apply Suc_leD)
  ultimately show ?case by (simp only: push_bit_push_bit plus_1_eq_Suc)
qed simp

lemma high_byte_kernel:
  assumes "(crc_bit ^^ 8) (push_bit 8 (ucast (v :: 8 word))) = push_bit 8 (ucast (w :: 8 word))"
  shows "v = 0 \<and> w = 0"
proof -
  have "\<not> bit (push_bit 8 (ucast w) :: 16 word) k" if "k < 8" for k
    using that by (simp add: bit_push_bit_iff)
  then have "(crc_bit ^^ 8) (push_bit 8 (ucast v)) = push_bit 8 (push_bit 8 (ucast v))"
    unfolding assms [symmetric] by (intro crc_bits_even) blast
  also have "\<dots> = 0" by (rule bit_word_eqI) (simp add: bit_push_bit_iff)
  finally have z: "(crc_bit ^^ 8) (push_bit 8 (ucast v)) = 0" .
  have drop: "x = 0" if "push_bit 8 (ucast x) = (0 :: 16 word)" for x :: "8 word"
  proof (rule bit_word_eqI)
    fix k assume "k < LENGTH(8)"
    moreover have "\<not> bit (push_bit 8 (ucast x) :: 16 word) (k + 8)" unfolding that by simp
    ultimately show "bit x k = bit 0 k" by (simp add: bit_push_bit_iff bit_ucast_iff)
  qed
  from z have "push_bit 8 (ucast v) = (0 :: 16 word)" by (rule crc_bits_kernel)
  moreover have "push_bit 8 (ucast w) = (0 :: 16 word)" using z assms by simp
  ultimately show ?thesis using drop by blast
qed

section \<open>Properties\<close>

text \<open>
  Within the bounds of the message \<^verbatim>\<open>CRC16_XMODEM\<close> does not fault, and the checksum
  is linear: that of the bytewise XOR of two messages is the XOR of their checksums.
\<close>

theorem CRC16_linear:
  assumes "n \<le> length xs" "length xs = length ys"
  shows "\<exists>c d. CRC16_XMODEM xs n = Inr c \<and> CRC16_XMODEM ys n = Inr d \<and>
    CRC16_XMODEM (map2 (XOR) xs ys) n = Inr (c XOR d)"
proof -
  have "crc_fold (map2 (XOR) us vs) (c XOR d) = crc_fold us c XOR crc_fold vs d"
    if "length us = length vs" for us vs c d
    using that unfolding crc_fold_def
    by (induction us vs arbitrary: c d rule: list_induct2) (simp_all add: crc_byte_xor)
  from this [of "take n xs" "take n ys" 0 0] assms show ?thesis
    by (simp add: CRC16_XMODEM_def crc_loop take_map take_zip)
qed

theorem CRC16_linear_witness:
  "\<exists>c d. CRC16_XMODEM [1, 2] 2 = Inr c \<and> CRC16_XMODEM [3, 4] 2 = Inr d \<and>
    CRC16_XMODEM (map2 (XOR) [1, 2] [3, 4]) 2 = Inr (c XOR d)"
  by (rule CRC16_linear) simp_all

text \<open>
  A frame that carries its checksum in its last two bytes, high byte first, has the
  checksum zero.
\<close>

theorem CRC16_residue:
  "\<exists>c. CRC16_XMODEM msg (length msg) = Inr c \<and>
     CRC16_XMODEM (msg @ [ucast (drop_bit 8 c), ucast c]) (length msg + 2) = Inr 0"
proof -
  let ?c = "crc_fold msg 0"
  let ?hi = "ucast (drop_bit 8 ?c) :: 8 word" and ?lo = "ucast ?c :: 8 word"
  have "?c XOR push_bit 8 (ucast ?hi) = ucast ?lo"
    by (rule bit_word_eqI) (auto simp: bit_simps not_less)
  then have "crc_byte ?hi ?c = push_bit 8 (ucast ?lo)"
    by (simp add: crc_byte_def low_byte_shifts)
  moreover have "(crc_bit ^^ n) 0 = 0" for n by (induction n) simp_all
  ultimately have "crc_fold (msg @ [?hi, ?lo]) 0 = 0"
    by (simp add: crc_fold_append crc_fold_def crc_byte_def)
  then show ?thesis
    using crc_loop [of "length msg" msg 0] crc_loop [of "length msg + 2" "msg @ [?hi, ?lo]" 0]
    by (auto simp: CRC16_XMODEM_def)
qed

text \<open>
  C28: an error confined to two adjacent bytes is always detected: two messages that differ
  there, and only there, have different checksums.
\<close>

theorem CRC16_detects_burst:
  assumes "(a, b) \<noteq> (a', b')"
  shows "CRC16_XMODEM (p @ [a, b] @ s) (length p + 2 + length s) \<noteq>
    CRC16_XMODEM (p @ [a', b'] @ s) (length p + 2 + length s)"
proof
  assume same: "CRC16_XMODEM (p @ [a, b] @ s) (length p + 2 + length s) =
      CRC16_XMODEM (p @ [a', b'] @ s) (length p + 2 + length s)"
  let ?c = "crc_fold p 0"
  have "crc_fold s (crc_byte b (crc_byte a ?c)) = crc_fold s (crc_byte b' (crc_byte a' ?c))"
    using same crc_loop [of "length p + 2 + length s" "p @ [a, b] @ s" 0]
      crc_loop [of "length p + 2 + length s" "p @ [a', b'] @ s" 0]
    by (simp add: CRC16_XMODEM_def crc_fold_def)
  then have "crc_byte b (crc_byte a ?c) = crc_byte b' (crc_byte a' ?c)" by (rule crc_fold_inj)
  then have "crc_byte (b XOR b') (crc_byte a ?c XOR crc_byte a' ?c) = 0" by (simp add: crc_byte_xor)
  then have "(crc_byte a ?c XOR crc_byte a' ?c) XOR push_bit 8 (ucast (b XOR b')) = 0"
    unfolding crc_byte_def by (rule crc_bits_kernel)
  then have "crc_byte (a XOR a') (?c XOR ?c) = push_bit 8 (ucast (b XOR b'))"
    unfolding crc_byte_xor by (rule xor_zero_eq)
  then have "(crc_bit ^^ 8) (push_bit 8 (ucast (a XOR a'))) = push_bit 8 (ucast (b XOR b'))"
    by (simp add: crc_byte_def)
  from high_byte_kernel [OF this] show False using xor_zero_eq assms by blast
qed

theorem CRC16_detects_burst_witness:
  "CRC16_XMODEM [1, 2, 3, 4] 4 \<noteq> CRC16_XMODEM [1, 2, 131, 4] 4"
proof -
  have "(3 :: 8 word) \<noteq> 131" by code_simp
  then have ne: "(2 :: 8 word, 3 :: 8 word) \<noteq> (2, 131)" by blast
  have len: "length [1 :: 8 word] + 2 + length [4 :: 8 word] = 4" by simp
  have app: "[1 :: 8 word] @ [2, x] @ [4] = [1, 2, x, 4]" for x by simp
  show ?thesis using CRC16_detects_burst [OF ne, of "[1]" "[4]"] unfolding len app .
qed

end
