(* ===== verification/PrimeFacts.thy ===== *)
theory PrimeFacts
  imports Main
begin

text \<open>
  The number theory behind the RSA programs and the prime test of \<^verbatim>\<open>src/cpp/BigNum.cpp\<close>: primes by
  trial division, Fermat's little theorem, and the roots of one modulo a prime.
\<close>

definition prime_nat :: "nat \<Rightarrow> bool" where
  "prime_nat p \<longleftrightarrow> 2 \<le> p \<and> list_all (\<lambda>d. p mod d \<noteq> 0) [2..<p]"

lemma prime_nat_dvd: "prime_nat p \<Longrightarrow> d dvd p \<Longrightarrow> d = 1 \<or> d = p"
proof -
  assume p: "prime_nat p" and d: "d dvd p"
  then have "d \<le> p" "d \<noteq> 0" by (auto simp: prime_nat_def dvd_imp_le intro: ccontr)
  moreover have "p mod d = 0" using d by simp
  then have "\<not> (2 \<le> d \<and> d < p)" using p unfolding prime_nat_def list_all_iff by force
  ultimately show ?thesis by linarith
qed

lemma prime_nat_sqrt:
  assumes "2 \<le> p" "list_all (\<lambda>d. p mod d \<noteq> 0) [2..<k]" "p < k * k"
  shows "prime_nat p"
  unfolding prime_nat_def list_all_iff
proof (intro conjI ballI notI)
  fix d
  assume "d \<in> set [2..<p]" and "p mod d = 0"
  then obtain c where c: "p = d * c" "2 \<le> d" "d < p" by auto
  then have "2 \<le> c" by (cases "c = 0 \<or> c = 1") auto
  have "d < k \<or> c < k"
  proof (rule ccontr)
    assume "\<not> (d < k \<or> c < k)"
    then have "k * k \<le> d * c" by (intro mult_le_mono) simp_all
    with assms(3) c(1) show False by simp
  qed
  moreover have "p mod c = 0" using c(1) by simp
  ultimately show False using assms(2) \<open>p mod d = 0\<close> \<open>2 \<le> c\<close> \<open>2 \<le> d\<close> unfolding list_all_iff by force
qed (rule assms(1))

lemma small_primes: "prime_nat 7" "prime_nat 11" "prime_nat 43" "prime_nat 97" "prime_nat 971" "prime_nat 997"
proof -
  show "prime_nat 7" by (rule prime_nat_sqrt [where k = 3]) simp_all
  show "prime_nat 11" by (rule prime_nat_sqrt [where k = 4]) simp_all
  show "prime_nat 43" by (rule prime_nat_sqrt [where k = 7]) simp_all
  show "prime_nat 97" by (rule prime_nat_sqrt [where k = 10]) simp_all
  show "prime_nat 971" by (rule prime_nat_sqrt [where k = 32]) simp_all
  show "prime_nat 997" by (rule prime_nat_sqrt [where k = 32]) simp_all
qed

lemma prime_coprime: "prime_nat p \<Longrightarrow> \<not> p dvd a \<Longrightarrow> coprime p a"
  using prime_nat_dvd [of p "gcd p a"] by (auto simp: coprime_iff_gcd_eq_1) (metis gcd_dvd2)

lemma prime_dvd_mult: "prime_nat p \<Longrightarrow> p dvd a * b \<Longrightarrow> p dvd a \<or> p dvd b"
  using prime_coprime coprime_dvd_mult_right_iff by blast

lemma prime_dvd_choose:
  assumes "prime_nat p" "0 < k" "k < p"
  shows "p dvd p choose k"
proof -
  have "p dvd k * (p choose k)" using times_binomial_minus1_eq [OF assms(2), of p] by simp
  moreover have "\<not> p dvd k" using assms(2,3) by (auto dest: dvd_imp_le)
  ultimately show ?thesis using prime_dvd_mult [OF assms(1)] by blast
qed

lemma freshman:
  assumes "prime_nat p"
  shows "(a + 1) ^ p mod p = (a ^ p + 1) mod p"
proof -
  obtain k where k: "p = Suc k" using assms by (cases p) (auto simp: prime_nat_def)
  have "(a + 1) ^ p = (\<Sum>i \<le> p. (p choose i) * a ^ i)"
    using binomial_ring [of a 1 p] by simp
  also have "\<dots> = (\<Sum>i \<le> k. (p choose i) * a ^ i) + a ^ p"
    by (simp add: k)
  also have "(\<Sum>i \<le> k. (p choose i) * a ^ i) = 1 + (\<Sum>i \<in> {1..k}. (p choose i) * a ^ i)"
    by (simp add: atMost_atLeast0 sum.atLeast_Suc_atMost)
  finally have "(a + 1) ^ p = (\<Sum>i \<in> {1..k}. (p choose i) * a ^ i) + (a ^ p + 1)" by simp
  moreover have "p dvd (\<Sum>i \<in> {1..k}. (p choose i) * a ^ i)"
    using prime_dvd_choose [OF assms] by (intro dvd_sum dvd_mult2) (auto simp: k)
  ultimately show ?thesis by (metis mod_add_left_eq dvd_imp_mod_0 add_0)
qed

lemma fermat: "prime_nat p \<Longrightarrow> a ^ p mod p = a mod p"
proof (induction a)
  case 0
  then show ?case by (cases p) (auto simp: prime_nat_def)
next
  case (Suc a)
  then show ?case using freshman [of p a] by (metis Suc_eq_plus1 mod_add_left_eq)
qed

lemma fermat_power:
  assumes "prime_nat p"
  shows "a ^ (1 + k * (p - 1)) mod p = a mod p"
proof (induction k)
  case (Suc k)
  have p: "1 + (p - 1) = p" using assms by (simp add: prime_nat_def)
  have "a ^ (1 + Suc k * (p - 1)) mod p = a ^ (1 + k * (p - 1)) * a ^ (p - 1) mod p"
    unfolding power_add [symmetric] by (simp add: add.commute add.left_commute)
  also have "\<dots> = (a mod p) * a ^ (p - 1) mod p" using Suc by (metis mod_mult_left_eq)
  also have "\<dots> = a ^ (1 + (p - 1)) mod p" by (simp add: mod_mult_left_eq)
  also have "\<dots> = a mod p" using fermat [OF assms, of a] p by simp
  finally show ?case .
qed simp

lemma mod_eq_coprime:
  assumes "coprime p q" "x mod p = y mod p" "x mod q = y mod (q :: nat)"
  shows "x mod (p * q) = y mod (p * q)"
proof -
  have "int p dvd int x - int y" "int q dvd int x - int y"
    using assms(2,3) by (metis mod_eq_dvd_iff zmod_int)+
  moreover have "coprime (int p) (int q)" using assms(1) by simp
  ultimately have "int p * int q dvd int x - int y" by (simp add: divides_mult)
  then have "int x mod int (p * q) = int y mod int (p * q)" by (simp add: mod_eq_dvd_iff)
  then show ?thesis by (metis of_nat_eq_iff zmod_int)
qed

lemma rsa_identity:
  assumes "prime_nat p" "prime_nat q" "p \<noteq> q" "e * d mod ((p - 1) * (q - 1)) = 1"
  shows "(x ^ e mod (p * q)) ^ d mod (p * q) = x mod (p * q)"
proof -
  obtain k where k: "e * d = 1 + k * ((p - 1) * (q - 1))"
    using assms(4) by (metis mod_div_mult_eq add.commute mult.commute)
  have "x ^ (e * d) mod p = x mod p"
    using fermat_power [OF assms(1), of x "k * (q - 1)"] unfolding k by (simp only: ac_simps)
  moreover have "x ^ (e * d) mod q = x mod q"
    using fermat_power [OF assms(2), of x "k * (p - 1)"] unfolding k by (simp only: ac_simps)
  moreover have "coprime p q"
    using prime_coprime [OF assms(1), of q] prime_nat_dvd [OF assms(2), of p] assms(1,3)
    by (auto simp: prime_nat_def)
  ultimately have "x ^ (e * d) mod (p * q) = x mod (p * q)" by (intro mod_eq_coprime)
  then show ?thesis by (simp add: power_mod power_mult)
qed

text \<open>Modulo a prime, one has the square roots 1 and -1 only.\<close>

lemma prime_sqrt_one:
  assumes p: "prime_nat p" and z: "z * z mod p = 1 mod p" "z < p"
  shows "z = 1 \<or> z = p - 1"
proof -
  have p2: "2 \<le> p" using p by (simp add: prime_nat_def)
  have "z \<noteq> 0" using z(1) p2 by (cases "z = 0") simp_all
  have "int (z * z) mod int p = 1 mod int p" using z(1) by (metis of_nat_1 zmod_int)
  then have "int p dvd int (z * z) - 1" by (simp add: mod_eq_dvd_iff)
  moreover have "int (z * z) - 1 = int ((z - 1) * (z + 1))" using \<open>z \<noteq> 0\<close> by (cases z) (simp_all add: algebra_simps)
  ultimately have "p dvd (z - 1) * (z + 1)" by (metis of_nat_dvd_iff)
  then have "p dvd z - 1 \<or> p dvd z + 1" by (rule prime_dvd_mult [OF p])
  then show ?thesis using z(2) \<open>z \<noteq> 0\<close> by (auto dest!: dvd_imp_le)
qed

lemma fermat_one:
  assumes p: "prime_nat p" and a: "\<not> p dvd a"
  shows "a ^ (p - 1) mod p = 1 mod p"
proof -
  have "p - 1 + 1 = p" using p by (simp add: prime_nat_def)
  then have "a * a ^ (p - 1) = a ^ p" by (metis Suc_eq_plus1 power_Suc)
  then have "int (a * a ^ (p - 1)) mod int p = int a mod int p" using fermat [OF p, of a] by (metis zmod_int)
  then have "int p dvd int a * (int (a ^ (p - 1)) - 1)" by (simp add: mod_eq_dvd_iff algebra_simps)
  moreover have "coprime (int p) (int a)" using prime_coprime [OF p a] by simp
  ultimately have "int p dvd int (a ^ (p - 1)) - 1" using coprime_dvd_mult_right_iff by blast
  then have "int (a ^ (p - 1)) mod int p = int 1 mod int p" by (simp add: mod_eq_dvd_iff)
  then show ?thesis by (metis of_nat_eq_iff zmod_int)
qed

text \<open>The sequence of squares that ends in one starts with one or passes minus one.\<close>

lemma squares_to_one:
  assumes p: "prime_nat p" and e: "y ^ 2 ^ k mod p = 1 mod p" and y: "y < p"
  shows "y = 1 \<or> (\<exists>j < k. y ^ 2 ^ j mod p = p - 1)"
  using e
proof (induction k)
  case 0
  then show ?case using p y by (simp add: prime_nat_def)
next
  case (Suc k)
  let ?z = "y ^ 2 ^ k mod p"
  have "y ^ 2 ^ Suc k = y ^ 2 ^ k * y ^ 2 ^ k" by (simp add: mult_2 flip: power_add)
  then have "?z * ?z mod p = 1 mod p" using Suc.prems by (simp add: mod_mult_eq)
  moreover have "?z < p" using p by (simp add: prime_nat_def)
  ultimately consider "?z = 1" | "?z = p - 1" using prime_sqrt_one [OF p] by blast
  then show ?case
  proof cases
    case 1
    then have "?z = 1 mod p" using p by (simp add: prime_nat_def)
    then show ?thesis using Suc.IH less_Suc_eq by blast
  qed blast
qed

end
