(* ===== verification/Rsa.thy ===== *)
theory Rsa
  imports C_Prelude PrimeFacts
begin

text \<open>
  The RSA programs: \<^verbatim>\<open>src/cpp/algorithm/rsa_demo.c\<close> (key generation and both
  directions), \<^verbatim>\<open>rsa_algorithm.c\<close> (fixed keys) and \<^verbatim>\<open>rsa_deploy.c\<close> (decryption of a hex
  stream), and the prime test of \<^verbatim>\<open>isprime.c\<close>.  \<^verbatim>\<open>unsigned int\<close> and
  \<^verbatim>\<open>unsigned long\<close> are natural numbers with the reduction modulo \<open>2 ^ 32\<close> and
  \<open>2 ^ 64\<close> written out; \<^verbatim>\<open>int\<close> is checked.  \<^verbatim>\<open>rand\<close> is the list of numbers it
  will deliver.
\<close>

abbreviation U32 :: nat where "U32 \<equiv> 2 ^ 32"
abbreviation U64 :: nat where "U64 \<equiv> 2 ^ 64"

text \<open>The value of a \<^verbatim>\<open>char\<close> assigned to an \<^verbatim>\<open>unsigned int\<close>, and back.\<close>

definition char_u32 :: "char \<Rightarrow> nat" where
  "char_u32 c = nat (char_int c mod 2 ^ 32)"

definition low_char :: "nat \<Rightarrow> char" where
  "low_char n = char_of (n mod 256)"

section \<open>Keys (\<^verbatim>\<open>rsa_demo.c\<close>)\<close>

function get_com_div :: "nat \<Rightarrow> nat \<Rightarrow> nat" where
  "get_com_div p q =
     (let (a, b) = (if p > q then (p, q) else (q, p))
      in if b = 0 then a else get_com_div b (a mod b))"
  by pat_completeness auto
termination
  by (relation "measure (\<lambda>(p, q). if p > q then q else p)") (auto split: if_splits)

declare get_com_div.simps [simp del]

text \<open>
  The loop of \<^verbatim>\<open>is_prime\<close>: the \<^verbatim>\<open>int\<close> counter is compared with the \<^verbatim>\<open>unsigned int\<close>
  argument and overflows past \<^verbatim>\<open>INT_MAX\<close>.  The result is the return value and what was
  printed.
\<close>

definition not_prime_msg :: "nat \<Rightarrow> string" where
  "not_prime_msg s = show_nat s @
     '' '' @ [CHR 0xE4, CHR 0xB8, CHR 0x8D, CHR 0xE6, CHR 0x98, CHR 0xAF, CHR 0xE4, CHR 0xB8, CHR 0x80,
              CHR 0xE4, CHR 0xB8, CHR 0xAA, CHR 0xE7, CHR 0xB4, CHR 0xA0, CHR 0xE6, CHR 0x95, CHR 0xB0] @
     ''('' @ show_nat s @ '' is not a prime)'' @ [CHR 0x0A]"

function is_prime_from :: "nat \<Rightarrow> nat \<Rightarrow> (nat \<times> string) c_result" where
  "is_prime_from i s =
     (if i < s then
        if s mod i = 0 then Inr (0, not_prime_msg s)
        else if int i + 1 > INT_MAX then Inl SignedOverflow
        else is_prime_from (Suc i) s
      else Inr (1, []))"
  by pat_completeness auto
termination by (relation "measure (\<lambda>(i, s). s - i)") auto

declare is_prime_from.simps [simp del]

definition is_prime :: "nat \<Rightarrow> (nat \<times> string) c_result" where
  "is_prime s = is_prime_from 2 s"

text \<open>The search of \<^verbatim>\<open>get_private_key\<close>; \<open>-1\<close> is the largest \<^verbatim>\<open>unsigned int\<close>.\<close>

function private_key_from :: "nat \<Rightarrow> nat \<Rightarrow> nat \<Rightarrow> nat \<times> string" where
  "private_key_from d e t =
     (if d < t then
        if e * d mod U32 mod t = 1 then (d, []) else private_key_from (Suc d) e t
      else (U32 - 1, ''get_private_key_err, give another '' @ [CHR 0x0A]))"
  by pat_completeness auto
termination by (relation "measure (\<lambda>(d, e, t). t - d)") auto

declare private_key_from.simps [simp del]

definition get_private_key :: "nat \<Rightarrow> nat \<Rightarrow> nat \<times> string" where
  "get_private_key e t = private_key_from 0 e t"

text \<open>
  \<^verbatim>\<open>while (1)\<close> over the numbers \<^verbatim>\<open>rand\<close> delivers; with none left the loop is still
  running.
\<close>

primrec draw_coprime :: "nat list \<Rightarrow> nat \<Rightarrow> (nat \<times> nat list) c_result" where
  "draw_coprime [] t = Inl Diverges"
| "draw_coprime (r # rs) t =
     c_bind (c_require (t \<noteq> 0) DivisionByZero) (\<lambda>_.
       let e = r mod t in if get_com_div e t = 1 then Inr (e, rs) else draw_coprime rs t)"

definition get_random :: "nat list \<Rightarrow> nat \<Rightarrow> nat \<Rightarrow> (nat \<times> nat list) c_result" where
  "get_random draws p q = draw_coprime draws ((p + U32 - 1) mod U32 * ((q + U32 - 1) mod U32) mod U32)"

section \<open>Encryption and decryption (\<^verbatim>\<open>rsa_demo.c\<close>)\<close>

text \<open>The inner loop of both functions: \<^verbatim>\<open>flag = flag * x % n\<close>, \<open>e\<close> times.\<close>

text \<open>
  The loop over the exponent.  Its counter \<^verbatim>\<open>j\<close> is an \<^verbatim>\<open>int\<close> (rsa_demo.c:87, 98): for exponents above
  \<^verbatim>\<open>INT_MAX\<close>, which the key generation never yields, the increment overflows; the model does
  not say so.
\<close>

definition pow_u32 :: "nat \<Rightarrow> nat \<Rightarrow> nat \<Rightarrow> nat c_result" where
  "pow_u32 e n x =
     for_loop 0 e (\<lambda>j flag. c_bind (c_require (n \<noteq> 0) DivisionByZero) (\<lambda>_. Inr (flag * x mod U32 mod n))) 1"

definition encrypt_dt :: "nat \<Rightarrow> nat \<Rightarrow> string \<Rightarrow> nat \<Rightarrow> nat list \<Rightarrow> nat list c_result" where
  "encrypt_dt e n plain sz cypher =
     c_bind (for_loop 0 sz (\<lambda>i num. c_bind (load plain i) (\<lambda>c. store num i (char_u32 c)))
              (replicate sz 0)) (\<lambda>plain_num.
       for_loop 0 sz (\<lambda>i out.
         c_bind (load plain_num i) (\<lambda>x. c_bind (pow_u32 e n x) (\<lambda>flag. store out i flag))) cypher)"

definition decrypt_dt :: "nat \<Rightarrow> nat \<Rightarrow> nat list \<Rightarrow> string \<Rightarrow> nat \<Rightarrow> string c_result" where
  "decrypt_dt d n cypher plain sz =
     c_bind (for_loop 0 sz (\<lambda>i num.
         c_bind (load cypher i) (\<lambda>x. c_bind (pow_u32 d n x) (\<lambda>flag. store num i flag)))
              (replicate sz 0)) (\<lambda>dec_num.
       for_loop 0 sz (\<lambda>i out. c_bind (load dec_num i) (\<lambda>x. store out i (low_char x))) plain)"

definition rsa_text :: string where
  "rsa_text = ''hellorsa1hellorsa2hellorsa3''"

text \<open>\<^verbatim>\<open>main\<close>: the return value and the output; \<open>draws\<close> is what \<^verbatim>\<open>rand\<close> delivers.\<close>

definition rsa_main :: "nat list \<Rightarrow> (int \<times> string) c_result" where
  "rsa_main draws =
     (let P = 7; Q = 11 in
      c_bind (is_prime P) (\<lambda>(tep, m1).
      if tep = 0 then Inr (- 1, m1 @ ''p='' @ show_nat P @ '' is not a prime'' @ [CHR 0x0A]) else
      c_bind (is_prime Q) (\<lambda>(tep, m2).
      if tep = 0 then Inr (- 1, m2 @ ''q='' @ show_nat Q @ '' is not a prime'' @ [CHR 0x0A]) else
      if get_com_div P Q \<noteq> 1 then
        Inr (- 1, show_nat P @ '' and '' @ show_nat Q @ '' is not with a co-prime relation'' @ [CHR 0x0A]) else
      let n = P * Q; t = (P - 1) * (Q - 1) in
      c_bind (get_random draws P Q) (\<lambda>(e, draws).
      let (d, m3) = get_private_key e t; sz = length rsa_text in
      c_bind (encrypt_dt e n rsa_text sz (replicate sz 0)) (\<lambda>cypher.
      c_bind (decrypt_dt d n cypher (replicate (sz + 1) NUL) sz) (\<lambda>dec_result.
      c_bind (c_strlen dec_result) (\<lambda>_.
        Inr (0, [CHR 0xE5, CHR 0xA4, CHR 0xA7, CHR 0xE7, CHR 0xB4, CHR 0xA0, CHR 0xE6, CHR 0x95, CHR 0xB0] @
          '' p='' @ show_nat P @ '', q='' @ show_nat Q @ [CHR 0x0A] @
          ''t=(q-1)*(p-1)='' @ show_nat t @ [CHR 0x0A] @
          ''pub_key(e='' @ show_nat e @ '' n='' @ show_nat n @ '')'' @ [CHR 0x0A] @ m3 @
          ''pri_key(d='' @ show_nat d @ '', n='' @ show_nat n @ '')'' @ [CHR 0x0A] @
          ''plain_text:'' @ rsa_text @ [CHR 0x0A] @
          ''cypher:'' @ concat (map (\<lambda>c. pad_with (CHR ''0'') 4 (show_hex False c)) cypher) @ [CHR 0x0A] @
          ''dec_dt'' @ [CHR 0xEF, CHR 0xBC, CHR 0x9A] @ cstr dec_result @ [CHR 0x0A]))))))))"

section \<open>Fixed keys (\<^verbatim>\<open>rsa_algorithm.c\<close>)\<close>

text \<open>\<^verbatim>\<open>int\<close> arithmetic; both functions work on exactly \<^verbatim>\<open>SIZE\<close> = 20 elements.\<close>

definition pow_int :: "nat \<Rightarrow> int \<Rightarrow> int \<Rightarrow> int c_result" where
  "pow_int e n x = for_loop 0 e (\<lambda>j flag. c_bind (c_int (flag * x)) (\<lambda>p. c_rem p n)) 1"

definition encrypt_fixed :: "nat \<Rightarrow> int \<Rightarrow> string \<Rightarrow> int list c_result" where
  "encrypt_fixed e n plain_txt =
     c_bind (for_loop 0 20 (\<lambda>i num. c_bind (str_at plain_txt i) (\<lambda>c. store num i (char_int c)))
              (replicate 20 0)) (\<lambda>plain_num.
       for_loop 0 20 (\<lambda>i out.
         c_bind (load plain_num i) (\<lambda>x. c_bind (pow_int e n x) (\<lambda>flag. store out i flag))) (replicate 20 0))"

text \<open>\<^verbatim>\<open>unsigned long\<close> arithmetic: the operands \<^verbatim>\<open>cypher[i]\<close> and \<^verbatim>\<open>n\<close> are converted.\<close>

definition pow_u64 :: "nat \<Rightarrow> nat \<Rightarrow> nat \<Rightarrow> nat c_result" where
  "pow_u64 d n x =
     for_loop 0 d (\<lambda>j flag. c_bind (c_require (n \<noteq> 0) DivisionByZero) (\<lambda>_. Inr (flag * x mod U64 mod n))) 1"

definition int_u64 :: "int \<Rightarrow> nat" where
  "int_u64 x = nat (x mod 2 ^ 64)"

definition decrypt_fixed :: "nat \<Rightarrow> int \<Rightarrow> int list \<Rightarrow> string c_result" where
  "decrypt_fixed d n cypher =
     c_bind (for_loop 0 20 (\<lambda>i num.
         c_bind (load cypher i) (\<lambda>x. c_bind (pow_u64 d (int_u64 n) (int_u64 x)) (\<lambda>flag. store num i flag)))
              (replicate 20 0)) (\<lambda>dec_num.
       for_loop 0 20 (\<lambda>i out. c_bind (load dec_num i) (\<lambda>x. store out i (low_char x))) (replicate 20 NUL))"

definition fixed_text :: string where
  "fixed_text = ''ZeYJd8HFkI9l2$lGifRT''"

text \<open>\<^verbatim>\<open>printf\<close> of an array reads up to its NUL.\<close>

definition print_str :: "string \<Rightarrow> string c_result" where
  "print_str b = (if NUL \<in> set b then Inr (cstr b) else Inl OutOfBounds)"

definition fixed_main :: "string c_result" where
  "fixed_main =
     (let e = 480317; n = 968087; d = 537653 in
      c_bind (encrypt_fixed e n fixed_text) (\<lambda>cypher.
      c_bind (decrypt_fixed d n cypher) (\<lambda>dec_dt.
      c_bind (print_str dec_dt) (\<lambda>s.
        Inr (''(e='' @ show_nat e @ '', n='' @ show_int n @ '')'' @ [CHR 0x0A] @
          ''(d='' @ show_nat d @ '', n='' @ show_int n @ '')'' @ [CHR 0x0A] @
          ''txt='' @ fixed_text @ [CHR 0x0A] @
          ''encrypt_dt('' @ show_nat e @ '', '' @ show_int n @ '', '' @ fixed_text @ '')'' @ [CHR 0x0A] @
          ''cypher='' @ concat (map (\<lambda>c. show_int c @ '' '') cypher) @
          ''cypher_hex='' @ concat (map (\<lambda>c. pad_with (CHR ''0'') 2 (show_hex True (nat c))) cypher) @ [CHR 0x0A] @
          ''dec_dt='' @ s @ [CHR 0x0A])))))"

section \<open>Deployment (\<^verbatim>\<open>rsa_deploy.c\<close>)\<close>

definition dec :: "int list \<Rightarrow> string c_result" where
  "dec cypher = decrypt_fixed 3989 4171 cypher"

definition cypher_hex :: string where
  "cypher_hex =
     ''00000E930000021B0000005900000E930000012600000E930000021B0000005900000E93'' @
     ''0000015200000E930000021B0000005900000E9300000EE300000E930000021B00000059'' @
     ''00000E9300000751''"

text \<open>
  \<^verbatim>\<open>strncpy (int_str, src, 8)\<close> copies eight characters, and fills with NUL after the end
  of the source; \<^verbatim>\<open>strtol (int_str, NULL, 16)\<close> reads hexadecimal digits up to the first
  other character.
\<close>

definition strncpy8 :: "string \<Rightarrow> nat \<Rightarrow> string" where
  "strncpy8 src off = (let t = take 8 (drop off src) in t @ replicate (8 - length t) NUL)"

definition hex_value :: "char \<Rightarrow> nat option" where
  "hex_value c =
     (let k = of_char c :: nat in
      if 48 \<le> k \<and> k \<le> 57 then Some (k - 48)
      else if 65 \<le> k \<and> k \<le> 70 then Some (k - 55)
      else if 97 \<le> k \<and> k \<le> 102 then Some (k - 87)
      else None)"

fun strtol16 :: "string \<Rightarrow> int \<Rightarrow> int c_result" where
  "strtol16 [] acc = Inl OutOfBounds"
| "strtol16 (c # cs) acc =
     (case hex_value c of None \<Rightarrow> Inr acc | Some v \<Rightarrow> strtol16 cs (acc * 16 + int v))"

definition deploy_main :: "string c_result" where
  "deploy_main =
     c_bind (for_loop 0 20 (\<lambda>i cyp.
       c_bind (strtol16 (strncpy8 cypher_hex (i * 8)) 0) (\<lambda>v. store cyp i v)) (replicate 20 0)) (\<lambda>int_cypher.
     c_bind (dec int_cypher) (\<lambda>dec_dt.
     c_bind (print_str dec_dt) (\<lambda>s.
       Inr (''config(d=3989, n=4171, s=20)'' @ [CHR 0x0A] @ ''assert_txt=test1test2test3test4'' @ [CHR 0x0A] @
         ''cypher_hex='' @ cypher_hex @ [CHR 0x0A] @ ''dec_dt='' @ s @ [CHR 0x0A]))))"

section \<open>The prime test of \<^verbatim>\<open>isprime.c\<close>\<close>

text \<open>
  \<^verbatim>\<open>isprime\<close> returns 0 for a prime and 1 for a composite number; below 2 the loop does not
  run and control reaches the end of the function without a return value.
\<close>

function isprime_from :: "nat \<Rightarrow> nat \<Rightarrow> int c_result" where
  "isprime_from i num =
     (if i \<le> num then
        if num mod i = 0 then Inr (if num \<noteq> i then 1 else 0) else isprime_from (Suc i) num
      else Inl NoReturnValue)"
  by pat_completeness auto
termination by (relation "measure (\<lambda>(i, num). Suc num - i)") auto

declare isprime_from.simps [simp del]

definition isprime :: "int \<Rightarrow> int c_result" where
  "isprime num = (if num < 2 then Inl NoReturnValue else isprime_from 2 (nat num))"

text \<open>\<^verbatim>\<open>main\<close>: the numbers it prints, given how many passes of the loop are made.\<close>

primrec primes_loop :: "nat \<Rightarrow> nat \<Rightarrow> nat \<Rightarrow> nat list \<Rightarrow> nat list c_result" where
  "primes_loop 0 i N out = Inr out"
| "primes_loop (Suc fuel) i N out =
     (if i < 2800 then
        c_bind (isprime (int N)) (\<lambda>r.
          if r = 0 then primes_loop fuel (Suc i) (Suc N) (out @ [N]) else primes_loop fuel i (Suc N) out)
      else Inr out)"

section \<open>Correctness of the routines\<close>

lemma get_com_div_gcd: "get_com_div p q = gcd p q"
proof (induction p q rule: get_com_div.induct)
  case (1 p q)
  show ?case
  proof (cases "p > q")
    case True
    with 1 show ?thesis by (subst get_com_div.simps) (auto simp: gcd_red_nat [of p q])
  next
    case False
    with 1 show ?thesis by (subst get_com_div.simps) (auto simp: gcd_red_nat [of q p] gcd.commute [of p q])
  qed
qed

lemma is_prime_from_result:
  "2 \<le> i \<Longrightarrow> int s \<le> INT_MAX \<Longrightarrow>
     is_prime_from i s = Inr (if list_all (\<lambda>d. s mod d \<noteq> 0) [i..<s] then (1, []) else (0, not_prime_msg s))"
proof (induction i s rule: is_prime_from.induct)
  case (1 i s)
  show ?case
  proof (cases "i < s")
    case True
    then have "[i..<s] = i # [Suc i..<s]" by (simp add: upt_conv_Cons)
    with 1 True show ?thesis by (subst is_prime_from.simps) (auto simp: INT_MAX_def)
  qed (subst is_prime_from.simps, simp)
qed

lemma private_key_from_result:
  "d \<le> d0 \<Longrightarrow> d0 < t \<Longrightarrow> e * d0 mod U32 mod t = 1 \<Longrightarrow>
     \<exists>d'. private_key_from d e t = (d', []) \<and> d' < t \<and> e * d' mod U32 mod t = 1"
proof (induction d e t rule: private_key_from.induct)
  case (1 d e t)
  show ?case
  proof (cases "e * d mod U32 mod t = 1")
    case True
    with 1 show ?thesis by (subst private_key_from.simps) auto
  next
    case False
    with "1.prems" have "Suc d \<le> d0" by (metis le_neq_implies_less Suc_leI)
    with "1.IH" False "1.prems" show ?thesis by (subst private_key_from.simps) auto
  qed
qed

lemma inverse_exists:
  assumes "coprime e t" "1 < (t :: nat)"
  shows "\<exists>d < t. e * d mod t = 1"
proof -
  have "e \<noteq> 0" using assms by (cases "e = 0") simp_all
  from bezout_nat [OF this, of t] obtain x y where "e * x = t * y + 1" using assms(1) by auto
  then have "e * x mod t = 1" using assms(2) mod_mult_self4 [of t y 1] by (simp only: mod_less)
  then have "e * (x mod t) mod t = 1" by (simp add: mod_mult_right_eq)
  with assms(2) show ?thesis by (intro exI [of _ "x mod t"]) simp
qed

lemma mod_le_pred:
  assumes "1 < n"
  shows "x mod n \<le> n - (1 :: nat)"
proof -
  have "x mod n < n" using assms by simp
  then show ?thesis by linarith
qed

lemma pow_u32_eq:
  assumes "1 < n" "(n - 1) * x < U32"
  shows "pow_u32 e n x = Inr (x ^ e mod n)"
proof -
  have "\<exists>f. pow_u32 e n x = Inr f \<and> f = x ^ e mod n"
    unfolding pow_u32_def
  proof (rule for_loop_total)
    fix j flag
    assume f: "flag = x ^ j mod n"
    then have "flag \<le> n - 1" using mod_le_pred [OF assms(1)] by simp
    then have "flag * x \<le> (n - 1) * x" by (rule mult_le_mono1)
    then have "flag * x mod U32 = flag * x" by (rule mod_less [OF le_less_trans [OF _ assms(2)]])
    with f assms(1) show "\<exists>g. c_bind (c_require (n \<noteq> 0) DivisionByZero)
        (\<lambda>_. Inr (flag * x mod U32 mod n)) = Inr g \<and> g = x ^ Suc j mod n"
      by (simp add: mod_mult_left_eq mod_mult_right_eq mult.commute)
  qed (use assms(1) in simp_all)
  then show ?thesis by blast
qed

lemma pow_u64_eq:
  assumes "1 < n" "(n - 1) * x < U64"
  shows "pow_u64 e n x = Inr (x ^ e mod n)"
proof -
  have "\<exists>f. pow_u64 e n x = Inr f \<and> f = x ^ e mod n"
    unfolding pow_u64_def
  proof (rule for_loop_total)
    fix j flag
    assume f: "flag = x ^ j mod n"
    then have "flag \<le> n - 1" using mod_le_pred [OF assms(1)] by simp
    then have "flag * x \<le> (n - 1) * x" by (rule mult_le_mono1)
    then have "flag * x mod U64 = flag * x" by (rule mod_less [OF le_less_trans [OF _ assms(2)]])
    with f assms(1) show "\<exists>g. c_bind (c_require (n \<noteq> 0) DivisionByZero)
        (\<lambda>_. Inr (flag * x mod U64 mod n)) = Inr g \<and> g = x ^ Suc j mod n"
      by (simp add: mod_mult_left_eq mod_mult_right_eq mult.commute)
  qed (use assms(1) in simp_all)
  then show ?thesis by blast
qed

lemma pow_int_eq:
  assumes "1 < n" "int ((n - 1) * x) \<le> INT_MAX"
  shows "pow_int e (int n) (int x) = Inr (int (x ^ e mod n))"
proof -
  have "\<exists>f. pow_int e (int n) (int x) = Inr f \<and> f = int (x ^ e mod n)"
    unfolding pow_int_def
  proof (rule for_loop_total)
    fix j and flag :: int
    assume f: "flag = int (x ^ j mod n)"
    have "x ^ j mod n \<le> n - 1" by (rule mod_le_pred [OF assms(1)])
    then have "x ^ j mod n * x \<le> (n - 1) * x" by (rule mult_le_mono1)
    then have le: "int (x ^ j mod n * x) \<le> INT_MAX" using assms(2) by linarith
    moreover have "INT_MIN \<le> int (x ^ j mod n * x)" by (rule order_trans [of _ 0]) (simp_all add: INT_MIN_def)
    ultimately have "c_int (flag * int x) = Inr (int (x ^ j mod n * x))"
      by (simp add: f)
    moreover have "c_rem (int (x ^ j mod n * x)) (int n) = Inr (int (x ^ Suc j mod n))"
    proof -
      have "c_rem (int (x ^ j mod n * x)) (int n) = Inr (int (x ^ j mod n * x) mod int n)"
        using assms(1) by (intro c_rem_nonneg [OF _ le]) simp_all
      also have "int (x ^ j mod n * x) mod int n = int (x ^ j mod n * x mod n)" by (simp only: zmod_int)
      also have "x ^ j mod n * x mod n = x ^ Suc j mod n" by (simp add: mod_mult_right_eq mult.commute)
      finally show ?thesis .
    qed
    ultimately show "\<exists>g. c_bind (c_int (flag * int x)) (\<lambda>p. c_rem p (int n)) = Inr g \<and> g = int (x ^ Suc j mod n)"
      by (simp only: c_bind_simps) blast
  qed (use assms(1) in simp_all)
  then show ?thesis by blast
qed

text \<open>The loops that fill an array cell by cell, for a message of ASCII characters.\<close>

definition ascii :: "string \<Rightarrow> bool" where
  "ascii s \<longleftrightarrow> list_all (\<lambda>c. (of_char c :: nat) < 128) s"

lemma ascii_char: "(of_char c :: nat) < 128 \<Longrightarrow> char_int c = int (of_char c) \<and> char_u32 c = of_char c"
proof -
  assume c: "(of_char c :: nat) < 128"
  have "(of_char c :: int) = int (of_char c)" by (simp only: of_nat_of_char)
  with c have "char_int c = int (of_char c)" unfolding char_int_def Let_def by simp
  then show ?thesis using c unfolding char_u32_def by (simp add: zmod_int [symmetric])
qed

lemma ascii_nth: "ascii s \<Longrightarrow> i < length s \<Longrightarrow> (of_char (s ! i) :: nat) < 128"
  by (simp add: ascii_def list_all_length)

lemma encrypt_dt_eq:
  assumes "ascii plain" "1 < n" "(n - 1) * 127 < U32" "length cypher = length plain"
  shows "encrypt_dt e n plain (length plain) cypher = Inr (map (\<lambda>c. of_char c ^ e mod n) plain)"
proof -
  let ?l = "length plain"
  have nums: "for_loop 0 ?l (\<lambda>i num. c_bind (load plain i) (\<lambda>c. store num i (char_u32 c))) (replicate ?l 0)
      = Inr (map (\<lambda>i. char_u32 (plain ! i)) [0..<?l])"
    using fill_loop [of ?l "replicate ?l 0" "\<lambda>i num. c_bind (load plain i) (\<lambda>c. store num i (char_u32 c))"
        "\<lambda>i. char_u32 (plain ! i)"] by (simp add: load_in store_in)
  have pw: "pow_u32 e n (of_char (plain ! i)) = Inr (of_char (plain ! i) ^ e mod n)" if "i < ?l" for i
  proof (rule pow_u32_eq [OF assms(2)])
    have "of_char (plain ! i) \<le> (127 :: nat)" using ascii_nth [OF assms(1) that] by simp
    then have "(n - 1) * of_char (plain ! i) \<le> (n - 1) * 127" by (rule mult_le_mono2)
    then show "(n - 1) * of_char (plain ! i) < U32" by (rule le_less_trans [OF _ assms(3)])
  qed
  have u: "char_u32 (plain ! i) = of_char (plain ! i)" if "i < ?l" for i
    using ascii_char ascii_nth [OF assms(1) that] by blast
  let ?body = "\<lambda>i out. c_bind (load (map (\<lambda>i. char_u32 (plain ! i)) [0..<?l]) i)
      (\<lambda>x. c_bind (pow_u32 e n x) (\<lambda>flag. store out i flag))"
  have "for_loop 0 ?l ?body cypher =
      Inr (map (\<lambda>i. of_char (plain ! i) ^ e mod n) [0..<?l] @ drop ?l cypher)"
    by (rule fill_loop) (use assms(4) in \<open>simp_all add: load_in store_in u pw\<close>)
  moreover have "map (\<lambda>i. of_char (plain ! i) ^ e mod n) [0..<?l] = map (\<lambda>c. of_char c ^ e mod n) plain"
    by (rule nth_equalityI) simp_all
  ultimately show ?thesis using assms(4) by (simp add: encrypt_dt_def nums)
qed

lemma decrypt_dt_eq:
  assumes "1 < n" "n \<le> 2 ^ 16" "list_all (\<lambda>x. x < n) cypher" "length cypher \<le> length plain"
  shows "decrypt_dt d n cypher plain (length cypher) =
    Inr (map (\<lambda>x. low_char (x ^ d mod n)) cypher @ drop (length cypher) plain)"
proof -
  let ?l = "length cypher"
  have pw: "pow_u32 d n (cypher ! i) = Inr (cypher ! i ^ d mod n)" if "i < ?l" for i
  proof (rule pow_u32_eq [OF assms(1)])
    have "cypher ! i < n" using assms(3) that by (simp add: list_all_length)
    then have "(n - 1) * (cypher ! i) \<le> (2 ^ 16 - 1) * (2 ^ 16 - 1)"
      using assms(2) by (intro mult_le_mono) simp_all
    then show "(n - 1) * (cypher ! i) < U32" by simp
  qed
  have "for_loop 0 ?l (\<lambda>i num. c_bind (load cypher i) (\<lambda>x. c_bind (pow_u32 d n x) (\<lambda>flag. store num i flag)))
      (replicate ?l 0) = Inr (map (\<lambda>i. cypher ! i ^ d mod n) [0..<?l] @ drop ?l (replicate ?l 0))"
    by (rule fill_loop) (simp_all add: load_in store_in pw)
  moreover have "for_loop 0 ?l (\<lambda>i out. c_bind (load (map (\<lambda>i. cypher ! i ^ d mod n) [0..<?l]) i)
        (\<lambda>x. store out i (low_char x))) plain =
      Inr (map (\<lambda>i. low_char (cypher ! i ^ d mod n)) [0..<?l] @ drop ?l plain)"
    by (rule fill_loop) (use assms(4) in \<open>simp_all add: load_in store_in\<close>)
  moreover have "map (\<lambda>i. low_char (cypher ! i ^ d mod n)) [0..<?l] = map (\<lambda>x. low_char (x ^ d mod n)) cypher"
    by (rule nth_equalityI) simp_all
  ultimately show ?thesis by (simp add: decrypt_dt_def)
qed

lemma decrypt_fixed_eq:
  assumes "1 < n" "n < 2 ^ 31" "length cypher = 20" "list_all (\<lambda>x. x < n) cypher"
  shows "decrypt_fixed d (int n) (map int cypher) = Inr (map (\<lambda>x. low_char (x ^ d mod n)) cypher)"
proof -
  have n64: "int_u64 (int k) = k" if "k < 2 ^ 31" for k
    using that by (simp add: int_u64_def zmod_int [symmetric])
  have pw: "pow_u64 d (int_u64 (int n)) (int_u64 (int (cypher ! i))) = Inr (cypher ! i ^ d mod n)" if "i < 20" for i
  proof -
    have x: "cypher ! i < n" using assms(3,4) that by (simp add: list_all_length)
    then have "(n - 1) * (cypher ! i) \<le> (2 ^ 31 - 1) * (2 ^ 31 - 1)"
      using assms(2) by (intro mult_le_mono) simp_all
    then have "(n - 1) * (cypher ! i) < U64" by (rule le_less_trans) simp
    then show ?thesis using n64 [OF assms(2)] n64 [of "cypher ! i"] x assms(2) pow_u64_eq [OF assms(1)] by simp
  qed
  have "for_loop 0 20 (\<lambda>i num. c_bind (load (map int cypher) i)
        (\<lambda>x. c_bind (pow_u64 d (int_u64 (int n)) (int_u64 x)) (\<lambda>flag. store num i flag))) (replicate 20 0)
      = Inr (map (\<lambda>i. cypher ! i ^ d mod n) [0..<20] @ drop 20 (replicate 20 0))"
    by (rule fill_loop) (use assms(3) in \<open>simp_all add: load_in store_in pw\<close>)
  moreover have "for_loop 0 20 (\<lambda>i out. c_bind (load (map (\<lambda>i. cypher ! i ^ d mod n) [0..<20]) i)
        (\<lambda>x. store out i (low_char x))) (replicate 20 NUL) =
      Inr (map (\<lambda>i. low_char (cypher ! i ^ d mod n)) [0..<20] @ drop 20 (replicate 20 NUL))"
    by (rule fill_loop) (simp_all add: load_in store_in)
  moreover have "map (\<lambda>i. low_char (cypher ! i ^ d mod n)) [0..<20] = map (\<lambda>x. low_char (x ^ d mod n)) cypher"
    using assms(3) by (intro nth_equalityI) simp_all
  ultimately show ?thesis by (simp add: decrypt_fixed_def del: upt_rec_numeral)
qed

lemma encrypt_fixed_eq:
  assumes "ascii t" "20 \<le> length t" "1 < n" "int ((n - 1) * 127) \<le> INT_MAX"
  shows "encrypt_fixed e (int n) t = Inr (map int (map (\<lambda>c. of_char c ^ e mod n) (take 20 t)))"
proof -
  have ch: "str_at t i = Inr (t ! i)" "char_int (t ! i) = int (of_char (t ! i))" if "i < 20" for i
    using that assms(2) ascii_char ascii_nth [OF assms(1), of i] by simp_all
  have nums: "for_loop 0 20 (\<lambda>i num. c_bind (str_at t i) (\<lambda>c. store num i (char_int c))) (replicate 20 0)
      = Inr (map (\<lambda>i. int (of_char (t ! i))) [0..<20] @ drop 20 (replicate 20 0))"
    by (rule fill_loop) (simp_all add: ch store_in)
  have pw: "pow_int e (int n) (int (of_char (t ! i))) = Inr (int (of_char (t ! i) ^ e mod n))" if "i < 20" for i
  proof (rule pow_int_eq [OF assms(3)])
    have "of_char (t ! i) \<le> (127 :: nat)" using ascii_nth [OF assms(1), of i] that assms(2) by simp
    then have "(n - 1) * of_char (t ! i) \<le> (n - 1) * 127" by (rule mult_le_mono2)
    then show "int ((n - 1) * of_char (t ! i)) \<le> INT_MAX" using assms(4) by linarith
  qed
  have "for_loop 0 20 (\<lambda>i out. c_bind (load (map (\<lambda>i. int (of_char (t ! i))) [0..<20]) i)
        (\<lambda>x. c_bind (pow_int e (int n) x) (\<lambda>flag. store out i flag))) (replicate 20 0) =
      Inr (map (\<lambda>i. int (of_char (t ! i) ^ e mod n)) [0..<20] @ drop 20 (replicate 20 0))"
    by (rule fill_loop) (simp_all add: load_in store_in pw)
  moreover have "map (\<lambda>i. int (of_char (t ! i) ^ e mod n)) [0..<20] =
      map int (map (\<lambda>c. of_char c ^ e mod n) (take 20 t))"
    using assms(2) by (intro nth_equalityI) simp_all
  ultimately show ?thesis using nums by (simp add: encrypt_fixed_def del: upt_rec_numeral)
qed

lemma low_char_of_char [simp]: "low_char (of_char c) = c"
  by (simp add: low_char_def)

lemma isprime_from_result:
  "2 \<le> i \<Longrightarrow> i \<le> num \<Longrightarrow>
     isprime_from i num = Inr (if list_all (\<lambda>d. num mod d \<noteq> 0) [i..<num] then 0 else 1)"
proof (induction i num rule: isprime_from.induct)
  case (1 i num)
  show ?case
  proof (cases "i = num")
    case True
    then show ?thesis by (subst isprime_from.simps) simp
  next
    case False
    with "1.prems" have "[i..<num] = i # [Suc i..<num]" by (simp add: upt_conv_Cons)
    with 1 False show ?thesis by (subst isprime_from.simps) auto
  qed
qed

lemma isprime_result: "2 \<le> num \<Longrightarrow> isprime (int num) = Inr (if prime_nat num then 0 else 1)"
  by (simp add: isprime_def isprime_from_result prime_nat_def)

lemma of_low_char: "of_char (low_char n) = n mod (256 :: nat)"
  by (simp add: low_char_def)

lemma garbled_text:
  "NUL \<notin> set (map (\<lambda>c. low_char (of_char c mod 77)) rsa_text)"
  "map (\<lambda>c. low_char (of_char c mod 77)) rsa_text \<noteq> rsa_text"
proof -
  have "(of_char c :: nat) mod 77 mod 256 \<noteq> 0" if "c \<in> set rsa_text" for c
    using that unfolding rsa_text_def by auto
  moreover have "x mod 77 mod 256 = 0" if "low_char (x mod 77) = NUL" for x
    using of_low_char [of "x mod 77"] unfolding that by simp
  ultimately show "NUL \<notin> set (map (\<lambda>c. low_char (of_char c mod 77)) rsa_text)"
    by (metis (no_types, lifting) image_iff set_map)
  have "of_char (low_char (of_char (hd rsa_text) mod 77)) \<noteq> (of_char (hd rsa_text) :: nat)"
    unfolding of_low_char by (simp add: rsa_text_def)
  then have "hd (map (\<lambda>c. low_char (of_char c mod 77)) rsa_text) \<noteq> hd rsa_text"
    by (auto simp: rsa_text_def)
  then show "map (\<lambda>c. low_char (of_char c mod 77)) rsa_text \<noteq> rsa_text" by metis
qed

lemma demo_trip:
  assumes "prime_nat p" "prime_nat q" "p \<noteq> q" "p * q \<le> 2 ^ 16"
    and "e * d mod ((p - 1) * (q - 1)) = 1"
    and "ascii plain" "length cypher = length plain" "length plain \<le> length out"
  shows "\<exists>c. encrypt_dt e (p * q) plain (length plain) cypher = Inr c \<and>
    decrypt_dt d (p * q) c out (length plain) =
      Inr (map (\<lambda>x. low_char (of_char x mod (p * q))) plain @ drop (length plain) out)"
proof -
  have "2 * 2 \<le> p * q" using assms(1,2) by (intro mult_le_mono) (simp_all add: prime_nat_def)
  then have n: "1 < p * q" by simp
  then have "(p * q - 1) * 127 < U32" using assms(4) by simp
  from encrypt_dt_eq [OF assms(6) n this assms(7)] have
    c: "encrypt_dt e (p * q) plain (length plain) cypher = Inr (map (\<lambda>c. of_char c ^ e mod (p * q)) plain)" .
  have "y mod (p * q) < p * q" for y using n by (intro mod_less_divisor) linarith
  then have "list_all (\<lambda>x. x < p * q) (map (\<lambda>c. of_char c ^ e mod (p * q)) plain)"
    by (simp add: list_all_iff)
  from decrypt_dt_eq [OF n assms(4) this, of out d] have
    "decrypt_dt d (p * q) (map (\<lambda>c. of_char c ^ e mod (p * q)) plain) out (length plain) =
      Inr (map (\<lambda>x. low_char (of_char x mod (p * q))) plain @ drop (length plain) out)"
    using assms(8) by (simp add: rsa_identity [OF assms(1-3,5)] comp_def)
  with c show ?thesis by blast
qed

section \<open>Properties\<close>



text \<open>
  C17: decryption inverts encryption in \<^verbatim>\<open>rsa_demo.c\<close>: for distinct primes with a product
  \<open>n\<close> of at most \<open>2 ^ 16\<close> and inverse exponents, every character of an ASCII message comes
  back reduced modulo \<open>n\<close>, so unchanged when it is smaller than \<open>n\<close>.
\<close>

theorem rsa_demo_round_trip:
  assumes "prime_nat p" "prime_nat q" "p \<noteq> q" "p * q \<le> 2 ^ 16"
    and "e * d mod ((p - 1) * (q - 1)) = 1"
    and "ascii plain" "length cypher = length plain" "length plain \<le> length out"
  shows "\<exists>c. encrypt_dt e (p * q) plain (length plain) cypher = Inr c \<and>
    decrypt_dt d (p * q) c out (length plain) =
      Inr (map (\<lambda>x. low_char (of_char x mod (p * q))) plain @ drop (length plain) out)"
  by (rule demo_trip [OF assms])

theorem rsa_demo_round_trip_witness:
  "\<exists>c. encrypt_dt 7 77 ''ABC'' 3 [0, 0, 0] = Inr c \<and> decrypt_dt 43 77 c (replicate 4 NUL) 3 = Inr (''ABC'' @ [NUL])"
proof -
  have "ascii ''ABC''" by code_simp
  moreover have l3: "length ''ABC'' = 3" "7 * 11 = (77 :: nat)" by simp_all
  moreover have "7 \<noteq> (11 :: nat)" "(77 :: nat) \<le> 2 ^ 16" "7 * 43 mod ((7 - 1) * (11 - 1)) = (1 :: nat)"
      "length [0 :: nat, 0, 0] = 3" "3 \<le> length (replicate 4 NUL)"
    by simp_all
  ultimately obtain c where "encrypt_dt 7 77 ''ABC'' 3 [0, 0, 0] = Inr c"
    "decrypt_dt 43 77 c (replicate 4 NUL) 3 =
       Inr (map (\<lambda>x. low_char (of_char x mod 77)) ''ABC'' @ drop 3 (replicate 4 NUL))"
    using rsa_demo_round_trip [OF small_primes(1,2), of 7 43 "''ABC''" "[0, 0, 0]" "replicate 4 NUL", unfolded l3]
    by blast
  moreover have "low_char (of_char c mod 77) = c" if "c \<in> set ''ABC''" for c
  proof -
    have "(of_char c :: nat) mod 77 = of_char c" using that by (intro mod_less) auto
    then show ?thesis by simp
  qed
  then have "map (\<lambda>x. low_char (of_char x mod 77)) ''ABC'' = ''ABC''" by (intro map_idI)
  moreover have "drop 3 (replicate 4 NUL) = [NUL]" by code_simp
  ultimately show ?thesis by simp
qed

text \<open>
  The function \<^verbatim>\<open>main\<close> of \<^verbatim>\<open>rsa_demo.c\<close> uses \<open>n = 77\<close>, below the codes of the letters of its text:
  whatever key is drawn, it succeeds and prints a decrypted text in which every letter is
  replaced by its code modulo 77.
\<close>

theorem rsa_main_garbles:
  assumes "get_random draws 7 11 = Inr (e, rest)"
  shows "\<exists>out. rsa_main draws = Inr (0, out @ ''dec_dt'' @ [CHR 0xEF, CHR 0xBC, CHR 0x9A] @
      map (\<lambda>c. low_char (of_char c mod 77)) rsa_text @ [CHR 0x0A]) \<and>
    map (\<lambda>c. low_char (of_char c mod 77)) rsa_text \<noteq> rsa_text"
proof -
  have t: "(7 + U32 - 1) mod U32 * ((11 + U32 - 1) mod U32) mod U32 = 60" by simp
  have "draw_coprime draws 60 = Inr (e, rest) \<Longrightarrow> coprime e 60 \<and> e < 60"
    by (induction draws)
      (auto simp: get_com_div_gcd coprime_iff_gcd_eq_1 Let_def split: if_splits)
  then have e: "coprime e 60" "e < 60" using assms unfolding get_random_def t by blast+
  obtain d0 where "d0 < 60" "e * d0 mod 60 = 1" using inverse_exists [OF e(1)] by auto
  moreover have "e * k mod U32 = e * k" if "k < 60" for k
  proof -
    have "e * k \<le> 60 * 60" using that e(2) by (intro mult_le_mono) simp_all
    then show ?thesis by (intro mod_less) simp
  qed
  ultimately obtain d where d: "get_private_key e 60 = (d, [])" "e * d mod 60 = 1"
    using private_key_from_result [of 0 d0 60 e] unfolding get_private_key_def by (metis le0)
  note pr = small_primes(1,2)
  have asc: "ascii rsa_text" by code_simp
  let ?g = "map (\<lambda>c. low_char (of_char c mod 77)) rsa_text" and ?l = "length rsa_text"
  have dr: "drop ?l (replicate (?l + 1) NUL) = [NUL]" by (simp only: drop_replicate) simp
  have "7 \<noteq> (11 :: nat)" "7 * 11 \<le> (2 ^ 16 :: nat)" "e * d mod ((7 - 1) * (11 - 1)) = 1"
      "length (replicate ?l (0 :: nat)) = ?l" "?l \<le> length (replicate (?l + 1) NUL)"
    using d(2) by simp_all
  from demo_trip [OF pr this(1-3) asc this(4,5), unfolded dr]
  have trip: "\<exists>c. encrypt_dt e 77 rsa_text ?l (replicate ?l 0) = Inr c \<and>
      decrypt_dt d 77 c (replicate (?l + 1) NUL) ?l = Inr (?g @ [NUL])"
    by simp
  obtain c where c: "encrypt_dt e 77 rsa_text ?l (replicate ?l 0) = Inr c"
    "decrypt_dt d 77 c (replicate (?l + 1) NUL) ?l = Inr (?g @ [NUL])"
    using trip by blast
  have nul: "NUL \<notin> set ?g" "?g \<noteq> rsa_text" by (rule garbled_text)+
  have p7: "is_prime 7 = Inr (1, [])" "is_prime 11 = Inr (1, [])" "get_com_div 7 11 = 1" by code_simp+
  have "c_strlen (?g @ [NUL]) = Inr ?l" "cstr (?g @ [NUL]) = ?g"
    using nul(1) by simp_all
  note str = this
  have num77: "7 * 11 = (77 :: nat)" "(7 - 1) * (11 - 1) = (60 :: nat)" "(1 :: nat) \<noteq> 0" by simp_all
  have "\<exists>out. rsa_main draws = Inr (0, out @ ''dec_dt'' @ [CHR 0xEF, CHR 0xBC, CHR 0x9A] @ ?g @ [CHR 0x0A])"
    unfolding rsa_main_def Let_def
    by (simp only: p7 c_bind_simps prod.case assms num77 if_False d(1) c str simp_thms append_assoc [symmetric])
      (rule exI, rule refl)
  then show ?thesis using nul(2) by blast
qed

theorem rsa_main_garbles_witness:
  "\<exists>out. rsa_main [7] = Inr (0, out @ ''dec_dt'' @ [CHR 0xEF, CHR 0xBC, CHR 0x9A] @
      map (\<lambda>c. low_char (of_char c mod 77)) rsa_text @ [CHR 0x0A])"
proof -
  have "get_com_div 7 60 = 1" by code_simp
  then have "get_random [7] 7 11 = Inr (7, [])" by (simp add: get_random_def)
  from rsa_main_garbles [OF this] show ?thesis by blast
qed

text \<open>
  With the keys of \<^verbatim>\<open>rsa_algorithm.c\<close> decryption restores all twenty characters of a
  message, so that \<^verbatim>\<open>dec_str[20]\<close> holds no NUL and printing it in \<^verbatim>\<open>main\<close> reads past the
  array.
\<close>

theorem rsa_fixed_round_trip:
  assumes "ascii t" "length t = 20"
  shows "(\<exists>c. encrypt_fixed 480317 968087 t = Inr c \<and> decrypt_fixed 537653 968087 c = Inr t) \<and>
    fixed_main = Inl OutOfBounds"
proof -
  note pr = small_primes(5,6)
  have trip: "encrypt_fixed 480317 968087 t = Inr (map int (map (\<lambda>c. of_char c ^ 480317 mod 968087) t)) \<and>
      decrypt_fixed 537653 968087 (map int (map (\<lambda>c. of_char c ^ 480317 mod 968087) t)) = Inr t"
    if "ascii t" "length t = 20" for t
  proof -
    have "encrypt_fixed 480317 (int 968087) t = Inr (map int (map (\<lambda>c. of_char c ^ 480317 mod 968087) t))"
      using encrypt_fixed_eq [OF that(1), of 968087 480317] that(2) by (simp add: INT_MAX_def)
    moreover have "list_all (\<lambda>x. x < 968087) (map (\<lambda>c. of_char c ^ 480317 mod (968087 :: nat)) t)"
      by (auto simp: list_all_iff)
    with decrypt_fixed_eq [of 968087 "map (\<lambda>c. of_char c ^ 480317 mod 968087) t" 537653] that(2)
    have "decrypt_fixed 537653 (int 968087) (map int (map (\<lambda>c. of_char c ^ 480317 mod 968087) t)) =
        Inr (map (\<lambda>x. low_char (x ^ 537653 mod 968087)) (map (\<lambda>c. of_char c ^ 480317 mod 968087) t))"
      by (simp del: map_map)
    moreover have "low_char ((of_char c ^ 480317 mod 968087) ^ 537653 mod 968087) = c" for c
    proof -
      have "(of_char c ^ 480317 mod (971 * 997)) ^ 537653 mod (971 * 997) = (of_char c mod (971 * 997) :: nat)"
        by (rule rsa_identity [OF pr]) simp_all
      moreover have "(of_char c :: nat) mod 968087 = of_char c"
        using nat_of_char_less_256 [of c] by (intro mod_less) linarith
      ultimately show ?thesis by simp
    qed
    ultimately show ?thesis by (simp add: comp_def)
  qed
  have "ascii fixed_text" "length fixed_text = 20" "NUL \<notin> set fixed_text" by code_simp+
  with trip [of fixed_text] have "fixed_main = Inl OutOfBounds"
    by (simp add: fixed_main_def Let_def print_str_def)
  with trip [OF assms] show ?thesis by blast
qed

theorem rsa_fixed_round_trip_witness:
  "\<exists>c. encrypt_fixed 480317 968087 ''abcdefghijklmnopqrst'' = Inr c \<and>
     decrypt_fixed 537653 968087 c = Inr ''abcdefghijklmnopqrst''"
proof -
  have "ascii ''abcdefghijklmnopqrst''" "length ''abcdefghijklmnopqrst'' = 20" by code_simp+
  from rsa_fixed_round_trip [OF this] show ?thesis by blast
qed

text \<open>
  The function \<^verbatim>\<open>dec\<close> of \<^verbatim>\<open>rsa_deploy.c\<close> inverts the public exponent 2813 on every ASCII message of
  twenty characters, but \<^verbatim>\<open>main\<close> faults before it calls it: \<^verbatim>\<open>int_str\<close> holds eight digits
  and no NUL when \<^verbatim>\<open>strtol\<close> reads it.
\<close>

theorem rsa_deploy_dec:
  assumes "ascii t" "length t = 20"
  shows "dec (map (\<lambda>c. int (of_char c ^ 2813 mod 4171)) t) = Inr t \<and> deploy_main = Inl OutOfBounds"
proof -
  note pr = small_primes(3,4)
  have id: "low_char ((of_char c ^ 2813 mod 4171) ^ 3989 mod 4171) = c" for c
  proof -
    have "(of_char c ^ 2813 mod (43 * 97)) ^ 3989 mod (43 * 97) = (of_char c mod (43 * 97) :: nat)"
      by (rule rsa_identity [OF pr]) simp_all
    moreover have "(of_char c :: nat) mod 4171 = of_char c"
      using nat_of_char_less_256 [of c] by (intro mod_less) linarith
    ultimately show ?thesis by simp
  qed
  have "list_all (\<lambda>x. x < 4171) (map (\<lambda>c. of_char c ^ 2813 mod (4171 :: nat)) t)"
    by (auto simp: list_all_iff)
  with decrypt_fixed_eq [of 4171 "map (\<lambda>c. of_char c ^ 2813 mod 4171) t" 3989] assms(2)
  have "dec (map int (map (\<lambda>c. of_char c ^ 2813 mod 4171) t)) =
      Inr (map (\<lambda>x. low_char (x ^ 3989 mod 4171)) (map (\<lambda>c. of_char c ^ 2813 mod 4171) t))"
    by (simp add: dec_def del: map_map)
  moreover have "strtol16 (strncpy8 cypher_hex 0) 0 = Inl OutOfBounds" by code_simp
  then have "deploy_main = Inl OutOfBounds"
    by (simp add: deploy_main_def for_loop_step [of 0])
  ultimately show ?thesis by (simp add: id comp_def)
qed

theorem rsa_deploy_dec_witness:
  "dec (map (\<lambda>c. int (of_char c ^ 2813 mod 4171)) ''test1test2test3test4'') = Inr ''test1test2test3test4''"
proof -
  have "ascii ''test1test2test3test4''" "length ''test1test2test3test4'' = 20" by code_simp+
  from rsa_deploy_dec [OF this] show ?thesis by blast
qed

text \<open>
  The function \<^verbatim>\<open>isprime\<close> returns 0 exactly for primes, has no return value below 2, and
  \<^verbatim>\<open>main\<close> of \<^verbatim>\<open>isprime.c\<close> prints primes in order, starting at 3.
\<close>

theorem isprime_main_primes:
  "primes_loop fuel 0 3 [] = Inr (take 2800 (filter prime_nat [3..<3 + fuel])) \<and>
     isprime 1 = Inl NoReturnValue"
proof -
  have "primes_loop fuel i N out = Inr (out @ take (2800 - i) (filter prime_nat [N..<N + fuel]))"
    if "2 \<le> N" for i N out
    using that
  proof (induction fuel arbitrary: i N out)
    case (Suc fuel)
    have "[N..<N + Suc fuel] = N # [Suc N..<Suc N + fuel]" by (simp add: upt_conv_Cons)
    moreover have "2800 - i = Suc (2800 - Suc i)" if "i < 2800" using that by simp
    ultimately show ?case
      using Suc.IH [of "Suc N"] Suc.prems by (cases "i < 2800") (simp_all add: isprime_result)
  qed simp
  from this [of 3 0 "[]"] show ?thesis by (simp add: isprime_def)
qed

end
