(* ===== verification/BigInt.thy ===== *)
theory BigInt
  imports C_Prelude
begin

text \<open>
  The class \<^verbatim>\<open>BigNum\<close> of \<^verbatim>\<open>src/cpp/BigNum.cpp\<close>: signed numbers in limbs of 32 bits, least limb
  first.  The limbs are \<^verbatim>\<open>unsigned long\<close>, whose width is the parameter \<open>w\<close> (32 on the platform
  the program was written for, 64 on Linux); \<open>ul w\<close> is the conversion to it.  Arithmetic of
  \<^verbatim>\<open>uint64_t\<close> wraps modulo \<open>2 ^ 64\<close>.  An array access outside the 128 limbs faults.  Loops that may
  not end take \<open>fuel\<close> and fault with \<open>Diverges\<close> when it is used up.
\<close>

unbundle bit_operations_syntax

section \<open>The class\<close>

record BigNum =
  len :: nat
  signal :: int
  limbs :: "nat list"

abbreviation B32 :: nat where "B32 \<equiv> 4294967296"

definition ul :: "nat \<Rightarrow> nat \<Rightarrow> nat" where
  "ul w x = x mod 2 ^ w"

definition u64 :: "nat \<Rightarrow> nat" where
  "u64 x = x mod 2 ^ 64"

text \<open>The constructors without an argument and from \<^verbatim>\<open>uint64_t\<close>.\<close>

definition BigNum0 :: BigNum where
  "BigNum0 = \<lparr>len = 1, signal = 0, limbs = replicate 128 0\<rparr>"

definition BigNum_u64 :: "nat \<Rightarrow> nat \<Rightarrow> BigNum" where
  "BigNum_u64 w A =
     (if A \<le> 0xffffffff then \<lparr>len = 1, signal = 0, limbs = ul w A # replicate 127 0\<rparr>
      else \<lparr>len = 2, signal = 0, limbs = ul w A # ul w (A div B32) # replicate 126 0\<rparr>)"

text \<open>\<^verbatim>\<open>while (n > 1) if (array[n - 1] == 0) n--; else break;\<close>\<close>

function strip :: "nat list \<Rightarrow> nat \<Rightarrow> nat c_result" where
  "strip a n =
     (if 1 < n then c_bind (load a (n - 1)) (\<lambda>x. if x = 0 then strip a (n - 1) else Inr n) else Inr n)"
  by pat_completeness auto
termination by (relation "measure snd") auto

declare strip.simps [simp del]

text \<open>\<^verbatim>\<open>Compare\<close>: 1 when smaller, 0 when greater, 2 when equal in absolute value.\<close>

primrec cmp_limbs :: "nat list \<Rightarrow> nat list \<Rightarrow> nat \<Rightarrow> nat c_result" where
  "cmp_limbs a b 0 = Inr 2"
| "cmp_limbs a b (Suc i) =
     c_bind (load a i) (\<lambda>x. c_bind (load b i) (\<lambda>y.
       if x > y then Inr 0 else if x < y then Inr 1 else cmp_limbs a b i))"

definition Compare :: "BigNum \<Rightarrow> BigNum \<Rightarrow> nat c_result" where
  "Compare X A =
     (if len X > len A then Inr 0 else if len X < len A then Inr 1 else cmp_limbs (limbs X) (limbs A) (len X))"

definition op_neg :: "BigNum \<Rightarrow> BigNum" where
  "op_neg X = X\<lparr>signal := 1 - signal X\<rparr>"

definition op_eq :: "BigNum \<Rightarrow> BigNum \<Rightarrow> bool c_result" where
  "op_eq X A = (if signal X = signal A then c_bind (Compare X A) (\<lambda>c. Inr (c = 2)) else Inr False)"

definition op_ne :: "BigNum \<Rightarrow> BigNum \<Rightarrow> bool c_result" where
  "op_ne X A = (if signal X = signal A then c_bind (Compare X A) (\<lambda>c. Inr (c \<noteq> 2)) else Inr False)"

section \<open>Sums and differences\<close>

text \<open>The branch of \<^verbatim>\<open>operator+\<close> for equal signs: the carry and the limbs so far.\<close>

definition add_step :: "nat \<Rightarrow> nat list \<Rightarrow> nat list \<Rightarrow> nat \<Rightarrow> nat \<times> nat list \<Rightarrow> (nat \<times> nat list) c_result" where
  "add_step w a b i = (\<lambda>(C, s).
     c_bind (load b i) (\<lambda>y. c_bind (load a i) (\<lambda>x.
       let sum = u64 (y + x + C) in
       c_bind (store s i (ul w sum)) (\<lambda>s. Inr (if sum \<le> 0xffffffff then 0 else 1, s)))))"

definition add_mag :: "nat \<Rightarrow> BigNum \<Rightarrow> BigNum \<Rightarrow> BigNum c_result" where
  "add_mag w X A =
     (let n = (if len X \<ge> len A then len X + 1 else len A + 1) in
      c_bind (for_loop 0 n (add_step w (limbs X) (limbs A)) (0, replicate 128 0)) (\<lambda>(C, s).
      c_bind (strip s n) (\<lambda>n. Inr \<lparr>len = n, signal = signal X, limbs = s\<rparr>)))"

text \<open>
  The branch of \<^verbatim>\<open>operator-\<close> for equal signs, smaller limbs \<open>b\<close> from larger \<open>a\<close>: the borrow and the
  limbs so far.  \<^verbatim>\<open>sub\<close> is an \<^verbatim>\<open>unsigned int\<close>.
\<close>

definition sub_step :: "nat \<Rightarrow> nat list \<Rightarrow> nat list \<Rightarrow> nat \<Rightarrow> nat \<times> nat list \<Rightarrow> (nat \<times> nat list) c_result" where
  "sub_step w a b i = (\<lambda>(F, s).
     c_bind (load a i) (\<lambda>x. c_bind (load b i) (\<lambda>y.
       let sub = ul w (x + 2 ^ w - F) mod B32;
           F = (if sub < y then 1 else 0) in
       c_bind (store s i (nat ((int (0xffffffff * F) - int y + int sub + int F) mod 2 ^ w))) (\<lambda>s. Inr (F, s)))))"

definition sub_mag :: "nat \<Rightarrow> BigNum \<Rightarrow> BigNum \<Rightarrow> BigNum c_result" where
  "sub_mag w X A =
     c_bind (Compare X A) (\<lambda>c.
     let (n, a, b, sg) = (if c = 0 \<or> c = 2 then (len X, limbs X, limbs A, if signal X = 0 then 0 else 1)
                          else (len A, limbs A, limbs X, if signal X = 0 then 1 else 0)) in
     c_bind (for_loop 0 n (sub_step w a b) (0, replicate 128 0)) (\<lambda>(F, s).
     c_bind (strip s n) (\<lambda>n. Inr \<lparr>len = n, signal = sg, limbs = s\<rparr>)))"

text \<open>
  The operators call each other when the signs differ.  When they still differ after the
  negation, which takes a sign other than 0 and 1, the calls never end.
\<close>

definition op_add :: "nat \<Rightarrow> BigNum \<Rightarrow> BigNum \<Rightarrow> BigNum c_result" where
  "op_add w X A =
     (if signal X = signal A then add_mag w X A
      else if signal X = 0 then
        (let D = op_neg A in if signal X = signal D then sub_mag w X D else Inl Diverges)
      else
        (let D = op_neg X in if signal A = signal D then sub_mag w A D else Inl Diverges))"

definition op_sub :: "nat \<Rightarrow> BigNum \<Rightarrow> BigNum \<Rightarrow> BigNum c_result" where
  "op_sub w X A =
     (if signal X = signal A then sub_mag w X A
      else (let D = op_neg A in if signal X = signal D then add_mag w X D else Inl Diverges))"

section \<open>Products\<close>

text \<open>One limb of \<open>b\<close> against limb \<open>j\<close> of \<open>a\<close>, added at \<open>i + j\<close>: the carry and the product so far.\<close>

definition mul_step :: "nat \<Rightarrow> nat list \<Rightarrow> nat list \<Rightarrow> nat \<Rightarrow> nat \<Rightarrow> nat \<times> nat list \<Rightarrow> (nat \<times> nat list) c_result" where
  "mul_step w a b i j = (\<lambda>(C, p).
     c_bind (load b i) (\<lambda>y. c_bind (load a j) (\<lambda>x. c_bind (load p (i + j)) (\<lambda>z.
       let pro = u64 (y * x + C);
           C = (if u64 (z + pro) > 0xffffffff then u64 (z + pro) div B32 else 0) in
       c_bind (store p (i + j) (ul w (z + ul w pro))) (\<lambda>p. Inr (C, p))))))"

definition op_mul :: "nat \<Rightarrow> BigNum \<Rightarrow> BigNum \<Rightarrow> BigNum c_result" where
  "op_mul w X A =
     c_bind (for_loop 0 (len A) (\<lambda>i. for_loop 0 (len X + 1) (mul_step w (limbs X) (limbs A) i)) (0, replicate 128 0)) (\<lambda>(C, p).
     c_bind (strip p (len X + len A)) (\<lambda>n.
       Inr \<lparr>len = n, signal = (if signal X = signal A then 0 else 1), limbs = p\<rparr>))"

section \<open>Quotients and remainders\<close>

text \<open>The trial quotient as a number, shifted by \<open>k\<close> limbs.\<close>

definition shift_limbs :: "BigNum \<Rightarrow> nat \<Rightarrow> BigNum c_result" where
  "shift_limbs Z k =
     c_bind (for_down k (len Z + k) (\<lambda>i a. c_bind (load a (i - k)) (\<lambda>x. store a i x)) (limbs Z)) (\<lambda>a.
     c_bind (for_loop 0 k (\<lambda>i a. store a i 0) a) (\<lambda>a. Inr (Z\<lparr>len := len Z + k, limbs := a\<rparr>)))"

definition c_div :: "nat \<Rightarrow> nat \<Rightarrow> nat c_result" where
  "c_div x y = (if y = 0 then Inl DivisionByZero else Inr (x div y))"

text \<open>
  One pass of \<^verbatim>\<open>operator/\<close> for a divisor of several limbs: the trial quotient and its shift,
  or \<open>None\<close> when the rest of the quotient is 1.
\<close>

definition div_trial :: "nat \<Rightarrow> BigNum \<Rightarrow> BigNum \<Rightarrow> (nat \<times> nat) option c_result" where
  "div_trial w X A =
     c_bind (load (limbs X) (len X - 1)) (\<lambda>x.
     c_bind (load (limbs A) (len A - 1)) (\<lambda>a.
     if x > a then c_bind (c_div x (ul w (a + 1))) (\<lambda>q. Inr (Some (q, len X - len A)))
     else if len X > len A then
       c_bind (load (limbs X) (len X - 2)) (\<lambda>x2.
       let temp = u64 (u64 (x * B32) + x2) in
       c_bind (if a = 0xffffffff then Inr (temp div B32) else c_div temp (ul w (a + 1))) (\<lambda>q.
         Inr (Some (q, len X - len A - 1))))
     else Inr None))"

primrec div_loop :: "nat \<Rightarrow> nat \<Rightarrow> BigNum \<Rightarrow> BigNum \<Rightarrow> BigNum \<Rightarrow> (BigNum \<times> BigNum) c_result" where
  "div_loop w 0 A X Y = Inl Diverges"
| "div_loop w (Suc fuel) A X Y =
     c_bind (Compare X A) (\<lambda>c.
     if c \<noteq> 0 then Inr (X, Y)
     else
       c_bind (div_trial w X A) (\<lambda>q.
       case q of
         None \<Rightarrow> c_bind (op_add w Y (BigNum_u64 w 1)) (\<lambda>Y. Inr (X, Y))
       | Some (q, k) \<Rightarrow>
           c_bind (shift_limbs (BigNum_u64 w q) k) (\<lambda>Z.
           c_bind (op_add w Y Z) (\<lambda>Y.
           c_bind (op_mul w A Z) (\<lambda>Z.
           c_bind (op_sub w X Z) (\<lambda>X. div_loop w fuel A X Y))))))"

text \<open>A divisor of one limb: the remainder so far and the limbs.\<close>

definition div_step :: "nat \<Rightarrow> nat \<Rightarrow> nat \<Rightarrow> nat \<times> nat list \<Rightarrow> (nat \<times> nat list) c_result" where
  "div_step w d i = (\<lambda>(F, a).
     c_bind (load a i) (\<lambda>x.
     let n = u64 (u64 (F * B32) + x) in
     c_bind (c_div n d) (\<lambda>q.
     c_bind (store a i (ul w q)) (\<lambda>a. Inr (ul w (n - u64 (q * d)), a)))))"

definition op_div :: "nat \<Rightarrow> nat \<Rightarrow> BigNum \<Rightarrow> BigNum \<Rightarrow> BigNum c_result" where
  "op_div w fuel X A =
     (if len A > 1 then
        c_bind (div_loop w fuel A X BigNum0) (\<lambda>(R, Y).
        c_bind (Compare R A) (\<lambda>c.
        c_bind (if c = 2 then op_add w Y (BigNum_u64 w 1) else Inr Y) (\<lambda>Y.
          Inr (if signal X \<noteq> signal A then Y\<lparr>signal := 1\<rparr> else Y))))
      else
        c_bind (load (limbs A) 0) (\<lambda>d.
        if len X = 1 then
          c_bind (load (limbs X) 0) (\<lambda>x. c_bind (c_div x d) (\<lambda>q.
          c_bind (store (limbs X) 0 q) (\<lambda>a. Inr (X\<lparr>limbs := a\<rparr>))))
        else
          c_bind (for_down 0 (len X) (div_step w d) (0, limbs X)) (\<lambda>(F, a).
          c_bind (load a (len X - 1)) (\<lambda>x.
            Inr (X\<lparr>limbs := a, len := (if x = 0 then len X - 1 else len X)\<rparr>)))))"

text \<open>
  One pass of \<^verbatim>\<open>operator%\<close>; \<open>None\<close> when the remainder is the difference.  The source's test
  \<^verbatim>\<open>(div <= temp) && length\<close> (BigNum.cpp:602) reads the length of the dividend the operator was
  called on; a pass runs only when that number is not shorter than the divisor, which has more
  than one limb, so the second conjunct is always true and the model leaves it out.
\<close>

definition mod_trial :: "BigNum \<Rightarrow> BigNum \<Rightarrow> (nat \<times> nat) option c_result" where
  "mod_trial Y A =
     c_bind (load (limbs Y) (len Y - 1)) (\<lambda>d.
     c_bind (load (limbs A) (len A - 1)) (\<lambda>t.
     let k = int (len Y) - int (len A) in
     if d = t \<and> k = 0 then Inr None
     else
       c_bind (if d \<le> t then c_bind (load (limbs Y) (len Y - 2)) (\<lambda>y2. Inr (k - 1, u64 (u64 (d * B32) + y2))) else Inr (k, d)) (\<lambda>(k, d).
       if k < 0 then Inl OutOfBounds
       else c_bind (c_div d (u64 (t + 1))) (\<lambda>q. Inr (Some (q, nat k))))))"

primrec mod_loop :: "nat \<Rightarrow> nat \<Rightarrow> BigNum \<Rightarrow> BigNum \<Rightarrow> BigNum c_result" where
  "mod_loop w 0 A Y = Inl Diverges"
| "mod_loop w (Suc fuel) A Y =
     c_bind (Compare Y A) (\<lambda>c.
     if c = 1 then Inr Y
     else
       c_bind (mod_trial Y A) (\<lambda>q.
       case q of
         None \<Rightarrow> op_sub w Y A
       | Some (q, k) \<Rightarrow>
           c_bind (if k = 0 then Inr (BigNum_u64 w q) else shift_limbs (BigNum_u64 w q) k) (\<lambda>Z.
           c_bind (op_mul w A Z) (\<lambda>T.
           c_bind (op_sub w Y T) (\<lambda>Y. mod_loop w fuel A Y)))))"

definition c_mod :: "nat \<Rightarrow> nat \<Rightarrow> nat c_result" where
  "c_mod x y = (if y = 0 then Inl DivisionByZero else Inr (x mod y))"

definition op_mod :: "nat \<Rightarrow> nat \<Rightarrow> BigNum \<Rightarrow> BigNum \<Rightarrow> BigNum c_result" where
  "op_mod w fuel X A =
     (if len A > 1 then mod_loop w fuel A X
      else
        c_bind (load (limbs A) 0) (\<lambda>d.
        c_bind (if len X = 1 then c_bind (load (limbs X) 0) (\<lambda>x. c_mod x d)
                else for_down 0 (len X) (\<lambda>i F. c_bind (load (limbs X) i) (\<lambda>x. c_mod (u64 (F * B32) OR x) d)) 0) (\<lambda>F.
          Inr (BigNum_u64 w F))))"

section \<open>The value of a number\<close>

primrec lval :: "nat list \<Rightarrow> nat" where
  "lval [] = 0"
| "lval (x # xs) = x + B32 * lval xs"

definition limbs_ok :: "nat list \<Rightarrow> bool" where
  "limbs_ok a \<longleftrightarrow> length a = 128 \<and> (\<forall>x \<in> set a. x < B32)"

definition zero_from :: "nat \<Rightarrow> nat list \<Rightarrow> bool" where
  "zero_from n a \<longleftrightarrow> (\<forall>i. n \<le> i \<and> i < length a \<longrightarrow> a ! i = 0)"

definition wf_big :: "BigNum \<Rightarrow> bool" where
  "wf_big X \<longleftrightarrow> limbs_ok (limbs X) \<and> 1 \<le> len X \<and> len X \<le> 128 \<and> zero_from (len X) (limbs X) \<and>
     (signal X = 0 \<or> signal X = 1)"

text \<open>No leading zero limb.\<close>

definition normal_big :: "BigNum \<Rightarrow> bool" where
  "normal_big X \<longleftrightarrow> len X = 1 \<or> limbs X ! (len X - 1) \<noteq> 0"

definition mag :: "BigNum \<Rightarrow> nat" where
  "mag X = lval (limbs X)"

definition big :: "BigNum \<Rightarrow> int" where
  "big X = (if signal X = 0 then int (mag X) else - int (mag X))"

lemma mag_make [simp]: "mag \<lparr>len = m, signal = g, limbs = s\<rparr> = lval s"
  by (simp add: mag_def)

lemma bit_cases: "(F :: nat) \<le> 1 \<Longrightarrow> F = 0 \<or> F = 1"
  by linarith

lemma lval_append: "lval (a @ b) = lval a + B32 ^ length a * lval b"
  by (induction a) (simp_all add: algebra_simps)

lemma lval_zero: "(\<forall>x \<in> set a. x = 0) \<Longrightarrow> lval a = 0"
  by (induction a) simp_all

lemma lval_replicate [simp]: "lval (replicate n 0) = 0"
  by (simp add: lval_zero)

lemma lval_bound: "(\<forall>x \<in> set a. x < B32) \<Longrightarrow> lval a < B32 ^ length a"
proof (induction a)
  case (Cons x a)
  then have "lval a + 1 \<le> B32 ^ length a" "x < B32" by auto
  then have "B32 * (lval a + 1) \<le> B32 * B32 ^ length a" by (simp only: mult_le_mono2)
  with \<open>x < B32\<close> show ?case by simp
qed simp

lemma lval_take_Suc: "i < length a \<Longrightarrow> lval (take (Suc i) a) = lval (take i a) + a ! i * B32 ^ i"
  by (simp add: take_Suc_conv_app_nth lval_append)

lemma lval_take_zero:
  assumes "zero_from n a"
  shows "lval (take n a) = lval a"
proof -
  have "lval (drop n a) = 0"
    by (rule lval_zero) (use assms in \<open>auto simp: zero_from_def in_set_conv_nth\<close>)
  then show ?thesis using lval_append [of "take n a" "drop n a"] by simp
qed

lemma lval_update:
  assumes "k < length a"
  shows "lval (a[k := v]) + a ! k * B32 ^ k = lval a + v * B32 ^ k"
proof -
  have "lval a = lval (take k a) + B32 ^ k * (a ! k + B32 * lval (drop (Suc k) a))"
    using id_take_nth_drop [OF assms] assms lval_append [of "take k a" "a ! k # drop (Suc k) a"] by (simp add: min_absorb2)
  moreover have "lval (a[k := v]) = lval (take k a) + B32 ^ k * (v + B32 * lval (drop (Suc k) a))"
    using upd_conv_take_nth_drop [OF assms, of v] assms lval_append [of "take k a" "v # drop (Suc k) a"] by (simp add: min_absorb2)
  ultimately show ?thesis by (simp add: algebra_simps)
qed

lemma zero_from_mono: "zero_from n a \<Longrightarrow> n \<le> m \<Longrightarrow> zero_from m a"
  by (simp add: zero_from_def)

lemma lval_take_ge: "zero_from m a \<Longrightarrow> m \<le> n \<Longrightarrow> lval (take n a) = lval a"
  by (rule lval_take_zero [OF zero_from_mono])

lemma zero_from_bound: "(\<forall>x \<in> set a. x < B32) \<Longrightarrow> zero_from n a \<Longrightarrow> n \<le> length a \<Longrightarrow> lval a < B32 ^ n"
  using lval_bound [of "take n a"] lval_take_zero [of n a] by (auto dest: in_set_takeD)

lemma limbs_ok_nth: "limbs_ok a \<Longrightarrow> i < 128 \<Longrightarrow> a ! i < B32"
  by (simp add: limbs_ok_def)

lemma limbs_ok_update: "limbs_ok a \<Longrightarrow> v < B32 \<Longrightarrow> limbs_ok (a[i := v])"
  by (auto simp: limbs_ok_def dest: set_update_subset_insert [THEN subsetD])

lemma ul32: "ul 32 x = x mod B32"
  by (simp add: ul_def)

lemma u64_small: "x < 2 ^ 64 \<Longrightarrow> u64 x = x"
  by (simp add: u64_def)

lemma strip_run:
  assumes "length a = 128" "1 \<le> n" "n \<le> 128" "zero_from n a"
  shows "\<exists>m. strip a n = Inr m \<and> 1 \<le> m \<and> m \<le> n \<and> zero_from m a \<and> (m = 1 \<or> a ! (m - 1) \<noteq> 0)"
  using assms
proof (induction n rule: less_induct)
  case (less n)
  show ?case
  proof (cases "1 < n \<and> a ! (n - 1) = 0")
    case True
    have "zero_from (n - 1) a" unfolding zero_from_def
    proof (intro allI impI)
      fix i assume "n - 1 \<le> i \<and> i < length a"
      then show "a ! i = 0" using True less.prems(4) by (cases "i = n - 1") (auto simp: zero_from_def)
    qed
    with less.IH [of "n - 1"] less.prems True obtain m where "strip a (n - 1) = Inr m" "1 \<le> m" "m \<le> n - 1" "zero_from m a"
      "m = 1 \<or> a ! (m - 1) \<noteq> 0" by force
    then show ?thesis using True less.prems by (intro exI [of _ m]) (simp add: strip.simps [of a n] load_in)
  next
    case False
    then show ?thesis using less.prems
      by (intro exI [of _ n]) (auto simp: strip.simps [of a n] load_in)
  qed
qed

section \<open>Sums\<close>

lemma add_run:
  assumes a: "limbs_ok a" and b: "limbs_ok b" and n: "n \<le> 128"
  shows "\<exists>C s. for_loop 0 n (add_step 32 a b) (0, replicate 128 0) = Inr (C, s) \<and>
    C \<le> 1 \<and> limbs_ok s \<and> zero_from n s \<and> lval s + C * B32 ^ n = lval (take n a) + lval (take n b)"
proof -
  let ?I = "\<lambda>i (cs :: nat \<times> nat list). fst cs \<le> 1 \<and> limbs_ok (snd cs) \<and> zero_from i (snd cs) \<and>
    lval (snd cs) + fst cs * B32 ^ i = lval (take i a) + lval (take i b)"
  have "\<exists>cs. for_loop 0 n (add_step 32 a b) (0, replicate 128 0) = Inr cs \<and> ?I n cs"
  proof (rule for_loop_total [where I = ?I])
    show "?I 0 (0, replicate 128 0)" by (simp add: limbs_ok_def zero_from_def)
  next
    fix i cs
    assume i: "0 \<le> i" "i < n" and I: "?I i cs"
    obtain C t where cs: "cs = (C, t)" by (cases cs)
    have lens: "length a = 128" "length b = 128" "length t = 128" using a b I cs by (simp_all add: limbs_ok_def)
    have ab: "a ! i < B32" "b ! i < B32" using limbs_ok_nth [OF a] limbs_ok_nth [OF b] i n by simp_all
    let ?m = "b ! i + a ! i + C"
    have C: "C \<le> 1" and m: "?m < 2 * B32" using I cs ab by auto
    let ?t = "t[i := ?m mod B32]" and ?C = "if ?m \<le> 0xffffffff then 0 else 1 :: nat"
    have step: "add_step 32 a b i cs = Inr (?C, ?t)"
      using lens i n m by (simp add: add_step_def cs load_in store_in u64_small ul32 Let_def)
    have split: "?m = ?m mod B32 + ?C * B32"
    proof (cases "?m \<le> 0xffffffff")
      case False
      then have "?m mod B32 = ?m - B32" using m by (simp add: mod_if)
      then show ?thesis using False by simp
    qed simp
    have t0: "t ! i = 0" using I cs i n lens by (simp add: zero_from_def)
    have "lval ?t = lval t + (?m mod B32) * B32 ^ i" using lval_update [of i t "?m mod B32"] t0 i n lens by simp
    moreover have "(?m mod B32) * B32 ^ i + ?C * B32 ^ Suc i = ?m * B32 ^ i"
      by (subst split [THEN arg_cong [where f = "\<lambda>x. x * B32 ^ i"]]) (simp only: algebra_simps power_Suc)
    moreover have "lval t + C * B32 ^ i = lval (take i a) + lval (take i b)" using I cs by simp
    ultimately have "lval ?t + ?C * B32 ^ Suc i = lval (take (Suc i) a) + lval (take (Suc i) b)"
      using i n lens by (simp only: lval_take_Suc) (simp add: algebra_simps)
    moreover have "limbs_ok ?t" using I cs by (simp add: limbs_ok_update)
    moreover have "zero_from (Suc i) ?t" using I cs by (auto simp: zero_from_def nth_list_update)
    ultimately show "\<exists>cs'. add_step 32 a b i cs = Inr cs' \<and> ?I (Suc i) cs'" using step by auto
  qed simp
  then show ?thesis by (auto simp: split_paired_Ex)
qed

lemma add_mag_correct:
  assumes "wf_big X" "wf_big A" "len X < 128" "len A < 128"
  shows "\<exists>S. add_mag 32 X A = Inr S \<and> wf_big S \<and> normal_big S \<and> mag S = mag X + mag A \<and> signal S = signal X \<and>
    len S \<le> max (len X) (len A) + 1"
proof -
  let ?n = "max (len X) (len A) + 1"
  have n: "(if len X \<ge> len A then len X + 1 else len A + 1) = ?n" by simp
  have ok: "limbs_ok (limbs X)" "limbs_ok (limbs A)" "?n \<le> 128" using assms by (simp_all add: wf_big_def)
  have z: "zero_from (?n - 1) (limbs X)" "zero_from (?n - 1) (limbs A)"
    using assms(1,2) by (auto simp: wf_big_def elim!: zero_from_mono)
  from add_run [OF ok] obtain C s where run: "for_loop 0 ?n (add_step 32 (limbs X) (limbs A)) (0, replicate 128 0) = Inr (C, s)"
    and s: "C \<le> 1" "limbs_ok s" "zero_from ?n s"
      "lval s + C * B32 ^ ?n = lval (take ?n (limbs X)) + lval (take ?n (limbs A))" by blast
  have vals: "lval (take ?n (limbs X)) = mag X" "lval (take ?n (limbs A)) = mag A"
    unfolding mag_def by (rule lval_take_ge [OF z(1) diff_le_self], rule lval_take_ge [OF z(2) diff_le_self])
  have "mag X < B32 ^ (?n - 1)" "mag A < B32 ^ (?n - 1)"
    using zero_from_bound z ok unfolding mag_def limbs_ok_def by simp_all
  then have "mag X + mag A < B32 ^ ?n" by simp
  then have C: "C = 0" using s(4) vals bit_cases [OF s(1)] by auto
  from strip_run [of s ?n] s(2,3) ok(3) obtain m where m: "strip s ?n = Inr m" "1 \<le> m" "m \<le> ?n" "zero_from m s" "m = 1 \<or> s ! (m - 1) \<noteq> 0"
    by (auto simp: limbs_ok_def)
  have "add_mag 32 X A = Inr \<lparr>len = m, signal = signal X, limbs = s\<rparr>"
    unfolding add_mag_def n Let_def using run m(1) by simp
  then show ?thesis using m s assms(1) ok(3) C vals by (auto simp: wf_big_def normal_big_def mag_def)
qed

text \<open>A number that fills the array cannot be added: the loop reads the limb after the last one.\<close>

lemma add_mag_full:
  assumes "wf_big X" "wf_big A" "len X = 128 \<or> len A = 128"
  shows "add_mag 32 X A = Inl OutOfBounds"
proof -
  have n: "(if len X \<ge> len A then len X + 1 else len A + 1) = Suc 128"
    using assms by (auto simp: wf_big_def)
  have ok: "limbs_ok (limbs X)" "limbs_ok (limbs A)" using assms by (simp_all add: wf_big_def)
  from add_run [OF ok, of 128] obtain C s where
    run: "for_loop 0 128 (add_step 32 (limbs X) (limbs A)) (0, replicate 128 0) = Inr (C, s)" by blast
  have "add_step 32 (limbs X) (limbs A) 128 (C, s) = Inl OutOfBounds"
    using ok by (simp add: add_step_def load_def limbs_ok_def)
  with run show ?thesis unfolding add_mag_def n Let_def by (subst for_loop_Suc) simp_all
qed

section \<open>Comparison\<close>

lemma lval_less_top:
  assumes "limbs_ok a" "limbs_ok b" "i < 128" "a ! i < b ! i" "lval (take i b) \<ge> 0"
  shows "lval (take (Suc i) a) < lval (take (Suc i) b)"
proof -
  have "lval (take i a) < B32 ^ i" using lval_bound [of "take i a"] assms(1,3) by (auto simp: limbs_ok_def dest: in_set_takeD)
  moreover have "(a ! i + 1) * B32 ^ i \<le> b ! i * B32 ^ i" using assms(4) by (intro mult_le_mono1) simp
  ultimately show ?thesis using assms(1-3) by (simp add: lval_take_Suc limbs_ok_def)
qed

lemma cmp_limbs_run:
  assumes "limbs_ok a" "limbs_ok b" "n \<le> 128"
  shows "cmp_limbs a b n = Inr (if lval (take n a) > lval (take n b) then 0 else if lval (take n a) < lval (take n b) then 1 else 2)"
  using assms(3)
proof (induction n)
  case (Suc i)
  then have i: "i < 128" "i < length a" "i < length b" using assms by (simp_all add: limbs_ok_def)
  consider "a ! i > b ! i" | "a ! i < b ! i" | "a ! i = b ! i" by linarith
  then show ?case
  proof cases
    case 1
    with lval_less_top [OF assms(2,1) i(1)] i show ?thesis by (simp add: load_in)
  next
    case 2
    with lval_less_top [OF assms(1,2) i(1)] i show ?thesis by (simp add: load_in)
  next
    case 3
    with Suc i show ?thesis by (simp add: load_in lval_take_Suc)
  qed
qed simp

lemma normal_lower:
  assumes "wf_big X" "normal_big X" "1 < len X"
  shows "B32 ^ (len X - 1) \<le> mag X"
proof -
  have i: "len X - 1 < length (limbs X)" "limbs X ! (len X - 1) \<noteq> 0" using assms by (auto simp: wf_big_def normal_big_def limbs_ok_def)
  have "mag X = lval (take (Suc (len X - 1)) (limbs X))" using assms lval_take_zero [of "len X" "limbs X"] by (simp add: wf_big_def mag_def)
  also have "\<dots> = lval (take (len X - 1) (limbs X)) + limbs X ! (len X - 1) * B32 ^ (len X - 1)" by (rule lval_take_Suc [OF i(1)])
  finally show ?thesis using i(2) by (cases "limbs X ! (len X - 1)") auto
qed

lemma mag_upper: "wf_big X \<Longrightarrow> mag X < B32 ^ len X"
  using zero_from_bound [of "limbs X" "len X"] by (simp add: wf_big_def limbs_ok_def mag_def)

lemma len_less_mag:
  assumes "wf_big X" "wf_big A" "normal_big A" "len X < len A"
  shows "mag X < mag A"
proof -
  have "mag X < B32 ^ len X" by (rule mag_upper [OF assms(1)])
  also have "\<dots> \<le> B32 ^ (len A - 1)" using assms(4) by (intro power_increasing) simp_all
  also have "\<dots> \<le> mag A" using normal_lower [OF assms(2,3)] assms(1,4) by (simp add: wf_big_def)
  finally show ?thesis .
qed

lemma Compare_correct:
  assumes "wf_big X" "wf_big A" "normal_big X" "normal_big A"
  shows "Compare X A = Inr (if mag X > mag A then 0 else if mag X < mag A then 1 else 2)"
proof -
  consider "len X > len A" | "len X < len A" | "len X = len A" by linarith
  then show ?thesis
  proof cases
    case 1
    with len_less_mag [OF assms(2,1,3)] show ?thesis by (simp add: Compare_def)
  next
    case 2
    with len_less_mag [OF assms(1,2,4)] show ?thesis by (simp add: Compare_def)
  next
    case 3
    have "lval (take (len X) (limbs X)) = mag X" "lval (take (len X) (limbs A)) = mag A"
      using assms(1,2) 3 lval_take_zero by (simp_all add: wf_big_def mag_def)
    with cmp_limbs_run [of "limbs X" "limbs A" "len X"] 3 assms(1,2) show ?thesis by (simp add: Compare_def wf_big_def)
  qed
qed

section \<open>Differences\<close>

text \<open>
  A borrow enters limb \<open>i\<close> when the limbs below are smaller.  The code loses it when limb \<open>i\<close>
  of the minuend is 0: \<^verbatim>\<open>sub\<close> has then wrapped around and is not below any limb.
\<close>

definition exact_sub :: "nat \<Rightarrow> nat list \<Rightarrow> nat list \<Rightarrow> bool" where
  "exact_sub n a b \<longleftrightarrow> (\<forall>i < n. a ! i = 0 \<longrightarrow> lval (take i b) \<le> lval (take i a))"

lemma nat_int_mod: "nat (int k mod 2 ^ 32) = k mod B32"
  by (simp add: nat_mod_distrib)

lemma sub_step_run:
  assumes "limbs_ok a" "limbs_ok b" "length s = 128" "i < 128" "F \<le> 1"
    "sb = (if F = 1 \<and> a ! i = 0 then B32 - 1 else a ! i - F)"
  shows "sub_step 32 a b i (F, s) =
    Inr (if sb < b ! i then 1 else 0, s[i := if sb < b ! i then B32 + sb - b ! i else sb - b ! i])"
proof -
  have ab: "a ! i < B32" "b ! i < B32" using limbs_ok_nth assms by blast+
  have sb: "ul 32 (a ! i + 2 ^ 32 - F) mod B32 = sb"
  proof (cases "F = 1 \<and> a ! i = 0")
    case False
    then have "a ! i + 2 ^ 32 - F = sb + B32" "sb < B32" using assms(5,6) ab by auto
    then show ?thesis by (simp add: ul32)
  qed (use assms(6) in \<open>simp add: ul32\<close>)
  have "sb < B32" using assms(6) ab by auto
  then have "nat ((int (0xffffffff * F') - int (b ! i) + int sb + int F') mod 2 ^ 32) =
      (if sb < b ! i then B32 + sb - b ! i else sb - b ! i)" if "F' = (if sb < b ! i then 1 else 0)" for F' :: nat
  proof (cases "sb < b ! i")
    case True
    have eq: "(int (0xffffffff * F') - int (b ! i) + int sb + int F') = int (B32 + sb - b ! i)" using True that ab by simp
    show ?thesis unfolding eq nat_int_mod using True ab by simp
  next
    case False
    then have eq: "(int (0xffffffff * F') - int (b ! i) + int sb + int F') = int (sb - b ! i)" using that by simp
    show ?thesis unfolding eq nat_int_mod using False \<open>sb < B32\<close> by simp
  qed
  then show ?thesis using assms(1-4) sb by (simp add: sub_step_def load_in store_in Let_def limbs_ok_def)
qed

lemma sub_run:
  assumes a: "limbs_ok a" and b: "limbs_ok b" and n: "n \<le> 128"
  shows "\<exists>F s L. for_loop 0 n (sub_step 32 a b) (0, replicate 128 0) = Inr (F, s) \<and> F \<le> 1 \<and> limbs_ok s \<and> zero_from n s \<and>
    lval s + lval (take n b) = lval (take n a) + F * B32 ^ n + L \<and> (L = 0 \<longleftrightarrow> exact_sub n a b)"
proof -
  let ?I = "\<lambda>i (fs :: nat \<times> nat list). fst fs \<le> 1 \<and> limbs_ok (snd fs) \<and> zero_from i (snd fs) \<and>
    (\<exists>L. lval (snd fs) + lval (take i b) = lval (take i a) + fst fs * B32 ^ i + L \<and> (L = 0 \<longleftrightarrow> exact_sub i a b))"
  have "\<exists>fs. for_loop 0 n (sub_step 32 a b) (0, replicate 128 0) = Inr fs \<and> ?I n fs"
  proof (rule for_loop_total [where I = ?I])
    show "?I 0 (0, replicate 128 0)" by (simp add: limbs_ok_def zero_from_def exact_sub_def)
  next
    fix i fs
    assume i: "0 \<le> i" "i < n" and I: "?I i fs"
    obtain F t where fs: "fs = (F, t)" by (cases fs)
    have lens: "length a = 128" "length b = 128" "length t = 128" using a b I fs by (simp_all add: limbs_ok_def)
    have i128: "i < 128" using i n by simp
    have ab: "a ! i < B32" "b ! i < B32" using limbs_ok_nth [OF a i128] limbs_ok_nth [OF b i128] .
    have F: "F \<le> 1" using I fs by simp
    obtain L where L: "lval t + lval (take i b) = lval (take i a) + F * B32 ^ i + L" "L = 0 \<longleftrightarrow> exact_sub i a b" using I fs by auto
    define sb where "sb = (if F = 1 \<and> a ! i = 0 then B32 - 1 else a ! i - F)"
    define G :: nat where "G = (if sb < b ! i then 1 else 0)"
    define v where "v = (if sb < b ! i then B32 + sb - b ! i else sb - b ! i)"
    have step: "sub_step 32 a b i fs = Inr (G, t[i := v])"
      using sub_step_run [OF a b lens(3) i128 F sb_def] by (simp add: fs G_def v_def)
    have v: "v < B32" "v + b ! i = sb + G * B32" using ab by (auto simp: v_def G_def sb_def)
    have t0: "t ! i = 0" using I fs i n lens by (simp add: zero_from_def)
    have up: "lval (t[i := v]) = lval t + v * B32 ^ i" using lval_update [of i t v] t0 i128 lens by simp
    define e where "e = (if F = 1 \<and> a ! i = 0 then B32 ^ Suc i else 0)"
    have "(sb + F) * B32 ^ i = a ! i * B32 ^ i + e"
      using F by (auto simp: sb_def e_def algebra_simps)
    moreover have "(v + b ! i) * B32 ^ i = sb * B32 ^ i + G * B32 ^ Suc i" by (simp only: v(2) algebra_simps power_Suc)
    ultimately have eq: "lval (t[i := v]) + lval (take (Suc i) b) = lval (take (Suc i) a) + G * B32 ^ Suc i + (L + e)"
      using L(1) up i128 lens by (simp only: lval_take_Suc) (simp add: algebra_simps)
    have "L + e = 0 \<longleftrightarrow> exact_sub (Suc i) a b"
    proof (cases "exact_sub i a b")
      case True
      then have L0: "L = 0" using L(2) by simp
      have lt: "lval t < B32 ^ i" "lval (take i a) < B32 ^ i"
        using zero_from_bound [of t i] lval_bound [of "take i a"] I fs a i128 by (auto simp: limbs_ok_def dest: in_set_takeD)
      have "F = 1 \<longleftrightarrow> lval (take i a) < lval (take i b)"
        using L(1) L0 lt bit_cases [OF F] by auto
      then show ?thesis using True L0 by (auto simp: e_def exact_sub_def less_Suc_eq)
    next
      case False
      then show ?thesis using L(2) by (auto simp: exact_sub_def less_Suc_eq)
    qed
    moreover have "G \<le> 1" "limbs_ok (t[i := v])" using I fs v(1) by (simp_all add: G_def limbs_ok_update)
    moreover have "zero_from (Suc i) (t[i := v])" using I fs by (auto simp: zero_from_def nth_list_update)
    ultimately show "\<exists>fs'. sub_step 32 a b i fs = Inr fs' \<and> ?I (Suc i) fs'" using step eq by auto
  qed simp
  then show ?thesis by (auto simp: split_paired_Ex)
qed

text \<open>The difference of the absolute values is right exactly when no borrow is lost.\<close>

definition exact_mag :: "BigNum \<Rightarrow> BigNum \<Rightarrow> bool" where
  "exact_mag X A \<longleftrightarrow>
     (if mag A \<le> mag X then exact_sub (len X) (limbs X) (limbs A) else exact_sub (len A) (limbs A) (limbs X))"

lemma sub_ordered:
  assumes "wf_big X" "wf_big A" "mag A \<le> mag X" "len A \<le> len X"
  shows "\<exists>F s m. for_loop 0 (len X) (sub_step 32 (limbs X) (limbs A)) (0, replicate 128 0) = Inr (F, s) \<and>
    strip s (len X) = Inr m \<and> limbs_ok s \<and> 1 \<le> m \<and> m \<le> len X \<and> zero_from m s \<and> (m = 1 \<or> s ! (m - 1) \<noteq> 0) \<and>
    (exact_sub (len X) (limbs X) (limbs A) \<longrightarrow> lval s = mag X - mag A) \<and>
    (\<not> exact_sub (len X) (limbs X) (limbs A) \<longrightarrow> mag X - mag A < lval s)"
proof -
  have ok: "limbs_ok (limbs X)" "limbs_ok (limbs A)" "len X \<le> 128" "1 \<le> len X" using assms by (simp_all add: wf_big_def)
  from sub_run [OF ok(1-3)] obtain F s L where
    run: "for_loop 0 (len X) (sub_step 32 (limbs X) (limbs A)) (0, replicate 128 0) = Inr (F, s)"
    and s: "F \<le> 1" "limbs_ok s" "zero_from (len X) s"
      "lval s + lval (take (len X) (limbs A)) = lval (take (len X) (limbs X)) + F * B32 ^ len X + L"
      "L = 0 \<longleftrightarrow> exact_sub (len X) (limbs X) (limbs A)" by blast
  have vals: "lval (take (len X) (limbs X)) = mag X" "lval (take (len X) (limbs A)) = mag A"
    using assms lval_take_ge [of "len X" "limbs X" "len X"] lval_take_ge [of "len A" "limbs A" "len X"] by (simp_all add: wf_big_def mag_def)
  have bound: "lval s < B32 ^ len X" using zero_from_bound [of s "len X"] s(2,3) ok(3) by (simp add: limbs_ok_def)
  have F: "L = 0 \<Longrightarrow> F = 0" using s(4) vals assms(3) bound bit_cases [OF s(1)] by auto
  from strip_run [of s "len X"] s(2,3) ok(3,4) obtain m where "strip s (len X) = Inr m" "1 \<le> m" "m \<le> len X" "zero_from m s"
    "m = 1 \<or> s ! (m - 1) \<noteq> 0" by (auto simp: limbs_ok_def)
  moreover have "L = 0 \<Longrightarrow> lval s = mag X - mag A" using F s(4) vals assms(3) by simp
  moreover have "L \<noteq> 0 \<Longrightarrow> mag X - mag A < lval s" using s(4) vals assms(3) by simp
  ultimately show ?thesis using run s(2,5) by blast
qed

lemma sub_mag_correct:
  assumes "wf_big X" "wf_big A" "normal_big X" "normal_big A" "signal X = signal A"
  shows "\<exists>D. sub_mag 32 X A = Inr D \<and> wf_big D \<and> normal_big D \<and> len D \<le> max (len X) (len A) \<and>
    (big D = big X - big A \<longleftrightarrow> exact_mag X A)"
proof (cases "mag A \<le> mag X")
  case True
  have le: "len A \<le> len X" using len_less_mag [OF assms(1,2,4)] True by force
  from sub_ordered [OF assms(1,2) True le] obtain F s m where
    f: "for_loop 0 (len X) (sub_step 32 (limbs X) (limbs A)) (0, replicate 128 0) = Inr (F, s)" "strip s (len X) = Inr m"
      "limbs_ok s" "1 \<le> m" "m \<le> len X" "zero_from m s" "m = 1 \<or> s ! (m - 1) \<noteq> 0"
      "exact_sub (len X) (limbs X) (limbs A) \<longrightarrow> lval s = mag X - mag A"
      "\<not> exact_sub (len X) (limbs X) (limbs A) \<longrightarrow> mag X - mag A < lval s" by blast
  let ?D = "\<lparr>len = m, signal = if signal X = 0 then 0 else 1, limbs = s\<rparr> :: BigNum"
  have "sub_mag 32 X A = Inr ?D"
    unfolding sub_mag_def using Compare_correct [OF assms(1-4)] True f(1,2) by (simp add: Let_def)
  moreover have "wf_big ?D" "normal_big ?D" using f assms(1) by (auto simp: wf_big_def normal_big_def)
  moreover have "big ?D = big X - big A \<longleftrightarrow> exact_mag X A"
    using f(8,9) True assms(5) by (auto simp: big_def exact_mag_def of_nat_diff)
  ultimately show ?thesis using f(5) by auto
next
  case False
  then have lt: "mag X \<le> mag A" "mag X < mag A" by simp_all
  have le: "len X \<le> len A" using len_less_mag [OF assms(2,1,3)] lt by force
  from sub_ordered [OF assms(2,1) lt(1) le] obtain F s m where
    f: "for_loop 0 (len A) (sub_step 32 (limbs A) (limbs X)) (0, replicate 128 0) = Inr (F, s)" "strip s (len A) = Inr m"
      "limbs_ok s" "1 \<le> m" "m \<le> len A" "zero_from m s" "m = 1 \<or> s ! (m - 1) \<noteq> 0"
      "exact_sub (len A) (limbs A) (limbs X) \<longrightarrow> lval s = mag A - mag X"
      "\<not> exact_sub (len A) (limbs A) (limbs X) \<longrightarrow> mag A - mag X < lval s" by blast
  let ?D = "\<lparr>len = m, signal = if signal X = 0 then 1 else 0, limbs = s\<rparr> :: BigNum"
  have "sub_mag 32 X A = Inr ?D"
    unfolding sub_mag_def using Compare_correct [OF assms(1-4)] lt f(1,2) by (simp add: Let_def)
  moreover have "wf_big ?D" "normal_big ?D" using f assms(2) by (auto simp: wf_big_def normal_big_def)
  moreover have "big ?D = big X - big A \<longleftrightarrow> exact_mag X A"
    using f(8,9) lt assms(5) by (auto simp: big_def exact_mag_def of_nat_diff)
  ultimately show ?thesis using f(5) by auto
qed

lemma op_neg_simps [simp]:
  "limbs (op_neg X) = limbs X" "len (op_neg X) = len X" "mag (op_neg X) = mag X" "signal (op_neg X) = 1 - signal X"
  "normal_big (op_neg X) = normal_big X"
  by (simp_all add: op_neg_def mag_def normal_big_def)

lemma wf_neg [simp]: "wf_big (op_neg X) = wf_big X"
  by (auto simp: wf_big_def)

lemma big_neg [simp]: "wf_big X \<Longrightarrow> big (op_neg X) = - big X"
  by (auto simp: big_def wf_big_def)

lemma exact_mag_neg [simp]: "exact_mag X (op_neg A) = exact_mag X A" "exact_mag (op_neg X) A = exact_mag X A"
  by (simp_all add: exact_mag_def)

text \<open>Sums and differences of any signs.\<close>

lemma op_add_opposite:
  assumes "wf_big X" "wf_big A" "normal_big X" "normal_big A" "signal X \<noteq> signal A"
  shows "\<exists>S. op_add 32 X A = Inr S \<and> wf_big S \<and> normal_big S \<and> len S \<le> max (len X) (len A) \<and>
    (big S = big X + big A \<longleftrightarrow> (if signal X = 0 then exact_mag X A else exact_mag A X))"
proof -
  have "signal X = 0 \<and> signal A = 1 \<or> signal X = 1 \<and> signal A = 0" using assms by (auto simp: wf_big_def)
  then show ?thesis
  proof
    assume s: "signal X = 0 \<and> signal A = 1"
    with sub_mag_correct [of X "op_neg A"] assms obtain D where "sub_mag 32 X (op_neg A) = Inr D" "wf_big D" "normal_big D"
      "len D \<le> max (len X) (len A)" "big D = big X - big (op_neg A) \<longleftrightarrow> exact_mag X A" by auto
    with s assms(2) show ?thesis by (auto simp: op_add_def)
  next
    assume s: "signal X = 1 \<and> signal A = 0"
    with sub_mag_correct [of A "op_neg X"] assms obtain D where "sub_mag 32 A (op_neg X) = Inr D" "wf_big D" "normal_big D"
      "len D \<le> max (len A) (len X)" "big D = big A - big (op_neg X) \<longleftrightarrow> exact_mag A X" by auto
    with s assms(1) show ?thesis by (auto simp: op_add_def)
  qed
qed

lemma op_add_correct:
  assumes "wf_big X" "wf_big A" "normal_big X" "normal_big A" "len X < 128" "len A < 128"
  shows "\<exists>S. op_add 32 X A = Inr S \<and> wf_big S \<and> normal_big S \<and> len S \<le> max (len X) (len A) + 1 \<and>
    (big S = big X + big A \<longleftrightarrow> signal X = signal A \<or> (if signal X = 0 then exact_mag X A else exact_mag A X))"
proof (cases "signal X = signal A")
  case True
  from add_mag_correct [OF assms(1,2,5,6)] obtain S where "add_mag 32 X A = Inr S" "wf_big S" "normal_big S" "mag S = mag X + mag A"
    "signal S = signal X" "len S \<le> max (len X) (len A) + 1" by blast
  with True show ?thesis by (auto simp: op_add_def big_def)
next
  case False
  from op_add_opposite [OF assms(1-4) False] False show ?thesis by (metis le_SucI Suc_eq_plus1)
qed

lemma op_sub_same:
  assumes "wf_big X" "wf_big A" "normal_big X" "normal_big A" "signal X = signal A"
  shows "\<exists>S. op_sub 32 X A = Inr S \<and> wf_big S \<and> normal_big S \<and> len S \<le> max (len X) (len A) \<and>
    (big S = big X - big A \<longleftrightarrow> exact_mag X A)"
  using sub_mag_correct [OF assms] assms(5) by (simp add: op_sub_def)

lemma op_sub_correct:
  assumes "wf_big X" "wf_big A" "normal_big X" "normal_big A" "len X < 128" "len A < 128"
  shows "\<exists>S. op_sub 32 X A = Inr S \<and> wf_big S \<and> normal_big S \<and> len S \<le> max (len X) (len A) + 1 \<and>
    (big S = big X - big A \<longleftrightarrow> signal X \<noteq> signal A \<or> exact_mag X A)"
proof (cases "signal X = signal A")
  case True
  from op_sub_same [OF assms(1-4) True] True show ?thesis by (metis le_SucI Suc_eq_plus1)
next
  case False
  then have sg: "signal X = signal (op_neg A)" using assms(1,2) by (auto simp: wf_big_def)
  from add_mag_correct [of X "op_neg A"] assms obtain S where "add_mag 32 X (op_neg A) = Inr S" "wf_big S" "normal_big S"
    "mag S = mag X + mag A" "signal S = signal X" "len S \<le> max (len X) (len A) + 1" by auto
  with False sg assms(1,2) show ?thesis by (auto simp: op_sub_def big_def wf_big_def)
qed

text \<open>Where the absolute values are added, a full array is the only fault.\<close>

lemma adding_full:
  assumes "wf_big X" "wf_big A" "len X = 128 \<or> len A = 128"
  shows "signal X = signal A \<Longrightarrow> op_add 32 X A = Inl OutOfBounds"
    and "signal X \<noteq> signal A \<Longrightarrow> op_sub 32 X A = Inl OutOfBounds"
  using add_mag_full [OF assms] add_mag_full [of X "op_neg A"] assms
  by (auto simp: op_add_def op_sub_def wf_big_def)

text \<open>Numbers of at most two limbs never lose a borrow.\<close>

lemma exact_sub_small:
  assumes "limbs_ok a" "limbs_ok b" "n \<le> 2" "zero_from n a" "lval b \<le> lval a"
  shows "exact_sub n a b"
  unfolding exact_sub_def
proof (intro allI impI)
  fix i
  assume i: "i < n" "a ! i = 0"
  have t: "lval (take i b) \<le> lval b" using lval_append [of "take i b" "drop i b"] by simp
  consider "i = 0" | "i = 1" "n = 2" using i(1) assms(3) by linarith
  then show "lval (take i b) \<le> lval (take i a)"
  proof cases
    case 2
    then have "lval a = lval (take 1 a)"
      using lval_take_zero [OF assms(4)] lval_take_Suc [of 1 a] i(2) assms(1) by (simp add: limbs_ok_def numeral_2_eq_2)
    then show ?thesis using t assms(5) 2 by simp
  qed simp
qed

lemma exact_small: "wf_big X \<Longrightarrow> wf_big A \<Longrightarrow> len X \<le> 2 \<Longrightarrow> len A \<le> 2 \<Longrightarrow> exact_mag X A"
  by (auto simp: exact_mag_def wf_big_def mag_def intro!: exact_sub_small)

section \<open>Products\<close>

lemma u32_mult: "x < B32 \<Longrightarrow> y < B32 \<Longrightarrow> x * y + (B32 - 1) + (B32 - 1) < 2 ^ 64"
proof -
  assume "x < B32" "y < B32"
  then have "x * y \<le> (B32 - 1) * (B32 - 1)" by (intro mult_le_mono) simp_all
  then show ?thesis by simp
qed

lemma mul_step_run:
  assumes "limbs_ok a" "limbs_ok b" "limbs_ok p" "i + j < 128" "C < B32"
  shows "mul_step 32 a b i j (C, p) =
    Inr ((p ! (i + j) + b ! i * a ! j + C) div B32, p[i + j := (p ! (i + j) + b ! i * a ! j + C) mod B32])"
proof -
  let ?t = "p ! (i + j) + b ! i * a ! j + C"
  have ij: "i < 128" "j < 128" using assms(4) by simp_all
  have lt: "b ! i < B32" "a ! j < B32" "p ! (i + j) < B32"
    using limbs_ok_nth [OF assms(2) ij(1)] limbs_ok_nth [OF assms(1) ij(2)] limbs_ok_nth [OF assms(3,4)] .
  with u32_mult [of "b ! i" "a ! j"] assms(5) have t: "?t < 2 ^ 64" by simp
  then have u: "u64 (b ! i * a ! j + C) = b ! i * a ! j + C" "u64 (p ! (i + j) + (b ! i * a ! j + C)) = ?t"
    by (simp_all add: u64_small add.assoc)
  have "(if 0xffffffff < ?t then ?t div B32 else 0) = ?t div B32" by simp
  moreover have "ul 32 (p ! (i + j) + ul 32 (b ! i * a ! j + C)) = ?t mod B32" by (simp add: ul32 mod_simps add.assoc)
  ultimately show ?thesis using assms(1-4) ij
    by (simp add: mul_step_def load_in store_in Let_def limbs_ok_def u)
qed

text \<open>One row of the product.\<close>

lemma mul_row:
  assumes a: "limbs_ok a" and b: "limbs_ok b" and p: "limbs_ok p" and n: "i + n < 128" and z: "a ! n = 0" "zero_from (i + n) p"
  shows "\<exists>p'. for_loop 0 (n + 1) (mul_step 32 a b i) (0, p) = Inr (0, p') \<and> limbs_ok p' \<and> zero_from (i + n + 1) p' \<and>
    lval p' = lval p + b ! i * lval (take n a) * B32 ^ i"
proof -
  let ?I = "\<lambda>j (cp :: nat \<times> nat list). fst cp < B32 \<and> limbs_ok (snd cp) \<and> zero_from (i + n) (snd cp) \<and>
    lval (snd cp) + fst cp * B32 ^ (i + j) = lval p + b ! i * lval (take j a) * B32 ^ i"
  have step: "mul_step 32 a b i j (C, q) = Inr ((q ! (i + j) + b ! i * a ! j + C) div B32, q[i + j := (q ! (i + j) + b ! i * a ! j + C) mod B32]) \<and>
      (q ! (i + j) + b ! i * a ! j + C) div B32 < B32 \<and>
      lval (q[i + j := (q ! (i + j) + b ! i * a ! j + C) mod B32]) + (q ! (i + j) + b ! i * a ! j + C) div B32 * B32 ^ (i + Suc j) =
        lval q + C * B32 ^ (i + j) + b ! i * a ! j * B32 ^ (i + j)"
    if j: "i + j < 128" and q: "limbs_ok q" "C < B32" for j C q
  proof -
    let ?t = "q ! (i + j) + b ! i * a ! j + C"
    have lt: "b ! i < B32" "a ! j < B32" "q ! (i + j) < B32"
      using limbs_ok_nth [OF b, of i] limbs_ok_nth [OF a, of j] limbs_ok_nth [OF q(1) j] j by simp_all
    with u32_mult [of "b ! i" "a ! j"] q(2) have "?t < B32 * B32" by simp
    then have d: "?t div B32 < B32" by (simp add: less_mult_imp_div_less)
    have "lval (q[i + j := ?t mod B32]) + q ! (i + j) * B32 ^ (i + j) = lval q + ?t mod B32 * B32 ^ (i + j)"
      using lval_update [of "i + j" q "?t mod B32"] q j by (simp add: limbs_ok_def)
    moreover have "?t mod B32 * B32 ^ (i + j) + ?t div B32 * B32 ^ (i + Suc j) = ?t * B32 ^ (i + j)"
    proof -
      have "?t * B32 ^ (i + j) = (?t mod B32 + ?t div B32 * B32) * B32 ^ (i + j)" by simp
      also have "\<dots> = ?t mod B32 * B32 ^ (i + j) + ?t div B32 * B32 ^ (i + Suc j)" by (simp only: algebra_simps power_Suc add_Suc_right)
      finally show ?thesis by simp
    qed
    ultimately show ?thesis using mul_step_run [OF a b q(1) j q(2)] d by (simp add: algebra_simps)
  qed
  have "\<exists>cp. for_loop 0 n (mul_step 32 a b i) (0, p) = Inr cp \<and> ?I n cp"
  proof (rule for_loop_total [where I = ?I])
    show "?I 0 (0, p)" using p z(2) by simp
  next
    fix j cp
    assume j: "0 \<le> j" "j < n" and I: "?I j cp"
    obtain C q where cp: "cp = (C, q)" by (cases cp)
    let ?t = "q ! (i + j) + b ! i * a ! j + C"
    have q: "limbs_ok q" "C < B32" "zero_from (i + n) q" "lval q + C * B32 ^ (i + j) = lval p + b ! i * lval (take j a) * B32 ^ i"
      using I cp by simp_all
    have st: "mul_step 32 a b i j (C, q) = Inr (?t div B32, q[i + j := ?t mod B32])" "?t div B32 < B32"
      "lval (q[i + j := ?t mod B32]) + ?t div B32 * B32 ^ (i + Suc j) = lval q + C * B32 ^ (i + j) + b ! i * a ! j * B32 ^ (i + j)"
      using step [of j q C] j n q by auto
    have "lval (take (Suc j) a) = lval (take j a) + a ! j * B32 ^ j" using a j n by (intro lval_take_Suc) (simp add: limbs_ok_def)
    then have "lval (q[i + j := ?t mod B32]) + ?t div B32 * B32 ^ (i + Suc j) = lval p + b ! i * lval (take (Suc j) a) * B32 ^ i"
      using st(3) q(4) by (simp add: algebra_simps power_add)
    moreover have "limbs_ok (q[i + j := ?t mod B32])" by (rule limbs_ok_update [OF q(1)]) simp
    moreover have "zero_from (i + n) (q[i + j := ?t mod B32])" using q(3) j by (auto simp: zero_from_def nth_list_update)
    ultimately show "\<exists>cp'. mul_step 32 a b i j cp = Inr cp' \<and> ?I (Suc j) cp'" using st cp by auto
  qed simp
  then obtain C q where l: "for_loop 0 n (mul_step 32 a b i) (0, p) = Inr (C, q)"
    and q: "C < B32" "limbs_ok q" "zero_from (i + n) q" "lval q + C * B32 ^ (i + n) = lval p + b ! i * lval (take n a) * B32 ^ i"
    by (auto simp: split_paired_Ex)
  have "q ! (i + n) = 0" using q(2,3) n by (simp add: zero_from_def limbs_ok_def)
  then have t: "q ! (i + n) + b ! i * a ! n + C = C" using z(1) by simp
  from step [OF n q(2,1)] have st: "mul_step 32 a b i n (C, q) = Inr (0, q[i + n := C])" "lval (q[i + n := C]) = lval q + C * B32 ^ (i + n)"
    unfolding t using q(1) z(1) by auto
  have "for_loop 0 (n + 1) (mul_step 32 a b i) (0, p) = Inr (0, q[i + n := C])" by (simp add: for_loop_Suc l st(1))
  moreover have "limbs_ok (q[i + n := C])" by (rule limbs_ok_update [OF q(2,1)])
  moreover have "zero_from (i + n + 1) (q[i + n := C])" using q(3) by (auto simp: zero_from_def nth_list_update)
  ultimately show ?thesis using st(2) q(4) by auto
qed

lemma op_mul_correct:
  assumes "wf_big X" "wf_big A" "len X + len A \<le> 128"
  shows "\<exists>P. op_mul 32 X A = Inr P \<and> wf_big P \<and> normal_big P \<and> mag P = mag X * mag A \<and> len P \<le> len X + len A \<and>
    signal P = (if signal X = signal A then 0 else 1) \<and> big P = big X * big A"
proof -
  let ?a = "limbs X" and ?b = "limbs A" and ?n = "len X"
  have ok: "limbs_ok ?a" "limbs_ok ?b" "zero_from ?n ?a" "1 \<le> len A" using assms by (simp_all add: wf_big_def)
  have n: "?n < 128" using assms(3) ok(4) by simp
  have z: "?a ! ?n = 0" using ok(1,3) n by (simp add: zero_from_def limbs_ok_def)
  have tk: "lval (take ?n ?a) = mag X" using lval_take_zero [OF ok(3)] by (simp add: mag_def)
  let ?body = "\<lambda>i. for_loop 0 (?n + 1) (mul_step 32 ?a ?b i)"
  let ?I = "\<lambda>i (cp :: nat \<times> nat list). fst cp = 0 \<and> limbs_ok (snd cp) \<and> zero_from (i + ?n) (snd cp) \<and>
    lval (snd cp) = mag X * lval (take i ?b)"
  have "\<exists>cp. for_loop 0 (len A) ?body (0, replicate 128 0) = Inr cp \<and> ?I (len A) cp"
  proof (rule for_loop_total [where I = ?I])
    show "?I 0 (0, replicate 128 0)" by (simp add: limbs_ok_def zero_from_def)
  next
    fix i cp
    assume i: "0 \<le> i" "i < len A" and I: "?I i cp"
    obtain q where cp: "cp = (0, q)" using I by (cases cp) simp
    have lim: "i + ?n < 128" using i assms(3) by simp
    have q: "limbs_ok q" "zero_from (i + ?n) q" "lval q = mag X * lval (take i ?b)" using I cp by simp_all
    obtain p' where p': "?body i (0, q) = Inr (0, p')" "limbs_ok p'" "zero_from (i + ?n + 1) p'"
      "lval p' = lval q + ?b ! i * lval (take ?n ?a) * B32 ^ i" using mul_row [OF ok(1,2) q(1) lim z q(2)] by blast
    have "lval (take (Suc i) ?b) = lval (take i ?b) + ?b ! i * B32 ^ i" using ok(2) lim by (intro lval_take_Suc) (simp add: limbs_ok_def)
    then have "lval p' = mag X * lval (take (Suc i) ?b)" using p'(4) q(3) tk by (simp add: algebra_simps)
    then show "\<exists>cp'. ?body i cp = Inr cp' \<and> ?I (Suc i) cp'" using p' cp by auto
  qed simp
  then obtain p where p: "for_loop 0 (len A) ?body (0, replicate 128 0) = Inr (0, p)" "limbs_ok p" "zero_from (len A + ?n) p"
    "lval p = mag X * lval (take (len A) ?b)" by (auto simp: split_paired_Ex)
  have "lval (take (len A) ?b) = mag A" using lval_take_zero assms(2) by (simp add: wf_big_def mag_def)
  with p(4) have v: "lval p = mag X * mag A" by simp
  from strip_run [of p "?n + len A"] p(2,3) assms(3) ok(4) obtain m where
    m: "strip p (?n + len A) = Inr m" "1 \<le> m" "m \<le> ?n + len A" "zero_from m p" "m = 1 \<or> p ! (m - 1) \<noteq> 0"
    by (auto simp: limbs_ok_def add.commute)
  let ?P = "\<lparr>len = m, signal = if signal X = signal A then 0 else 1, limbs = p\<rparr> :: BigNum"
  have "op_mul 32 X A = Inr ?P" unfolding op_mul_def using p(1) m(1) by simp
  moreover have "wf_big ?P" "normal_big ?P" using p(2) m assms(3) by (auto simp: wf_big_def normal_big_def)
  moreover have "big ?P = big X * big A" using v assms(1,2) by (auto simp: big_def wf_big_def)
  ultimately show ?thesis using v m(3) by auto
qed

section \<open>Divisors of one limb\<close>

lemma or_low:
  assumes "x < 2 ^ n"
  shows "F * 2 ^ n OR x = F * 2 ^ n + (x :: nat)"
proof -
  have e: "F * 2 ^ n = push_bit n F" by (simp add: push_bit_eq_mult)
  have "take_bit n x = x" using assms by (simp add: take_bit_nat_eq_self_iff)
  then have "push_bit n F AND x = 0"
    by (intro bit_eqI) (metis bit_0_eq bit_and_iff bit_push_bit_iff bit_take_bit_iff bot_apply bot_bool_def linorder_not_less)
  then show ?thesis unfolding e by (simp add: disjunctive_add bit_eq_iff bit_and_iff)
qed

lemma or_limb: "x < B32 \<Longrightarrow> F * B32 OR x = F * B32 + x"
  using or_low [of x 32 F] by simp

lemma drop_limb: "i < length a \<Longrightarrow> lval (drop i a) = a ! i + B32 * lval (drop (Suc i) a)"
  by (simp add: Cons_nth_drop_Suc [symmetric])

lemma lval_drop_zero: "zero_from n a \<Longrightarrow> lval (drop n a) = 0"
  by (rule lval_zero) (auto simp: zero_from_def in_set_conv_nth)

lemma div_limb_bound:
  assumes "F < d" "d < B32" "x < B32"
  shows "F * B32 + x < 2 ^ 64" "(F * B32 + x) div d < B32"
proof -
  have "F * B32 + x < d * B32" using mult_le_mono1 [of "F + 1" d B32] assms by simp
  moreover have "d * B32 \<le> 2 ^ 64" using mult_le_mono1 [of d B32 B32] assms(2) by simp
  ultimately show "F * B32 + x < 2 ^ 64" "(F * B32 + x) div d < B32"
    using assms by (auto simp: div_less_iff_less_mult mult.commute)
qed

lemma div_step_run:
  assumes "F < d" "d < B32" "limbs_ok a" "i < 128"
  shows "div_step 32 d i (F, a) = Inr ((F * B32 + a ! i) mod d, a[i := (F * B32 + a ! i) div d])"
proof -
  have x: "a ! i < B32" using assms by (simp add: limbs_ok_nth)
  note b = div_limb_bound [OF assms(1,2) x]
  have "F * B32 < 2 ^ 64" using b(1) by linarith
  moreover have "(F * B32 + a ! i) div d * d < 2 ^ 64" using b(1) by (rule order.strict_trans1 [rotated]) simp
  ultimately have "u64 (F * B32) = F * B32" "u64 ((F * B32 + a ! i) div d * d) = (F * B32 + a ! i) div d * d"
    by (auto intro: u64_small)
  moreover have "(F * B32 + a ! i) mod d < B32" using mod_less_divisor [of d "F * B32 + a ! i"] assms(1,2) by linarith
  ultimately show ?thesis using assms b
    by (simp add: div_step_def c_div_def load_def store_def limbs_ok_def u64_small ul32 minus_div_mult_eq_mod Let_def)
qed

lemma div_run:
  assumes a: "limbs_ok a" and z: "zero_from n a" and n: "n \<le> 128" and d: "0 < d" "d < B32"
  shows "\<exists>F q. for_down 0 n (div_step 32 d) (0, a) = Inr (F, q) \<and> limbs_ok q \<and> zero_from n q \<and>
    lval q = lval a div d \<and> F = lval a mod d"
proof -
  let ?I = "\<lambda>i (Fq :: nat \<times> nat list). fst Fq < d \<and> limbs_ok (snd Fq) \<and> zero_from n (snd Fq) \<and> take i (snd Fq) = take i a \<and>
    lval (drop i a) = d * lval (drop i (snd Fq)) + fst Fq"
  have "\<exists>Fq. for_down 0 n (div_step 32 d) (0, a) = Inr Fq \<and> ?I 0 Fq"
  proof (rule for_down_total [where I = ?I])
    show "?I n (0, a)" using a z d by (simp add: lval_drop_zero)
  next
    fix i Fq
    assume i: "0 \<le> i" "i < n" and I: "?I (Suc i) Fq"
    obtain F q where Fq: "Fq = (F, q)" by (cases Fq)
    have q: "F < d" "limbs_ok q" "zero_from n q" "take (Suc i) q = take (Suc i) a" "lval (drop (Suc i) a) = d * lval (drop (Suc i) q) + F"
      using I Fq by simp_all
    have l: "i < length q" "i < length a" "i < 128" using i n a q(2) by (simp_all add: limbs_ok_def)
    have e: "q ! i = a ! i" using q(4) l by (simp add: take_Suc_conv_app_nth)
    have x: "a ! i < B32" using a l(3) by (rule limbs_ok_nth)
    let ?n = "F * B32 + a ! i"
    have st: "div_step 32 d i (F, q) = Inr (?n mod d, q[i := ?n div d])" using div_step_run [OF q(1) d(2) q(2) l(3)] e by simp
    have "lval (drop i a) = ?n + d * (B32 * lval (drop (Suc i) q))" using drop_limb [OF l(2)] q(5) by (simp add: algebra_simps)
    also have "\<dots> = d * (?n div d + B32 * lval (drop (Suc i) q)) + ?n mod d" by (simp add: distrib_left)
    also have "?n div d + B32 * lval (drop (Suc i) q) = lval (drop i (q[i := ?n div d]))" using l(1) by (simp add: drop_limb)
    finally have "lval (drop i a) = d * lval (drop i (q[i := ?n div d])) + ?n mod d" .
    moreover have "limbs_ok (q[i := ?n div d])" by (rule limbs_ok_update [OF q(2) div_limb_bound(2) [OF q(1) d(2) x]])
    moreover have "take i (q[i := ?n div d]) = take i a" using arg_cong [OF q(4), of "take i"] by simp
    moreover have "zero_from n (q[i := ?n div d])" using q(3) i by (auto simp: zero_from_def nth_list_update)
    ultimately show "\<exists>s'. div_step 32 d i Fq = Inr s' \<and> ?I i s'" using st Fq d by auto
  qed simp
  then show ?thesis using d by (auto simp: split_paired_Ex)
qed

lemma mod_run:
  assumes a: "limbs_ok a" and z: "zero_from n a" and n: "n \<le> 128" and d: "0 < d" "d < B32"
  shows "for_down 0 n (\<lambda>i F. c_bind (load a i) (\<lambda>x. c_mod (u64 (F * B32) OR x) d)) 0 = Inr (lval a mod d)"
proof -
  let ?I = "\<lambda>i F. F = lval (drop i a) mod d"
  have "\<exists>F. for_down 0 n (\<lambda>i F. c_bind (load a i) (\<lambda>x. c_mod (u64 (F * B32) OR x) d)) 0 = Inr F \<and> ?I 0 F"
  proof (rule for_down_total [where I = ?I])
    show "?I n 0" using z by (simp add: lval_drop_zero)
  next
    fix i F
    assume i: "0 \<le> i" "i < n" and I: "?I (Suc i) F"
    have F: "F < d" using I d by simp
    have x: "a ! i < B32" using a i n by (intro limbs_ok_nth) simp_all
    have "F * B32 < 2 ^ 64" using div_limb_bound(1) [OF F d(2) x] by linarith
    moreover have "lval (drop i a) mod d = (F * B32 + a ! i) mod d"
      using drop_limb [of i a] a i n I by (simp add: limbs_ok_def) (metis add.commute mod_add_left_eq mod_mult_left_eq mult.commute)
    ultimately show "\<exists>F'. c_bind (load a i) (\<lambda>x. c_mod (u64 (F * B32) OR x) d) = Inr F' \<and> ?I i F'"
      using a i n d x by (simp add: load_def limbs_ok_def c_mod_def u64_small or_limb)
  qed simp
  then show ?thesis by simp
qed

lemma zero_from_append: "length xs = k \<Longrightarrow> zero_from k (xs @ replicate m 0)"
  by (auto simp: zero_from_def nth_append)

lemma BigNum_u64_wf:
  assumes "x < 2 ^ 64"
  shows "wf_big (BigNum_u64 32 x)" "normal_big (BigNum_u64 32 x)" "mag (BigNum_u64 32 x) = x" "signal (BigNum_u64 32 x) = 0"
proof -
  note z = zero_from_append
  have "x div B32 < B32" using assms by (simp add: div_less_iff_less_mult)
  then show "wf_big (BigNum_u64 32 x)" "normal_big (BigNum_u64 32 x)" "mag (BigNum_u64 32 x) = x" "signal (BigNum_u64 32 x) = 0"
    using z [of "[x mod B32]" 1 127] z [of "[x mod B32, x div B32]" 2 126]
    by (auto simp: BigNum_u64_def wf_big_def normal_big_def limbs_ok_def ul32)
qed

lemma one_limb: "wf_big X \<Longrightarrow> len X = 1 \<Longrightarrow> mag X = limbs X ! 0 \<and> limbs X ! 0 < B32"
  using lval_take_zero [of 1 "limbs X"] mag_upper [of X] by (auto simp: wf_big_def mag_def limbs_ok_def take_Suc_conv_app_nth)

lemma div_length:
  assumes X: "wf_big X" "normal_big X" "1 < len X" and d: "0 < d" "d < B32"
    and q: "limbs_ok q" "zero_from (len X) q" "lval q = mag X div d" and t: "q ! (len X - 1) = 0"
  shows "zero_from (len X - 1) q \<and> (len X - 1 = 1 \<or> q ! (len X - 2) \<noteq> 0)"
proof
  have "i = len X - 1 \<or> len X \<le> i" if "len X - 1 \<le> i" for i using that by linarith
  then show z: "zero_from (len X - 1) q" using q(2) t unfolding zero_from_def by metis
  show "len X - 1 = 1 \<or> q ! (len X - 2) \<noteq> 0"
  proof (rule ccontr)
    assume n: "\<not> (len X - 1 = 1 \<or> q ! (len X - 2) \<noteq> 0)"
    have "i = len X - 2 \<or> len X - 1 \<le> i" if "len X - 2 \<le> i" for i using that by linarith
    then have "zero_from (len X - 2) q" using z n unfolding zero_from_def by metis
    moreover have "len X - 2 \<le> 128" using X(1) by (auto simp: wf_big_def)
    ultimately have "mag X div d < B32 ^ (len X - 2)"
      using q(1,3) zero_from_bound [of q "len X - 2"] by (simp add: limbs_ok_def)
    then have "mag X < B32 ^ (len X - 2) * d" using d by (simp add: div_less_iff_less_mult)
    also have "\<dots> \<le> B32 ^ (len X - 2) * B32" using d(2) by (simp only: mult_le_mono2 less_imp_le)
    also have "\<dots> = B32 ^ (len X - 1)" using power_Suc2 [of B32 "len X - 2"] X(3) by (simp add: Suc_diff_Suc numeral_2_eq_2)
    finally show False using normal_lower [OF X(1,2)] X(3) by simp
  qed
qed

lemma op_div_one_limb:
  assumes X: "wf_big X" "normal_big X" and A: "wf_big A" "len A = 1" "mag A \<noteq> 0"
  shows "\<exists>Q. op_div 32 fuel X A = Inr Q \<and> wf_big Q \<and> normal_big Q \<and> signal Q = signal X \<and> mag Q = mag X div mag A"
proof -
  let ?d = "limbs A ! 0"
  have d: "mag A = ?d" "0 < ?d" "?d < B32" using one_limb [OF A(1,2)] A(3) by auto
  have la: "load (limbs A) 0 = Inr ?d" using A(1) by (auto simp: load_def wf_big_def limbs_ok_def)
  have lx: "length (limbs X) = 128" using X(1) by (simp add: wf_big_def limbs_ok_def)
  show ?thesis
  proof (cases "len X = 1")
    case True
    note x = one_limb [OF X(1) True]
    let ?q = "(limbs X)[0 := limbs X ! 0 div ?d]"
    have "limbs X ! 0 div ?d \<le> limbs X ! 0" by simp
    then have "limbs X ! 0 div ?d < B32" using x by linarith
    then have ok: "limbs_ok ?q" using X(1) by (intro limbs_ok_update) (simp_all add: wf_big_def)
    have z: "zero_from 1 ?q" using X(1) True by (auto simp: wf_big_def zero_from_def)
    have "lval ?q = limbs X ! 0 div ?d" using lval_take_zero [OF z] lx by (simp add: take_Suc_conv_app_nth)
    moreover have "op_div 32 fuel X A = Inr (X\<lparr>limbs := ?q\<rparr>)"
      using A(2) la True lx d by (simp add: op_div_def load_def store_def c_div_def)
    moreover have "wf_big (X\<lparr>limbs := ?q\<rparr>)" "normal_big (X\<lparr>limbs := ?q\<rparr>)" using X(1) ok z True by (simp_all add: wf_big_def normal_big_def)
    ultimately show ?thesis using x d(1) by (simp add: mag_def)
  next
    case False
    then have n: "1 < len X" "len X \<le> 128" using X(1) by (auto simp: wf_big_def)
    obtain F q where q: "for_down 0 (len X) (div_step 32 ?d) (0, limbs X) = Inr (F, q)" "limbs_ok q" "zero_from (len X) q"
      "lval q = mag X div ?d" using div_run [of "limbs X" "len X" ?d] X(1) d(2,3) unfolding wf_big_def mag_def by blast
    let ?m = "if q ! (len X - 1) = 0 then len X - 1 else len X"
    have "op_div 32 fuel X A = Inr (X\<lparr>limbs := q, len := ?m\<rparr>)"
      using A(2) la False q(1,2) n by (simp add: op_div_def load_def limbs_ok_def)
    moreover have "wf_big (X\<lparr>limbs := q, len := ?m\<rparr>)" "normal_big (X\<lparr>limbs := q, len := ?m\<rparr>)"
      using div_length [OF X n(1) d(2,3) q(2,3,4)] X(1) q(2,3) n by (auto simp: wf_big_def normal_big_def numeral_2_eq_2)
    ultimately show ?thesis using q(4) d(1) by (simp add: mag_def)
  qed
qed

lemma op_mod_one_limb:
  assumes X: "wf_big X" and A: "wf_big A" "len A = 1" "mag A \<noteq> 0"
  shows "op_mod 32 fuel X A = Inr (BigNum_u64 32 (mag X mod mag A))"
proof -
  let ?d = "limbs A ! 0"
  have d: "mag A = ?d" "0 < ?d" "?d < B32" using one_limb [OF A(1,2)] A(3) by auto
  have la: "load (limbs A) 0 = Inr ?d" using A(1) by (auto simp: load_def wf_big_def limbs_ok_def)
  have "(if len X = 1 then c_bind (load (limbs X) 0) (\<lambda>x. c_mod x ?d)
    else for_down 0 (len X) (\<lambda>i F. c_bind (load (limbs X) i) (\<lambda>x. c_mod (u64 (F * B32) OR x) ?d)) 0) = Inr (mag X mod ?d)"
    using one_limb [OF X] mod_run [of "limbs X" "len X" ?d] X d(2,3)
    by (auto simp: load_def c_mod_def wf_big_def limbs_ok_def mag_def)
  then show ?thesis using A(2) la d(1) by (simp add: op_mod_def)
qed

lemma one_limb_zero:
  assumes "wf_big X" "wf_big A" "len A = 1" "mag A = 0"
  shows "op_div 32 fuel X A = Inl DivisionByZero" "op_mod 32 fuel X A = Inl DivisionByZero"
proof -
  have d: "load (limbs A) 0 = Inr 0" using one_limb [OF assms(2,3)] assms by (auto simp: load_def wf_big_def limbs_ok_def)
  have X: "1 \<le> len X" "len X \<le> length (limbs X)" "length (limbs X) = 128" using assms(1) by (auto simp: wf_big_def limbs_ok_def)
  then obtain m where m: "len X = Suc m" by (cases "len X") auto
  show "op_div 32 fuel X A = Inl DivisionByZero" "op_mod 32 fuel X A = Inl DivisionByZero"
    using assms(3) d X m by (auto simp: op_div_def op_mod_def for_down_def div_step_def load_def c_div_def c_mod_def Let_def)
qed

section \<open>The operators as operations on integers\<close>



text \<open>
  C2: the product of well-formed numbers that fits into the array is the product of the
  integers they stand for, well-formed and without leading zeros.
\<close>

theorem bigint_multiplies:
  assumes "wf_big X" "wf_big A" "len X + len A \<le> 128"
  shows "\<exists>P. op_mul 32 X A = Inr P \<and> wf_big P \<and> normal_big P \<and> big P = big X * big A"
  using op_mul_correct [OF assms] by blast

theorem bigint_multiplies_witness:
  "\<exists>P. op_mul 32 (BigNum_u64 32 (2 ^ 32)) (op_neg (BigNum_u64 32 (2 ^ 32))) = Inr P \<and> wf_big P \<and> normal_big P \<and> big P = - (2 ^ 64)"
proof -
  have "len (BigNum_u64 32 (2 ^ 32)) = 2" by (simp add: BigNum_u64_def)
  then show ?thesis
    using bigint_multiplies [of "BigNum_u64 32 (2 ^ 32)" "op_neg (BigNum_u64 32 (2 ^ 32))"] BigNum_u64_wf [of "2 ^ 32"]
    by (simp add: big_def)
qed

text \<open>
  C7: division by a number of one limb: the quotient of the absolute values with the sign of
  the dividend, whatever the sign of the divisor, and the remainder without a sign; by zero both fault.
\<close>

theorem bigint_divides:
  assumes "wf_big X" "normal_big X" "wf_big A" "len A = 1"
  shows "if mag A = 0 then op_div 32 fuel X A = Inl DivisionByZero \<and> op_mod 32 fuel X A = Inl DivisionByZero
    else (\<exists>Q. op_div 32 fuel X A = Inr Q \<and> wf_big Q \<and> normal_big Q \<and> signal Q = signal X \<and> mag Q = mag X div mag A) \<and>
      op_mod 32 fuel X A = Inr (BigNum_u64 32 (mag X mod mag A))"
  using op_div_one_limb [OF assms] op_mod_one_limb [OF assms(1,3,4)] one_limb_zero [OF assms(1,3,4)] by simp

theorem bigint_divides_witness:
  "op_mod 32 0 (BigNum_u64 32 (2 ^ 40)) (BigNum_u64 32 10) = Inr (BigNum_u64 32 6)"
proof -
  have "len (BigNum_u64 32 10) = 1" by (simp add: BigNum_u64_def)
  then show ?thesis using bigint_divides [of "BigNum_u64 32 (2 ^ 40)" "BigNum_u64 32 10" 0] BigNum_u64_wf [of "2 ^ 40"] BigNum_u64_wf [of 10]
    by simp
qed

text \<open>A borrow that is lost: the difference of \<open>2 ^ 64\<close> and 1 is wrong.\<close>

theorem lost_borrow:
  "\<exists>X D. wf_big X \<and> normal_big X \<and> big X = 2 ^ 64 \<and> op_sub 32 X (BigNum_u64 32 1) = Inr D \<and> big D \<noteq> 2 ^ 64 - 1"
proof -
  let ?X = "\<lparr>len = 3, signal = 0, limbs = [0, 0, 1] @ replicate 125 0\<rparr> :: BigNum" and ?A = "BigNum_u64 32 1"
  have X: "wf_big ?X" "normal_big ?X" "big ?X = 2 ^ 64"
    using zero_from_append [of "[0, 0, 1]" 3 125] by (auto simp: wf_big_def normal_big_def limbs_ok_def big_def)
  have A: "wf_big ?A" "normal_big ?A" "big ?A = 1" "len ?A = 1" "limbs ?A = 1 # replicate 127 0"
    using BigNum_u64_wf [of 1] by (simp_all add: big_def BigNum_u64_def ul32)
  have "\<not> exact_mag ?X ?A" using A(5) by (auto simp: exact_mag_def exact_sub_def mag_def intro!: exI [of _ 1])
  then show ?thesis using op_sub_correct [of ?X ?A] X A by (auto simp: BigNum_u64_def)
qed

text \<open>Two numbers of different signs are neither equal nor different.\<close>

theorem op_ne_signs: "signal X \<noteq> signal A \<Longrightarrow> op_eq X A = Inr False \<and> op_ne X A = Inr False"
  by (simp add: op_eq_def op_ne_def)

end
