(* ===== verification/C_IO.thy ===== *)
theory C_IO
  imports C_Prelude
begin

text \<open>
  Programs that call the system or a library.  A call is its name and its arguments; the
  reply of the environment is the returned value, the bytes written to a buffer the caller
  passed, and \<^verbatim>\<open>errno\<close>.  The environment is an arbitrary function of the calls made so
  far, so a theorem over every environment covers every behaviour of the callee.  A program
  maps the environment and the trace of events to the extended trace and its result: a
  value, a fault of C, a call of \<^verbatim>\<open>exit\<close>, or \<open>Running\<close> when a loop has used up the
  number of passes it was given.
\<close>

section \<open>Calls, replies and programs\<close>

datatype arg = I int | S string

datatype call = Call (fn: string) (args: "arg list")

record reply =
  ret :: int
  data :: string
  errno :: int

type_synonym event = "call \<times> reply"
type_synonym trace = "event list"
type_synonym env = "trace \<Rightarrow> call \<Rightarrow> reply"

datatype 'a res = Ok 'a | Fault c_error | Exit int | Running

type_synonym 'a prog = "env \<Rightarrow> trace \<Rightarrow> trace \<times> 'a res"

definition return :: "'a \<Rightarrow> 'a prog" where
  "return x env tr = (tr, Ok x)"

definition bind :: "'a prog \<Rightarrow> ('a \<Rightarrow> 'b prog) \<Rightarrow> 'b prog" where
  "bind m f env tr =
     (case m env tr of
        (tr', Ok x) \<Rightarrow> f x env tr'
      | (tr', Fault e) \<Rightarrow> (tr', Fault e)
      | (tr', Exit n) \<Rightarrow> (tr', Exit n)
      | (tr', Running) \<Rightarrow> (tr', Running))"

definition invoke :: "string \<Rightarrow> arg list \<Rightarrow> reply prog" where
  "invoke f xs env tr = (let c = Call f xs; r = env tr c in (tr @ [(c, r)], Ok r))"

definition exit_with :: "int \<Rightarrow> 'a prog" where
  "exit_with n env tr = (tr, Exit n)"

definition fault :: "c_error \<Rightarrow> 'a prog" where
  "fault e env tr = (tr, Fault e)"

definition lift :: "'a c_result \<Rightarrow> 'a prog" where
  "lift r = (case r of Inl e \<Rightarrow> fault e | Inr x \<Rightarrow> return x)"

text \<open>\<^verbatim>\<open>printf\<close> with its text already formatted, and a call whose result is ignored.\<close>

definition print :: "string \<Rightarrow> unit prog" where
  "print s = bind (invoke ''printf'' [S s]) (\<lambda>_. return ())"

definition do_call :: "string \<Rightarrow> arg list \<Rightarrow> unit prog" where
  "do_call f xs = bind (invoke f xs) (\<lambda>_. return ())"

definition call_ret :: "string \<Rightarrow> arg list \<Rightarrow> int prog" where
  "call_ret f xs = bind (invoke f xs) (\<lambda>r. return (ret r))"

text \<open>\<^verbatim>\<open>fprintf (stderr, ...)\<close>, a call whose reply is a text, and the events of one function.\<close>

definition eprint :: "string \<Rightarrow> unit prog" where
  "eprint s = do_call ''fprintf'' [S ''stderr'', S s]"

definition call_text :: "string \<Rightarrow> arg list \<Rightarrow> string prog" where
  "call_text f xs = bind (invoke f xs) (\<lambda>r. return (data r))"

definition uses :: "string \<Rightarrow> trace \<Rightarrow> event list" where
  "uses f tr = filter (\<lambda>e. fn (fst e) = f) tr"

abbreviation nl :: string where
  "nl \<equiv> [CHR 0x0A]"

text \<open>
  A loop of at most \<open>n\<close> passes: the body continues with \<open>Inl\<close> a new state or leaves with
  \<open>Inr\<close> a value.
\<close>

primrec loop :: "nat \<Rightarrow> ('s \<Rightarrow> ('s + 'a) prog) \<Rightarrow> 's \<Rightarrow> 'a prog" where
  "loop 0 body s = (\<lambda>env tr. (tr, Running))"
| "loop (Suc n) body s =
     bind (body s) (\<lambda>r. case r of Inl s' \<Rightarrow> loop n body s' | Inr a \<Rightarrow> return a)"

text \<open>A counted loop.\<close>

primrec for_each :: "'x list \<Rightarrow> ('x \<Rightarrow> 's \<Rightarrow> 's prog) \<Rightarrow> 's \<Rightarrow> 's prog" where
  "for_each [] body s = return s"
| "for_each (x # xs) body s = bind (body x s) (for_each xs body)"

section \<open>Evaluation\<close>

named_theorems io_eval \<open>equations that run programs\<close>

lemma return_eval [io_eval]: "return x env tr = (tr, Ok x)"
  by (simp add: return_def)

lemma fault_eval [io_eval]: "fault e env tr = (tr, Fault e)"
  by (simp add: fault_def)

lemma exit_eval [io_eval]: "exit_with n env tr = (tr, Exit n)"
  by (simp add: exit_with_def)

lemma lift_eval [io_eval]:
  "lift (Inr x) env tr = (tr, Ok x)"
  "lift (Inl e) env tr = (tr, Fault e)"
  by (simp_all add: lift_def io_eval)

lemma invoke_eval [io_eval]:
  "invoke f xs env tr = (tr @ [(Call f xs, env tr (Call f xs))], Ok (env tr (Call f xs)))"
  by (simp add: invoke_def Let_def)

lemma bind_Ok [io_eval]: "m env tr = (tr', Ok x) \<Longrightarrow> bind m f env tr = f x env tr'"
  by (simp add: bind_def)

lemma bind_stop:
  "m env tr = (tr', Fault e) \<Longrightarrow> bind m f env tr = (tr', Fault e)"
  "m env tr = (tr', Exit n) \<Longrightarrow> bind m f env tr = (tr', Exit n)"
  "m env tr = (tr', Running) \<Longrightarrow> bind m f env tr = (tr', Running)"
  by (simp_all add: bind_def)

lemma bind_return [simp]: "bind (return x) f = f x"
  by (simp add: fun_eq_iff bind_def return_def)

lemma bind_invoke:
  "bind (invoke f xs) k env tr = k (env tr (Call f xs)) env (tr @ [(Call f xs, env tr (Call f xs))])"
  by (simp add: io_eval)

lemma bind_print:
  "bind (print s) k env tr = k () env (tr @ [(Call ''printf'' [S s], env tr (Call ''printf'' [S s]))])"
  by (simp add: print_def bind_def invoke_def return_def Let_def)

lemma bind_do_call:
  "bind (do_call f xs) k env tr = k () env (tr @ [(Call f xs, env tr (Call f xs))])"
  by (simp add: do_call_def bind_def invoke_def return_def Let_def)

lemma bind_call_ret:
  "bind (call_ret f xs) k env tr = k (ret (env tr (Call f xs))) env (tr @ [(Call f xs, env tr (Call f xs))])"
  by (simp add: call_ret_def bind_def invoke_def return_def Let_def)

lemma bind_eprint:
  "bind (eprint s) k env tr =
     k () env (tr @ [(Call ''fprintf'' [S ''stderr'', S s], env tr (Call ''fprintf'' [S ''stderr'', S s]))])"
  by (simp add: eprint_def bind_do_call)

lemma bind_call_text:
  "bind (call_text f xs) k env tr = k (data (env tr (Call f xs))) env (tr @ [(Call f xs, env tr (Call f xs))])"
  by (simp add: call_text_def bind_def invoke_def return_def Let_def)

lemma eprint_eval [io_eval]:
  "eprint s env tr =
     (tr @ [(Call ''fprintf'' [S ''stderr'', S s], env tr (Call ''fprintf'' [S ''stderr'', S s]))], Ok ())"
  by (simp add: eprint_def do_call_def bind_invoke return_eval)

lemma print_eval [io_eval]:
  "print s env tr = (tr @ [(Call ''printf'' [S s], env tr (Call ''printf'' [S s]))], Ok ())"
  by (simp add: print_def bind_invoke return_eval)

lemma do_call_eval [io_eval]:
  "do_call f xs env tr = (tr @ [(Call f xs, env tr (Call f xs))], Ok ())"
  by (simp add: do_call_def bind_invoke return_eval)

lemma uses_append [simp]: "uses f (t @ u) = uses f t @ uses f u"
  by (simp add: uses_def)

lemma uses_simps [simp]:
  "uses f [] = []"
  "uses f ((c, r) # t) = (if fn c = f then (c, r) # uses f t else uses f t)"
  by (simp_all add: uses_def)

lemma bind_lift_Inr [simp]: "bind (lift (Inr x)) k = k x"
  by (simp add: lift_def)

lemma bind_lift_Inl [simp]: "bind (lift (Inl e)) k = fault e"
  by (simp add: lift_def fun_eq_iff bind_def fault_def)

lemma bind_exit [simp]: "bind (exit_with n) k = exit_with n"
  by (simp add: fun_eq_iff bind_def exit_with_def)

lemma bind_fault [simp]: "bind (fault e) k = fault e"
  by (simp add: fun_eq_iff bind_def fault_def)

lemma bind_if: "bind (if b then m else n) k = (if b then bind m k else bind n k)"
  by simp

lemma if_eval: "(if b then m else n) env tr = (if b then m env tr else n env tr)"
  by simp

lemma bind_assoc: "bind (bind m f) g = bind m (\<lambda>x. bind (f x) g)"
  by (auto simp: fun_eq_iff bind_def split: prod.splits res.splits)

lemmas bind_calls = bind_invoke bind_print bind_do_call bind_call_ret bind_eprint bind_call_text

text \<open>What a composed program has done when it ends with a value.\<close>

lemma bind_OkE:
  assumes "bind m f env tr = (tr', Ok y)"
  obtains t x where "m env tr = (t, Ok x)" "f x env t = (tr', Ok y)"
  using assms by (auto simp: bind_def split: prod.splits res.splits)

lemma lift_Ok: "lift m env tr = (t, Ok x) \<longleftrightarrow> m = Inr x \<and> t = tr"
  by (cases m) (auto simp: io_eval)

text \<open>
  Inversion of a run call by call.  The reply is a fresh variable, so that what is derived
  holds for every reply, and the trace stays small.
\<close>

lemma run_callE:
  assumes "bind (invoke f xs) k env tr = (t, r)"
  obtains x where "k x env (tr @ [(Call f xs, x)]) = (t, r)"
  using assms by (simp add: bind_invoke)

lemma run_do_callE:
  assumes "bind (do_call f xs) k env tr = (t, r)"
  obtains x where "k () env (tr @ [(Call f xs, x)]) = (t, r)"
  using assms by (simp add: bind_do_call)

lemma run_call_retE:
  assumes "bind (call_ret f xs) k env tr = (t, r)"
  obtains x where "k (ret x) env (tr @ [(Call f xs, x)]) = (t, r)"
  using assms by (simp add: bind_call_ret)

lemma run_call_textE:
  assumes "bind (call_text f xs) k env tr = (t, r)"
  obtains x where "k (data x) env (tr @ [(Call f xs, x)]) = (t, r)"
  using assms by (simp add: bind_call_text)

lemma run_printE:
  assumes "bind (print s) k env tr = (t, r)"
  obtains x where "k () env (tr @ [(Call ''printf'' [S s], x)]) = (t, r)"
  using assms by (simp add: bind_print)

lemma run_eprintE:
  assumes "bind (eprint s) k env tr = (t, r)"
  obtains x where "k () env (tr @ [(Call ''fprintf'' [S ''stderr'', S s], x)]) = (t, r)"
  using assms by (simp add: bind_eprint)

lemma run_lastE:
  "do_call f xs env tr = (t, r) \<Longrightarrow> (\<And>x. t = tr @ [(Call f xs, x)] \<Longrightarrow> r = Ok () \<Longrightarrow> P) \<Longrightarrow> P"
  "print s env tr = (t, u) \<Longrightarrow> (\<And>x. t = tr @ [(Call ''printf'' [S s], x)] \<Longrightarrow> u = Ok () \<Longrightarrow> P) \<Longrightarrow> P"
  "eprint s env tr = (t, u) \<Longrightarrow>
     (\<And>x. t = tr @ [(Call ''fprintf'' [S ''stderr'', S s], x)] \<Longrightarrow> u = Ok () \<Longrightarrow> P) \<Longrightarrow> P"
  by (auto simp: do_call_eval print_eval eprint_eval)

lemma run_liftE:
  assumes "bind (lift m) k env tr = (t, r)"
  obtains v where "m = Inr v" "k v env tr = (t, r)" | e where "m = Inl e" "t = tr" "r = Fault e"
  using assms by (cases m) (auto simp: io_eval)

lemma run_returnE:
  "return v env tr = (t, r) \<Longrightarrow> (t = tr \<Longrightarrow> r = Ok v \<Longrightarrow> P) \<Longrightarrow> P"
  by (simp add: return_eval)

lemma run_stopE:
  "fault e env tr = (t, r) \<Longrightarrow> (t = tr \<Longrightarrow> r = Fault e \<Longrightarrow> P) \<Longrightarrow> P"
  "exit_with n env tr = (t, u) \<Longrightarrow> (t = tr \<Longrightarrow> u = Exit n \<Longrightarrow> P) \<Longrightarrow> P"
  by (simp_all add: fault_eval exit_eval)

lemma run_ifE:
  assumes "(if b then m else n) env tr = (t, r)"
  obtains "b" "m env tr = (t, r)" | "\<not> b" "n env tr = (t, r)"
  using assms by (auto split: if_splits)

lemma run_bind_ifE:
  assumes "bind (if b then m else n) k env tr = (t, r)"
  obtains "b" "bind m k env tr = (t, r)" | "\<not> b" "bind n k env tr = (t, r)"
  using assms by (auto split: if_splits)

lemma run_nestedE:
  assumes "bind (bind m f) k env tr = (t, r)"
  obtains "bind m (\<lambda>x. bind (f x) k) env tr = (t, r)"
  using assms by (simp add: bind_assoc)

lemma run_bind_returnE:
  assumes "bind (return v) k env tr = (t, r)"
  obtains "k v env tr = (t, r)"
  using assms by simp

lemmas runE = run_callE run_do_callE run_call_retE run_call_textE run_printE run_eprintE run_lastE
  run_returnE run_stopE run_ifE run_bind_ifE run_nestedE run_bind_returnE run_liftE

text \<open>Programs only append to the trace.\<close>

definition appends :: "'a prog \<Rightarrow> bool" where
  "appends m \<longleftrightarrow> (\<forall>env tr. \<exists>u. fst (m env tr) = tr @ u)"

named_theorems appends_rules \<open>programs that only append to the trace\<close>

lemma appendsD: "appends m \<Longrightarrow> m env tr = (t, r) \<Longrightarrow> \<exists>u. t = tr @ u"
  unfolding appends_def by (metis fst_conv)

lemma appends_basic [appends_rules]:
  "appends (return x)" "appends (fault e)" "appends (exit_with n)" "appends (invoke f xs)" "appends (lift v)"
  by (auto simp: appends_def io_eval lift_def split: sum.splits)

lemma appends_bind [appends_rules]:
  assumes "appends m" "\<And>x. appends (f x)"
  shows "appends (bind m f)"
  unfolding appends_def
proof (intro allI)
  fix env tr
  obtain t r where m: "m env tr = (t, r)" by fastforce
  from appendsD [OF assms(1) m] obtain u where u: "t = tr @ u" by blast
  show "\<exists>u. fst (bind m f env tr) = tr @ u"
  proof (cases r)
    case (Ok x)
    obtain t' r' where f: "f x env t = (t', r')" by fastforce
    from appendsD [OF assms(2) f] u m Ok f show ?thesis by (auto simp: bind_Ok)
  qed (use m u in \<open>auto simp: bind_stop\<close>)
qed

lemma appends_calls [appends_rules]:
  "appends (print s)" "appends (eprint s)" "appends (do_call f xs)" "appends (call_ret f xs)" "appends (call_text f xs)"
  unfolding print_def eprint_def do_call_def call_ret_def call_text_def by (intro appends_rules)+

lemma appends_if [appends_rules]: "appends m \<Longrightarrow> appends n \<Longrightarrow> appends (if b then m else n)"
  by simp

lemma appends_loop [appends_rules]:
  assumes "\<And>s. appends (body s)"
  shows "appends (loop n body s)"
proof (induction n arbitrary: s)
  case (Suc n)
  have "appends (case r of Inl s' \<Rightarrow> loop n body s' | Inr a \<Rightarrow> return a)" for r
    using Suc by (cases r) (auto intro: appends_rules)
  then show ?case unfolding loop.simps by (intro appends_bind assms)
qed (simp add: appends_def)

text \<open>The same result without a value, for a program that stops early.\<close>

primrec stopped :: "'a res \<Rightarrow> 'b res" where
  "stopped (Ok x) = Running"
| "stopped (Fault e) = Fault e"
| "stopped (Exit n) = Exit n"
| "stopped Running = Running"

text \<open>Programs that never call a function.\<close>

definition avoids :: "string \<Rightarrow> 'a prog \<Rightarrow> bool" where
  "avoids f m \<longleftrightarrow> (\<forall>env tr. uses f (fst (m env tr)) = uses f tr)"

named_theorems avoids_rules \<open>programs that never call a function\<close>

lemma avoidsD: "avoids f m \<Longrightarrow> m env tr = (t, r) \<Longrightarrow> uses f t = uses f tr"
  unfolding avoids_def by (metis fst_conv)

lemma avoids_basic [avoids_rules]:
  "avoids f (return x)" "avoids f (fault e)" "avoids f (exit_with n)" "avoids f (lift v)"
  "f \<noteq> g \<Longrightarrow> avoids f (invoke g xs)"
  by (auto simp: avoids_def io_eval lift_def split: sum.splits)

lemma avoids_bind [avoids_rules]:
  assumes "avoids f m" "\<And>x. avoids f (k x)"
  shows "avoids f (bind m k)"
  unfolding avoids_def
proof (intro allI)
  fix env tr
  obtain t r where m: "m env tr = (t, r)" by fastforce
  note t = avoidsD [OF assms(1) m]
  show "uses f (fst (bind m k env tr)) = uses f tr"
  proof (cases r)
    case (Ok x)
    obtain t' r' where k: "k x env t = (t', r')" by fastforce
    from avoidsD [OF assms(2) k] t m Ok k show ?thesis by (auto simp: bind_Ok)
  qed (use m t in \<open>auto simp: bind_stop\<close>)
qed

lemma avoids_calls [avoids_rules]:
  "f \<noteq> ''printf'' \<Longrightarrow> avoids f (print s)" "f \<noteq> ''fprintf'' \<Longrightarrow> avoids f (eprint s)"
  "f \<noteq> g \<Longrightarrow> avoids f (do_call g xs)" "f \<noteq> g \<Longrightarrow> avoids f (call_ret g xs)" "f \<noteq> g \<Longrightarrow> avoids f (call_text g xs)"
  unfolding print_def eprint_def do_call_def call_ret_def call_text_def by (intro avoids_rules; simp)+

lemma avoids_if [avoids_rules]: "avoids f m \<Longrightarrow> avoids f n \<Longrightarrow> avoids f (if b then m else n)"
  by simp

lemma avoids_case_prod [avoids_rules]: "(\<And>a b. avoids f (m a b)) \<Longrightarrow> avoids f (case p of (a, b) \<Rightarrow> m a b)"
  by (cases p) simp

lemma avoids_loop [avoids_rules]:
  assumes "\<And>s. avoids f (body s)"
  shows "avoids f (loop n body s)"
proof (induction n arbitrary: s)
  case (Suc n)
  have "avoids f (case r of Inl s' \<Rightarrow> loop n body s' | Inr a \<Rightarrow> return a)" for r
    using Suc by (cases r) (auto intro: avoids_rules)
  then show ?case unfolding loop.simps by (intro avoids_bind assms)
qed (simp add: avoids_def)

lemma avoids_for_each [avoids_rules]:
  assumes "\<And>x s. avoids f (body x s)"
  shows "avoids f (for_each xs body s)"
proof (induction xs arbitrary: s)
  case (Cons x xs)
  then show ?case unfolding for_each.simps by (intro avoids_bind assms)
qed (auto intro: avoids_rules)

lemma run_bindE:
  assumes "bind m k env tr = (t, r)"
  obtains x u where "m env tr = (u, Ok x)" "k x env u = (t, r)"
  | r' where "m env tr = (t, r')" "\<forall>x. r' \<noteq> Ok x" "r = stopped r'"
  using assms by (auto simp: bind_def split: prod.splits res.splits)

section \<open>Assertions about every environment\<close>

text \<open>
  \<open>triple P m Q\<close>: from a trace that satisfies \<open>P\<close> the program ends with a trace and a
  result that satisfy \<open>Q\<close>, whatever the environment replies.
\<close>

definition triple :: "(trace \<Rightarrow> bool) \<Rightarrow> 'a prog \<Rightarrow> (trace \<Rightarrow> 'a res \<Rightarrow> bool) \<Rightarrow> bool" where
  "triple P m Q \<longleftrightarrow> (\<forall>env tr. P tr \<longrightarrow> (case m env tr of (tr', r) \<Rightarrow> Q tr' r))"

lemma tripleI: "(\<And>env tr tr' r. P tr \<Longrightarrow> m env tr = (tr', r) \<Longrightarrow> Q tr' r) \<Longrightarrow> triple P m Q"
  by (auto simp: triple_def split: prod.splits)

lemma tripleD: "triple P m Q \<Longrightarrow> P tr \<Longrightarrow> m env tr = (tr', r) \<Longrightarrow> Q tr' r"
  by (auto simp: triple_def split: prod.splits)

lemma triple_bind:
  assumes "triple P m (\<lambda>tr r. case r of Ok x \<Rightarrow> R x tr | _ \<Rightarrow> Q tr (stopped r))"
    and "\<And>x. triple (R x) (f x) Q"
  shows "triple P (bind m f) Q"
proof (rule tripleI)
  fix env tr tr' r
  assume p: "P tr" and run: "bind m f env tr = (tr', r)"
  obtain t1 r1 where m: "m env tr = (t1, r1)" by fastforce
  from tripleD [OF assms(1) p m] show "Q tr' r"
    using run m tripleD [OF assms(2)] by (cases r1) (auto simp: bind_def)
qed

lemma triple_conseq:
  assumes "triple P m Q" and "\<And>tr. P' tr \<Longrightarrow> P tr" and "\<And>tr r. Q tr r \<Longrightarrow> Q' tr r"
  shows "triple P' m Q'"
  by (rule tripleI) (rule assms(3) [OF tripleD [OF assms(1,2)]])

lemma triple_return: "(\<And>tr. P tr \<Longrightarrow> Q tr (Ok x)) \<Longrightarrow> triple P (return x) Q"
  by (simp add: triple_def return_def)

lemma triple_exit: "(\<And>tr. P tr \<Longrightarrow> Q tr (Exit n)) \<Longrightarrow> triple P (exit_with n) Q"
  by (simp add: triple_def exit_with_def)

lemma triple_fault: "(\<And>tr. P tr \<Longrightarrow> Q tr (Fault e)) \<Longrightarrow> triple P (fault e) Q"
  by (simp add: triple_def fault_def)

lemma triple_invoke:
  "(\<And>tr r. P tr \<Longrightarrow> Q (tr @ [(Call f xs, r)]) (Ok r)) \<Longrightarrow> triple P (invoke f xs) Q"
  by (simp add: triple_def invoke_def Let_def)

text \<open>A call, and the continuation for each of its replies.\<close>

lemma triple_bind_invoke:
  assumes "\<And>r. triple (R r) (k r) Q" and "\<And>tr r. P tr \<Longrightarrow> R r (tr @ [(Call f xs, r)])"
  shows "triple P (bind (invoke f xs) k) Q"
  by (rule triple_bind [OF triple_invoke assms(1)]) (simp add: assms(2))

lemma triple_bind_print:
  assumes "triple R (k ()) Q" and "\<And>tr r. P tr \<Longrightarrow> R (tr @ [(Call ''printf'' [S s], r)])"
  shows "triple P (bind (print s) k) Q"
  unfolding print_def bind_assoc
  by (rule triple_bind_invoke [where R = "\<lambda>_. R"]) (simp_all add: assms)

lemma triple_bind_do_call:
  assumes "triple R (k ()) Q" and "\<And>tr r. P tr \<Longrightarrow> R (tr @ [(Call f xs, r)])"
  shows "triple P (bind (do_call f xs) k) Q"
  unfolding do_call_def bind_assoc
  by (rule triple_bind_invoke [where R = "\<lambda>_. R"]) (simp_all add: assms)

lemma triple_loop:
  assumes "\<And>s. triple (Inv s) (body s)
      (\<lambda>tr r. case r of Ok (Inl s') \<Rightarrow> Inv s' tr | Ok (Inr a) \<Rightarrow> Q tr (Ok a) | _ \<Rightarrow> Q tr (stopped r))"
    and "\<And>s tr. Inv s tr \<Longrightarrow> Q tr Running"
  shows "triple (Inv s) (loop n body s) Q"
proof (induction n arbitrary: s)
  case 0
  then show ?case using assms(2) by (simp add: triple_def)
next
  case (Suc n)
  show ?case
    unfolding loop.simps
  proof (rule triple_bind [where R = "\<lambda>x tr. case x of Inl s' \<Rightarrow> Inv s' tr | Inr a \<Rightarrow> Q tr (Ok a)"])
    show "triple (Inv s) (body s)
        (\<lambda>tr r. case r of Ok x \<Rightarrow> case x of Inl s' \<Rightarrow> Inv s' tr | Inr a \<Rightarrow> Q tr (Ok a) | _ \<Rightarrow> Q tr (stopped r))"
      by (rule triple_conseq [OF assms(1)]) (auto split: res.splits sum.splits)
  next
    fix x
    show "triple (\<lambda>tr. case x of Inl s' \<Rightarrow> Inv s' tr | Inr a \<Rightarrow> Q tr (Ok a))
        (case x of Inl s' \<Rightarrow> loop n body s' | Inr a \<Rightarrow> return a) Q"
      using Suc by (cases x) (auto intro: triple_return)
  qed
qed

end
