(* ===== verification/Paillier.thy ===== *)
theory Paillier
  imports BigInt C_IO PrimeTable
begin

text \<open>
  The rest of \<^verbatim>\<open>src/cpp/BigNum.cpp\<close>: texts as numbers, random numbers, modular powers, the prime
  test, the extended Euclidean algorithm, and the program, which generates a Paillier key,
  encrypts the line it reads and decrypts it again.  \<^verbatim>\<open>rand\<close> and the input are calls of the
  environment; \<open>w\<close> is the width of \<^verbatim>\<open>unsigned long\<close>, \<open>fuel\<close> bounds the passes of each loop that
  may not end.
\<close>

section \<open>Texts\<close>

definition ul_int :: "nat \<Rightarrow> int \<Rightarrow> nat" where
  "ul_int w x = nat (x mod 2 ^ w)"

text \<open>
  The constructor from a string fills a number whose members are not initialised: \<open>junk\<close> is
  what they hold.  \<^verbatim>\<open>s.size () - 1\<close> is a \<^verbatim>\<open>size_t\<close> of \<open>zw\<close> bits, and \<^verbatim>\<open>length\<close> an \<^verbatim>\<open>int\<close>.
\<close>

definition put_char :: "nat \<Rightarrow> string \<Rightarrow> nat \<Rightarrow> nat list \<Rightarrow> nat list c_result" where
  "put_char w s i a =
     c_bind (load a (i div 4)) (\<lambda>x. store a (i div 4) (ul w (x * 256) OR ul_int w (char_int (s ! i))))"

definition BigNum_string :: "nat \<Rightarrow> nat \<Rightarrow> BigNum \<Rightarrow> string \<Rightarrow> BigNum c_result" where
  "BigNum_string w zw junk s =
     c_bind (for_loop 0 (length s) (put_char w s) (limbs junk)) (\<lambda>a.
       Inr (junk\<lparr>limbs := a, len := (((length s + 2 ^ zw - 1) mod 2 ^ zw) div 4 + 1) mod 2 ^ 32\<rparr>))"

text \<open>\<^verbatim>\<open>print\<close>: eight limbs a line, most significant first, in hexadecimal.\<close>

definition print_limb :: "BigNum \<Rightarrow> nat \<Rightarrow> string \<Rightarrow> string c_result" where
  "print_limb X i out =
     (if i \<le> len X then
        c_bind (load (limbs X) (len X - i)) (\<lambda>x.
          Inr (out @ (if i mod 8 = 1 then nl else []) @ pad_with (CHR '' '') 8 (show_hex False x) @ '' ''))
      else Inr out)"

definition print_text :: "BigNum \<Rightarrow> string c_result" where
  "print_text X = c_bind (for_loop 1 (len X + 1) (print_limb X) []) (\<lambda>out. Inr (out @ nl))"

text \<open>\<^verbatim>\<open>printS\<close>: the four bytes of each limb, the one after the last included, without the null bytes.\<close>

definition limb_chars :: "nat \<Rightarrow> string" where
  "limb_chars x = filter (\<lambda>c. c \<noteq> CHR 0x00) (map (\<lambda>j. char_of (x div 2 ^ (j * 8))) [3, 2, 1, 0])"

definition printS_text :: "BigNum \<Rightarrow> string c_result" where
  "printS_text X =
     c_bind (for_loop 0 (len X + 1) (\<lambda>i out. c_bind (load (limbs X) i) (\<lambda>x. Inr (out @ limb_chars x))) []) (\<lambda>out.
       Inr (out @ nl))"

definition print_big :: "BigNum \<Rightarrow> unit prog" where
  "print_big X = bind (lift (print_text X)) print"

definition printS :: "BigNum \<Rightarrow> unit prog" where
  "printS X = bind (lift (printS_text X)) print"

section \<open>Random numbers\<close>

text \<open>
  \<^verbatim>\<open>rand () << 16 | rand ()\<close>, an \<^verbatim>\<open>int\<close>, converted to a limb.  The shift is undefined when
  the shifted value does not fit into 32 bits.
\<close>

definition shl16 :: "int \<Rightarrow> int c_result" where
  "shl16 h =
     (if 0 \<le> h \<and> h * 65536 < 2 ^ 32 then Inr (if h * 65536 < 2 ^ 31 then h * 65536 else h * 65536 - 2 ^ 32)
      else Inl SignedOverflow)"

definition rand_limb :: "nat \<Rightarrow> nat prog" where
  "rand_limb w =
     bind (call_ret ''rand'' []) (\<lambda>h. bind (lift (shl16 h)) (\<lambda>v.
     bind (call_ret ''rand'' []) (\<lambda>l. return (ul_int w (v OR l)))))"

definition set_limb :: "nat \<Rightarrow> BigNum \<Rightarrow> nat \<Rightarrow> BigNum c_result" where
  "set_limb i X v = c_bind (store (limbs X) i v) (\<lambda>a. Inr (X\<lparr>limbs := a\<rparr>))"

definition draw_limb :: "nat \<Rightarrow> nat \<Rightarrow> BigNum \<Rightarrow> BigNum prog" where
  "draw_limb w i X = bind (rand_limb w) (\<lambda>v. lift (set_limb i X v))"

definition or_limb_with :: "nat \<Rightarrow> nat \<Rightarrow> BigNum \<Rightarrow> BigNum c_result" where
  "or_limb_with i m X = c_bind (load (limbs X) i) (\<lambda>x. set_limb i X (x OR m))"

definition Random_int :: "nat \<Rightarrow> int \<Rightarrow> BigNum \<Rightarrow> BigNum prog" where
  "Random_int w a X =
     bind (for_each [0..<2] (draw_limb w) (X\<lparr>signal := a, len := 2\<rparr>)) (\<lambda>X.
       lift (or_limb_with 1 (ul_int w (- (2 ^ 31))) X))"

definition redraw_pass :: "nat \<Rightarrow> BigNum \<Rightarrow> BigNum \<Rightarrow> (BigNum + BigNum) prog" where
  "redraw_pass w A X =
     bind (lift (load (limbs X) 0)) (\<lambda>x. bind (lift (load (limbs A) 0)) (\<lambda>a.
       if x > a then bind (draw_limb w 0 X) (\<lambda>X. return (Inl X)) else return (Inr X)))"

definition Random_below :: "nat \<Rightarrow> nat \<Rightarrow> BigNum \<Rightarrow> BigNum \<Rightarrow> BigNum prog" where
  "Random_below w fuel A X =
     (if len A > 1 then for_each [0..<len A - 1] (draw_limb w) (X\<lparr>signal := 0, len := len A - 1\<rparr>)
      else bind (draw_limb w 0 (X\<lparr>signal := 0, len := 1\<rparr>)) (loop fuel (redraw_pass w A)))"

section \<open>Powers\<close>

text \<open>\<^verbatim>\<open>1 << j\<close>, an \<^verbatim>\<open>int\<close>, as an operand of \<^verbatim>\<open>&\<close> with a limb.\<close>

definition bit_mask :: "nat \<Rightarrow> nat \<Rightarrow> nat" where
  "bit_mask w j = ul_int w (if j = 31 then - (2 ^ 31) else 2 ^ j)"

definition power_step ::
    "nat \<Rightarrow> nat \<Rightarrow> BigNum \<Rightarrow> BigNum \<Rightarrow> nat \<Rightarrow> nat \<Rightarrow> BigNum \<times> BigNum \<Rightarrow> (BigNum \<times> BigNum) c_result" where
  "power_step w fuel A B i j = (\<lambda>(X, N).
     c_bind (load (limbs A) i) (\<lambda>a.
     c_bind (if a AND bit_mask w j \<noteq> 0 then c_bind (op_mul w X N) (\<lambda>P. op_mod w fuel P B) else Inr X) (\<lambda>X.
     c_bind (op_mul w N N) (\<lambda>P. c_bind (op_mod w fuel P B) (\<lambda>N. Inr (X, N))))))"

definition power_mod :: "nat \<Rightarrow> nat \<Rightarrow> BigNum \<Rightarrow> BigNum \<Rightarrow> BigNum \<Rightarrow> BigNum c_result" where
  "power_mod w fuel X A B =
     c_bind (op_mod w fuel X B) (\<lambda>N.
     c_bind (for_loop 0 (len A) (\<lambda>i. for_loop 0 32 (power_step w fuel A B i)) (BigNum_u64 w 1, N)) (\<lambda>(X, N). Inr X))"

section \<open>The prime test\<close>

text \<open>The small primes in turn: 1 for a prime, 0 for a composite number, \<open>None\<close> when no entry decides.\<close>

primrec small_primes :: "nat \<Rightarrow> nat \<Rightarrow> BigNum \<Rightarrow> int list \<Rightarrow> int option c_result" where
  "small_primes w fuel X [] = Inr None"
| "small_primes w fuel X (p # ps) =
     (let temp = BigNum_u64 w (ul_int 64 p) in
      c_bind (op_eq X temp) (\<lambda>e.
      if e then Inr (Some 1)
      else
        c_bind (op_mod w fuel X temp) (\<lambda>R. c_bind (op_eq R (BigNum_u64 w 0)) (\<lambda>z.
        if z then Inr (Some 0) else small_primes w fuel X ps))))"

text \<open>\<open>r\<close> and \<open>m\<close> with \<open>X - 1 = 2 ^ r * m\<close>.\<close>

primrec odd_part :: "nat \<Rightarrow> nat \<Rightarrow> nat \<Rightarrow> BigNum \<Rightarrow> (nat \<times> BigNum) c_result" where
  "odd_part w 0 r m = Inl Diverges"
| "odd_part w (Suc fuel) r m =
     c_bind (load (limbs m) 0) (\<lambda>x.
     if x AND 1 \<noteq> 0 then Inr (r, m)
     else c_bind (op_div w fuel m (BigNum_u64 w 2)) (odd_part w fuel (r + 1)))"

text \<open>Whether \<open>Y - 1\<close> or \<open>Y + 1\<close> is a multiple of \<open>X\<close>.\<close>

definition pred_zero :: "nat \<Rightarrow> nat \<Rightarrow> BigNum \<Rightarrow> BigNum \<Rightarrow> bool c_result" where
  "pred_zero w fuel X Y =
     c_bind (op_sub w Y (BigNum_u64 w 1)) (\<lambda>D. c_bind (op_mod w fuel D X) (\<lambda>R.
     c_bind (Compare (BigNum_u64 w 0) R) (\<lambda>c. Inr (c = 2))))"

definition succ_zero :: "nat \<Rightarrow> nat \<Rightarrow> BigNum \<Rightarrow> BigNum \<Rightarrow> bool c_result" where
  "succ_zero w fuel X Y =
     c_bind (op_add w Y (BigNum_u64 w 1)) (\<lambda>D. c_bind (op_mod w fuel D X) (\<lambda>R.
     c_bind (Compare (BigNum_u64 w 0) R) (\<lambda>c. Inr (c = 2))))"

text \<open>\<open>r\<close> squarings; whether one of them gives \<open>X - 1\<close>.\<close>

primrec squarings :: "nat \<Rightarrow> nat \<Rightarrow> BigNum \<Rightarrow> nat \<Rightarrow> BigNum \<Rightarrow> bool c_result" where
  "squarings w fuel X 0 Y = Inr False"
| "squarings w fuel X (Suc r) Y =
     c_bind (op_mul w Y Y) (\<lambda>P. c_bind (op_mod w fuel P X) (\<lambda>Y.
     c_bind (succ_zero w fuel X Y) (\<lambda>z. if z then Inr True else squarings w fuel X r Y)))"

text \<open>One base: whether the number passes.\<close>

definition base_passes :: "nat \<Rightarrow> nat \<Rightarrow> BigNum \<Rightarrow> nat \<Rightarrow> BigNum \<Rightarrow> BigNum \<Rightarrow> bool c_result" where
  "base_passes w fuel X r m A =
     c_bind (power_mod w fuel A m X) (\<lambda>Y.
     c_bind (pred_zero w fuel X Y) (\<lambda>a.
     c_bind (if a then Inr True else succ_zero w fuel X Y) (\<lambda>b.
     if b then Inr True else squarings w fuel X r Y)))"

definition fresh_pass :: "nat \<Rightarrow> nat \<Rightarrow> BigNum \<Rightarrow> BigNum \<Rightarrow> BigNum \<Rightarrow> (BigNum + BigNum) prog" where
  "fresh_pass w fuel X T A =
     bind (lift (Compare A T)) (\<lambda>c.
       if c = 2 then bind (Random_below w fuel X A) (\<lambda>A. return (Inl A)) else return (Inr A))"

text \<open>Five bases, each different from the last.\<close>

definition base_pass ::
    "nat \<Rightarrow> nat \<Rightarrow> BigNum \<Rightarrow> nat \<Rightarrow> BigNum \<Rightarrow> nat \<times> BigNum \<times> BigNum \<Rightarrow> ((nat \<times> BigNum \<times> BigNum) + int) prog" where
  "base_pass w fuel X r m = (\<lambda>(i, A, T).
     if i \<le> 5 then
       bind (Random_below w fuel X A) (\<lambda>A.
       bind (loop fuel (fresh_pass w fuel X T) A) (\<lambda>A.
       bind (lift (base_passes w fuel X r m A)) (\<lambda>ok.
         return (if ok then Inl (i + 1, A, A) else Inr 0))))
     else return (Inr 1))"

definition Rabin_Miller :: "nat \<Rightarrow> nat \<Rightarrow> BigNum \<Rightarrow> int prog" where
  "Rabin_Miller w fuel X =
     bind (lift (small_primes w fuel X Primes)) (\<lambda>d.
     case d of
       Some v \<Rightarrow> return v
     | None \<Rightarrow>
         bind (lift (op_sub w X (BigNum_u64 w 1))) (\<lambda>m.
         bind (lift (odd_part w fuel 0 m)) (\<lambda>(r, m).
           loop 6 (base_pass w fuel X r m) (1, BigNum0, BigNum0))))"

section \<open>Primes and Euclid's algorithm\<close>

definition odd_random :: "nat \<Rightarrow> BigNum \<Rightarrow> BigNum prog" where
  "odd_random w X = bind (Random_int w 0 X) (\<lambda>X. lift (or_limb_with 0 1 X))"

definition prime_pass :: "nat \<Rightarrow> nat \<Rightarrow> BigNum \<Rightarrow> (BigNum + BigNum) prog" where
  "prime_pass w fuel X =
     bind (Rabin_Miller w fuel X) (\<lambda>v.
     if v = 0 then bind (print (''775'' @ nl)) (\<lambda>_. bind (odd_random w X) (\<lambda>X. return (Inl X))) else return (Inr X))"

definition GeneratePrime :: "nat \<Rightarrow> nat \<Rightarrow> BigNum \<Rightarrow> BigNum prog" where
  "GeneratePrime w fuel X =
     bind (Random_int w 0 X) (\<lambda>X.
     bind (print (''771'' @ nl)) (\<lambda>_.
     bind (lift (or_limb_with 0 1 X)) (\<lambda>X.
     bind (loop fuel (prime_pass w fuel) X) (\<lambda>X.
     bind (print (''generate 777'' @ nl)) (\<lambda>_. return X)))))"

primrec euclid_loop :: "nat \<Rightarrow> nat \<Rightarrow> BigNum \<Rightarrow> BigNum \<Rightarrow> BigNum \<Rightarrow> BigNum \<Rightarrow> BigNum c_result" where
  "euclid_loop w 0 X U A B = Inl Diverges"
| "euclid_loop w (Suc fuel) X U A B =
     c_bind (op_ne B (BigNum_u64 w 0)) (\<lambda>d.
     if d then
       c_bind (op_div w fuel A B) (\<lambda>Q. c_bind (op_mod w fuel A B) (\<lambda>R.
       c_bind (op_mul w Q U) (\<lambda>P. c_bind (op_sub w X P) (\<lambda>D. euclid_loop w fuel U D B R))))
     else Inr X)"

definition ex_euclid :: "nat \<Rightarrow> nat \<Rightarrow> BigNum \<Rightarrow> BigNum \<Rightarrow> BigNum c_result" where
  "ex_euclid w fuel a b =
     c_bind (euclid_loop w fuel (BigNum_u64 w 1) (BigNum_u64 w 0) a b) (\<lambda>X.
       if signal X = 1 then op_add w X b else Inr X)"

primrec Gcd :: "nat \<Rightarrow> nat \<Rightarrow> BigNum \<Rightarrow> BigNum \<Rightarrow> BigNum c_result" where
  "Gcd w 0 a b = Inl Diverges"
| "Gcd w (Suc fuel) a b =
     c_bind (op_mod w fuel a b) (\<lambda>i. c_bind (op_ne i (BigNum_u64 w 0)) (\<lambda>d.
       if d then Gcd w fuel b i else Inr b))"

definition Lcm :: "nat \<Rightarrow> nat \<Rightarrow> BigNum \<Rightarrow> BigNum \<Rightarrow> BigNum c_result" where
  "Lcm w fuel a b = c_bind (Gcd w fuel a b) (\<lambda>i. c_bind (op_mul w a b) (\<lambda>P. op_div w fuel P i))"

definition Lfunction :: "nat \<Rightarrow> nat \<Rightarrow> BigNum \<Rightarrow> BigNum \<Rightarrow> BigNum c_result" where
  "Lfunction w fuel n a = c_bind (op_sub w a (BigNum_u64 w 1)) (\<lambda>D. op_div w fuel D n)"

section \<open>The program\<close>

definition utf8 :: "nat list \<Rightarrow> string" where
  "utf8 = map char_of"

text \<open>\<^verbatim>\<open>while (p == q) q.GeneratePrime ();\<close>\<close>

definition distinct_pass :: "nat \<Rightarrow> nat \<Rightarrow> BigNum \<Rightarrow> BigNum \<Rightarrow> (BigNum + BigNum) prog" where
  "distinct_pass w fuel p q =
     bind (lift (op_eq p q)) (\<lambda>e.
       if e then bind (GeneratePrime w fuel q) (\<lambda>q. return (Inl q)) else return (Inr q))"

text \<open>The encryption of \<open>m\<close> and its decryption with the key \<open>lam\<close>.\<close>

definition paillier_encrypt :: "nat \<Rightarrow> nat \<Rightarrow> BigNum \<Rightarrow> BigNum \<Rightarrow> BigNum \<Rightarrow> BigNum \<Rightarrow> BigNum \<Rightarrow> BigNum c_result" where
  "paillier_encrypt w fuel n N g m r =
     c_bind (power_mod w fuel g m N) (\<lambda>temp1. c_bind (power_mod w fuel r n N) (\<lambda>temp2.
     c_bind (op_mul w temp1 temp2) (\<lambda>middle1. power_mod w fuel middle1 (BigNum_u64 w 1) N)))"

definition paillier_decrypt :: "nat \<Rightarrow> nat \<Rightarrow> BigNum \<Rightarrow> BigNum \<Rightarrow> BigNum \<Rightarrow> BigNum \<Rightarrow> BigNum \<Rightarrow> BigNum c_result" where
  "paillier_decrypt w fuel n N g lam b =
     c_bind (power_mod w fuel g lam N) (\<lambda>x. c_bind (Lfunction w fuel n x) (\<lambda>x.
     c_bind (ex_euclid w fuel x n) (\<lambda>u.
     c_bind (power_mod w fuel b lam N) (\<lambda>y. c_bind (Lfunction w fuel n y) (\<lambda>y.
     c_bind (op_mul w y u) (\<lambda>c. power_mod w fuel c (BigNum_u64 w 1) n))))))"

definition paillier_main :: "nat \<Rightarrow> nat \<Rightarrow> nat \<Rightarrow> BigNum \<Rightarrow> int prog" where
  "paillier_main w zw fuel junk =
     bind (call_ret ''time'' [S ''NULL'']) (\<lambda>now.
     bind (do_call ''srand'' [I (now mod 2 ^ 32)]) (\<lambda>_.
     bind (print (utf8 [0xE8, 0xBE, 0x93, 0xE5, 0x85, 0xA5, 0xE8, 0xA6, 0x81, 0xE5, 0x8A, 0xA0, 0xE5, 0xAF, 0x86, 0xE7, 0x9A, 0x84, 0xE5, 0xAD, 0x97, 0xE7, 0xAC, 0xA6, 0xE4, 0xB8, 0xB2] @ nl)) (\<lambda>_.
     bind (call_text ''getline'' []) (\<lambda>A.
     bind (print nl) (\<lambda>_.
     bind (lift (BigNum_string w zw junk A)) (\<lambda>middle.
     bind (print (utf8 [0xE7, 0x94, 0x9F, 0xE6, 0x88, 0x90, 0xE6, 0x98, 0x8E, 0xE6, 0x96, 0x87, 0xEF, 0xBC, 0x9A])) (\<lambda>_.
     bind (print_big middle) (\<lambda>_.
     bind (print (''generate prime'' @ nl)) (\<lambda>_.
     bind (GeneratePrime w fuel BigNum0) (\<lambda>p.
     bind (GeneratePrime w fuel BigNum0) (\<lambda>q.
     bind (loop fuel (distinct_pass w fuel p) q) (\<lambda>q.
     bind (lift (op_sub w p (BigNum_u64 w 1))) (\<lambda>temp.
     bind (lift (op_sub w q (BigNum_u64 w 1))) (\<lambda>t.
     bind (lift (op_mul w t temp)) (\<lambda>_.
     bind (print (utf8 [0xE7, 0xB4, 0xA0, 0xE6, 0x95, 0xB0, 0x70, 0xE4, 0xB8, 0xBA, 0xEF, 0xBC, 0x9A])) (\<lambda>_. bind (print_big p) (\<lambda>_. bind (print nl) (\<lambda>_.
     bind (print (utf8 [0xE7, 0xB4, 0xA0, 0xE6, 0x95, 0xB0, 0x71, 0xE4, 0xB8, 0xBA, 0xEF, 0xBC, 0x9A])) (\<lambda>_. bind (print_big q) (\<lambda>_. bind (print nl) (\<lambda>_.
     bind (print (utf8 [0xE5, 0x85, 0xAC, 0xE9, 0x92, 0xA5, 0x6E, 0xE4, 0xB8, 0xBA])) (\<lambda>_.
     bind (lift (op_mul w p q)) (\<lambda>n.
     bind (lift (op_mul w n n)) (\<lambda>N.
     bind (print_big n) (\<lambda>_. bind (print nl) (\<lambda>_.
     bind (lift (Lcm w fuel temp t)) (\<lambda>pri_key.
     bind (print (utf8 [0xE7, 0xA7, 0x81, 0xE9, 0x92, 0xA5, 0x70, 0x72, 0x69, 0x5F, 0x6B, 0x65, 0x79, 0xE4, 0xB8, 0xBA, 0x3A])) (\<lambda>_. bind (print_big pri_key) (\<lambda>_. bind (print nl) (\<lambda>_.
     bind (GeneratePrime w fuel BigNum0) (\<lambda>g.
     bind (print (utf8 [0xE5, 0x85, 0xAC, 0xE9, 0x92, 0xA5, 0x67, 0xE4, 0xB8, 0xBA])) (\<lambda>_. bind (print_big g) (\<lambda>_. bind (print nl) (\<lambda>_.
     bind (GeneratePrime w fuel BigNum0) (\<lambda>r.
     bind (lift (paillier_encrypt w fuel n N g middle r)) (\<lambda>b.
     bind (print (utf8 [0xE7, 0x94, 0x9F, 0xE6, 0x88, 0x90, 0xE5, 0xAF, 0x86, 0xE6, 0x96, 0x87, 0xE5, 0xA6, 0x82, 0xE4, 0xB8, 0x8B, 0x3A])) (\<lambda>_. bind (print_big b) (\<lambda>_. bind (print nl) (\<lambda>_.
     bind (lift (paillier_decrypt w fuel n N g pri_key b)) (\<lambda>c.
     bind (print (utf8 [0xE8, 0xA7, 0xA3, 0xE5, 0xAF, 0x86, 0xE5, 0x90, 0x8E, 0xE7, 0x9A, 0x84, 0xE7, 0xBB, 0x93, 0xE6, 0x9E, 0x9C, 0xE4, 0xB8, 0xBA, 0x3A])) (\<lambda>_.
     bind (print_big c) (\<lambda>_. bind (printS c) (\<lambda>_. bind (print nl) (\<lambda>_.
     bind (do_call ''system'' [S ''pause'']) (\<lambda>_. return 0)))))))))))))))))))))))))))))))))))))))))))))"

section \<open>Powers with a modulus of one limb\<close>

abbreviation num :: "nat \<Rightarrow> BigNum" where
  "num \<equiv> BigNum_u64 32"

lemma num_wf [simp]:
  assumes "x < B32"
  shows "wf_big (num x)" "normal_big (num x)" "mag (num x) = x" "signal (num x) = 0" "len (num x) = 1"
  using BigNum_u64_wf [of x] assms by (simp_all add: BigNum_u64_def)

text \<open>A modulus of one limb other than zero.\<close>

definition modulus :: "BigNum \<Rightarrow> bool" where
  "modulus B \<longleftrightarrow> wf_big B \<and> len B = 1 \<and> mag B \<noteq> 0"

lemma modulus_bound: "modulus B \<Longrightarrow> 0 < mag B \<and> mag B < B32"
  using one_limb [of B] by (simp add: modulus_def)

lemma mod_limb [simp]: "modulus B \<Longrightarrow> x mod mag B < B32"
  using modulus_bound [of B] by (meson less_trans mod_less_divisor)

lemma op_mod_num: "wf_big X \<Longrightarrow> modulus B \<Longrightarrow> op_mod 32 fuel X B = Inr (num (mag X mod mag B))"
  by (simp add: modulus_def op_mod_one_limb)

lemma mul_mod_num:
  assumes "modulus B" "x < B32" "y < B32"
  shows "c_bind (op_mul 32 (num x) (num y)) (\<lambda>P. op_mod 32 fuel P B) = Inr (num (x * y mod mag B))"
proof -
  obtain P where "op_mul 32 (num x) (num y) = Inr P" "wf_big P" "mag P = x * y"
    using op_mul_correct [of "num x" "num y"] assms(2,3) by auto
  then show ?thesis using op_mod_num assms(1) by simp
qed

lemma lval_split: "lval a = lval (take i a) + B32 ^ i * lval (drop i a)" if "i \<le> length a"
  using lval_append [of "take i a" "drop i a"] that by (simp add: min_absorb2)

lemma lval_div:
  assumes "limbs_ok a" "i < 128"
  shows "lval a div B32 ^ i = lval (drop i a)"
proof -
  have "lval (take i a) < B32 ^ i" using lval_bound [of "take i a"] assms by (auto simp: limbs_ok_def min_absorb2 dest: in_set_takeD)
  then show ?thesis using lval_split [of i a] assms by (simp add: limbs_ok_def)
qed

lemma bit_mask_32: "j < 32 \<Longrightarrow> bit_mask 32 j = 2 ^ j"
proof (cases "j = 31")
  case False
  moreover assume "j < 32"
  ultimately have "(2 :: int) ^ j < 2 ^ 32" by (intro power_strict_increasing) simp_all
  then have "(2 :: int) ^ j mod 2 ^ 32 = 2 ^ j" by (intro mod_pos_pos_trivial) simp_all
  then show ?thesis using False by (simp add: bit_mask_def ul_int_def nat_power_eq)
qed (simp add: bit_mask_def ul_int_def)

lemma limb_bit:
  assumes a: "limbs_ok a" and i: "i < 128" and j: "j < 32"
  shows "a ! i AND bit_mask 32 j \<noteq> 0 \<longleftrightarrow> odd (lval a div 2 ^ (32 * i + j))"
proof -
  have d: "lval (drop i a) = a ! i + B32 * lval (drop (Suc i) a)" using a i by (intro drop_limb) (simp add: limbs_ok_def)
  have "B32 * lval (drop (Suc i) a) = 2 ^ j * (2 * (2 ^ (31 - j) * lval (drop (Suc i) a)))"
    using power_add [of "2 :: nat" j "Suc (31 - j)"] j by (simp add: mult.assoc [symmetric])
  then have "lval (drop i a) div 2 ^ j = 2 * (2 ^ (31 - j) * lval (drop (Suc i) a)) + a ! i div 2 ^ j"
    unfolding d by (simp only: div_mult_self2 power_not_zero simp_thms rel_simps)
  then have "odd (lval (drop i a) div 2 ^ j) \<longleftrightarrow> odd (a ! i div 2 ^ j)" by simp
  moreover have "lval a div 2 ^ (32 * i + j) = lval (drop i a) div 2 ^ j"
    using lval_div [OF a i] by (simp add: power_add power_mult div_mult2_eq)
  moreover have "a ! i AND bit_mask 32 j \<noteq> 0 \<longleftrightarrow> odd (a ! i div 2 ^ j)"
    using bit_iff_and_push_bit_not_eq_0 [of "a ! i" j] j by (simp add: bit_mask_32 push_bit_eq_mult bit_iff_odd)
  ultimately show ?thesis by simp
qed

lemma mod_two_Suc: "(E :: nat) mod 2 ^ Suc k = E mod 2 ^ k + (if odd (E div 2 ^ k) then 2 ^ k else 0)"
proof -
  have "E mod (2 ^ k * 2) = 2 ^ k * (E div 2 ^ k mod 2) + E mod 2 ^ k" by (rule mod_mult2_eq)
  then show ?thesis by (simp add: mult.commute odd_iff_mod_2_eq_one parity_cases)
qed

text \<open>What the loops of \<^verbatim>\<open>power_mod\<close> hold after \<open>k\<close> bits of the exponent \<open>E\<close>.\<close>

definition power_state :: "nat \<Rightarrow> nat \<Rightarrow> nat \<Rightarrow> nat \<Rightarrow> BigNum \<times> BigNum" where
  "power_state b x E k = (num (x ^ (E mod 2 ^ k) mod b), num (x ^ 2 ^ k mod b))"

lemma power_step_run:
  assumes B: "modulus B" and A: "wf_big A" and i: "i < len A" and j: "j < 32"
  shows "power_step 32 fuel A B i j (power_state (mag B) x (mag A) (32 * i + j)) =
    Inr (power_state (mag B) x (mag A) (Suc (32 * i + j)))"
proof -
  let ?k = "32 * i + j" and ?b = "mag B" and ?E = "mag A"
  have a: "limbs_ok (limbs A)" "i < 128" using A i by (auto simp: wf_big_def)
  have l: "load (limbs A) i = Inr (limbs A ! i)" using a by (simp add: load_def limbs_ok_def)
  have sq: "x ^ 2 ^ ?k mod ?b * (x ^ 2 ^ ?k mod ?b) mod ?b = x ^ 2 ^ Suc ?k mod ?b"
    by (simp add: mod_mult_eq flip: power_add) (simp add: mult_2)
  have m: "x ^ (?E mod 2 ^ ?k) mod ?b * (x ^ 2 ^ ?k mod ?b) mod ?b = x ^ (?E mod 2 ^ ?k + 2 ^ ?k) mod ?b"
    by (simp add: mod_mult_eq power_add)
  note bt = limb_bit [OF a j, folded mag_def]
  note mm = mul_mod_num [OF B mod_limb [OF B] mod_limb [OF B]]
  show ?thesis
    unfolding power_step_def power_state_def
    by (cases "odd (mag A div 2 ^ ?k)") (use bt in \<open>simp_all add: l mod_two_Suc c_bind_assoc [symmetric] mm sq m del: power_Suc c_bind_Inr_iff\<close>)
qed

lemma for_loop_shift:
  assumes "\<And>j. j < n \<Longrightarrow> body j (f j) = Inr (f (Suc j))"
  shows "for_loop 0 n body (f 0) = Inr (f n)"
  using assms by (induction n) (simp_all add: for_loop_Suc)

lemma power_mod_num:
  assumes X: "wf_big X" and A: "wf_big A" and B: "modulus B" "1 < mag B"
  shows "power_mod 32 fuel X A B = Inr (num (mag X ^ mag A mod mag B))"
proof -
  let ?f = "power_state (mag B) (mag X) (mag A)"
  have "for_loop 0 32 (power_step 32 fuel A B i) (?f (32 * i)) = Inr (?f (32 * Suc i))" if "i < len A" for i
    using for_loop_shift [of 32 "power_step 32 fuel A B i" "\<lambda>j. ?f (32 * i + j)"] power_step_run [OF B(1) A that]
    by (simp add: add.commute)
  then have "for_loop 0 (len A) (\<lambda>i. for_loop 0 32 (power_step 32 fuel A B i)) (?f 0) = Inr (?f (32 * len A))"
    using for_loop_shift [of "len A" "\<lambda>i. for_loop 0 32 (power_step 32 fuel A B i)" "\<lambda>i. ?f (32 * i)"] by simp
  moreover have "?f 0 = (num 1, num (mag X mod mag B))" using B(2) by (simp add: power_state_def)
  moreover have "mag A mod 2 ^ (32 * len A) = mag A" using mag_upper [OF A] by (simp add: power_mult)
  ultimately show ?thesis using op_mod_num [OF X B(1)] by (simp add: power_mod_def power_state_def)
qed

section \<open>Texts of ASCII characters\<close>

definition plain :: "string \<Rightarrow> bool" where
  "plain s \<longleftrightarrow> (\<forall>c \<in> set s. c \<noteq> CHR 0x00 \<and> (of_char c :: nat) < 128)"

definition push_byte :: "nat \<Rightarrow> char \<Rightarrow> nat" where
  "push_byte x c = x * 256 + of_char c"

definition pack :: "string \<Rightarrow> nat" where
  "pack cs = foldl push_byte 0 cs"

text \<open>The characters of limb \<open>k\<close>.\<close>

definition chunk :: "string \<Rightarrow> nat \<Rightarrow> string" where
  "chunk s k = take 4 (drop (4 * k) s)"

lemma pack_bound: "pack cs < 256 ^ length cs"
proof (induction cs rule: rev_induct)
  case (snoc c cs)
  have "pack cs * 256 + of_char c < (pack cs + 1) * 256" using nat_of_char_less_256 [of c] by simp
  also have "\<dots> \<le> 256 ^ length cs * 256" using snoc by (simp only: mult_le_mono1 Suc_eq_plus1 [symmetric] Suc_leI)
  finally show ?case by (simp add: pack_def push_byte_def mult.commute)
qed (simp add: pack_def)

lemma chunk_Suc:
  assumes "i < length s"
  shows "chunk (take (Suc i) s) k = (if k = i div 4 then chunk (take i s) k @ [s ! i] else chunk (take i s) k)"
proof -
  consider "k = i div 4" | "k < i div 4" | "i div 4 < k" by linarith
  then show ?thesis
  proof cases
    case 1
    then have "4 * k \<le> i" "i - 4 * k < 4" by linarith+
    then show ?thesis using 1 assms by (simp add: chunk_def take_Suc_conv_app_nth)
  next
    case 2
    then have "4 * k + 4 \<le> i" by linarith
    then show ?thesis using 2 assms by (simp add: chunk_def take_Suc_conv_app_nth)
  next
    case 3
    then have "i < 4 * k" by linarith
    then show ?thesis using 3 by (simp add: chunk_def)
  qed
qed

lemma chunk_length: "length (chunk (take i s) (i div 4)) \<le> 3" if "i < length s"
proof -
  have "i - 4 * (i div 4) < 4" by linarith
  then show ?thesis using that by (simp add: chunk_def)
qed

lemma put_char_run:
  assumes s: "plain s" and i: "i < length s" "i < 512"
  shows "put_char 32 s i (map (\<lambda>k. pack (chunk (take i s) k)) [0..<128]) = Inr (map (\<lambda>k. pack (chunk (take (Suc i) s) k)) [0..<128])"
proof -
  let ?x = "pack (chunk (take i s) (i div 4))" and ?c = "of_char (s ! i) :: nat"
  have c: "?c < 128" using s i(1) by (simp add: plain_def)
  have "?x < 256 ^ length (chunk (take i s) (i div 4))" by (rule pack_bound)
  also have "\<dots> \<le> 256 ^ 3" using chunk_length [OF i(1)] by (intro power_increasing) simp_all
  finally have x: "?x * 256 < B32" by simp
  have "(of_char (s ! i) :: int) = int ?c" by (simp only: of_nat_of_char)
  then have "char_int (s ! i) = int ?c" using c by (simp add: char_int_def)
  then have u: "ul_int 32 (char_int (s ! i)) = ?c" using c by (simp add: ul_int_def)
  have "ul 32 (?x * 256) OR ul_int 32 (char_int (s ! i)) = ?x * 256 + ?c" unfolding u using x c or_low [of ?c 8 ?x] by (simp add: ul32)
  moreover have "?x * 256 + ?c = pack (chunk (take (Suc i) s) (i div 4))" by (simp add: chunk_Suc [OF i(1)] pack_def push_byte_def)
  ultimately have "put_char 32 s i (map (\<lambda>k. pack (chunk (take i s) k)) [0..<128]) =
    Inr ((map (\<lambda>k. pack (chunk (take i s) k)) [0..<128])[i div 4 := pack (chunk (take (Suc i) s) (i div 4))])"
    using i(2) by (simp add: put_char_def load_def store_def)
  also have "(map (\<lambda>k. pack (chunk (take i s) k)) [0..<128])[i div 4 := pack (chunk (take (Suc i) s) (i div 4))] =
    map (\<lambda>k. pack (chunk (take (Suc i) s) k)) [0..<128]"
    by (rule nth_equalityI) (simp_all add: nth_list_update chunk_Suc [OF i(1)])
  finally show ?thesis .
qed

lemma limb_chars_bytes:
  "limb_chars x = filter (\<lambda>c. c \<noteq> CHR 0x00) [char_of (x div 256 div 256 div 256), char_of (x div 256 div 256), char_of (x div 256), char_of x]"
  by (simp add: limb_chars_def div_mult2_eq [symmetric])

lemma push_byte_div: "push_byte x c div 256 = x"
  by (simp add: push_byte_def div_less)

lemma push_byte_char: "char_of (push_byte x c) = c"
  using char_of_mod_256 [of "push_byte x c"] by (simp add: push_byte_def)

lemma char_of_0: "char_of (0 :: nat) = CHR 0x00"
  by (simp add: char_of_def)

lemma limb_chars_pack: "plain cs \<Longrightarrow> length cs \<le> 4 \<Longrightarrow> limb_chars (pack cs) = cs"
proof -
  assume p: "plain cs" and "length cs \<le> 4"
  then consider "cs = []" | a where "cs = [a]" | a b where "cs = [a, b]" | a b c where "cs = [a, b, c]"
    | a b c d where "cs = [a, b, c, d]"
    by (cases cs; cases "tl cs"; cases "tl (tl cs)"; cases "tl (tl (tl cs))") (auto simp: neq_Nil_conv)
  then show ?thesis using p
    by cases (simp_all add: plain_def pack_def limb_chars_bytes push_byte_div push_byte_char char_of_0)
qed

lemma chunks_concat: "concat (map (chunk s) [0..<n]) = take (4 * n) s"
  by (induction n) (simp_all add: chunk_def take_add [symmetric] add.commute)

lemma string_limbs:
  assumes "plain s" "length s \<le> 512"
  shows "for_loop 0 (length s) (put_char 32 s) (replicate 128 0) = Inr (map (\<lambda>k. pack (chunk s k)) [0..<128])"
proof -
  let ?f = "\<lambda>i. map (\<lambda>k. pack (chunk (take i s) k)) [0..<128]"
  have "?f 0 = replicate 128 0" by (simp add: chunk_def pack_def map_replicate_const)
  moreover have "put_char 32 s i (?f i) = Inr (?f (Suc i))" if "i < length s" for i
    using put_char_run [OF assms(1) that] that assms(2) by simp
  ultimately show ?thesis using for_loop_shift [of "length s" "put_char 32 s" ?f] by simp
qed

lemma printS_chunks:
  assumes "plain s" "n < 128"
  shows "printS_text (X\<lparr>limbs := map (\<lambda>k. pack (chunk s k)) [0..<128], len := n\<rparr>) = Inr (take (4 * Suc n) s @ nl)"
proof -
  have p: "limb_chars (pack (chunk s k)) = chunk s k" for k
    by (rule limb_chars_pack) (use assms(1) in \<open>auto simp: plain_def chunk_def dest: in_set_takeD in_set_dropD\<close>)
  have t: "take (4 * j) s @ chunk s j = take (4 * Suc j) s" for j by (simp add: chunk_def take_add [symmetric] add.commute)
  let ?a = "map (\<lambda>k. pack (chunk s k)) [0..<128]"
  have "for_loop 0 (Suc n) (\<lambda>i out. c_bind (load ?a i) (\<lambda>x. Inr (out @ limb_chars x))) (take (4 * 0) s) = Inr (take (4 * Suc n) s)"
    using assms(2) by (intro for_loop_shift) (simp add: load_def p t)
  then show ?thesis by (simp add: printS_text_def)
qed

lemma string_num:
  assumes "plain s" "s \<noteq> []" "length s \<le> 512" "32 \<le> zw" "limbs junk = replicate 128 0"
  shows "BigNum_string 32 zw junk s =
    Inr (junk\<lparr>limbs := map (\<lambda>k. pack (chunk s k)) [0..<128], len := (length s - 1) div 4 + 1\<rparr>)"
proof -
  have "(2 :: nat) ^ 32 \<le> 2 ^ zw" using assms(4) by (intro power_increasing) simp_all
  moreover have "(length s + z - 1) mod z = length s - 1" if "2 ^ 32 \<le> z" for z
  proof -
    have "length s + z - 1 = (length s - 1) + z" using assms(2) by (cases s) simp_all
    moreover have "length s - 1 < z" using that assms(3) by simp
    ultimately show ?thesis by (simp only: mod_add_self2 mod_less)
  qed
  ultimately have "(length s + 2 ^ zw - 1) mod 2 ^ zw = length s - 1" by blast
  moreover have "((length s - 1) div 4 + 1) mod 2 ^ 32 = (length s - 1) div 4 + 1" using assms(3) by simp
  ultimately show ?thesis using string_limbs [OF assms(1,3)] assms(5) by (simp add: BigNum_string_def)
qed

text \<open>
  C30: a text of at most 508 ASCII characters survives the constructor from a string and
  \<^verbatim>\<open>printS\<close>, when the members the constructor does not initialise happen to be zero.
\<close>

theorem string_round_trip:
  assumes "plain s" "s \<noteq> []" "length s \<le> 508" "32 \<le> zw" "limbs junk = replicate 128 0"
  shows "\<exists>X. BigNum_string 32 zw junk s = Inr X \<and> printS_text X = Inr (s @ nl)"
proof -
  have n: "(length s - 1) div 4 + 1 < 128" "length s \<le> 4 * Suc ((length s - 1) div 4 + 1)" using assms(3) by presburger+
  then have "take (4 * Suc ((length s - 1) div 4 + 1)) s = s" by (intro take_all)
  then show ?thesis using string_num [OF assms(1,2) _ assms(4,5)] printS_chunks [OF assms(1) n(1)] assms(3) by simp
qed

theorem string_round_trip_witness:
  "\<exists>X. BigNum_string 32 64 BigNum0 ''hello'' = Inr X \<and> printS_text X = Inr (''hello'' @ nl)"
  using string_round_trip [of "''hello''" 64 BigNum0] by (simp add: plain_def BigNum0_def)

text \<open>
  C8: with a modulus of one limb above one, \<^verbatim>\<open>power_mod\<close> returns the power of the absolute value
  modulo the modulus, for an exponent of any length.
\<close>

theorem power_mod_correct:
  assumes "wf_big X" "wf_big A" "wf_big B" "len B = 1" "1 < mag B"
  shows "power_mod 32 fuel X A B = Inr (BigNum_u64 32 (mag X ^ mag A mod mag B))"
  using power_mod_num [of X A B fuel] assms by (simp add: modulus_def)

theorem power_mod_correct_witness:
  "power_mod 32 0 (BigNum_u64 32 3) (BigNum_u64 32 200) (BigNum_u64 32 13) = Inr (BigNum_u64 32 9)"
proof -
  have "(3 :: nat) ^ 200 mod 13 = 9" by simp
  then show ?thesis using power_mod_correct [of "BigNum_u64 32 3" "BigNum_u64 32 200" "BigNum_u64 32 13" 0] by simp
qed

end
