(* ===== verification/PrimeTest.thy ===== *)
theory PrimeTest
  imports Paillier PrimeFacts
begin

text \<open>
  What the routines of \<^verbatim>\<open>src/cpp/BigNum.cpp\<close> built on division compute for numbers of one limb, where
  division is right: the bases of \<^verbatim>\<open>Rabin_Miller\<close>, \<^verbatim>\<open>Gcd\<close> and \<^verbatim>\<open>ex_euclid\<close>.
\<close>

section \<open>Numbers of one limb\<close>

lemma normal_one_limb:
  assumes "wf_big X" "normal_big X" "mag X < B32"
  shows "len X = 1"
proof (rule ccontr)
  assume "len X \<noteq> 1"
  then have n: "1 \<le> len X - 1" using assms(1) by (auto simp: wf_big_def)
  then have "(B32 :: nat) ^ 1 \<le> B32 ^ (len X - 1)" by (intro power_increasing) simp_all
  also have "\<dots> \<le> mag X" using normal_lower [OF assms(1,2)] n by simp
  finally show False using assms(3) by simp
qed

lemma num_unique:
  assumes X: "wf_big X" "normal_big X" "mag X < B32" "signal X = 0"
  shows "X = num (mag X)"
proof -
  have l: "len X = 1" by (rule normal_one_limb [OF X(1-3)])
  have ok: "length (limbs X) = 128" "zero_from 1 (limbs X)" using X(1) l by (simp_all add: wf_big_def limbs_ok_def)
  have "limbs X = mag X # replicate 127 0"
  proof (rule nth_equalityI)
    fix i
    assume "i < length (limbs X)"
    then show "limbs X ! i = (mag X # replicate 127 0) ! i"
      using ok one_limb [OF X(1) l] by (cases i) (simp_all add: zero_from_def)
  qed (simp add: ok)
  then show ?thesis using X(3,4) l by (simp add: BigNum_u64_def ul32)
qed

lemma sub_num:
  assumes "y < x" "x < B32"
  shows "op_sub 32 (num x) (num y) = Inr (num (x - y))"
proof -
  obtain S where S: "op_sub 32 (num x) (num y) = Inr S" "wf_big S" "normal_big S" "big S = big (num x) - big (num y)"
    using op_sub_correct [of "num x" "num y"] exact_small [of "num x" "num y"] assms by auto
  then have "big S = int (x - y)" using assms by (simp add: big_def)
  then have "signal S = 0" "mag S = x - y" using assms by (auto simp: big_def split: if_splits)
  then show ?thesis using num_unique [of S] S assms by simp
qed

lemma add_num:
  assumes "x < B32" "y < B32"
  shows "\<exists>S. op_add 32 (num x) (num y) = Inr S \<and> wf_big S \<and> mag S = x + y"
  using op_add_correct [of "num x" "num y"] assms by (auto simp: big_def split: if_splits)

lemma sub_num_mag:
  assumes "x < B32" "y < B32"
  shows "\<exists>S. op_sub 32 (num x) (num y) = Inr S \<and> wf_big S \<and> mag S = (if y \<le> x then x - y else y - x)"
  using op_sub_correct [of "num x" "num y"] exact_small [of "num x" "num y"] assms
  by (auto simp: big_def of_nat_diff split: if_splits)

lemma div_num:
  assumes "x < B32" "y < B32" "y \<noteq> 0"
  shows "op_div 32 fuel (num x) (num y) = Inr (num (x div y))"
proof -
  obtain Q where Q: "op_div 32 fuel (num x) (num y) = Inr Q" "wf_big Q" "normal_big Q" "signal Q = 0" "mag Q = x div y"
    using op_div_one_limb [of "num x" "num y" fuel] assms by auto
  moreover have "x div y < B32" using div_le_dividend [of x y] assms(1) by linarith
  ultimately show ?thesis using num_unique [of Q] by simp
qed

lemma compare_num: "x < B32 \<Longrightarrow> y < B32 \<Longrightarrow> Compare (num x) (num y) = Inr (if x > y then 0 else if x < y then 1 else 2)"
  using Compare_correct [of "num x" "num y"] by simp

section \<open>The tests of a base\<close>

lemma pred_zero_num:
  assumes X: "modulus X" "1 < mag X" and y: "y < mag X"
  shows "pred_zero 32 fuel X (num y) = Inr (y = 1)"
proof -
  have y32: "y < B32" using y modulus_bound [OF X(1)] by simp
  obtain S where S: "op_sub 32 (num y) (num 1) = Inr S" "wf_big S" "mag S = (if 1 \<le> y then y - 1 else 1 - y)"
    using sub_num_mag [of y 1] y32 by auto
  have "mag S mod mag X = (if 1 \<le> y then y - 1 else 1)" using S(3) X(2) y by auto
  then show ?thesis using S(1) op_mod_num [OF S(2) X(1), of fuel] mod_limb [OF X(1), of "mag S"] compare_num [of 0 "mag S mod mag X"] X(2)
    by (auto simp: pred_zero_def)
qed

lemma succ_zero_num:
  assumes X: "modulus X" and y: "y < mag X"
  shows "succ_zero 32 fuel X (num y) = Inr (y = mag X - 1)"
proof -
  have y32: "y < B32" using y modulus_bound [OF X] by simp
  obtain S where S: "op_add 32 (num y) (num 1) = Inr S" "wf_big S" "mag S = y + 1"
    using add_num [of y 1] y32 by auto
  have "mag S mod mag X = 0 \<longleftrightarrow> y = mag X - 1" using S(3) y by (cases "y + 1 = mag X") auto
  then show ?thesis using S(1) op_mod_num [OF S(2) X, of fuel] mod_limb [OF X, of "mag S"] compare_num [of 0 "mag S mod mag X"]
    by (auto simp: succ_zero_def)
qed

lemma squarings_num:
  assumes X: "modulus X" and y: "y < mag X"
  shows "squarings 32 fuel X r (num y) = Inr (\<exists>j. 1 \<le> j \<and> j \<le> r \<and> y ^ 2 ^ j mod mag X = mag X - 1)"
  using y
proof (induction r arbitrary: y)
  case (Suc r)
  let ?z = "y * y mod mag X"
  have z: "?z < mag X" using modulus_bound [OF X] by simp
  have y32: "y < B32" using Suc.prems modulus_bound [OF X] by simp
  have pw: "y ^ 2 ^ Suc j mod mag X = ?z ^ 2 ^ j mod mag X" for j by (simp add: power_mult power2_eq_square power_mod)
  have "(\<exists>j. 1 \<le> j \<and> j \<le> Suc r \<and> y ^ 2 ^ j mod mag X = mag X - 1) \<longleftrightarrow> (\<exists>j \<le> r. ?z ^ 2 ^ j mod mag X = mag X - 1)"
    using pw by (metis Suc_le_D Suc_le_mono One_nat_def le0)
  also have "\<dots> \<longleftrightarrow> ?z = mag X - 1 \<or> (\<exists>j. 1 \<le> j \<and> j \<le> r \<and> ?z ^ 2 ^ j mod mag X = mag X - 1)"
    by (metis One_nat_def Suc_leI bot_nat_0.extremum gr0I mod_mod_trivial power_0 power_one_right)
  finally have e: "(\<exists>j. 1 \<le> j \<and> j \<le> Suc r \<and> y ^ 2 ^ j mod mag X = mag X - 1) =
    (if ?z = mag X - 1 then True else \<exists>j. 1 \<le> j \<and> j \<le> r \<and> ?z ^ 2 ^ j mod mag X = mag X - 1)" by simp
  show ?case unfolding e squarings.simps c_bind_assoc [symmetric] mul_mod_num [OF X y32 y32]
    by (simp add: succ_zero_num [OF X z] Suc.IH [OF z] del: c_bind_Inr_iff)
qed simp

lemma odd_part_num:
  assumes "0 < v" "v < 2 ^ k" "k \<le> 32" "k \<le> fuel"
  shows "\<exists>r m. odd_part 32 fuel r0 (num v) = Inr (r0 + r, num m) \<and> v = 2 ^ r * m \<and> odd m"
  using assms
proof (induction k arbitrary: v fuel r0)
  case (Suc k)
  then obtain f where f: "fuel = Suc f" by (cases fuel) auto
  have "(2 :: nat) ^ Suc k \<le> 2 ^ 32" using Suc.prems(3) by (intro power_increasing) simp_all
  then have v: "v < B32" using Suc.prems(2) by simp
  have l: "load (limbs (num v)) 0 = Inr v" using v by (simp add: BigNum_u64_def load_def ul32)
  show ?case
  proof (cases "odd v")
    case True
    then have "odd_part 32 fuel r0 (num v) = Inr (r0 + 0, num v)" by (simp add: f l and_one_eq odd_iff_mod_2_eq_one)
    then show ?thesis using True by (metis mult_1 power_0)
  next
    case False
    then obtain u where u: "v = 2 * u" by blast
    have "\<exists>r m. odd_part 32 f (r0 + 1) (num u) = Inr (r0 + 1 + r, num m) \<and> u = 2 ^ r * m \<and> odd m"
      using Suc.prems u f by (intro Suc.IH) auto
    then obtain r m where "odd_part 32 f (r0 + 1) (num u) = Inr (r0 + 1 + r, num m)" "u = 2 ^ r * m" "odd m" by blast
    moreover have "op_div 32 f (num v) (num 2) = Inr (num u)" using div_num [of v 2 f] v u by simp
    then have "odd_part 32 fuel r0 (num v) = odd_part 32 f (r0 + 1) (num u)" using False by (simp add: f l and_one_eq)
    ultimately have "odd_part 32 fuel r0 (num v) = Inr (r0 + Suc r, num m) \<and> v = 2 ^ Suc r * m \<and> odd m" using u by simp
    then show ?thesis by blast
  qed
qed simp

text \<open>
  C9: the decomposition of \<open>X - 1\<close> and the test of a base, for a prime of one limb: a base
  passes exactly when it is not a multiple of \<open>X\<close>.  A prime is thus rejected only by a base
  0 or \<open>X\<close>, which \<^verbatim>\<open>Random\<close> can draw.
\<close>

theorem Rabin_Miller_prime:
  assumes X: "wf_big X" "normal_big X" "signal X = 0" "mag X < B32" and p: "prime_nat (mag X)" and f: "32 \<le> fuel"
  shows "\<exists>d r m. op_sub 32 X (BigNum_u64 32 1) = Inr d \<and> odd_part 32 fuel 0 d = Inr (r, m) \<and>
    (\<forall>A. wf_big A \<longrightarrow> base_passes 32 fuel X r m A = Inr (\<not> mag X dvd mag A))"
proof -
  let ?x = "mag X"
  have x: "2 \<le> ?x" using p by (simp add: prime_nat_def)
  have M: "modulus X" "1 < ?x" using X normal_one_limb [OF X(1,2,4)] x by (simp_all add: modulus_def)
  have d: "op_sub 32 X (num 1) = Inr (num (?x - 1))" using sub_num [of 1 ?x] num_unique [OF X(1,2,4,3)] x X(4) by simp
  obtain r m where rm: "odd_part 32 fuel 0 (num (?x - 1)) = Inr (r, num m)" "?x - 1 = 2 ^ r * m" "odd m"
    using odd_part_num [of "?x - 1" 32 fuel 0] x X(4) f by fastforce
  have m: "m < B32" "0 < m" using rm(2,3) x X(4) by (auto simp: odd_pos intro: le_less_trans [of m "2 ^ r * m"])
  have "base_passes 32 fuel X r (num m) A = Inr (\<not> ?x dvd mag A)" if A: "wf_big A" for A
  proof -
    let ?y = "mag A ^ m mod ?x"
    have y: "?y < ?x" using x by simp
    have "base_passes 32 fuel X r (num m) A =
      Inr (?y = 1 \<or> ?y = ?x - 1 \<or> (\<exists>j. 1 \<le> j \<and> j \<le> r \<and> ?y ^ 2 ^ j mod ?x = ?x - 1))"
      using power_mod_num [OF A _ M, of "num m" fuel] m pred_zero_num [OF M y] succ_zero_num [OF M(1) y] squarings_num [OF M(1) y]
      by (auto simp: base_passes_def)
    moreover have "?y = 1 \<or> ?y = ?x - 1 \<or> (\<exists>j. 1 \<le> j \<and> j \<le> r \<and> ?y ^ 2 ^ j mod ?x = ?x - 1)" if "\<not> ?x dvd mag A"
    proof -
      have "?y ^ 2 ^ r mod ?x = 1 mod ?x"
        using fermat_one [OF p that] rm(2) by (simp add: power_mod power_mult [symmetric] mult.commute)
      from squares_to_one [OF p this y] show ?thesis
        by (metis One_nat_def Suc_leI less_imp_le mod_mod_trivial not_gr_zero power_0 power_one_right)
    qed
    moreover have "\<not> (?y = 1 \<or> ?y = ?x - 1 \<or> (\<exists>j. 1 \<le> j \<and> j \<le> r \<and> ?y ^ 2 ^ j mod ?x = ?x - 1))" if "?x dvd mag A"
    proof -
      have "?y = 0" using that m(2) by (simp add: dvd_power_iff_le dvd_trans [OF that] dvd_power)
      then show ?thesis using x by (auto simp: power_0_left)
    qed
    ultimately show ?thesis by (cases "?x dvd mag A") (simp_all only: not_True_eq_False not_False_eq_True simp_thms)
  qed
  then show ?thesis using d rm(1) by blast
qed

theorem Rabin_Miller_prime_witness:
  "prime_nat 97 \<and> (\<exists>d r m. op_sub 32 (BigNum_u64 32 97) (BigNum_u64 32 1) = Inr d \<and> odd_part 32 32 0 d = Inr (r, m) \<and>
    (\<forall>A. wf_big A \<longrightarrow> base_passes 32 32 (BigNum_u64 32 97) r m A = Inr (\<not> 97 dvd mag A)))"
  using Rabin_Miller_prime [of "BigNum_u64 32 97" 32] small_primes(4) by simp

section \<open>Greatest common divisors\<close>

lemma op_ne_num: "x < B32 \<Longrightarrow> op_ne (num x) (num 0) = Inr (x \<noteq> 0)"
  using compare_num [of x 0] by (auto simp: op_ne_def)

lemma mod_num: "x < B32 \<Longrightarrow> y < B32 \<Longrightarrow> y \<noteq> 0 \<Longrightarrow> op_mod 32 fuel (num x) (num y) = Inr (num (x mod y))"
  using op_mod_num [of "num x" "num y" fuel] by (simp add: modulus_def)

lemma Gcd_num:
  assumes "a < B32" "b < B32" "b \<noteq> 0" "b < fuel"
  shows "Gcd 32 fuel (num a) (num b) = Inr (num (gcd a b))"
  using assms
proof (induction b arbitrary: a fuel rule: less_induct)
  case (less b)
  obtain f where f: "fuel = Suc f" using less.prems(4) by (cases fuel) auto
  have r: "a mod b < b" "a mod b < B32" using less.prems mod_less_divisor [of b a] by linarith+
  have g: "gcd a b = gcd b (a mod b)" by (simp add: gcd.commute flip: gcd_red_nat)
  show ?case
  proof (cases "a mod b = 0")
    case True
    then have "gcd a b = b" using g by simp
    then show ?thesis using True mod_num [of a b f] op_ne_num [of "a mod b"] less.prems by (simp add: f)
  next
    case False
    have "a mod b < f" using r(1) less.prems(4) f by linarith
    then have "Gcd 32 f (num b) (num (a mod b)) = Inr (num (gcd b (a mod b)))" using less.IH [OF r(1) less.prems(2) r(2) False] by blast
    then show ?thesis using False mod_num [of a b f] op_ne_num [of "a mod b"] less.prems r by (simp add: f g)
  qed
qed

text \<open>Numbers of one limb with a sign.\<close>

definition small :: "BigNum \<Rightarrow> bool" where
  "small X \<longleftrightarrow> wf_big X \<and> normal_big X \<and> mag X < B32"

lemma small_num: "x < B32 \<Longrightarrow> small (num x) \<and> big (num x) = int x"
  by (simp add: small_def big_def)

lemma abs_big: "\<bar>big X\<bar> = int (mag X)"
  by (simp add: big_def)

lemma small_len: "small X \<Longrightarrow> len X = 1"
  by (simp add: small_def normal_one_limb)

lemma sub_small:
  assumes "small X" "small Y" "\<bar>big X - big Y\<bar> < int B32"
  shows "\<exists>D. op_sub 32 X Y = Inr D \<and> small D \<and> big D = big X - big Y"
proof -
  have "len X = 1" "len Y = 1" using assms small_len by auto
  then obtain D where "op_sub 32 X Y = Inr D" "wf_big D" "normal_big D" "big D = big X - big Y"
    using op_sub_correct [of X Y] exact_small [of X Y] assms(1,2) by (auto simp: small_def)
  then show ?thesis using assms(3) abs_big [of D] by (simp add: small_def)
qed

lemma add_small:
  assumes "small X" "small Y" "\<bar>big X + big Y\<bar> < int B32"
  shows "\<exists>D. op_add 32 X Y = Inr D \<and> small D \<and> big D = big X + big Y"
proof -
  have "len X = 1" "len Y = 1" using assms small_len by auto
  then obtain D where "op_add 32 X Y = Inr D" "wf_big D" "normal_big D" "big D = big X + big Y"
    using op_add_correct [of X Y] exact_small [of X Y] exact_small [of Y X] assms(1,2) by (auto simp: small_def split: if_splits)
  then show ?thesis using assms(3) abs_big [of D] by (simp add: small_def)
qed

lemma mul_small:
  assumes "small X" "small Y" "\<bar>big X * big Y\<bar> < int B32"
  shows "\<exists>P. op_mul 32 X Y = Inr P \<and> small P \<and> big P = big X * big Y"
proof -
  have "len X + len Y \<le> 128" using small_len assms by simp
  then obtain P where "op_mul 32 X Y = Inr P" "wf_big P" "normal_big P" "big P = big X * big Y"
    using op_mul_correct [of X Y] assms(1,2) by (auto simp: small_def)
  then show ?thesis using assms(3) abs_big [of P] by (simp add: small_def)
qed

text \<open>
  What the loop of \<^verbatim>\<open>ex_euclid\<close> keeps: the coefficients have opposite signs \<open>s\<close> and \<open>- s\<close>, and
  weighted with the rests they add up to \<open>b\<close>.
\<close>

definition euclid_inv :: "int \<Rightarrow> int \<Rightarrow> int \<Rightarrow> int \<Rightarrow> int \<Rightarrow> int \<Rightarrow> int \<Rightarrow> bool" where
  "euclid_inv a b s x u A B \<longleftrightarrow>
     (s = 1 \<or> s = - 1) \<and> 0 \<le> s * x \<and> s * u \<le> 0 \<and> s * x * B - s * u * A = b \<and> \<bar>x\<bar> \<le> b \<and> \<bar>u\<bar> \<le> b \<and>
     b dvd x * a - A \<and> b dvd u * a - B"

lemma euclid_inv_step:
  assumes I: "euclid_inv a b s x u A B" and B: "0 < B" and A: "0 \<le> A"
  shows "euclid_inv a b (- s) u (x - A div B * u) B (A mod B)" "\<bar>A div B * u\<bar> \<le> b"
proof -
  let ?q = "A div B" and ?d = "x - A div B * u"
  have q: "0 \<le> ?q" using A B by (simp add: pos_imp_zdiv_nonneg_iff)
  have s: "s = 1 \<or> s = - 1" and x: "0 \<le> s * x" and u: "s * u \<le> 0" and e: "s * x * B - s * u * A = b"
    using I by (auto simp: euclid_inv_def)
  have r: "A = B * ?q + A mod B" by simp
  have "- s * u * v - - s * (x - q * u) * B = s * x * B - s * u * (B * q + v)" for q v by (simp add: algebra_simps)
  from this [of "A mod B" ?q] have e': "- s * u * (A mod B) - - s * ?d * B = b" using e by simp
  have su: "?q * (s * u) \<le> 0" using q u by (simp add: mult_nonneg_nonpos)
  have "s * ?d = s * x - ?q * (s * u)" by (simp add: algebra_simps)
  then have d: "0 \<le> s * ?d" "- (?q * (s * u)) \<le> s * ?d" using x su by linarith+
  have "0 \<le> (- s * u) * (A mod B)" by (rule mult_nonneg_nonneg) (use u B in simp_all)
  then have "s * ?d * B \<le> b" using e' by simp
  moreover have "s * ?d * 1 \<le> s * ?d * B" using d B by (intro mult_left_mono) simp_all
  ultimately have db: "s * ?d \<le> b" by simp
  then have "\<bar>?d\<bar> \<le> b" using s d(1) by auto
  moreover have "\<bar>?q * u\<bar> \<le> b" using s su d(2) db by auto
  moreover have "b dvd ?d * a - A mod B"
  proof -
    have "?d * a - A mod B = (x * a - A) - ?q * (u * a - B)" by (simp add: algebra_simps flip: minus_div_mult_eq_mod)
    then show ?thesis using I by (simp add: euclid_inv_def dvd_diff dvd_mult)
  qed
  ultimately show "euclid_inv a b (- s) u ?d B (A mod B)" "\<bar>?q * u\<bar> \<le> b"
    using I s d(1) u e' by (auto simp: euclid_inv_def)
qed

lemma euclid_loop_run:
  assumes "small X" "small U" "A < B32" "B < B32" "B < fuel" "int b < int B32" "euclid_inv a (int b) s (big X) (big U) (int A) (int B)"
  shows "\<exists>R. euclid_loop 32 fuel X U (num A) (num B) = Inr R \<and> small R \<and> \<bar>big R\<bar> \<le> int b \<and> int b dvd big R * a - int (gcd A B)"
  using assms
proof (induction B arbitrary: X U A s fuel rule: less_induct)
  case (less B)
  obtain f where f: "fuel = Suc f" using less.prems(5) by (cases fuel) auto
  show ?case
  proof (cases "B = 0")
    case True
    then show ?thesis using less.prems op_ne_num [of B] by (auto simp: f euclid_inv_def)
  next
    case False
    have r: "A mod B < B" "A mod B < B32" using False less.prems(4) mod_less_divisor [of B A] by linarith+
    have q: "A div B < B32" using div_le_dividend [of A B] less.prems(3) by linarith
    note st = euclid_inv_step [OF less.prems(7), folded zdiv_int zmod_int]
    have P: "\<bar>big (num (A div B)) * big U\<bar> \<le> int b" using st(2) False small_num [OF q] by simp
    then obtain P where P: "op_mul 32 (num (A div B)) U = Inr P" "small P" "big P = int (A div B) * big U"
      using mul_small [of "num (A div B)" U] small_num [OF q] less.prems(2,6) by auto
    have inv: "euclid_inv a (int b) (- s) (big U) (big X - big P) (int B) (int (A mod B))" using st(1) False P(3) by simp
    then have "\<bar>big X - big P\<bar> \<le> int b" by (simp add: euclid_inv_def)
    then obtain D where D: "op_sub 32 X P = Inr D" "small D" "big D = big X - big P"
      using sub_small [OF less.prems(1) P(2)] less.prems(6) by auto
    have "\<exists>R. euclid_loop 32 f U D (num B) (num (A mod B)) = Inr R \<and> small R \<and> \<bar>big R\<bar> \<le> int b \<and> int b dvd big R * a - int (gcd B (A mod B))"
      using inv D(3) less.prems f r by (intro less.IH [where s = "- s"] D(2)) auto
    moreover have "gcd A B = gcd B (A mod B)" by (simp add: gcd.commute flip: gcd_red_nat)
    moreover have "euclid_loop 32 fuel X U (num A) (num B) = euclid_loop 32 f U D (num B) (num (A mod B))"
      using False op_ne_num [of B] div_num [of A B f] mod_num [of A B f] less.prems(3,4) P(1) D(1) by (simp add: f)
    ultimately show ?thesis by simp
  qed
qed



end
