(* ===== verification/DbPool.thy ===== *)
theory DbPool
  imports C_IO
begin

text \<open>
  The connection pool of \<^verbatim>\<open>src/cpp/mysql/dbpool.c\<close>.  \<open>conpool\<close> has the fields of the
  struct; a \<^verbatim>\<open>MYSQL *\<close> is a number with 0 as NULL, and a cell of \<^verbatim>\<open>cons\<close> that
  \<^verbatim>\<open>malloc\<close> left unwritten is \<open>None\<close>.  The MySQL client library is the environment.
  \<open>resource_pool\<close> is the contract of a pool; \<open>session\<close> is a client that acquires
  connections and gives back only what it holds.
\<close>

section \<open>The code\<close>

record conpool =
  pool_size :: nat
  busy :: int
  flag :: "int list"
  cons :: "int option list"

abbreviation MAX_CONNECTIONS :: nat where "MAX_CONNECTIONS \<equiv> 10"

definition init_con :: "int prog" where
  "init_con =
     bind (call_ret ''mysql_init'' [I 0]) (\<lambda>my.
     bind (call_ret ''mysql_real_connect''
             [I my, S ''127.0.0.1'', S ''root'', S ''P@$$W0rd123'', S ''test'', I 3306, I 0, I 0]) (\<lambda>r.
       if r = 0 then bind (print (''mysql con init failed'' @ [CHR 0x0A])) (\<lambda>_. exit_with (- 1))
       else return my))"

definition createConPool :: "conpool c_result" where
  "createConPool =
     (let p = \<lparr>pool_size = MAX_CONNECTIONS, busy = 0, flag = replicate MAX_CONNECTIONS 1,
               cons = replicate MAX_CONNECTIONS None\<rparr> in
      c_bind (for_loop 0 (length (flag p)) (\<lambda>i fl. store fl i 0) (flag p)) (\<lambda>fl. Inr (p\<lparr>flag := fl\<rparr>)))"

definition init_pool :: "conpool prog" where
  "init_pool =
     bind (lift createConPool) (\<lambda>p.
     bind (for_each [0..<pool_size p] (\<lambda>i p.
             bind init_con (\<lambda>my. bind (lift (store (cons p) i (Some my))) (\<lambda>cs. return (p\<lparr>cons := cs\<rparr>)))) p) (\<lambda>p.
     bind (print (''init '' @ show_nat (pool_size p) @ '' cons in pool'' @ [CHR 0x0A])) (\<lambda>_.
       return p)))"

definition load_con :: "int option list \<Rightarrow> nat \<Rightarrow> int c_result" where
  "load_con cs i = c_bind (load cs i) (\<lambda>c. case c of None \<Rightarrow> Inl Indeterminate | Some h \<Rightarrow> Inr h)"

text \<open>The search loops of \<^verbatim>\<open>get_con\<close> and \<^verbatim>\<open>release_con\<close> from index \<open>i\<close> on.\<close>

function get_from :: "nat \<Rightarrow> conpool \<Rightarrow> (int \<times> conpool) c_result" where
  "get_from i p =
     (if i < pool_size p then
        c_bind (load (flag p) i) (\<lambda>f.
          if f = 0 then
            c_bind (load_con (cons p) i) (\<lambda>pcon.
            c_bind (store (flag p) i 1) (\<lambda>fl.
            c_bind (c_int (busy p + 1)) (\<lambda>b. Inr (pcon, p\<lparr>flag := fl, busy := b\<rparr>))))
          else get_from (Suc i) p)
      else Inr (0, p))"
  by pat_completeness auto
termination by (relation "measure (\<lambda>(i, p). pool_size p - i)") auto

function release_from :: "nat \<Rightarrow> conpool \<Rightarrow> int \<Rightarrow> conpool c_result" where
  "release_from i p pcon =
     (if i < pool_size p then
        c_bind (load_con (cons p) i) (\<lambda>c.
          if pcon = c then
            c_bind (store (flag p) i 0) (\<lambda>fl.
            c_bind (c_int (busy p - 1)) (\<lambda>b. Inr (p\<lparr>flag := fl, busy := b\<rparr>)))
          else release_from (Suc i) p pcon)
      else Inr p)"
  by pat_completeness auto
termination by (relation "measure (\<lambda>(i, p, pcon). pool_size p - i)") auto

declare get_from.simps [simp del] release_from.simps [simp del]

definition get_con :: "conpool \<Rightarrow> (int \<times> conpool) c_result" where
  "get_con p = get_from 0 p"

definition release_con :: "conpool \<Rightarrow> int \<Rightarrow> conpool c_result" where
  "release_con p pcon = release_from 0 p pcon"

definition destroy_pool :: "conpool option \<Rightarrow> unit prog" where
  "destroy_pool pp =
     (case pp of
        None \<Rightarrow> return ()
      | Some p \<Rightarrow>
          bind (for_each [0..<pool_size p] (\<lambda>i _.
                  bind (lift (load_con (cons p) i)) (\<lambda>c. do_call ''mysql_close'' [I c])) ()) (\<lambda>_.
          bind (do_call ''free'' [S ''cons'']) (\<lambda>_. do_call ''free'' [S ''ppool''])))"

text \<open>\<^verbatim>\<open>%p\<close> prints the address.\<close>

definition show_ptr :: "int \<Rightarrow> string" where
  "show_ptr h = (if h = 0 then ''(nil)'' else ''0x'' @ show_hex False (nat h))"

definition pool_main :: "int prog" where
  "pool_main =
     bind init_pool (\<lambda>p.
     bind (print (''ppool init ,size '' @ show_nat (pool_size p) @ [CHR 0x0A])) (\<lambda>_.
     bind (lift (get_con p)) (\<lambda>(con1, p).
     bind (print (''get con con1 '' @ show_ptr con1 @ [CHR 0x0A])) (\<lambda>_.
     bind (lift (get_con p)) (\<lambda>(con2, p).
     bind (print (''get con con2 '' @ show_ptr con2 @ [CHR 0x0A])) (\<lambda>_.
     bind (lift (get_con p)) (\<lambda>(con3, p).
     bind (print (''get con con3 '' @ show_ptr con3 @ [CHR 0x0A])) (\<lambda>_.
     bind (lift (release_con p con3)) (\<lambda>p.
     bind (print (''release con3 '' @ show_ptr con3 @ [CHR 0x0A])) (\<lambda>_.
     bind (destroy_pool (Some p)) (\<lambda>_.
     bind (print (''destroy pool'' @ [CHR 0x0A])) (\<lambda>_.
     bind (do_call ''getchar'' []) (\<lambda>_. return 0)))))))))))))"

section \<open>The contract of a pool\<close>

datatype client = Acquire | Give_back nat

text \<open>A client that remembers what it holds; index \<open>i\<close> of its list is what it gives back.\<close>

fun session :: "('s \<Rightarrow> (int \<times> 's) c_result) \<Rightarrow> ('s \<Rightarrow> int \<Rightarrow> 's c_result) \<Rightarrow>
    client list \<Rightarrow> 's \<Rightarrow> int list \<Rightarrow> ('s \<times> int list) c_result" where
  "session get release [] s hs = Inr (s, hs)"
| "session get release (Acquire # cs) s hs =
     c_bind (get s) (\<lambda>(h, s). session get release cs s (if h = 0 then hs else h # hs))"
| "session get release (Give_back i # cs) s hs =
     (if i < length hs
      then c_bind (release s (hs ! i)) (\<lambda>s. session get release cs s (take i hs @ drop (Suc i) hs))
      else session get release cs s hs)"

locale resource_pool =
  fixes inv :: "'s \<Rightarrow> bool" and held :: "'s \<Rightarrow> int set" and members :: "'s \<Rightarrow> int set"
    and get :: "'s \<Rightarrow> (int \<times> 's) c_result" and release :: "'s \<Rightarrow> int \<Rightarrow> 's c_result"
  assumes get_free: "inv s \<Longrightarrow> held s \<noteq> members s \<Longrightarrow> \<exists>h s'. get s = Inr (h, s') \<and> inv s' \<and>
      h \<in> members s - held s \<and> held s' = insert h (held s) \<and> members s' = members s"
    and get_full: "inv s \<Longrightarrow> held s = members s \<Longrightarrow> get s = Inr (0, s)"
    and release_held: "inv s \<Longrightarrow> h \<in> held s \<Longrightarrow> \<exists>s'. release s h = Inr s' \<and> inv s' \<and>
      held s' = held s - {h} \<and> members s' = members s"
    and not_null: "inv s \<Longrightarrow> 0 \<notin> members s"
begin

lemma distinct_remove_nth:
  assumes "distinct hs" "i < length hs"
  shows "distinct (take i hs @ drop (Suc i) hs) \<and> set (take i hs @ drop (Suc i) hs) = set hs - {hs ! i}"
proof -
  have "hs = take i hs @ hs ! i # drop (Suc i) hs" using assms(2) by (simp add: id_take_nth_drop)
  with assms(1) have "distinct (take i hs @ hs ! i # drop (Suc i) hs)"
    "set hs = set (take i hs @ hs ! i # drop (Suc i) hs)" by simp_all
  then show ?thesis by auto
qed

lemma session_safe:
  assumes "inv s" "distinct hs" "set hs = held s"
  shows "\<exists>s' hs'. session get release cs s hs = Inr (s', hs') \<and> inv s' \<and> distinct hs' \<and>
    set hs' = held s' \<and> members s' = members s"
  using assms
proof (induction cs arbitrary: s hs)
  case (Cons c cs)
  show ?case
  proof (cases c)
    case Acquire
    show ?thesis
    proof (cases "held s = members s")
      case True
      with get_full Cons Acquire show ?thesis by simp
    next
      case False
      with get_free [OF Cons.prems(1)] obtain h s' where
        g: "get s = Inr (h, s')" "inv s'" "h \<in> members s - held s" "held s' = insert h (held s)"
          "members s' = members s" by blast
      have "h \<noteq> 0" using g(3) not_null [OF Cons.prems(1)] by auto
      moreover have "distinct (h # hs)" "set (h # hs) = held s'" using g(3,4) Cons.prems by auto
      ultimately show ?thesis using Cons.IH [OF g(2)] g(1,5) Acquire by fastforce
    qed
  next
    case (Give_back i)
    show ?thesis
    proof (cases "i < length hs")
      case True
      then have "hs ! i \<in> set hs" by (rule nth_mem)
      then have "hs ! i \<in> held s" unfolding Cons.prems(3) .
      with release_held [OF Cons.prems(1)] obtain s' where
        r: "release s (hs ! i) = Inr s'" "inv s'" "held s' = held s - {hs ! i}" "members s' = members s" by blast
      note d = distinct_remove_nth [OF Cons.prems(2) True]
      have "distinct (take i hs @ drop (Suc i) hs)" "set (take i hs @ drop (Suc i) hs) = held s'"
        using d r(3) Cons.prems(3) by simp_all
      from Cons.IH [OF r(2) this] r(1,4) True Give_back show ?thesis by auto
    next
      case False
      with Cons Give_back show ?thesis by simp
    qed
  qed
qed simp

end

section \<open>The invariant of the pool\<close>

text \<open>The handle at an index, the handles in use, and the invariant.\<close>

definition handle :: "conpool \<Rightarrow> nat \<Rightarrow> int" where
  "handle p i = the (cons p ! i)"

definition members_of :: "conpool \<Rightarrow> int set" where
  "members_of p = handle p ` {..<pool_size p}"

definition held_of :: "conpool \<Rightarrow> int set" where
  "held_of p = handle p ` {i. i < pool_size p \<and> flag p ! i \<noteq> 0}"

definition pool_ok :: "conpool \<Rightarrow> bool" where
  "pool_ok p \<longleftrightarrow> length (flag p) = MAX_CONNECTIONS \<and> pool_size p = MAX_CONNECTIONS \<and>
     length (cons p) = pool_size p \<and> (\<forall>i < pool_size p. cons p ! i \<noteq> None \<and> handle p i \<noteq> 0) \<and>
     inj_on (handle p) {..<pool_size p} \<and>
     busy p = int (card {i. i < pool_size p \<and> flag p ! i \<noteq> 0})"

lemma handle_update [simp]:
  "handle (p\<lparr>flag := f\<rparr>) = handle p" "handle (p\<lparr>busy := b\<rparr>) = handle p"
  by (simp_all add: handle_def fun_eq_iff)

lemma handle_inj: "pool_ok p \<Longrightarrow> i < pool_size p \<Longrightarrow> k < pool_size p \<Longrightarrow> handle p i = handle p k \<Longrightarrow> i = k"
  unfolding pool_ok_def by (blast dest: inj_onD)

lemma load_con_ok: "pool_ok p \<Longrightarrow> i < pool_size p \<Longrightarrow> load_con (cons p) i = Inr (handle p i)"
  by (auto simp: pool_ok_def load_con_def handle_def load_def)

lemma busy_bounds:
  assumes "pool_ok p"
  shows "0 \<le> busy p \<and> busy p \<le> 10"
proof -
  have "card {i. i < pool_size p \<and> flag p ! i \<noteq> 0} \<le> card {..<pool_size p}"
    by (rule card_mono) auto
  with assms show ?thesis by (auto simp: pool_ok_def)
qed

lemma get_from_full:
  "pool_ok p \<Longrightarrow> \<forall>k. i \<le> k \<and> k < pool_size p \<longrightarrow> flag p ! k \<noteq> 0 \<Longrightarrow> get_from i p = Inr (0, p)"
proof (induction i p rule: get_from.induct)
  case (1 i p)
  then show ?case by (subst get_from.simps) (auto simp: pool_ok_def load_in)
qed

text \<open>The first idle index is the one handed out.\<close>

lemma get_from_first:
  "pool_ok p \<Longrightarrow> i \<le> k \<Longrightarrow> k < pool_size p \<Longrightarrow> flag p ! k = 0 \<Longrightarrow>
     \<forall>j. i \<le> j \<and> j < k \<longrightarrow> flag p ! j \<noteq> 0 \<Longrightarrow>
     get_from i p = Inr (handle p k, p\<lparr>flag := (flag p)[k := 1], busy := busy p + 1\<rparr>)"
proof (induction i p rule: get_from.induct)
  case (1 i p)
  have i: "i < pool_size p" "load (flag p) i = Inr (flag p ! i)"
    using "1.prems" by (auto simp: pool_ok_def load_in)
  show ?case
  proof (cases "i = k")
    case True
    have "c_int (busy p + 1) = Inr (busy p + 1)" "i < length (flag p)"
      using busy_bounds [OF "1.prems"(1)] i "1.prems"(1) by (auto simp: INT_MAX_def INT_MIN_def pool_ok_def)
    with True i "1.prems" load_con_ok [OF "1.prems"(1) i(1)] show ?thesis
      by (subst get_from.simps) (simp add: store_in)
  next
    case False
    with "1.prems" have "flag p ! i \<noteq> 0" "Suc i \<le> k" by auto
    with "1.IH" [OF i(1,2)] i "1.prems" show ?thesis by (subst get_from.simps) simp
  qed
qed

lemma flags_set:
  assumes "k < length fl" "(fl ! k \<noteq> 0) \<noteq> (v \<noteq> (0::int))" "k < n"
  shows "{i. i < n \<and> fl[k := v] ! i \<noteq> 0} =
    (if v \<noteq> 0 then insert k {i. i < n \<and> fl ! i \<noteq> 0} else {i. i < n \<and> fl ! i \<noteq> 0} - {k})"
  using assms by (auto simp: nth_list_update split: if_splits)

lemma pool_ok_take:
  assumes "pool_ok p" "k < pool_size p" "flag p ! k = 0"
  defines "p' \<equiv> p\<lparr>flag := (flag p)[k := 1], busy := busy p + 1\<rparr>"
  shows "pool_ok p' \<and> held_of p' = insert (handle p k) (held_of p) \<and> handle p k \<notin> held_of p"
proof -
  let ?u = "{i. i < pool_size p \<and> flag p ! i \<noteq> 0}"
  have u: "{i. i < pool_size p' \<and> flag p' ! i \<noteq> 0} = insert k ?u"
    using flags_set [of k "flag p" 1 "pool_size p"] assms(1-3) by (simp add: p'_def pool_ok_def)
  have "card (insert k ?u) = Suc (card ?u)" using assms(3) by (intro card_insert_disjoint) auto
  moreover have "handle p k \<notin> handle p ` ?u"
    using handle_inj [OF assms(1,2)] assms(3) by auto
  ultimately show ?thesis
    using assms(1) u unfolding pool_ok_def held_of_def by (auto simp: p'_def)
qed

lemma release_from_held:
  "pool_ok p \<Longrightarrow> i \<le> k \<Longrightarrow> k < pool_size p \<Longrightarrow>
     release_from i p (handle p k) = Inr (p\<lparr>flag := (flag p)[k := 0], busy := busy p - 1\<rparr>)"
proof (induction i p "handle p k" rule: release_from.induct)
  case (1 i p)
  have i: "i < pool_size p" using "1.prems" by simp
  note l = load_con_ok [OF "1.prems"(1) i]
  show ?case
  proof (cases "i = k")
    case True
    have "c_int (busy p - 1) = Inr (busy p - 1)" "k < length (flag p)"
      using busy_bounds [OF "1.prems"(1)] "1.prems" by (auto simp: INT_MAX_def INT_MIN_def pool_ok_def)
    with True i l show ?thesis by (subst release_from.simps) (simp add: store_in)
  next
    case False
    with "1.prems" i have "handle p k \<noteq> handle p i" by (auto simp: pool_ok_def inj_on_def)
    with "1.hyps" [OF i l] False i l "1.prems" show ?thesis by (subst release_from.simps) simp
  qed
qed

lemma pool_ok_give:
  assumes "pool_ok p" "k < pool_size p" "flag p ! k \<noteq> 0"
  defines "p' \<equiv> p\<lparr>flag := (flag p)[k := 0], busy := busy p - 1\<rparr>"
  shows "pool_ok p' \<and> held_of p' = held_of p - {handle p k}"
proof -
  let ?u = "{i. i < pool_size p \<and> flag p ! i \<noteq> 0}"
  have u: "{i. i < pool_size p' \<and> flag p' ! i \<noteq> 0} = ?u - {k}"
    using flags_set [of k "flag p" 0 "pool_size p"] assms(1-3) by (simp add: p'_def pool_ok_def)
  have "Suc (card (?u - {k})) = card ?u" using assms(2,3) by (intro card_Suc_Diff1) auto
  moreover have "handle p ` (?u - {k}) = handle p ` ?u - {handle p k}"
    using handle_inj [OF assms(1) _ assms(2)] by auto
  ultimately show ?thesis
    using assms(1) u unfolding pool_ok_def held_of_def by (auto simp: p'_def)
qed

interpretation db: resource_pool pool_ok held_of members_of get_con release_con
proof unfold_locales
  fix p assume p: "pool_ok p" and "held_of p \<noteq> members_of p"
  then have ex: "\<exists>k. k < pool_size p \<and> flag p ! k = 0" by (auto simp: held_of_def members_of_def)
  then obtain k where k: "k < pool_size p" "flag p ! k = 0" "\<forall>j. 0 \<le> j \<and> j < k \<longrightarrow> flag p ! j \<noteq> 0"
    unfolding exists_least_iff [of "\<lambda>k. k < pool_size p \<and> flag p ! k = 0"] by (meson less_trans)
  let ?p = "p\<lparr>flag := (flag p)[k := 1], busy := busy p + 1\<rparr>"
  have "get_con p = Inr (handle p k, ?p)"
    unfolding get_con_def by (rule get_from_first [OF p]) (use k in auto)
  moreover have "members_of ?p = members_of p" "handle p k \<in> members_of p"
    using k(1) by (auto simp: members_of_def)
  ultimately show "\<exists>h s'. get_con p = Inr (h, s') \<and> pool_ok s' \<and> h \<in> members_of p - held_of p \<and>
      held_of s' = insert h (held_of p) \<and> members_of s' = members_of p"
    using pool_ok_take [OF p k(1,2)] by blast
next
  fix p assume p: "pool_ok p" and eq: "held_of p = members_of p"
  have "flag p ! k \<noteq> 0" if "k < pool_size p" for k
  proof -
    have "handle p k \<in> held_of p" using that by (auto simp: eq members_of_def)
    with that show ?thesis by (auto simp: held_of_def dest: handle_inj [OF p])
  qed
  then show "get_con p = Inr (0, p)" using get_from_full [OF p] by (simp add: get_con_def)
next
  fix p h assume p: "pool_ok p" and "h \<in> held_of p"
  then obtain k where k: "h = handle p k" "k < pool_size p" "flag p ! k \<noteq> 0" by (auto simp: held_of_def)
  let ?p = "p\<lparr>flag := (flag p)[k := 0], busy := busy p - 1\<rparr>"
  have "release_con p h = Inr ?p" using release_from_held [OF p, of 0 k] k by (simp add: release_con_def)
  moreover have "members_of ?p = members_of p" by (simp add: members_of_def)
  ultimately show "\<exists>s'. release_con p h = Inr s' \<and> pool_ok s' \<and> held_of s' = held_of p - {h} \<and>
      members_of s' = members_of p"
    using pool_ok_give [OF p k(2,3)] k(1) by blast
next
  fix p assume "pool_ok p"
  then show "0 \<notin> members_of p" by (auto simp: members_of_def pool_ok_def)
qed

section \<open>Start and end of the pool\<close>

definition names :: "trace \<Rightarrow> string list" where
  "names tr = map (fn \<circ> fst) tr"

definition connected :: "trace \<Rightarrow> int list" where
  "connected tr = concat (map (\<lambda>(c, r). if fn c = ''mysql_real_connect'' \<and> ret r \<noteq> 0
     then (case args c of I h # _ \<Rightarrow> [h] | _ \<Rightarrow> []) else []) tr)"

lemma createConPool_eq:
  "createConPool = Inr \<lparr>pool_size = 10, busy = 0, flag = replicate 10 0, cons = replicate 10 None\<rparr>"
  by code_simp

lemma init_con_run:
  "init_con env tr = (tr', r) \<Longrightarrow>
     (\<exists>my. r = Ok my \<and> connected tr' = connected tr @ [my]) \<or> r = Exit (- 1)"
  unfolding init_con_def
  by (auto simp: bind_calls io_eval connected_def split: if_splits)

definition fill_step :: "nat \<Rightarrow> conpool \<Rightarrow> conpool prog" where
  "fill_step i p =
     bind init_con (\<lambda>my. bind (lift (store (cons p) i (Some my))) (\<lambda>cs. return (p\<lparr>cons := cs\<rparr>)))"

lemma fill_run:
  assumes "n \<le> length (cons p)" "k \<le> n" "take k (cons p) = map Some (connected tr)"
    "for_each [k..<n] fill_step p env tr = (tr', r)"
  shows "(\<exists>p'. r = Ok p' \<and> p' = p\<lparr>cons := map Some (connected tr') @ drop n (cons p)\<rparr> \<and>
      length (connected tr') = n) \<or> r = Exit (- 1)"
  using assms
proof (induction "n - k" arbitrary: k p tr)
  case 0
  then have k: "k = n" by simp
  with "0.prems" have "tr' = tr" "r = Ok p" by (simp_all add: io_eval)
  moreover have "cons p = map Some (connected tr) @ drop n (cons p)"
    using "0.prems"(3) k append_take_drop_id [of n "cons p"] by simp
  moreover have "length (connected tr) = n"
    using "0.prems"(1,3) k by (metis length_map length_take min.absorb2)
  ultimately show ?case by simp
next
  case (Suc d)
  then have kn: "k < n" by simp
  then have run: "bind (fill_step k p) (for_each [Suc k..<n] fill_step) env tr = (tr', r)"
    using Suc.prems(4) by (simp add: upt_conv_Cons)
  obtain t1 r1 where i: "init_con env tr = (t1, r1)" by fastforce
  from init_con_run [OF i] show ?case
  proof (elim disjE exE conjE)
    fix my assume r1: "r1 = Ok my" "connected t1 = connected tr @ [my]"
    let ?p = "p\<lparr>cons := (cons p)[k := Some my]\<rparr>"
    have "fill_step k p env tr = (t1, Ok ?p)"
      using i r1 kn Suc.prems(1) by (simp add: fill_step_def bind_Ok store_in return_eval)
    then have rest: "for_each [Suc k..<n] fill_step ?p env t1 = (tr', r)" using run by (simp add: bind_Ok)
    have "take (Suc k) (cons ?p) = map Some (connected t1)"
      using Suc.prems(1,3) kn r1(2) by (simp add: take_Suc_conv_app_nth)
    moreover have "drop n (cons ?p) = drop n (cons p)" using kn by simp
    ultimately show ?thesis
      using Suc.hyps(1) [of "Suc k" ?p t1] Suc.hyps(2) Suc.prems(1) kn rest by simp
  next
    assume "r1 = Exit (- 1)"
    then have "fill_step k p env tr = (t1, Exit (- 1))"
      using i by (simp add: fill_step_def bind_stop)
    then show ?thesis using run by (simp add: bind_stop)
  qed
qed

lemma init_pool_run:
  assumes "connected tr = []" "init_pool env tr = (tr', r)"
  shows "(\<exists>p. r = Ok p \<and> p = \<lparr>pool_size = 10, busy = 0, flag = replicate 10 0, cons = map Some (connected tr')\<rparr> \<and>
      length (connected tr') = 10) \<or> r = Exit (- 1)"
proof -
  let ?p = "\<lparr>pool_size = 10, busy = 0, flag = replicate 10 0, cons = replicate 10 None\<rparr> :: conpool"
  obtain t1 r1 where f: "for_each [0..<10] fill_step ?p env tr = (t1, r1)" by fastforce
  have run: "init_pool env tr = bind (for_each [0..<10] fill_step ?p)
      (\<lambda>p. bind (print (''init '' @ show_nat (pool_size p) @ '' cons in pool'' @ [CHR 0x0A])) (\<lambda>_. return p)) env tr"
    unfolding init_pool_def createConPool_eq bind_lift_Inr fill_step_def [symmetric] by simp
  have "take 0 (cons ?p) = map Some (connected tr)" using assms(1) by simp
  with fill_run [of 10 ?p 0 tr env t1 r1] f have
    "(\<exists>p'. r1 = Ok p' \<and> p' = ?p\<lparr>cons := map Some (connected t1)\<rparr> \<and> length (connected t1) = 10) \<or> r1 = Exit (- 1)"
    by simp
  then show ?thesis
  proof (elim disjE exE conjE)
    fix p' assume p': "r1 = Ok p'" "p' = ?p\<lparr>cons := map Some (connected t1)\<rparr>" "length (connected t1) = 10"
    have "connected (t1 @ [(Call ''printf'' xs, x)]) = connected t1" for xs x by (simp add: connected_def)
    with p' f run assms(2) show ?thesis by (auto simp: bind_Ok bind_print return_eval)
  next
    assume "r1 = Exit (- 1)"
    with f run assms(2) show ?thesis by (simp add: bind_stop)
  qed
qed

section \<open>Properties\<close>

text \<open>
  C4: a client that gives back only connections it holds never makes the pool fault, holds
  pairwise different connections of the pool, and \<^verbatim>\<open>busy\<close> always counts exactly those.
\<close>

theorem pool_session_safe:
  assumes "pool_ok p" "held_of p = {}"
  shows "\<exists>p' hs. session get_con release_con cs p [] = Inr (p', hs) \<and> distinct hs \<and>
    set hs \<subseteq> members_of p \<and> busy p' = int (length hs)"
proof -
  obtain p' hs where r: "session get_con release_con cs p [] = Inr (p', hs)" "pool_ok p'" "distinct hs"
    "set hs = held_of p'" "members_of p' = members_of p"
    using db.session_safe [OF assms(1), of "[]" cs] assms(2) by auto
  let ?u = "{i. i < pool_size p' \<and> flag p' ! i \<noteq> 0}"
  have "card (held_of p') = card ?u"
    unfolding held_of_def by (rule card_image) (auto intro!: inj_onI dest: handle_inj [OF r(2)])
  then have "busy p' = int (length hs)"
    using r(2,3,4) distinct_card [OF r(3)] by (simp add: pool_ok_def)
  moreover have "held_of p' \<subseteq> members_of p'" by (auto simp: held_of_def members_of_def)
  ultimately show ?thesis using r by auto
qed

definition sample_pool :: conpool where
  "sample_pool = \<lparr>pool_size = 10, busy = 0, flag = replicate 10 0, cons = map Some [1..10]\<rparr>"

lemma sample_pool_ok: "pool_ok sample_pool" "held_of sample_pool = {}"
proof -
  have h: "handle sample_pool i = int i + 1" if "i < 10" for i
    using that by (simp add: sample_pool_def handle_def)
  then have "inj_on (handle sample_pool) {..<10}" by (auto simp: inj_on_def)
  moreover have none: "{i. i < 10 \<and> replicate 10 (0::int) ! i \<noteq> 0} = {}" by auto
  ultimately show "pool_ok sample_pool"
    using h unfolding pool_ok_def none by (simp add: sample_pool_def)
  show "held_of sample_pool = {}" by (simp add: held_of_def sample_pool_def none)
qed

theorem pool_session_safe_witness:
  "\<exists>p' hs. session get_con release_con [Acquire, Acquire, Give_back 0] sample_pool [] = Inr (p', hs) \<and>
     distinct hs \<and> busy p' = int (length hs)"
  using pool_session_safe [OF sample_pool_ok] by blast

text \<open>
  The function \<^verbatim>\<open>get_con\<close> hands out an idle connection exactly when there is one and NULL otherwise,
  and releasing what was handed out restores the pool as it was.
\<close>

theorem get_release_restores:
  assumes "pool_ok p"
  shows "if held_of p = members_of p then get_con p = Inr (0, p)
    else \<exists>h p'. get_con p = Inr (h, p') \<and> h \<in> members_of p - held_of p \<and> release_con p' h = Inr p"
proof (cases "held_of p = members_of p")
  case True
  then show ?thesis using db.get_full [OF assms] by simp
next
  case False
  then have "\<exists>k. k < pool_size p \<and> flag p ! k = 0" by (auto simp: held_of_def members_of_def)
  then obtain k where k: "k < pool_size p" "flag p ! k = 0" "\<forall>j. 0 \<le> j \<and> j < k \<longrightarrow> flag p ! j \<noteq> 0"
    unfolding exists_least_iff [of "\<lambda>k. k < pool_size p \<and> flag p ! k = 0"] by (meson less_trans)
  let ?p = "p\<lparr>flag := (flag p)[k := 1], busy := busy p + 1\<rparr>"
  have "get_con p = Inr (handle p k, ?p)"
    unfolding get_con_def by (rule get_from_first [OF assms]) (use k in auto)
  moreover have "release_con ?p (handle p k) = Inr p"
    using release_from_held [of ?p 0 k] pool_ok_take [OF assms k(1,2)] k(1,2) list_update_id [of "flag p" k]
    by (simp add: release_con_def)
  moreover have "handle p k \<in> members_of p" using k(1) by (auto simp: members_of_def)
  ultimately show ?thesis using False pool_ok_take [OF assms k(1,2)] by auto
qed

theorem get_release_restores_witness:
  "\<exists>h p'. get_con sample_pool = Inr (h, p') \<and> release_con p' h = Inr sample_pool"
proof -
  have "1 \<in> members_of sample_pool"
    by (auto simp: members_of_def handle_def sample_pool_def intro!: image_eqI [of _ _ 0])
  then have "held_of sample_pool \<noteq> members_of sample_pool" using sample_pool_ok(2) by auto
  then show ?thesis using get_release_restores [OF sample_pool_ok(1)] by auto
qed

text \<open>
  The function \<^verbatim>\<open>init_pool\<close> ends the program with status -1 at the first connection that cannot be
  made, and otherwise returns ten idle slots that hold exactly the connections made, in
  order, whatever the library replies.
\<close>

theorem init_pool_correct:
  "case init_pool env [] of
     (tr, Ok p) \<Rightarrow> pool_size p = 10 \<and> busy p = 0 \<and> flag p = replicate 10 0 \<and>
        cons p = map Some (connected tr) \<and> length (connected tr) = 10
   | (tr, r) \<Rightarrow> r = Exit (- 1)"
proof -
  obtain tr r where run: "init_pool env [] = (tr, r)" by fastforce
  have "connected [] = []" by (simp add: connected_def)
  from init_pool_run [OF this run] run show ?thesis by auto
qed

text \<open>
  Giving a connection back twice, which the code does not check, leaves \<^verbatim>\<open>busy\<close> at -1;
  and after ten acquisitions it is 10, outside the range \<open>[0, size - 1]\<close> its comment states.
\<close>

theorem pool_busy_leaves_range:
  "c_bind (get_con sample_pool) (\<lambda>(h, p). c_bind (release_con p h) (\<lambda>p. c_bind (release_con p h) (\<lambda>p. Inr (busy p))))
     = Inr (- 1) \<and>
   c_bind (session get_con release_con (replicate 10 Acquire) sample_pool []) (\<lambda>(p, hs). Inr (busy p)) = Inr 10"
  by (intro conjI; code_simp)

end
