(* ===== verification/DtParser.thy ===== *)
theory DtParser
  imports C_Prelude
begin

text \<open>
  The meter frame parser of \<^verbatim>\<open>src/cpp/dtprs/dtparser.c\<close> (the HTTP server has a copy whose
  entry point is called \<^verbatim>\<open>parsedt\<close>).  Every buffer is cleared before use, so a buffer is
  its contents and its size: \<open>strcat_to\<close> faults when the text and its NUL do not fit.  The
  input is a C string given by its contents; \<open>ptr_at\<close> is the pointer \<^verbatim>\<open>s + i\<close>, which may not
  pass the NUL.
\<close>

section \<open>The code\<close>

definition strcat_to :: "nat \<Rightarrow> string \<Rightarrow> string \<Rightarrow> string c_result" where
  "strcat_to cap x d = (if length d + length x < cap then Inr (d @ x) else Inl OutOfBounds)"

definition ptr_at :: "string \<Rightarrow> nat \<Rightarrow> string c_result" where
  "ptr_at s i = (if i \<le> length s then Inr (drop i s) else Inl OutOfBounds)"

definition strncat_to :: "nat \<Rightarrow> string \<Rightarrow> nat \<Rightarrow> nat \<Rightarrow> string \<Rightarrow> string c_result" where
  "strncat_to cap s i n d = c_bind (ptr_at s i) (\<lambda>p. strcat_to cap (take n p) d)"

text \<open>The character at an index of a cleared buffer.\<close>

definition char_at :: "string \<Rightarrow> nat \<Rightarrow> char" where
  "char_at d k = (if k < length d then d ! k else NUL)"

text \<open>
  The pattern of the parser: append a label, append the next \<open>w\<close> characters of the frame,
  advance by \<open>w\<close>.  The state is the position and the contents of the buffer.
\<close>

definition put_field :: "nat \<Rightarrow> string \<Rightarrow> string \<times> nat \<Rightarrow> nat \<times> string \<Rightarrow> (nat \<times> string) c_result" where
  "put_field cap s = (\<lambda>(label, w) (i, d).
     c_bind (strcat_to cap label d) (\<lambda>d. c_bind (strncat_to cap s i w d) (\<lambda>d. Inr (i + w, d))))"

definition put_fields :: "nat \<Rightarrow> string \<Rightarrow> (string \<times> nat) list \<Rightarrow> nat \<times> string \<Rightarrow> (nat \<times> string) c_result" where
  "put_fields cap s kws st = c_fold (put_field cap s) kws st"

definition evt_fields :: "(string \<times> nat) list" where
  \<open>evt_fields = [(''{"evt":"'', 2), (''","fvStdS1":"'', 16)]\<close>

definition day_fields :: "(string \<times> nat) list" where
  \<open>day_fields = [(''{"date":"'', 6), (''","fVStd":"'', 16), (''","fV":"'', 16)]\<close>

definition prs_evt_ext :: "string \<Rightarrow> string c_result" where
  \<open>prs_evt_ext s =
     c_bind (put_fields 1024 s evt_fields (0, [])) (\<lambda>(i, dt).
     c_bind (strcat_to 1024 ''","dt":['' dt) (\<lambda>dt.
     c_bind (for_loop 0 3 (\<lambda>j (i, dt).
               c_bind (if j > 0 then strcat_to 128 '','' [] else Inr []) (\<lambda>tmp.
               c_bind (put_fields 128 s day_fields (i, tmp)) (\<lambda>(i, tmp).
               c_bind (strcat_to 128 ''"}'' tmp) (\<lambda>tmp.
               c_bind (strcat_to 1024 tmp dt) (\<lambda>dt. Inr (i, dt)))))) (i, dt)) (\<lambda>(i, dt).
       strcat_to 1024 '']}'' dt)))\<close>

definition prs_at_ext :: "string \<Rightarrow> string c_result" where
  \<open>prs_at_ext s =
     c_bind (put_fields 1024 s [(''{"date":"'', 6)] (0, [])) (\<lambda>(i, dt).
     c_bind (strcat_to 1024 ''","dt":"'' dt) (\<lambda>dt.
     c_bind (c_bind (ptr_at s i) (\<lambda>p. strcat_to 1024 p dt)) (\<lambda>dt.
       strcat_to 1024 ''"}'' dt)))\<close>

definition obj_fields :: "(string \<times> nat) list" where
  \<open>obj_fields =
     [(''{"time":"'', 12), (''","sts":"'', 8), (''","iVStd":"'', 16), (''","iV":"'', 16),
      (''","fVStd":"'', 16), (''","fV":"'', 16), (''","flwRtStd":"'', 8), (''","flwRt":"'', 8),
      (''","t":"'', 8), (''","p":"'', 8), (''","engSum":"'', 16), (''","engDst":"'', 8),
      (''","acsV":"'', 4), (''","vlt":"'', 4), (''","pwr":"'', 2), (''","nb":"'', 8),
      (''","ecl":"'', 4), (''","cid":"'', 12), (''","rnf":"'', 4)]\<close>

definition prs_up_rpt_dt_obj :: "string \<Rightarrow> string \<Rightarrow> string c_result" where
  \<open>prs_up_rpt_dt_obj obj s =
     c_bind (put_fields 1024 s obj_fields (0, [])) (\<lambda>(i, dt).
     c_bind (strcat_to 1024 ''","ext":'' dt) (\<lambda>dt.
     c_bind (if char_at obj 3 = CHR ''3'' then
               c_bind (c_bind (ptr_at s i) prs_evt_ext) (\<lambda>x. strcat_to 1024 x dt)
             else if char_at obj 3 = CHR ''2'' then
               c_bind (c_bind (ptr_at s i) prs_at_ext) (\<lambda>x. strcat_to 1024 x dt)
             else Inr dt) (\<lambda>dt.
       strcat_to 1024 ''}'' dt)))\<close>

definition prs_dt_u :: "string \<Rightarrow> string c_result" where
  \<open>prs_dt_u s =
     c_bind (put_fields 1024 s [(''{"ctrl":"'', 2), (''","n":"'', 2)] (0, [])) (\<lambda>(i, dt_u).
     c_bind (strcat_to 1024 ''","id":"'' dt_u) (\<lambda>dt_u.
     c_bind (strncat_to 1024 s i 4 dt_u) (\<lambda>dt_u.
     c_bind (strncat_to 5 s i 4 []) (\<lambda>obj.
     let i = i + 4 in
     c_bind (strcat_to 1024 ''","dt":"'' dt_u) (\<lambda>dt_u.
     c_bind (c_bind (ptr_at s i) (\<lambda>p. strcat_to 1024 p dt_u)) (\<lambda>dt_u.
     c_bind (strcat_to 1024 ''"}'' dt_u) (\<lambda>dt_u.
     c_bind (ptr_at s i) (\<lambda>p. prs_up_rpt_dt_obj obj p))))))))\<close>

text \<open>\<^verbatim>\<open>memset (buf, 0, n)\<close> of a buffer of \<open>cap\<close> bytes leaves it empty if it does not overrun.\<close>

definition memset0 :: "nat \<Rightarrow> nat \<Rightarrow> string c_result" where
  "memset0 cap n = (if n \<le> cap then Inr [] else Inl OutOfBounds)"

definition prs_up_rpt_dt :: "string \<Rightarrow> string c_result" where
  \<open>prs_up_rpt_dt s =
     c_bind (memset0 1024 1024) (\<lambda>dt.
     c_bind (put_fields 1024 s [(''{"cr":"'', 2)] (0, dt)) (\<lambda>(i, dt).
     c_bind (strcat_to 1024 ''","ctrl":"'' dt) (\<lambda>dt.
     c_bind (strncat_to 1024 s i 2 dt) (\<lambda>dt.
     c_bind (c_bind (memset0 3 3) (strncat_to 3 s i 2)) (\<lambda>ctrl.
     let i = i + 2 in
     c_bind (put_fields 1024 s [(''","l":"'', 2), (''","c":"'', 4), (''","r":"'', 4)] (i, dt)) (\<lambda>(i, dt).
     c_bind (strcat_to 1024 ''","seq":"'' dt) (\<lambda>dt.
     c_bind (strncat_to 1024 s i 2 dt) (\<lambda>dt.
     c_bind (c_bind (memset0 3 3) (strncat_to 3 s i 2)) (\<lambda>seq.
     let i = i + 2 in
     c_bind (str_at s (i - 1)) (\<lambda>c.
     c_bind (if c = CHR ''0'' then put_fields 1024 s [(''","appId":"'', 46)] (i, dt) else Inr (i, dt)) (\<lambda>(i, dt).
     c_bind (strcat_to 1024 ''","dt":"'' dt) (\<lambda>dt.
     c_bind (c_bind (ptr_at s i) (\<lambda>p. strcat_to 1024 p dt)) (\<lambda>dt.
     c_bind (strcat_to 1024 ''"}'' dt) (\<lambda>dt.
     if char_at ctrl 1 = CHR ''2'' \<and> char_at seq 1 = CHR ''1'' then
       c_bind (memset0 512 1024) (\<lambda>dt_obj.
       c_bind (strcat_to 512 ''{"ext":{"dt":"'' dt_obj) (\<lambda>dt_obj.
       c_bind (c_bind (ptr_at s i) (\<lambda>p. strcat_to 512 p dt_obj)) (\<lambda>dt_obj.
         strcat_to 512 ''"}}'' dt_obj)))
     else c_bind (ptr_at s i) prs_dt_u))))))))))))))\<close>

definition prs_dt :: "string \<Rightarrow> string c_result" where
  "prs_dt s = prs_up_rpt_dt s"

text \<open>The command line program: \<open>None\<close> is a missing argument.\<close>

definition prs_main :: "string option \<Rightarrow> (int \<times> string) c_result" where
  "prs_main arg =
     (case arg of
        None \<Rightarrow> Inr (- 1, ''pls input dt'' @ [CHR 0x0A])
      | Some s \<Rightarrow> c_bind (prs_dt s) (\<lambda>r. Inr (0, r @ [CHR 0x0A])))"

section \<open>Cutting a frame into fields\<close>

text \<open>The specification: cut the text at the given widths and put each label before its piece.\<close>

fun cut :: "nat list \<Rightarrow> string \<Rightarrow> string list" where
  "cut [] s = []"
| "cut (w # ws) s = take w s # cut ws (drop w s)"

definition width :: "(string \<times> nat) list \<Rightarrow> nat" where
  "width kws = sum_list (map snd kws)"

definition render :: "(string \<times> nat) list \<Rightarrow> string \<Rightarrow> string" where
  "render kws s = concat (map2 (@) (map fst kws) (cut (map snd kws) s))"

lemma render_simps [simp]:
  "render [] s = []"
  "render ((l, w) # kws) s = l @ take w s @ render kws (drop w s)"
  by (simp_all add: render_def)

lemma width_simps [simp]: "width [] = 0" "width ((l, w) # kws) = w + width kws"
  by (simp_all add: width_def)

lemma length_render:
  "width kws \<le> length s \<Longrightarrow> length (render kws s) = sum_list (map (length \<circ> fst) kws) + width kws"
  by (induction kws arbitrary: s) (auto simp: width_def)

text \<open>A list of fields: it succeeds, with the rendered text, as long as text and frame last.\<close>

lemma put_fields_run:
  "i + width kws \<le> length s \<Longrightarrow> length d + length (render kws (drop i s)) < cap \<Longrightarrow>
     put_fields cap s kws (i, d) = Inr (i + width kws, d @ render kws (drop i s))"
  unfolding put_fields_def
proof (induction kws arbitrary: i d)
  case (Cons kw kws)
  obtain l w where kw: "kw = (l, w)" by (cases kw)
  have "put_field cap s kw (i, d) = Inr (i + w, d @ l @ take w (drop i s))"
    using Cons.prems by (simp add: put_field_def kw strcat_to_def strncat_to_def ptr_at_def)
  moreover have "c_fold (put_field cap s) kws (i + w, d @ l @ take w (drop i s)) =
      Inr (i + w + width kws, (d @ l @ take w (drop i s)) @ render kws (drop (i + w) s))"
    using Cons.prems kw by (intro Cons.IH) (simp_all add: add.commute [of w])
  ultimately show ?case by (simp add: kw add.commute [of w] add.assoc)
qed simp

text \<open>A frame that ends before a field faults.\<close>

lemma put_fields_short:
  assumes "put_fields cap s kws (i, d) = Inr (i', d')"
  shows "i' = i + width kws \<and> (kws \<noteq> [] \<longrightarrow> i + width (butlast kws) \<le> length s)"
  using assms unfolding put_fields_def
proof (induction kws arbitrary: i d)
  case (Cons kw kws)
  obtain l w where kw: "kw = (l, w)" by (cases kw)
  from Cons.prems obtain d1 where d1: "put_field cap s kw (i, d) = Inr (i + w, d1)"
    "c_fold (put_field cap s) kws (i + w, d1) = Inr (i', d')"
    by (auto simp: put_field_def kw)
  from d1(1) have "i \<le> length s"
    by (auto simp: put_field_def kw strncat_to_def ptr_at_def split: if_splits)
  with Cons.IH [OF d1(2)] show ?case by (auto simp: kw)
qed simp

lemma strcat_to_in: "length d + length x < cap \<Longrightarrow> strcat_to cap x d = Inr (d @ x)"
  by (simp add: strcat_to_def)

lemma ptr_at_in: "i \<le> length s \<Longrightarrow> ptr_at s i = Inr (drop i s)"
  by (simp add: ptr_at_def)

section \<open>The only fault is an access out of bounds\<close>

definition only_oob :: "'a c_result \<Rightarrow> bool" where
  "only_oob m \<longleftrightarrow> (\<forall>e. m = Inl e \<longrightarrow> e = OutOfBounds)"

named_theorems oob \<open>computations whose only fault is an access out of bounds\<close>

lemma only_oob_bind [oob]: "only_oob m \<Longrightarrow> (\<And>x. only_oob (f x)) \<Longrightarrow> only_oob (c_bind m f)"
  by (cases m) (auto simp: only_oob_def)

lemma only_oob_base [oob]:
  "only_oob (Inr x)"
  "only_oob (strcat_to cap y d)"
  "only_oob (ptr_at s i)"
  "only_oob (memset0 cap n)"
  "only_oob (str_at s i)"
  by (simp_all add: only_oob_def strcat_to_def ptr_at_def memset0_def str_at_def)

lemma only_oob_prod [oob]: "(\<And>a b. only_oob (f a b)) \<Longrightarrow> only_oob (case p of (a, b) \<Rightarrow> f a b)"
  by (cases p) simp

lemma only_oob_if [oob]: "only_oob m \<Longrightarrow> only_oob n \<Longrightarrow> only_oob (if b then m else n)"
  by simp

lemma only_oob_fold [oob]: "(\<And>x s. only_oob (f x s)) \<Longrightarrow> only_oob (c_fold f xs s)"
  by (induction xs arbitrary: s) (auto intro!: oob)

lemma only_oob_parts [oob]:
  "only_oob (strncat_to cap s i n d)"
  "only_oob (put_fields cap s kws st)"
  unfolding strncat_to_def put_fields_def put_field_def
  by (cases st, auto intro!: oob simp: strncat_to_def)+

lemma only_oob_parsers [oob]:
  "only_oob (prs_evt_ext s)" "only_oob (prs_at_ext s)" "only_oob (prs_up_rpt_dt_obj obj s)"
  unfolding prs_evt_ext_def prs_at_ext_def prs_up_rpt_dt_obj_def for_loop_def
  by (intro oob only_oob_bind)+

lemma only_oob_frame:
  "only_oob (prs_dt_u s)" "only_oob (prs_up_rpt_dt s)"
  unfolding prs_dt_u_def prs_up_rpt_dt_def Let_def
  by (intro oob)+

section \<open>Properties\<close>

text \<open>The JSON text of the event extension: three days of 38 characters after 18.\<close>

definition day_json :: "string \<Rightarrow> string" where
  \<open>day_json s = render day_fields s @ ''"}''\<close>

definition evt_json :: "string \<Rightarrow> string" where
  \<open>evt_json s = render evt_fields s @ ''","dt":['' @ day_json (drop 18 s) @ '','' @ day_json (drop 56 s) @
     '','' @ day_json (drop 94 s) @ '']}''\<close>

lemma length_day: "38 \<le> length s \<Longrightarrow> length (render day_fields s) = 66"
  using length_render [of day_fields s] by (simp add: day_fields_def)

lemma length_evt: "18 \<le> length s \<Longrightarrow> length (render evt_fields s) = 39"
  using length_render [of evt_fields s] by (simp add: evt_fields_def)

lemma length_obj: "178 \<le> length s \<Longrightarrow> length (render obj_fields s) = 360"
  using length_render [of obj_fields s] by (simp add: obj_fields_def)

lemma evt_ext_run:
  assumes "132 \<le> length s"
  shows "prs_evt_ext s = Inr (evt_json s)"
proof -
  have evt: "put_fields 1024 s evt_fields (0, []) = Inr (18, render evt_fields s)"
    using put_fields_run [of 0 evt_fields s "[]" 1024] length_evt [of s] assms by (simp add: evt_fields_def)
  have day: "put_fields 128 s day_fields (i, tmp) = Inr (i + 38, tmp @ render day_fields (drop i s))"
    if "i + 38 \<le> length s" "length tmp \<le> 1" for i tmp
  proof -
    have "length tmp + length (render day_fields (drop i s)) < 128"
      using length_day [of "drop i s"] that by simp
    with put_fields_run [of i day_fields s tmp 128] that show ?thesis by (simp add: day_fields_def)
  qed
  have len: "length (render evt_fields s) = 39" using length_evt assms by simp
  have len_day: "length (render day_fields (drop i s)) = 66" if "i + 38 \<le> length s" for i
    using length_day [of "drop i s"] that by simp
  have idx: "[0..<3] = [0, 1, 2 :: nat]" by (simp add: upt_rec)
  show ?thesis
    unfolding prs_evt_ext_def for_loop_def idx evt
    using assms by (simp add: day strcat_to_in len len_day evt_json_def day_json_def)
qed

text \<open>
  The specification of the JSON text: members with string values, separated by commas, each
  value given by its offset and width in the frame.
\<close>

definition json_member :: "string \<times> string \<Rightarrow> string" where
  \<open>json_member = (\<lambda>(name, v). ''"'' @ name @ ''":"'' @ v @ ''"'')\<close>

fun commas :: "string list \<Rightarrow> string" where
  "commas [] = []"
| "commas [x] = x"
| "commas (x # y # ys) = x @ '','' @ commas (y # ys)"

definition json_members :: "(string \<times> nat \<times> nat) list \<Rightarrow> string \<Rightarrow> string" where
  "json_members kws s = commas (map (\<lambda>(name, i, w). json_member (name, take w (drop i s))) kws)"

lemmas json_text = json_members_def json_member_def

lemma at_ext_run:
  assumes "6 \<le> length s" "length s < 900"
  shows \<open>prs_at_ext s = Inr (''{"date":"'' @ take 6 s @ ''","dt":"'' @ drop 6 s @ ''"}'')\<close>
  unfolding prs_at_ext_def using assms
  by (simp add: put_fields_def put_field_def strncat_to_def strcat_to_in ptr_at_in)

lemma obj_text:
  \<open>render obj_fields s @ ''"'' = ''{'' @ json_members [(''time'', 0, 12), (''sts'', 12, 8), (''iVStd'', 20, 16), (''iV'', 36, 16), (''fVStd'', 52, 16), (''fV'', 68, 16),
      (''flwRtStd'', 84, 8), (''flwRt'', 92, 8), (''t'', 100, 8), (''p'', 108, 8), (''engSum'', 116, 16), (''engDst'', 132, 8),
      (''acsV'', 140, 4), (''vlt'', 144, 4), (''pwr'', 148, 2), (''nb'', 150, 8), (''ecl'', 158, 4), (''cid'', 162, 12),
      (''rnf'', 174, 4)] s\<close>
  by (simp add: obj_fields_def json_text)

lemma evt_text:
  \<open>evt_json (drop 178 s) = ''{'' @ json_members [(''evt'', 178, 2), (''fvStdS1'', 180, 16)] s @ '',"dt":['' @
     commas (map (\<lambda>i. ''{'' @ json_members [(''date'', i, 6), (''fVStd'', i + 6, 16), (''fV'', i + 22, 16)] s @ ''}'') [196, 234, 272]) @ '']}''\<close>
  by (simp add: evt_json_def day_json_def evt_fields_def day_fields_def json_text)

text \<open>
  C21: a data object of at least 310 characters is cut into nineteen members at the offsets
  and widths of the protocol, followed by the member \<^verbatim>\<open>ext\<close>.  Its value is, for an id whose fourth
  character is 3, the event with its meter reading and three days; for 2 and a frame of fewer than
  814 characters, which fits the buffer, the date and the rest of the frame; for any other
  id it is missing, and the text is not JSON.
\<close>

theorem obj_layout:
  assumes "310 \<le> length s" "char_at obj 3 = CHR ''2'' \<longrightarrow> length s < 814"
  shows \<open>prs_up_rpt_dt_obj obj s = Inr (''{'' @
    json_members [(''time'', 0, 12), (''sts'', 12, 8), (''iVStd'', 20, 16), (''iV'', 36, 16), (''fVStd'', 52, 16), (''fV'', 68, 16),
      (''flwRtStd'', 84, 8), (''flwRt'', 92, 8), (''t'', 100, 8), (''p'', 108, 8), (''engSum'', 116, 16), (''engDst'', 132, 8),
      (''acsV'', 140, 4), (''vlt'', 144, 4), (''pwr'', 148, 2), (''nb'', 150, 8), (''ecl'', 158, 4), (''cid'', 162, 12),
      (''rnf'', 174, 4)] s @ '',"ext":'' @
    (if char_at obj 3 = CHR ''3'' then
       ''{'' @ json_members [(''evt'', 178, 2), (''fvStdS1'', 180, 16)] s @ '',"dt":['' @
       commas (map (\<lambda>i. ''{'' @ json_members [(''date'', i, 6), (''fVStd'', i + 6, 16), (''fV'', i + 22, 16)] s @ ''}'') [196, 234, 272]) @ '']}''
     else if char_at obj 3 = CHR ''2'' then ''{'' @ json_members [(''date'', 178, 6), (''dt'', 184, length s)] s @ ''}''
     else []) @ ''}'')\<close>
proof -
  let ?ext = \<open>if char_at obj 3 = CHR ''3'' then evt_json (drop 178 s)
    else if char_at obj 3 = CHR ''2'' then ''{"date":"'' @ take 6 (drop 178 s) @ ''","dt":"'' @ drop 184 s @ ''"}'' else []\<close>
  have obj: "put_fields 1024 s obj_fields (0, []) = Inr (178, render obj_fields s)"
    using put_fields_run [of 0 obj_fields s "[]" 1024] length_obj [of s] assms by (simp add: obj_fields_def)
  have ext: "prs_evt_ext (drop 178 s) = Inr (evt_json (drop 178 s))"
    by (rule evt_ext_run) (use assms in simp)
  have at: "char_at obj 3 = CHR ''2'' \<Longrightarrow> prs_at_ext (drop 178 s) = Inr ?ext"
    using at_ext_run [of "drop 178 s"] assms by simp
  have "length (evt_json (drop 178 s)) < 400"
    using assms(1) length_evt [of "drop 178 s"] length_day [of "drop 196 s"] length_day [of "drop 234 s"]
      length_day [of "drop 272 s"] by (simp add: evt_json_def day_json_def)
  moreover have "length (render obj_fields s) = 360" using length_obj [of s] assms(1) by simp
  ultimately have \<open>prs_up_rpt_dt_obj obj s = Inr (render obj_fields s @ ''","ext":'' @ ?ext @ ''}'')\<close>
    unfolding prs_up_rpt_dt_obj_def obj
    using assms ext at by (cases "char_at obj 3 = CHR ''3''"; cases "char_at obj 3 = CHR ''2''") (simp_all add: strcat_to_in ptr_at_in)
  also have \<open>\<dots> = Inr ((render obj_fields s @ ''"'') @ '',"ext":'' @ ?ext @ ''}'')\<close> by simp
  finally show ?thesis unfolding obj_text evt_text by (simp add: json_text)
qed

theorem obj_layout_witness:
  \<open>prs_up_rpt_dt_obj ''2001'' (replicate 310 (CHR ''0'')) = Inr (''{'' @ json_members [(''time'', 0, 12), (''sts'', 12, 8), (''iVStd'', 20, 16), (''iV'', 36, 16), (''fVStd'', 52, 16), (''fV'', 68, 16),
      (''flwRtStd'', 84, 8), (''flwRt'', 92, 8), (''t'', 100, 8), (''p'', 108, 8), (''engSum'', 116, 16), (''engDst'', 132, 8),
      (''acsV'', 140, 4), (''vlt'', 144, 4), (''pwr'', 148, 2), (''nb'', 150, 8), (''ecl'', 158, 4), (''cid'', 162, 12),
      (''rnf'', 174, 4)]
     (replicate 310 (CHR ''0'')) @ '',"ext":}'')\<close>
proof -
  have "310 \<le> length (replicate 310 (CHR ''0''))" by (simp only: length_replicate)
  from obj_layout [OF this, of "''2001''"] show ?thesis by (simp add: char_at_def numeral_3_eq_3)
qed

text \<open>
  The parser does not check the length of its input: a data object shorter than the 174
  characters before its last field makes it read past the end of the string.
\<close>

theorem obj_short_faults:
  assumes "length s < 174"
  shows "prs_up_rpt_dt_obj obj s = Inl OutOfBounds"
proof (cases "prs_up_rpt_dt_obj obj s")
  case (Inl e)
  with only_oob_parsers(3) [of obj s] show ?thesis by (simp add: only_oob_def)
next
  case (Inr r)
  then obtain i d where "put_fields 1024 s obj_fields (0, []) = Inr (i, d)"
    by (auto simp: prs_up_rpt_dt_obj_def)
  from put_fields_short [OF this] have "width (butlast obj_fields) \<le> length s"
    by (simp add: obj_fields_def)
  with assms show ?thesis by (simp add: obj_fields_def)
qed

theorem obj_short_faults_witness: "prs_up_rpt_dt_obj ''2001'' ''202111010000'' = Inl OutOfBounds"
  by (rule obj_short_faults) simp

text \<open>
  Every frame with control code x2 and sequence x1 makes \<^verbatim>\<open>prs_up_rpt_dt\<close> clear 1024
  bytes of the 512-byte \<^verbatim>\<open>dt_obj\<close>: no such frame is parsed without writing out of bounds.
\<close>

theorem ctrl2_seq1_overflows:
  assumes "16 \<le> length s" "s ! 3 = CHR ''2''" "s ! 15 = CHR ''1''"
  shows "prs_dt s = Inl OutOfBounds"
proof (cases "prs_up_rpt_dt s")
  case (Inl e)
  with only_oob_frame(2) [of s] show ?thesis by (simp add: only_oob_def prs_dt_def)
next
  case (Inr r)
  have f: "strncat_to 3 s (Suc (Suc 0)) 2 [] = Inr (take 2 (drop (Suc (Suc 0)) s))" "strncat_to 3 s 14 2 [] = Inr (take 2 (drop 14 s))"
    using assms(1) by (simp_all add: strncat_to_def ptr_at_def strcat_to_def)
  have ch: "char_at (take 2 (drop (Suc (Suc 0)) s)) 1 = CHR ''2''" "char_at (take 2 (drop 14 s)) 1 = CHR ''1''"
    using assms by (simp_all add: char_at_def numeral_3_eq_3)
  from Inr have False
    unfolding prs_up_rpt_dt_def Let_def
    by (auto simp: memset0_def f ch [simplified] dest!: put_fields_short)
  then show ?thesis ..
qed

theorem ctrl2_seq1_overflows_witness: "prs_dt ''0002000000000001abcd'' = Inl OutOfBounds"
  by (rule ctrl2_seq1_overflows) simp_all

end
