(* ===== verification/HttpUtil.thy ===== *)
theory HttpUtil
  imports C_Prelude
begin

text \<open>
  The request parsing of \<^verbatim>\<open>src/cpp/http/util.c\<close>.  A source is a buffer that must hold a
  NUL (its \<^verbatim>\<open>strlen\<close> faults otherwise); a target is a buffer whose cells are written one by
  one, with a fault past its end.  Each loop is a function over the characters still to be
  read, with the indices of the source as arguments.  The specification is on strings:
  \<open>token\<close>, \<open>second_word\<close>, \<open>line_at\<close> and \<open>after_blank\<close>.
\<close>

section \<open>The code\<close>

definition eol :: "char \<Rightarrow> bool" where
  "eol c \<longleftrightarrow> c = CHR 0x0A \<or> c = CHR 0x0D"

fun method_loop :: "string \<Rightarrow> nat \<Rightarrow> nat \<Rightarrow> string \<Rightarrow> (nat \<times> string) c_result" where
  "method_loop [] n i t = Inr (i, t)"
| "method_loop (c # cs) n i t =
     (if i \<ge> n then Inr (i, t)
      else if eol c \<or> c = CHR '' '' then Inr (i, t)
      else c_bind (store t i c) (method_loop cs n (Suc i)))"

definition getmethod :: "string \<Rightarrow> string \<Rightarrow> nat \<Rightarrow> string c_result" where
  "getmethod s t n =
     c_bind (c_strlen s) (\<lambda>_. c_bind (method_loop (cstr s) n 0 t) (\<lambda>(i, t). store t i NUL))"

fun uri_loop :: "string \<Rightarrow> nat \<Rightarrow> nat \<Rightarrow> nat \<Rightarrow> string \<Rightarrow> (nat \<times> string) c_result" where
  "uri_loop [] n j k t = Inr (k, t)"
| "uri_loop (c # cs) n j k t =
     (if j = 1 then
        if c = CHR '' '' then Inr (k, t)
        else if k < n then c_bind (store t k c) (uri_loop cs n j (Suc k))
        else Inr (k, t)
      else uri_loop cs n (if c = CHR '' '' then Suc j else j) k t)"

definition geturi :: "string \<Rightarrow> string \<Rightarrow> nat \<Rightarrow> string c_result" where
  "geturi s t n =
     c_bind (c_strlen s) (\<lambda>_. c_bind (uri_loop (cstr s) n 0 0 t) (\<lambda>(k, t). store t k NUL))"

fun line_loop :: "string \<Rightarrow> nat \<Rightarrow> nat \<Rightarrow> nat \<Rightarrow> nat \<Rightarrow> string \<Rightarrow> (nat \<times> string) c_result" where
  "line_loop [] n l j k t = Inr (k, t)"
| "line_loop (c # cs) n l j k t =
     (if j = l then
        if eol c then Inr (k, t)
        else if k < n then c_bind (store t k c) (line_loop cs n l j (Suc k))
        else Inr (k, t)
      else line_loop cs n l (if eol c then Suc j else j) k t)"

definition getln :: "string \<Rightarrow> string \<Rightarrow> nat \<Rightarrow> nat \<Rightarrow> string c_result" where
  "getln s t n l =
     c_bind (c_strlen s) (\<lambda>_. c_bind (line_loop (cstr s) n l 0 0 t) (\<lambda>(k, t). store t k NUL))"

text \<open>
  \<^verbatim>\<open>getbody\<close> looks back three characters: \<open>prev\<close> holds them, most recent first, and is
  shorter only at the first three positions.
\<close>

fun body_loop :: "string \<Rightarrow> string \<Rightarrow> nat \<Rightarrow> nat \<Rightarrow> bool \<Rightarrow> string \<Rightarrow> (nat \<times> string) c_result" where
  "body_loop prev [] n j k t = Inr (j, t)"
| "body_loop prev (c # cs) n j k t =
     (if length prev < 3 then body_loop (c # prev) cs n j k t
      else if j \<ge> n then Inr (j, t)
      else if k then c_bind (store t j c) (body_loop (c # prev) cs n (Suc j) k)
      else body_loop (c # prev) cs n j
             (prev ! 2 = CHR 0x0D \<and> prev ! 1 = CHR 0x0A \<and> prev ! 0 = CHR 0x0D \<and> c = CHR 0x0A) t)"

definition getbody :: "string \<Rightarrow> string \<Rightarrow> nat \<Rightarrow> string c_result" where
  "getbody s t n =
     c_bind (c_strlen s) (\<lambda>_. c_bind (body_loop [] (cstr s) n 0 False t) (\<lambda>(j, t). store t j NUL))"

text \<open>\<^verbatim>\<open>gettime\<close> overwrites the last character of what \<^verbatim>\<open>asctime\<close> returned.\<close>

definition gettime :: "string \<Rightarrow> string c_result" where
  "gettime tmp =
     c_bind (c_strlen tmp) (\<lambda>l. c_bind (c_require (1 \<le> l) OutOfBounds) (\<lambda>_. store tmp (l - 1) NUL))"

text \<open>
  \<^verbatim>\<open>getjsonv\<close>: the state is the source index, the target index, the counter \<^verbatim>\<open>k\<close>, the
  target and what was printed; the loop ends with the source index.
\<close>

function json_loop :: "string \<Rightarrow> string \<Rightarrow> nat \<Rightarrow> nat \<Rightarrow> nat \<Rightarrow> nat \<Rightarrow> string \<Rightarrow>
    (nat \<times> string \<times> string) c_result" where
  "json_loop s key n i j k t =
     (if i < length s then
        if k = 0 \<and> take (length key) (drop i s) \<noteq> key then json_loop s key n (Suc i) j k t
        else if k = 0 then
          if i < length s - length key then json_loop s key n (i + length key + 1) j (Suc k) t
          else Inr (i, t, ''err_json_str, '' @ drop i s @ [CHR 0x0A])
        else if k < 3 \<and> (s ! i = CHR '':'' \<or> s ! i = CHR 0x22) then json_loop s key n (Suc i) j (Suc k) t
        else if j < n \<and> s ! i \<noteq> CHR 0x22 then
          c_bind (store t j (s ! i)) (json_loop s key n (Suc i) (Suc j) k)
        else Inr (i, t, [])
      else Inr (i, t, []))"
  by pat_completeness auto
termination by (relation "measure (\<lambda>(s, key, n, i, j, k, t). length s - i)") auto

declare json_loop.simps [simp del]

definition getjsonv :: "string \<Rightarrow> string \<Rightarrow> string \<Rightarrow> nat \<Rightarrow> (string \<times> string) c_result" where
  "getjsonv s t key n =
     c_bind (json_loop s key n 0 0 0 t) (\<lambda>(i, t, out). c_bind (store t i NUL) (\<lambda>t. Inr (t, out)))"

section \<open>The specification\<close>

text \<open>Writing a string and its NUL at the start of a buffer.\<close>

definition put_str :: "string \<Rightarrow> string \<Rightarrow> string c_result" where
  "put_str w t = (if length w < length t then Inr (w @ NUL # drop (Suc (length w)) t) else Inl OutOfBounds)"

definition token :: "string \<Rightarrow> string" where
  "token s = takeWhile (\<lambda>c. \<not> (eol c \<or> c = CHR '' '')) s"

definition second_word :: "string \<Rightarrow> string" where
  "second_word s = takeWhile (\<lambda>c. c \<noteq> CHR '' '') (tl (dropWhile (\<lambda>c. c \<noteq> CHR '' '') s))"

fun line_at :: "nat \<Rightarrow> string \<Rightarrow> string" where
  "line_at 0 s = takeWhile (\<lambda>c. \<not> eol c) s"
| "line_at (Suc l) s = line_at l (tl (dropWhile (\<lambda>c. \<not> eol c) s))"

text \<open>What follows the first blank line.\<close>

fun after_blank :: "string \<Rightarrow> string" where
  "after_blank (a # b # c # d # s) =
     (if a = CHR 0x0D \<and> b = CHR 0x0A \<and> c = CHR 0x0D \<and> d = CHR 0x0A then s else after_blank (b # c # d # s))"
| "after_blank s = []"

section \<open>Copying loops\<close>

text \<open>
  The common part of the loops: the characters \<open>w\<close> are written to the cells from \<open>k\<close> on.
\<close>

definition copy_at :: "nat \<Rightarrow> string \<Rightarrow> string \<Rightarrow> (nat \<times> string) c_result" where
  "copy_at k w t =
     (if w = [] \<or> k + length w \<le> length t
      then Inr (k + length w, take k t @ w @ drop (k + length w) t) else Inl OutOfBounds)"

lemma copy_at_Nil [simp]: "copy_at k [] t = Inr (k, t)"
  by (simp add: copy_at_def)

lemma copy_at_Cons: "c_bind (store t k c) (copy_at (Suc k) w) = copy_at k (c # w) t"
proof (cases "k < length t")
  case True
  have "take (Suc k) (t[k := c]) = take k t @ [c]" using True by (simp add: take_Suc_conv_app_nth)
  moreover have "drop (Suc k) (t[k := c]) = drop (Suc k) t" by simp
  ultimately show ?thesis using True by (cases w) (auto simp: copy_at_def store_def)
next
  case False
  then show ?thesis by (simp add: copy_at_def store_def)
qed

lemma copy_put: "c_bind (copy_at 0 w t) (\<lambda>(k, t). store t k NUL) = put_str w t"
proof (cases "length w < length t")
  case True
  then have "drop (length w) t = t ! length w # drop (Suc (length w)) t" by (simp add: Cons_nth_drop_Suc)
  with True show ?thesis by (simp add: copy_at_def put_str_def store_def list_update_append)
next
  case False
  then show ?thesis
    by (cases "length w = length t") (auto simp: copy_at_def put_str_def store_def)
qed

lemma method_loop_eq: "method_loop cs n i t = copy_at i (take (n - i) (token cs)) t"
proof (induction cs arbitrary: i t)
  case (Cons c cs)
  show ?case
  proof (cases "i \<ge> n \<or> eol c \<or> c = CHR '' ''")
    case False
    then have "n - i = Suc (n - Suc i)" by auto
    then have "take (n - i) (token (c # cs)) = c # take (n - Suc i) (token cs)"
      using False by (simp add: token_def)
    moreover have "method_loop cs n (Suc i) = copy_at (Suc i) (take (n - Suc i) (token cs))"
      using Cons by (simp add: fun_eq_iff)
    ultimately show ?thesis using False by (simp add: copy_at_Cons [symmetric])
  qed (auto simp: token_def)
qed (simp add: token_def)

lemma uri_loop_word: "uri_loop cs n 1 k t = copy_at k (take (n - k) (takeWhile (\<lambda>c. c \<noteq> CHR '' '') cs)) t"
proof (induction cs arbitrary: k t)
  case (Cons c cs)
  show ?case
  proof (cases "c = CHR '' '' \<or> \<not> k < n")
    case False
    then have "n - k = Suc (n - Suc k)" by auto
    then have "take (n - k) (takeWhile (\<lambda>c. c \<noteq> CHR '' '') (c # cs)) =
        c # take (n - Suc k) (takeWhile (\<lambda>c. c \<noteq> CHR '' '') cs)" using False by simp
    moreover have "uri_loop cs n 1 (Suc k) =
        copy_at (Suc k) (take (n - Suc k) (takeWhile (\<lambda>c. c \<noteq> CHR '' '') cs))"
      using Cons by (simp add: fun_eq_iff)
    ultimately show ?thesis using False by (simp add: copy_at_Cons [symmetric])
  qed auto
qed simp

lemma uri_loop_eq: "uri_loop cs n 0 0 t = copy_at 0 (take n (second_word cs)) t"
  by (induction cs) (auto simp: second_word_def uri_loop_word [simplified])

lemma line_loop_line: "line_loop cs n l l k t = copy_at k (take (n - k) (line_at 0 cs)) t"
proof (induction cs arbitrary: k t)
  case (Cons c cs)
  show ?case
  proof (cases "eol c \<or> \<not> k < n")
    case False
    then have "n - k = Suc (n - Suc k)" by auto
    then have "take (n - k) (line_at 0 (c # cs)) = c # take (n - Suc k) (line_at 0 cs)" using False by simp
    moreover have "line_loop cs n l l (Suc k) = copy_at (Suc k) (take (n - Suc k) (line_at 0 cs))"
      using Cons by (simp add: fun_eq_iff)
    ultimately show ?thesis using False by (simp add: copy_at_Cons [symmetric])
  qed auto
qed simp

lemma line_at_Nil [simp]: "line_at l [] = []"
  by (induction l) simp_all

lemma line_loop_eq: "line_loop cs n (j + d) j 0 t = copy_at 0 (take n (line_at d cs)) t"
proof (induction cs arbitrary: j d)
  case (Cons c cs)
  show ?case
  proof (cases d)
    case 0
    then show ?thesis using line_loop_line [of "c # cs" n j 0 t] by simp
  next
    case (Suc e)
    show ?thesis
    proof (cases "eol c")
      case True
      then show ?thesis using Cons.IH [of "Suc j" e] Suc by simp
    next
      case False
      then show ?thesis using Cons.IH [of j d] Suc by simp
    qed
  qed
qed simp

lemma body_loop_copy:
  "3 \<le> length prev \<Longrightarrow> body_loop prev cs n j True t = copy_at j (take (n - j) cs) t"
proof (induction cs arbitrary: prev j t)
  case (Cons c cs)
  show ?case
  proof (cases "j \<ge> n")
    case False
    then have "n - j = Suc (n - Suc j)" by simp
    moreover have "body_loop (c # prev) cs n (Suc j) True = copy_at (Suc j) (take (n - Suc j) cs)"
      using Cons by (simp add: fun_eq_iff)
    ultimately show ?thesis using False Cons.prems by (simp add: copy_at_Cons [symmetric])
  qed (use Cons.prems in simp)
qed simp

lemma body_loop_search:
  "0 < n \<Longrightarrow> body_loop (c3 # c2 # c1 # prev) cs n 0 False t = copy_at 0 (take n (after_blank (c1 # c2 # c3 # cs))) t"
proof (induction cs arbitrary: c1 c2 c3 prev)
  case (Cons c cs)
  then show ?case using body_loop_copy [of "c # c3 # c2 # c1 # prev" cs n 0 t] by auto
qed simp

lemma body_loop_eq: "0 < n \<Longrightarrow> body_loop [] s n 0 False t = copy_at 0 (take n (after_blank s)) t"
proof -
  assume n: "0 < n"
  consider "s = []" | a where "s = [a]" | a b where "s = [a, b]" | a b c r where "s = a # b # c # r"
    by (metis neq_Nil_conv)
  then show ?thesis
    by cases (use n body_loop_search [OF n, of _ _ _ "[]"] in simp_all)
qed

text \<open>The four readers, on a source that holds a NUL.\<close>

lemma getmethod_eq: "NUL \<in> set s \<Longrightarrow> getmethod s t n = put_str (take n (token (cstr s))) t"
  by (simp add: getmethod_def c_strlen_def method_loop_eq copy_put)

lemma geturi_eq: "NUL \<in> set s \<Longrightarrow> geturi s t n = put_str (take n (second_word (cstr s))) t"
  by (simp add: geturi_def c_strlen_def uri_loop_eq copy_put)

lemma getln_eq: "NUL \<in> set s \<Longrightarrow> getln s t n l = put_str (take n (line_at l (cstr s))) t"
  using line_loop_eq [of "cstr s" n 0 l t] by (simp add: getln_def c_strlen_def copy_put)

lemma getbody_eq: "NUL \<in> set s \<Longrightarrow> 0 < n \<Longrightarrow> getbody s t n = put_str (take n (after_blank (cstr s))) t"
  by (simp add: getbody_def c_strlen_def body_loop_eq copy_put)

lemma set_tl_dropWhile: "set (tl (dropWhile P w)) \<subseteq> set w"
proof -
  have "set (dropWhile P w) \<subseteq> set w" by (auto dest: set_dropWhileD)
  moreover have "set (tl xs) \<subseteq> set xs" for xs :: "'a list" by (cases xs) auto
  ultimately show ?thesis by blast
qed

lemma put_str_fits: "length w < length t \<Longrightarrow> put_str w t = Inr (w @ NUL # drop (Suc (length w)) t)"
  by (simp add: put_str_def)

lemma put_str_cstr: "put_str w t = Inr t' \<Longrightarrow> NUL \<notin> set w \<Longrightarrow> cstr t' = w \<and> NUL \<in> set t'"
  by (auto simp: put_str_def split: if_splits)

section \<open>Looking up a JSON value\<close>

text \<open>Before the key is found the loop only advances.\<close>

lemma json_skip:
  assumes "\<forall>m. i \<le> m \<and> m < p \<longrightarrow> take (length key) (drop m s) \<noteq> key" "i \<le> p" "p \<le> length s"
  shows "json_loop s key n i 0 0 t = json_loop s key n p 0 0 t"
  using assms
proof (induction "p - i" arbitrary: i)
  case (Suc d)
  then have "i < p" by simp
  moreover have "json_loop s key n (Suc i) 0 0 t = json_loop s key n p 0 0 t"
    using Suc.hyps(2) \<open>i < p\<close> Suc.prems by (intro Suc.hyps(1)) auto
  ultimately show ?case using Suc.prems by (subst json_loop.simps) auto
qed simp

text \<open>Copying the value: from position \<open>i\<close> up to the closing quote.\<close>

lemma json_copy:
  assumes "drop i s = v @ CHR 0x22 # rest" "CHR 0x22 \<notin> set v" "j + length v \<le> n" "j + length v \<le> length t"
  shows "json_loop s key n i j 3 t = Inr (i + length v, take j t @ v @ drop (j + length v) t, [])"
  using assms
proof (induction v arbitrary: i j t)
  case Nil
  then have "i < length s" by (metis append_Nil drop_all linorder_not_le list.distinct(1))
  moreover have "s ! i = CHR 0x22" using Nil(1) by (metis append_Nil hd_drop_conv_nth list.sel(1) calculation)
  ultimately show ?case by (subst json_loop.simps) simp
next
  case (Cons c v)
  have i: "i < length s" using Cons.prems(1) by (metis append_Cons drop_all linorder_not_le list.distinct(1))
  have c: "s ! i = c" "drop (Suc i) s = v @ CHR 0x22 # rest"
    using Cons.prems(1) i by (simp_all add: Cons_nth_drop_Suc [symmetric])
  have "json_loop s key n (Suc i) (Suc j) 3 (t[j := c]) =
      Inr (Suc i + length v, take (Suc j) (t[j := c]) @ v @ drop (Suc j + length v) (t[j := c]), [])"
    using Cons.prems c(2) by (intro Cons.IH) simp_all
  moreover have "take (Suc j) (t[j := c]) = take j t @ [c]"
    using Cons.prems(4) by (simp add: take_Suc_conv_app_nth)
  ultimately show ?case using i c(1) Cons.prems by (subst json_loop.simps) (auto simp: store_in)
qed

lemma json_lookup:
  assumes s: "s = pre @ key @ [CHR 0x22, CHR '':'', CHR 0x22] @ v @ CHR 0x22 # rest"
    and first: "\<forall>m < length pre. take (length key) (drop m s) \<noteq> key"
    and v: "CHR 0x22 \<notin> set v" "length v \<le> n" "length v \<le> length t"
  shows "json_loop s key n 0 0 0 t =
    Inr (length pre + length key + 3 + length v, v @ drop (length v) t, [])"
proof -
  let ?p = "length pre" and ?k = "length key"
  have len: "?p + ?k + 3 < length s" by (simp add: s)
  have at: "take ?k (drop ?p s) = key" "s ! (?p + ?k + 1) = CHR '':''" "s ! (?p + ?k + 2) = CHR 0x22"
    by (simp_all add: s nth_append)
  have "json_loop s key n 0 0 0 t = json_loop s key n ?p 0 0 t"
    by (rule json_skip) (use first len in auto)
  also have "\<dots> = json_loop s key n (?p + ?k + 1) 0 1 t"
    using at(1) len by (subst json_loop.simps) auto
  also have "\<dots> = json_loop s key n (?p + ?k + 2) 0 2 t"
    using at(2) len by (subst json_loop.simps) (auto simp: numeral_2_eq_2)
  also have "\<dots> = json_loop s key n (?p + ?k + 3) 0 3 t"
    using at(3) len by (subst json_loop.simps) (auto simp: numeral_3_eq_3)
  also have "\<dots> = Inr (?p + ?k + 3 + length v, v @ drop (length v) t, [])"
    using json_copy [of "?p + ?k + 3" s v rest 0 n t key] v by (simp add: s)
  finally show ?thesis .
qed

section \<open>Properties\<close>

text \<open>
  C18: on a NUL-terminated request, and with a limit below the size of the target, the four
  readers do not fault and leave the C strings they are named for: the first word, the
  second word of the line, the line with the given number and the text after the first
  blank line, each cut at the limit.
\<close>

theorem request_readers_correct:
  assumes "NUL \<in> set s" "0 < n" "n < length t"
  shows "\<exists>m u l b. getmethod s t n = Inr m \<and> cstr m = take n (token (cstr s)) \<and>
    geturi s t n = Inr u \<and> cstr u = take n (second_word (cstr s)) \<and>
    getln s t n k = Inr l \<and> cstr l = take n (line_at k (cstr s)) \<and>
    getbody s t n = Inr b \<and> cstr b = take n (after_blank (cstr s))"
proof -
  have fits: "\<exists>r. put_str (take n w) t = Inr r \<and> cstr r = take n w" if "NUL \<notin> set w" for w
  proof -
    have "length (take n w) < length t" using assms(3) by (simp add: min_def)
    moreover have "NUL \<notin> set (take n w)" using that by (auto dest: in_set_takeD)
    ultimately show ?thesis by (simp add: put_str_fits)
  qed
  have sub: "NUL \<notin> set (token (cstr s))" "NUL \<notin> set (second_word (cstr s))"
    using cstr_no_NUL [of s] set_tl_dropWhile [of "\<lambda>c. c \<noteq> CHR '' ''" "cstr s"]
    by (auto simp: token_def second_word_def dest: set_takeWhileD)
  have line: "set (line_at k w) \<subseteq> set w" for w
  proof (induction k w rule: line_at.induct)
    case (1 w)
    then show ?case by (auto dest: set_takeWhileD)
  next
    case (2 l w)
    then show ?case using set_tl_dropWhile [of "\<lambda>c. \<not> eol c" w] by auto
  qed
  have blank: "set (after_blank w) \<subseteq> set w" for w
    by (induction w rule: after_blank.induct) auto
  have sub2: "NUL \<notin> set (line_at k (cstr s))" "NUL \<notin> set (after_blank (cstr s))"
    using line [of "cstr s"] blank [of "cstr s"] cstr_no_NUL [of s] by blast+
  show ?thesis
    unfolding getmethod_eq [OF assms(1)] geturi_eq [OF assms(1)] getln_eq [OF assms(1)] getbody_eq [OF assms(1,2)]
    using fits [OF sub(1)] fits [OF sub(2)] fits [OF sub2(1)] fits [OF sub2(2)] by blast
qed

theorem request_readers_correct_witness:
  "\<exists>m. getmethod (''GET /a HTTP/1.1'' @ [NUL]) (replicate 10 NUL) 9 = Inr m \<and> cstr m = ''GET''"
proof -
  have "NUL \<in> set (''GET /a HTTP/1.1'' @ [NUL])" by simp
  moreover have "cstr (''GET /a HTTP/1.1'' @ [NUL]) = ''GET /a HTTP/1.1''" by (rule cstr_append_NUL) simp
  moreover have "take 9 (token ''GET /a HTTP/1.1'') = ''GET''" by (simp add: token_def eol_def)
  ultimately show ?thesis
    using request_readers_correct [of "''GET /a HTTP/1.1'' @ [NUL]" 9 "replicate 10 NUL" 0] by auto
qed

text \<open>
  With the size of the target as the limit, as every caller passes it, a word that does
  not fit writes its NUL one byte past the target.
\<close>

theorem sizeof_limit_overflows:
  assumes "NUL \<in> set s"
  shows "(getmethod s t (length t) = Inl OutOfBounds \<longleftrightarrow> length t \<le> length (token (cstr s))) \<and>
    (geturi s t (length t) = Inl OutOfBounds \<longleftrightarrow> length t \<le> length (second_word (cstr s))) \<and>
    (getln s t (length t) k = Inl OutOfBounds \<longleftrightarrow> length t \<le> length (line_at k (cstr s)))"
  using assms by (auto simp: getmethod_eq geturi_eq getln_eq put_str_def min_def)

theorem sizeof_limit_overflows_witness:
  "getmethod (''DELETE / HTTP/1.1'' @ [NUL]) (replicate 5 NUL) 5 = Inl OutOfBounds"
proof -
  have "cstr (''DELETE / HTTP/1.1'' @ [NUL]) = ''DELETE / HTTP/1.1''" by (rule cstr_append_NUL) simp
  moreover have "5 \<le> length (token ''DELETE / HTTP/1.1'')" by (simp add: token_def eol_def)
  ultimately show ?thesis
    using sizeof_limit_overflows [of "''DELETE / HTTP/1.1'' @ [NUL]" "replicate 5 NUL" 0] by simp
qed

text \<open>
  The function \<^verbatim>\<open>getjsonv\<close> finds the string value of the first occurrence of a key and leaves it as
  a C string in a cleared target, but only if the target is longer than the position of the
  value in the source: the terminating NUL is written at the source index, and a shorter
  target overflows even when the value fits.
\<close>

theorem getjsonv_value:
  assumes "s = pre @ key @ [CHR 0x22, CHR '':'', CHR 0x22] @ v @ CHR 0x22 # rest"
    and "\<forall>m < length pre. take (length key) (drop m s) \<noteq> key"
    and "CHR 0x22 \<notin> set v" "NUL \<notin> set v" "length v \<le> n" "length v < m"
  shows "if length pre + length key + 3 + length v < m
    then \<exists>t. getjsonv s (replicate m NUL) key n = Inr (t, []) \<and> cstr t = v
    else getjsonv s (replicate m NUL) key n = Inl OutOfBounds"
proof -
  let ?i = "length pre + length key + 3 + length v"
  have run: "getjsonv s (replicate m NUL) key n =
      c_bind (store (v @ replicate (m - length v) NUL) ?i NUL) (\<lambda>t. Inr (t, []))"
    using json_lookup [OF assms(1-3,5), of "replicate m NUL"] assms(6) by (simp add: getjsonv_def)
  have "(v @ replicate (m - length v) NUL)[?i := NUL] = v @ replicate (m - length v) NUL"
    by (cases "?i < m") (auto simp: list_update_append list_update_same_conv list_update_beyond)
  moreover have "replicate (m - length v) NUL = NUL # replicate (m - Suc (length v)) NUL"
    using assms(6) by (metis Suc_diff_Suc replicate_Suc)
  ultimately show ?thesis
    using assms(4,6) by (simp add: run store_def)
qed

theorem getjsonv_value_witness:
  "getjsonv (''{'' @ [CHR 0x22] @ ''id'' @ [CHR 0x22, CHR '':'', CHR 0x22] @ ''7'' @ [CHR 0x22] @ ''}'')
     (replicate 4 NUL) ''id'' 4 = Inl OutOfBounds"
proof -
  let ?s = "''{'' @ [CHR 0x22] @ ''id'' @ [CHR 0x22, CHR '':'', CHR 0x22] @ ''7'' @ [CHR 0x22] @ ''}''"
  have "?s = (''{'' @ [CHR 0x22]) @ ''id'' @ [CHR 0x22, CHR '':'', CHR 0x22] @ ''7'' @ CHR 0x22 # ''}''" by simp
  moreover have "\<forall>m < length (''{'' @ [CHR 0x22]). take (length ''id'') (drop m ?s) \<noteq> ''id''"
    by (auto simp: less_Suc_eq)
  ultimately show ?thesis
    using getjsonv_value [of ?s "''{'' @ [CHR 0x22]" "''id''" "''7''" "''}''" 4 4] by simp
qed

end
