(* ===== verification/HttpServer.thy ===== *)
theory HttpServer
  imports C_IO HttpUtil DtParser
begin

text \<open>
  The HTTP server and client of \<^verbatim>\<open>src/cpp/http\<close>: \<^verbatim>\<open>dispatcher.c\<close>, \<^verbatim>\<open>http.c\<close>,
  \<^verbatim>\<open>peer.c\<close>, \<^verbatim>\<open>server.c\<close> and \<^verbatim>\<open>client.c\<close>, over the readers of \<open>HttpUtil\<close> and the parser
  of \<open>DtParser\<close>.  Buffers are lists of their size, cleared as in the source.  The time of
  a log line is a reply of the environment.  An array of an inner block keeps its contents
  until the function returns.  The accept loop hands each thread the address of one
  variable; \<open>srv_step\<close> is the interleaving of the loop with the start of the threads.
\<close>

section \<open>Buffers and log lines\<close>

text \<open>\<^verbatim>\<open>sprintf\<close> into a cleared buffer, and \<^verbatim>\<open>strncat\<close> of at most \<open>m\<close> characters.\<close>

definition sprintf_buf :: "nat \<Rightarrow> string \<Rightarrow> string c_result" where
  "sprintf_buf cap s = (if length s < cap then Inr (s @ replicate (cap - length s) NUL) else Inl OutOfBounds)"

definition strncat_buf :: "string \<Rightarrow> string \<Rightarrow> string c_result" where
  "strncat_buf b x =
     c_bind (c_strlen b) (\<lambda>l.
       if l + length x < length b then Inr (take l b @ x @ NUL # drop (l + length x + 1) b) else Inl OutOfBounds)"

text \<open>The bytes a call wrote to a cleared buffer of \<open>cap\<close> bytes.\<close>

definition received :: "nat \<Rightarrow> reply \<Rightarrow> string" where
  "received cap r = (let d = take cap (take (nat (ret r)) (data r)) in d @ replicate (cap - length d) NUL)"

definition crlf :: string where
  "crlf = [CHR 0x0D, CHR 0x0A]"

definition log_line :: "string \<Rightarrow> nat \<Rightarrow> string \<Rightarrow> unit prog" where
  "log_line file line msg =
     bind (invoke ''gettime'' []) (\<lambda>r.
       print (''['' @ data r @ ''][''  @ file @ ''-'' @ show_nat line @ '']'' @ msg))"

text \<open>\<^verbatim>\<open>strncmp (s, pre, strlen (pre)) == 0\<close> on buffers that hold C strings.\<close>

definition has_prefix :: "string \<Rightarrow> string \<Rightarrow> bool" where
  "has_prefix pre s \<longleftrightarrow> take (length pre) s = pre"

section \<open>\<^verbatim>\<open>dispatcher.c\<close>\<close>

definition get_json :: "string \<Rightarrow> string \<Rightarrow> string" where
  \<open>get_json uri now = ''{"uri":"'' @ uri @ ''","timestamp":"'' @ now @ ''","status":200}''\<close>

definition curl_line :: "string \<Rightarrow> string \<Rightarrow> string \<Rightarrow> string" where
  \<open>curl_line method uri body =
     ''curl -X'' @ method @ '' -s --noproxy '' @ [CHR 0x27] @ ''*'' @ [CHR 0x27] @ '' '' @ [CHR 0x27] @
     ''http://127.0.0.1:8083'' @ uri @ [CHR 0x27] @ '' -H '' @ [CHR 0x27] @
     ''Content-Type:application/json;charset=UTF-8'' @ [CHR 0x27] @ '' -d'' @ [CHR 0x27] @ body @ [CHR 0x27] @ [CHR 0x0A]\<close>

text \<open>\<^verbatim>\<open>http/dtparser.c\<close> is the text of \<^verbatim>\<open>dtprs/dtparser.c\<close> with this entry.\<close>

definition parsedt :: "string \<Rightarrow> string c_result" where
  "parsedt s = prs_up_rpt_dt s"

text \<open>The response body: \<open>None\<close> is the pointer \<^verbatim>\<open>respbd\<close> left unset.\<close>

definition response_body :: "string \<Rightarrow> string \<Rightarrow> string \<Rightarrow> string option prog" where
  \<open>response_body method uri body =
     (if has_prefix ''GET'' method then
        bind (invoke ''gettime'' []) (\<lambda>r.
        bind (lift (sprintf_buf 512 (get_json uri (data r)))) (\<lambda>tmp. return (Some (cstr tmp))))
      else if has_prefix ''/prs/dt'' uri then
        bind (log_line ''dispatcher.c'' 42 (''/prs/dt matched'' @ [CHR 0x0A])) (\<lambda>_.
        bind (lift (parsedt body)) (\<lambda>r. return (Some r)))
      else if has_prefix ''/up/dt'' uri then return (Some (cstr (replicate 1024 NUL)))
      else if has_prefix ''/dn/dt'' uri then return None
      else return (Some ''{"status":200}''))\<close>

definition http_response :: "string \<Rightarrow> string" where
  "http_response bd =
     ''HTTP/1.1 200 OK'' @ crlf @ ''Content-Length: '' @ show_nat (length bd) @ crlf @ crlf @ bd"

text \<open>The request buffer, the size of the response buffer; the result is the response and its length.\<close>

definition dispatch :: "string \<Rightarrow> nat \<Rightarrow> (string \<times> int) prog" where
  "dispatch req cap =
     bind (lift (getln req (replicate 100 NUL) 100 0)) (\<lambda>l0.
     bind (lift (getbody req (replicate 1024 NUL) 1024)) (\<lambda>body.
     bind (lift (getmethod l0 (replicate 5 NUL) 5)) (\<lambda>method.
     bind (lift (geturi l0 (replicate 50 NUL) 50)) (\<lambda>uri.
     bind (log_line ''dispatcher.c'' 27 (curl_line (cstr method) (cstr uri) (cstr body))) (\<lambda>_.
     bind (response_body (cstr method) (cstr uri) (cstr body)) (\<lambda>respbd.
     case respbd of
       None \<Rightarrow> fault Indeterminate
     | Some bd \<Rightarrow>
         bind (lift (sprintf_buf cap (http_response (cstr bd)))) (\<lambda>resp.
           return (cstr resp, int (length (cstr resp))))))))))"

section \<open>\<^verbatim>\<open>peer.c\<close> and \<^verbatim>\<open>http.c\<close>\<close>

text \<open>One pass of the receive loop: the number of bytes so far and the response buffer.\<close>

definition recv_pass :: "int \<Rightarrow> int \<times> string \<Rightarrow> ((int \<times> string) + (int \<times> string)) prog" where
  "recv_pass sock = (\<lambda>(n, resp).
     bind (invoke ''recv'' [I sock, I 256]) (\<lambda>r.
     let m = ret r; buf = received 256 r; n = n + m in
     bind (lift (strncat_buf resp (if m < 0 then cstr buf else take (nat m) (cstr buf)))) (\<lambda>resp.
     if m \<noteq> 256 then
       bind (log_line ''peer.c'' 48 (''rcv finish'' @ [CHR 0x0A])) (\<lambda>_. return (Inr (n, resp)))
     else return (Inl (n, resp)))))"

definition error_text :: "reply \<Rightarrow> string" where
  "error_text r = show_int (errno r) @ '','' @ data r @ [CHR 0x0A]"

text \<open>\<open>fuel\<close> bounds the passes of the receive loop; the result is the return value and the buffer.\<close>

definition writemsg :: "nat \<Rightarrow> string \<Rightarrow> int \<Rightarrow> string \<Rightarrow> string \<Rightarrow> (int \<times> string) prog" where
  "writemsg fuel ip port req resp =
     bind (invoke ''socket'' [S ''AF_INET'', S ''SOCK_STREAM'']) (\<lambda>s.
     let sock = ret s in
     bind (if sock < 0 then log_line ''peer.c'' 17 (''socket error, cause '' @ error_text s) else return ()) (\<lambda>_.
     bind (invoke ''connect'' [I sock, S ip, I port]) (\<lambda>c.
     if ret c < 0 then
       bind (log_line ''peer.c'' 28 (''connect error, cause '' @ error_text c)) (\<lambda>_. return (1, resp))
     else
       bind (log_line ''peer.c'' 32 (''connected to '' @ ip @ '':'' @ show_int port @ [CHR 0x0A])) (\<lambda>_.
       bind (do_call ''write'' [I sock, S req]) (\<lambda>_.
       bind (loop fuel (recv_pass sock) (0, resp)) (\<lambda>(n, resp).
       bind (lift (if n < 0 then Inl OutOfBounds else store resp (nat n) NUL)) (\<lambda>resp.
       bind (do_call ''close'' [I sock]) (\<lambda>_. return (n, resp)))))))))"

definition http_header :: "string \<Rightarrow> string \<Rightarrow> string \<Rightarrow> int \<Rightarrow> string" where
  "http_header method path ip port =
     method @ '' '' @ path @ '' HTTP/1.1'' @ crlf @ ''Host: '' @ ip @ '':'' @ show_int port @ crlf @
     ''Content-Type: application/json'' @ crlf"

definition debug_line :: "string \<Rightarrow> string \<Rightarrow> int \<Rightarrow> string \<Rightarrow> string \<Rightarrow> string" where
  "debug_line method ip port path body =
     ''curl -X'' @ method @ '' --noproxy '' @ [CHR 0x27] @ ''*'' @ [CHR 0x27] @ '' '' @ [CHR 0x27] @ ''http://'' @ ip @
     '':'' @ show_int port @ path @ [CHR 0x27] @ '' -H '' @ [CHR 0x27] @
     ''Content-Type: application/json;charset=UTF-8'' @ [CHR 0x27] @ '' -d'' @ [CHR 0x27] @ body @ [CHR 0x27]"

definition request_text :: "string \<Rightarrow> string \<Rightarrow> string \<Rightarrow> string" where
  "request_text header method body =
     (if has_prefix ''GET'' method then header @ ''Content-Length:0'' @ crlf @ crlf
      else header @ ''Content-Length:'' @ show_nat (length body) @ crlf @ crlf @ body)"

definition req :: "nat \<Rightarrow> string \<Rightarrow> int \<Rightarrow> string \<Rightarrow> string \<Rightarrow> string \<Rightarrow> string \<Rightarrow> nat \<Rightarrow> nat \<Rightarrow> string prog" where
  "req fuel ip port method path body resp n bodyline =
     bind (lift (sprintf_buf 1024 (debug_line method ip port path body))) (\<lambda>debug.
     bind (lift (sprintf_buf 512 (http_header method path ip port))) (\<lambda>header.
     bind (lift (sprintf_buf 1024 (request_text (cstr header) method body))) (\<lambda>rq.
     bind (log_line ''http.c'' 63 (cstr debug @ [CHR 0x0A])) (\<lambda>_.
     bind (writemsg fuel ip port (cstr rq) (replicate 4096 NUL)) (\<lambda>(_, raw_resp).
     bind (lift (getbody raw_resp (replicate 4096 NUL) 4096)) (\<lambda>raw_body.
       lift (getln raw_body resp n bodyline)))))))"

text \<open>\<^verbatim>\<open>decdt\<close> passes \<^verbatim>\<open>sizeof (resp)\<close>, the size of a pointer.\<close>

definition decdt :: "nat \<Rightarrow> string \<Rightarrow> string prog" where
  \<open>decdt fuel resp =
     bind (lift (sprintf_buf 1024
       (''{"data":"123","transId":"T20211212091414-123","deviceId":"","timestamp":1635756025000}''))) (\<lambda>bd.
     bind (req fuel ''11.10.36.1'' 19061 ''POST'' ''/industry/api/upMsgProcess'' (cstr bd) resp 8 2) (\<lambda>resp.
     bind (log_line ''dispatcher.c'' 84 (''resp body'' @ [CHR 0x0A] @ cstr resp @ [CHR 0x0A])) (\<lambda>_. return resp)))\<close>

text \<open>\<^verbatim>\<open>client.c\<close>\<close>

definition clientreq :: "nat \<Rightarrow> int prog" where
  "clientreq fuel =
     bind (req fuel ''127.0.0.1'' 8083 ''POST'' ''/'' ''123'' (replicate 8096 NUL) 8096 0) (\<lambda>resp.
     bind (log_line ''client.c'' 19 (''resp body'' @ [CHR 0x0A] @ cstr resp @ [CHR 0x0A])) (\<lambda>_. return 0))"

section \<open>\<^verbatim>\<open>server.c\<close>\<close>

definition rcvdata :: "int \<Rightarrow> unit prog" where
  "rcvdata cfd =
     bind (invoke ''read'' [I cfd, I 1024]) (\<lambda>r.
     let buf = received 1024 r in
     bind (lift (c_strlen buf)) (\<lambda>_.
     bind (log_line ''server.c'' 81 ('' '' @ show_int (ret r) @ '' bytes recieved'' @ [CHR 0x0A] @ cstr buf @ [CHR 0x0A])) (\<lambda>_.
     bind (dispatch buf 1024) (\<lambda>(resp, len).
     bind (do_call ''write'' [I cfd, S resp]) (\<lambda>_.
     bind (log_line ''server.c'' 85 (''return msg'' @ [CHR 0x0A] @ resp @ [CHR 0x0A])) (\<lambda>_.
     bind (do_call ''close'' [I cfd]) (\<lambda>_.
       log_line ''server.c'' 87 (''connection closed'' @ [CHR 0x0A]))))))))"

text \<open>
  The accept loop; \<^verbatim>\<open>ECONNABORTED\<close> and \<^verbatim>\<open>EINTR\<close> are parameters of the platform, here the
  Linux values.  The thread receives the address of \<^verbatim>\<open>cfd\<close>.
\<close>

definition accept_pass :: "int \<Rightarrow> unit \<Rightarrow> (unit + int) prog" where
  "accept_pass sfd = (\<lambda>_.
     bind (invoke ''accept'' [I sfd]) (\<lambda>r.
     if ret r < 0 then
       bind (log_line ''server.c'' 53 (''accept error, cause '' @ error_text r)) (\<lambda>_.
       if errno r = 103 \<or> errno r = 4 then return (Inl ())
       else
         bind (do_call ''close'' [I sfd]) (\<lambda>_.
         bind (log_line ''server.c'' 59 (''server closed'' @ [CHR 0x0A])) (\<lambda>_. return (Inr (- 1)))))
     else
       bind (log_line ''server.c'' 64 ('' '' @ data r @ '' connected'' @ [CHR 0x0A])) (\<lambda>_.
       bind (do_call ''pthread_create'' [S ''rcvdata'', S ''&cfd'']) (\<lambda>_.
       bind (do_call ''pthread_detach'' []) (\<lambda>_. return (Inl ()))))))"

definition startsrv :: "nat \<Rightarrow> int prog" where
  "startsrv fuel =
     bind (invoke ''socket'' [S ''AF_INET'', S ''SOCK_STREAM'']) (\<lambda>s.
     if ret s < 0 then
       bind (log_line ''server.c'' 27 (''create socket error'' @ [CHR 0x0A])) (\<lambda>_. return (- 1))
     else
       let sfd = ret s in
       bind (do_call ''setsockopt'' [I sfd, S ''SO_REUSEADDR'', I 1]) (\<lambda>_.
       bind (invoke ''bind'' [I sfd, I 8083]) (\<lambda>b.
       if ret b < 0 then
         bind (log_line ''server.c'' 38 (''bind error, port 8083, cause '' @ error_text b)) (\<lambda>_.
         bind (do_call ''close'' [I sfd]) (\<lambda>_. return (- 1)))
       else
         bind (do_call ''listen'' [I sfd, I 10]) (\<lambda>_.
         bind (log_line ''server.c'' 44 (''listening 8083'' @ [CHR 0x0A])) (\<lambda>_.
           loop fuel (accept_pass sfd) ())))))"

definition server_main :: "nat \<Rightarrow> int prog" where
  "server_main fuel =
     bind (log_line ''server.c'' 112 (''server starting'' @ [CHR 0x0A])) (\<lambda>_.
     bind (startsrv fuel) (\<lambda>_. return 0))"

text \<open>
  \<^verbatim>\<open>getresponse\<close> appends to \<open>resp\<close> and has no return statement; its second text is a macro
  that no header defines, here the argument \<open>msg\<close>.
\<close>

definition getresponse :: "string \<Rightarrow> string \<Rightarrow> string \<Rightarrow> string prog" where
  "getresponse msg buf resp =
     bind (lift (getln buf (replicate 100 NUL) 100 0)) (\<lambda>l0.
     bind (lift (getln buf (replicate 1024 NUL) 1024 2)) (\<lambda>body.
     bind (lift (getmethod l0 (replicate 5 NUL) 5)) (\<lambda>method.
     bind (lift (geturi l0 (replicate 50 NUL) 50)) (\<lambda>uri.
     bind (log_line ''server.c'' 101 (''method '' @ cstr method @ '', uri '' @ cstr uri @ [CHR 0x0A])) (\<lambda>_.
       lift (strncat_buf resp (if \<not> has_prefix ''/prs/dt'' (cstr uri) then ''prsdt'' else msg)))))))"

section \<open>The accept loop and its threads\<close>

text \<open>
  The calls of \<^verbatim>\<open>server.c\<close> on descriptors, read off a trace: what \<^verbatim>\<open>accept\<close> and \<^verbatim>\<open>pthread_create\<close>
  returned, and the descriptors read, written and closed.
\<close>

datatype srv_event = Accepted int int | Created int | Reads int | Writes int | Closes int

fun call_event :: "call \<times> reply \<Rightarrow> srv_event list" where
  "call_event (Call f xs, r) =
     (if f = ''accept'' then [Accepted (ret r) (errno r)]
      else if f = ''pthread_create'' then [Created (ret r)]
      else case xs of
        I fd # _ \<Rightarrow>
          (if f = ''read'' then [Reads fd] else if f = ''write'' then [Writes fd] else if f = ''close'' then [Closes fd] else [])
      | _ \<Rightarrow> [])"

definition srv_events :: "trace \<Rightarrow> srv_event list" where
  "srv_events tr = concat (map call_event tr)"

text \<open>
  The interleaving of the loop in \<^verbatim>\<open>startsrv\<close> with its threads in \<^verbatim>\<open>rcvdata\<close>.  \<open>cfd\<close> is the variable of
  the loop, which every thread reads through its address: a successful \<^verbatim>\<open>accept\<close> stores a
  descriptor in it, a failing one -1.  \<open>creating\<close> holds between \<^verbatim>\<open>accept\<close> and \<^verbatim>\<open>pthread_create\<close>, whose
  failure the loop ignores; \<open>waiting\<close> counts the threads that have not read the variable yet and
  \<open>loaded\<close> lists what they have read.  A running thread is its number, its descriptor and how many
  of its calls \<^verbatim>\<open>read\<close> and \<^verbatim>\<open>write\<close> it has made.  Connections are numbered in the order they were
  accepted: \<open>fds\<close> has their descriptors and \<open>conns\<close> the connections behind the open descriptors,
  so that a descriptor is free again after \<^verbatim>\<open>close\<close>.  \<open>answers\<close> lists which thread has answered which
  connection.  When \<^verbatim>\<open>startsrv\<close> returns, the process ends with all its threads.
\<close>

record srv_state =
  cfd :: int
  creating :: bool
  down :: bool
  waiting :: nat
  loaded :: "int list"
  threads :: "(nat \<times> int \<times> nat) list"
  conns :: "int \<rightharpoonup> nat"
  fds :: "int list"
  answers :: "(nat \<times> nat option) list"

definition srv_start :: srv_state where
  "srv_start = \<lparr>cfd = - 1, creating = False, down = False, waiting = 0, loaded = [], threads = [],
     conns = Map.empty, fds = [], answers = []\<rparr>"

inductive srv_step :: "srv_state \<Rightarrow> srv_state \<Rightarrow> bool" where
  accept_ok: "\<not> down s \<Longrightarrow> \<not> creating s \<Longrightarrow> 0 \<le> fd \<Longrightarrow> conns s fd = None \<Longrightarrow>
    srv_step s (s\<lparr>cfd := fd, creating := True, conns := (conns s)(fd \<mapsto> length (fds s)), fds := fds s @ [fd]\<rparr>)"
| accept_again: "\<not> down s \<Longrightarrow> \<not> creating s \<Longrightarrow> srv_step s (s\<lparr>cfd := - 1\<rparr>)"
| accept_error: "\<not> down s \<Longrightarrow> \<not> creating s \<Longrightarrow> srv_step s (s\<lparr>cfd := - 1, down := True\<rparr>)"
| create_ok: "\<not> down s \<Longrightarrow> creating s \<Longrightarrow> srv_step s (s\<lparr>creating := False, waiting := Suc (waiting s)\<rparr>)"
| create_error: "\<not> down s \<Longrightarrow> creating s \<Longrightarrow> srv_step s (s\<lparr>creating := False\<rparr>)"
| thread_loads: "\<not> down s \<Longrightarrow> waiting s = Suc n \<Longrightarrow>
    srv_step s (s\<lparr>waiting := n, loaded := loaded s @ [cfd s], threads := threads s @ [(length (loaded s), cfd s, 0)]\<rparr>)"
| thread_reads: "\<not> down s \<Longrightarrow> threads s = xs @ (i, fd, 0) # ys \<Longrightarrow> srv_step s (s\<lparr>threads := xs @ (i, fd, 1) # ys\<rparr>)"
| thread_writes: "\<not> down s \<Longrightarrow> threads s = xs @ (i, fd, 1) # ys \<Longrightarrow>
    srv_step s (s\<lparr>threads := xs @ (i, fd, 2) # ys, answers := answers s @ [(i, conns s fd)]\<rparr>)"
| thread_closes: "\<not> down s \<Longrightarrow> threads s = xs @ (i, fd, 2) # ys \<Longrightarrow>
    srv_step s (s\<lparr>threads := xs @ ys, conns := (conns s)(fd := None)\<rparr>)"

inductive srv_reach :: "srv_state \<Rightarrow> bool" where
  start: "srv_reach srv_start"
| step: "srv_reach s \<Longrightarrow> srv_step s s' \<Longrightarrow> srv_reach s'"

text \<open>
  Steps that do not race: the variable is written only when no thread still has to read it,
  and every \<^verbatim>\<open>pthread_create\<close> succeeds.
\<close>

definition calm :: "srv_state \<Rightarrow> srv_state \<Rightarrow> bool" where
  "calm s s' \<longleftrightarrow> ((cfd s', fds s') \<noteq> (cfd s, fds s) \<longrightarrow> waiting s = 0) \<and>
     (creating s \<and> \<not> creating s' \<longrightarrow> waiting s' = Suc (waiting s))"

inductive calm_reach :: "srv_state \<Rightarrow> bool" where
  calm_start: "calm_reach srv_start"
| calm_step: "calm_reach s \<Longrightarrow> srv_step s s' \<Longrightarrow> calm s s' \<Longrightarrow> calm_reach s'"

section \<open>Responses\<close>

lemma show_nat_no_NUL: "NUL \<notin> set (show_nat n)"
proof (induction n rule: show_nat.induct)
  case (1 n)
  have digit: "digit_char d \<noteq> NUL" if "d < 10" for d
  proof
    assume "digit_char d = NUL"
    then have "of_char (digit_char d) = (0 :: nat)" by simp
    with that show False by (simp add: digit_char_def)
  qed
  show ?case
  proof (cases "n < 10")
    case True
    with digit [of n] show ?thesis by (subst show_nat.simps) auto
  next
    case False
    with 1 digit [of "n mod 10"] show ?thesis by (subst show_nat.simps) auto
  qed
qed

lemma http_response_no_NUL: "NUL \<notin> set bd \<Longrightarrow> NUL \<notin> set (http_response bd)"
  by (simp add: http_response_def crlf_def show_nat_no_NUL)

lemma sprintf_buf_cstr: "sprintf_buf cap s = Inr b \<Longrightarrow> NUL \<notin> set s \<Longrightarrow> cstr b = s \<and> length s < cap"
proof -
  assume b: "sprintf_buf cap s = Inr b" and s: "NUL \<notin> set s"
  then have "length s < cap" "b = s @ replicate (cap - length s) NUL"
    by (auto simp: sprintf_buf_def split: if_splits)
  moreover from this have "cap - length s = Suc (cap - Suc (length s))" by simp
  ultimately show ?thesis using s by simp
qed

lemma has_prefix_append: "has_prefix p s \<longleftrightarrow> (\<exists>r. s = p @ r)"
  unfolding has_prefix_def by (metis append_eq_conv_conj append_take_drop_id)

section \<open>Requests the dispatcher does not survive\<close>

text \<open>A request within the limits of the buffers, as its parts.\<close>

definition fits :: "string \<Rightarrow> bool" where
  "fits rq \<longleftrightarrow> NUL \<in> set rq \<and> length (line_at 0 (cstr rq)) < 100 \<and> length (after_blank (cstr rq)) < 1024"

lemma put_str_replicate:
  assumes "length w < m" "NUL \<notin> set w"
  shows "\<exists>b. put_str w (replicate m NUL) = Inr b \<and> cstr b = w \<and> NUL \<in> set b"
proof -
  have "\<exists>b. put_str w (replicate m NUL) = Inr b" using assms(1) by (simp add: put_str_def)
  with put_str_cstr assms(2) show ?thesis by blast
qed

lemma after_blank_sub: "set (after_blank w) \<subseteq> set w"
  by (induction w rule: after_blank.induct) auto

lemma dispatch_head:
  assumes "fits rq"
  obtains l0 body where "getln rq (replicate 100 NUL) 100 0 = Inr l0" "NUL \<in> set l0" "cstr l0 = line_at 0 (cstr rq)"
    "getbody rq (replicate 1024 NUL) 1024 = Inr body" "cstr body = after_blank (cstr rq)"
proof -
  have nul: "NUL \<in> set rq" using assms by (simp add: fits_def)
  have "NUL \<notin> set (line_at 0 (cstr rq))" using cstr_no_NUL [of rq] by (auto dest: set_takeWhileD)
  moreover have "take 100 (line_at 0 (cstr rq)) = line_at 0 (cstr rq)" using assms by (simp add: fits_def)
  ultimately obtain l0 where l0: "getln rq (replicate 100 NUL) 100 0 = Inr l0" "cstr l0 = line_at 0 (cstr rq)" "NUL \<in> set l0"
    using put_str_replicate [of "line_at 0 (cstr rq)" 100] assms getln_eq [OF nul, of "replicate 100 NUL" 100 0]
    by (auto simp: fits_def)
  have "NUL \<notin> set (after_blank (cstr rq))" using after_blank_sub cstr_no_NUL by blast
  moreover have "take 1024 (after_blank (cstr rq)) = after_blank (cstr rq)" using assms by (simp add: fits_def)
  ultimately obtain body where "getbody rq (replicate 1024 NUL) 1024 = Inr body" "cstr body = after_blank (cstr rq)"
    using put_str_replicate [of "after_blank (cstr rq)" 1024] assms getbody_eq [OF nul, of 1024 "replicate 1024 NUL"]
    by (auto simp: fits_def)
  with l0 that show ?thesis by blast
qed

lemma dispatch_long_method:
  assumes "fits rq" "5 \<le> length (token (line_at 0 (cstr rq)))"
  shows "dispatch rq cap env tr = (tr, Fault OutOfBounds)"
proof -
  from dispatch_head [OF assms(1)] obtain l0 body where
    h: "getln rq (replicate 100 NUL) 100 0 = Inr l0" "NUL \<in> set l0" "cstr l0 = line_at 0 (cstr rq)"
      "getbody rq (replicate 1024 NUL) 1024 = Inr body" "cstr body = after_blank (cstr rq)" .
  have "getmethod l0 (replicate 5 NUL) 5 = Inl OutOfBounds"
    using getmethod_eq [OF h(2)] h(3) assms(2) by (simp add: put_str_def)
  then show ?thesis unfolding dispatch_def by (simp only: h(1,4) bind_lift_Inr bind_lift_Inl fault_eval)
qed

lemma log_line_run: "\<exists>t. log_line f l m env tr = (t, Ok ())"
  by (simp add: log_line_def print_def io_eval bind_def)

lemma dispatch_unset_body:
  assumes "fits rq" "length (token (line_at 0 (cstr rq))) < 5" "length (second_word (line_at 0 (cstr rq))) < 50"
    and "\<not> has_prefix ''GET'' (token (line_at 0 (cstr rq)))" "has_prefix ''/dn/dt'' (second_word (line_at 0 (cstr rq)))"
  shows "\<exists>t. dispatch rq cap env tr = (t, Fault Indeterminate)"
proof -
  from dispatch_head [OF assms(1)] obtain l0 body where
    h: "getln rq (replicate 100 NUL) 100 0 = Inr l0" "NUL \<in> set l0" "cstr l0 = line_at 0 (cstr rq)"
      "getbody rq (replicate 1024 NUL) 1024 = Inr body" "cstr body = after_blank (cstr rq)" .
  let ?l = "line_at 0 (cstr rq)"
  have nul: "NUL \<notin> set ?l" using h(3) cstr_no_NUL by metis
  then have "NUL \<notin> set (token ?l)" by (auto simp: token_def dest: set_takeWhileD)
  then obtain m where m: "getmethod l0 (replicate 5 NUL) 5 = Inr m" "cstr m = token ?l"
    using put_str_replicate [of "token ?l" 5] getmethod_eq [OF h(2)] h(3) assms(2) by fastforce
  have "NUL \<notin> set (second_word ?l)"
    using nul set_tl_dropWhile [of "\<lambda>c. c \<noteq> CHR '' ''" ?l] by (auto simp: second_word_def dest: set_takeWhileD)
  then obtain u where u: "geturi l0 (replicate 50 NUL) 50 = Inr u" "cstr u = second_word ?l"
    using put_str_replicate [of "second_word ?l" 50] geturi_eq [OF h(2)] h(3) assms(3) by fastforce
  obtain t where t: "log_line ''dispatcher.c'' 27 (curl_line (cstr m) (cstr u) (cstr body)) env tr = (t, Ok ())"
    using log_line_run by blast
  have diff: "\<not> has_prefix ''/prs/dt'' (second_word ?l)" "\<not> has_prefix ''/up/dt'' (second_word ?l)"
  proof -
    obtain r where r: "second_word ?l = ''/dn/dt'' @ r" using assms(5) unfolding has_prefix_append by blast
    then show "\<not> has_prefix ''/prs/dt'' (second_word ?l)" "\<not> has_prefix ''/up/dt'' (second_word ?l)"
      by (simp_all add: has_prefix_def)
  qed
  have "response_body (cstr m) (cstr u) (cstr body) = return None"
    using assms(4,5) diff by (simp add: response_body_def m(2) u(2))
  then have "dispatch rq cap env tr = (t, Fault Indeterminate)"
    unfolding dispatch_def by (simp add: h(1,4) m(1) u(1) bind_def [of "log_line ''dispatcher.c'' 27 (curl_line (cstr m) (cstr u) (cstr body))"] t fault_eval)
  then show ?thesis by blast
qed

text \<open>The branches that choose the body, and the readers of the request before them.\<close>

lemma sprintf_buf_value: "sprintf_buf cap s = Inr b \<Longrightarrow> cstr b = cstr s"
  by (cases "NUL \<in> set s")
    (auto simp: sprintf_buf_def cstr_def takeWhile_append takeWhile_eq_all_conv [THEN iffD2] split: if_splits)

lemma cstr_idle: "cstr (cstr s) = cstr s"
  using cstr_no_NUL [of s] by (simp add: cstr_def)

lemma response_body_Ok:
  assumes "response_body m u b env tr = (t, Ok (Some bd0))" "bd = cstr bd0"
  shows \<open>(if take 3 m = ''GET'' then \<exists>r. (Call ''gettime'' [], r) \<in> set t \<and>
        bd = cstr (''{"uri":"'' @ u @ ''","timestamp":"'' @ data r @ ''","status":200}'')
      else if take 7 u = ''/prs/dt'' then \<exists>r. parsedt b = Inr r \<and> bd = cstr r
      else if take 6 u = ''/up/dt'' then bd = []
      else take 6 u \<noteq> ''/dn/dt'' \<and> bd = ''{"status":200}'')\<close>
proof -
  have pre: "has_prefix ''GET'' m \<longleftrightarrow> take 3 m = ''GET''" "has_prefix ''/prs/dt'' u \<longleftrightarrow> take 7 u = ''/prs/dt''"
    "has_prefix ''/up/dt'' u \<longleftrightarrow> take 6 u = ''/up/dt''" "has_prefix ''/dn/dt'' u \<longleftrightarrow> take 6 u = ''/dn/dt''"
    by (simp_all add: has_prefix_def eval_nat_numeral)
  note body = assms(1) [unfolded response_body_def pre]
  consider "take 3 m = ''GET''" | "take 3 m \<noteq> ''GET''" "take 7 u = ''/prs/dt''" |
    "take 3 m \<noteq> ''GET''" "take 7 u \<noteq> ''/prs/dt''" "take 6 u = ''/up/dt''" |
    "take 3 m \<noteq> ''GET''" "take 7 u \<noteq> ''/prs/dt''" "take 6 u \<noteq> ''/up/dt''" by blast
  then show ?thesis
  proof cases
    case 1
    let ?c = "Call ''gettime'' []"
    from body 1 obtain tmp where "sprintf_buf 512 (get_json u (data (env tr ?c))) = Inr tmp" "bd0 = cstr tmp" "t = tr @ [(?c, env tr ?c)]"
      by (auto simp: bind_invoke return_eval lift_Ok elim!: bind_OkE)
    with 1 assms(2) show ?thesis using sprintf_buf_value [of 512 "get_json u (data (env tr ?c))" tmp]
      by (auto simp: cstr_idle get_json_def)
  next
    case 2
    from body 2 have "parsedt b = Inr bd0" by (auto simp: lift_Ok return_eval elim!: bind_OkE)
    with 2 assms(2) show ?thesis by simp
  next
    case 3
    from body 3 have "bd0 = cstr (replicate 1024 NUL)" by (auto simp: return_eval)
    with 3 assms(2) show ?thesis by (simp add: cstr_def)
  next
    case 4
    from body 4 have "take 6 u \<noteq> ''/dn/dt''" \<open>bd0 = ''{"status":200}''\<close> by (auto simp: return_eval split: if_splits)
    with 4 assms(2) show ?thesis by (simp add: cstr_def)
  qed
qed

text \<open>A method and a URI that were read whole.\<close>

lemma put_str_whole:
  assumes "put_str (take n w) (replicate n NUL) = Inr x" "NUL \<notin> set w"
  shows "cstr x = w \<and> length w < n"
proof -
  have "length (take n w) < n" using assms(1) by (simp add: put_str_def split: if_splits)
  then have "take n w = w" "length w < n" by auto
  with put_str_cstr [OF assms(1)] assms(2) show ?thesis by simp
qed

lemma words_no_NUL:
  assumes "NUL \<notin> set l"
  shows "NUL \<notin> set (token l)" "NUL \<notin> set (second_word l)"
  using assms set_tl_dropWhile [of "\<lambda>c. c \<noteq> CHR '' ''" l]
  by (auto simp: token_def second_word_def dest: set_takeWhileD)

lemma dispatch_answer:
  assumes "fits rq" "dispatch rq cap env tr = (tr', Ok (resp, n))"
    and "m = token (line_at 0 (cstr rq))" "u = second_word (line_at 0 (cstr rq))"
  obtains t bd where "length m < 5" "length u < 50" "response_body m u (after_blank (cstr rq)) env t = (tr', Ok (Some bd))"
    "resp = http_response (cstr bd)" "n = int (length resp)" "length resp < cap"
proof -
  from dispatch_head [OF assms(1)] obtain l0 body where
    h: "getln rq (replicate 100 NUL) 100 0 = Inr l0" "NUL \<in> set l0" "cstr l0 = line_at 0 (cstr rq)"
      "getbody rq (replicate 1024 NUL) 1024 = Inr body" "cstr body = after_blank (cstr rq)" .
  have nul: "NUL \<notin> set (line_at 0 (cstr rq))" using h(3) cstr_no_NUL by metis
  let ?rest = "\<lambda>respbd. case respbd of None \<Rightarrow> fault Indeterminate
      | Some b \<Rightarrow> bind (lift (sprintf_buf cap (http_response (cstr b)))) (\<lambda>resp. return (cstr resp, int (length (cstr resp))))"
  from assms(2) obtain t1 t2 t3 t4 x y bd where
    "lift (getmethod l0 (replicate 5 NUL) 5) env tr = (t1, Ok x)" "lift (geturi l0 (replicate 50 NUL) 50) env t1 = (t2, Ok y)"
    and bd: "response_body (cstr x) (cstr y) (cstr body) env t3 = (t4, Ok bd)" "?rest bd env t4 = (tr', Ok (resp, n))"
    unfolding dispatch_def h(1,4) bind_lift_Inr by (elim bind_OkE)
  then have "getmethod l0 (replicate 5 NUL) 5 = Inr x" "geturi l0 (replicate 50 NUL) 50 = Inr y" by (simp_all add: lift_Ok)
  then have xy: "cstr x = m \<and> length m < 5" "cstr y = u \<and> length u < 50"
    using put_str_whole words_no_NUL [OF nul] getmethod_eq [OF h(2)] geturi_eq [OF h(2)] h(3) assms(3,4) by auto
  from bd(2) obtain b buf where b: "bd = Some b" "sprintf_buf cap (http_response (cstr b)) = Inr buf" "resp = cstr buf"
      "n = int (length (cstr buf))" "tr' = t4"
    by (auto split: option.splits elim!: bind_OkE simp: lift_Ok io_eval)
  moreover have "cstr buf = http_response (cstr b) \<and> length (http_response (cstr b)) < cap"
    using sprintf_buf_cstr [OF b(2)] http_response_no_NUL [OF cstr_no_NUL] by simp
  ultimately show ?thesis using that [of t3 b] xy bd(1) h(5) by simp
qed

lemma rcvdata_full:
  assumes "ret (env tr (Call ''read'' [I fd, I 1024])) = 1024"
    and "data (env tr (Call ''read'' [I fd, I 1024])) = d" "length d = 1024" "NUL \<notin> set d"
  shows "\<exists>t. rcvdata fd env tr = (t, Fault OutOfBounds)"
proof -
  have "received 1024 (env tr (Call ''read'' [I fd, I 1024])) = d"
    using assms by (simp add: received_def Let_def)
  moreover have "c_strlen d = Inl OutOfBounds" using assms(4) by (simp add: c_strlen_def)
  ultimately show ?thesis by (simp add: rcvdata_def bind_invoke fault_eval)
qed

section \<open>Sockets of the client\<close>

definition closes :: "trace \<Rightarrow> int list" where
  "closes tr = concat (map (\<lambda>(c, r). case c of Call f xs \<Rightarrow>
     if f = ''close'' then (case xs of [I fd] \<Rightarrow> [fd] | _ \<Rightarrow> []) else []) tr)"

lemma closes_append [simp]: "closes (t @ u) = closes t @ closes u"
  by (simp add: closes_def)

lemma closes_one [simp]:
  "closes [(Call ''close'' [I fd], r)] = [fd]"
  "f \<noteq> ''close'' \<Longrightarrow> closes [(Call f xs, r)] = []"
  by (simp_all add: closes_def)

lemma closes_log: "log_line f l m env tr = (t, r) \<Longrightarrow> closes t = closes tr \<and> r = Ok ()"
  by (auto simp: log_line_def print_def invoke_def return_def bind_def Let_def closes_def)

lemma closes_recv:
  assumes "recv_pass sock st env tr = (t, r)"
  shows "closes t = closes tr"
proof -
  obtain n resp where st: "st = (n, resp)" by (cases st)
  let ?r = "env tr (Call ''recv'' [I sock, I 256])"
  let ?x = "strncat_buf resp (if ret ?r < 0 then cstr (received 256 ?r) else take (nat (ret ?r)) (cstr (received 256 ?r)))"
  obtain t1 where l: "log_line ''peer.c'' 48 (''rcv finish'' @ [CHR 0x0A]) env (tr @ [(Call ''recv'' [I sock, I 256], ?r)]) = (t1, Ok ())"
    using log_line_run by blast
  from closes_log [OF l] assms l show ?thesis
    by (cases ?x) (auto simp: recv_pass_def st Let_def bind_invoke io_eval bind_Ok split: if_splits)
qed

lemma closes_loop: "loop n (recv_pass sock) st env tr = (t, r) \<Longrightarrow> closes t = closes tr"
proof (induction n arbitrary: st tr)
  case (Suc n)
  obtain t1 r1 where p: "recv_pass sock st env tr = (t1, r1)" by fastforce
  with Suc closes_recv [OF p] show ?case
    by (cases r1) (auto simp: bind_Ok bind_stop io_eval split: sum.splits)
qed simp

lemma writemsg_closes:
  assumes "writemsg fuel ip port rq resp env tr = (tr', Ok (n, out))"
  shows "closes tr' = closes tr \<and> n = 1 \<and> out = resp \<or>
    closes tr' = closes tr @ [ret (env tr (Call ''socket'' [S ''AF_INET'', S ''SOCK_STREAM'']))]"
proof -
  from assms obtain s t0 t1 u1 c t2 where
    s: "invoke ''socket'' [S ''AF_INET'', S ''SOCK_STREAM''] env tr = (t0, Ok s)" and
    l: "(if ret s < 0 then log_line ''peer.c'' 17 (''socket error, cause '' @ error_text s) else return ()) env t0 = (t1, Ok u1)" and
    c: "invoke ''connect'' [I (ret s), S ip, I port] env t1 = (t2, Ok c)" and
    rest: "(if ret c < 0 then bind (log_line ''peer.c'' 28 (''connect error, cause '' @ error_text c)) (\<lambda>_. return (1, resp))
       else bind (log_line ''peer.c'' 32 (''connected to '' @ ip @ '':'' @ show_int port @ [CHR 0x0A])) (\<lambda>_.
         bind (do_call ''write'' [I (ret s), S rq]) (\<lambda>_.
         bind (loop fuel (recv_pass (ret s)) (0, resp)) (\<lambda>(n, resp).
         bind (lift (if n < 0 then Inl OutOfBounds else store resp (nat n) NUL)) (\<lambda>resp.
         bind (do_call ''close'' [I (ret s)]) (\<lambda>_. return (n, resp))))))) env t2 = (tr', Ok (n, out))"
    unfolding writemsg_def Let_def by (elim bind_OkE)
  have sock: "s = env tr (Call ''socket'' [S ''AF_INET'', S ''SOCK_STREAM''])" using s by (auto simp: invoke_eval)
  have "closes t0 = closes tr" using s by (auto simp: invoke_eval)
  moreover have "closes t1 = closes t0" using l closes_log by (auto simp: io_eval split: if_splits)
  moreover have "closes t2 = closes t1" using c by (auto simp: invoke_eval)
  ultimately have t2: "closes t2 = closes tr" by simp
  show ?thesis
  proof (cases "ret c < 0")
    case True
    with rest have "closes tr' = closes t2 \<and> n = 1 \<and> out = resp"
      by (auto elim!: bind_OkE simp: io_eval dest: closes_log)
    with t2 show ?thesis by simp
  next
    case False
    let ?k = "\<lambda>(n, resp). bind (lift (if n < 0 then Inl OutOfBounds else store resp (nat n) NUL)) (\<lambda>resp.
         bind (do_call ''close'' [I (ret s)]) (\<lambda>_. return (n, resp)))"
    from False rest have "bind (log_line ''peer.c'' 32 (''connected to '' @ ip @ '':'' @ show_int port @ [CHR 0x0A])) (\<lambda>_.
         bind (do_call ''write'' [I (ret s), S rq]) (\<lambda>_.
         bind (loop fuel (recv_pass (ret s)) (0, resp)) ?k)) env t2 = (tr', Ok (n, out))" by simp
    then obtain t3 u3 t4 u4 p t5 where
      3: "log_line ''peer.c'' 32 (''connected to '' @ ip @ '':'' @ show_int port @ [CHR 0x0A]) env t2 = (t3, Ok u3)"
      and 4: "do_call ''write'' [I (ret s), S rq] env t3 = (t4, Ok u4)"
      and 5: "loop fuel (recv_pass (ret s)) (0, resp) env t4 = (t5, Ok p)"
      and k: "?k p env t5 = (tr', Ok (n, out))"
      by (elim bind_OkE)
    obtain m b where p: "p = (m, b)" by (cases p)
    from k [unfolded p prod.case] obtain b2 t6 where
      6: "lift (if m < 0 then Inl OutOfBounds else store b (nat m) NUL) env t5 = (t6, Ok b2)"
      and 7: "bind (do_call ''close'' [I (ret s)]) (\<lambda>_. return (m, b2)) env t6 = (tr', Ok (n, out))"
      by (rule bind_OkE)
    have "closes t3 = closes t2" using closes_log [OF 3] by simp
    moreover have "closes t4 = closes t3" using 4 by (auto simp: do_call_def bind_def invoke_def Let_def return_def)
    moreover have "closes t5 = closes t4" by (rule closes_loop [OF 5])
    moreover have "t6 = t5" using 6 by (simp add: lift_Ok)
    moreover have "closes tr' = closes t6 @ [ret s]" using 7 by (auto simp: bind_do_call io_eval)
    ultimately show ?thesis using t2 sock by auto
  qed
qed

section \<open>The threads of the server\<close>

lemma srv_events_simps [simp]:
  "srv_events [] = []" "srv_events (t @ u) = srv_events t @ srv_events u"
  "srv_events ((c, r) # t) = call_event (c, r) @ srv_events t"
  by (simp_all add: srv_events_def)

lemma log_events: "log_line f l m env tr = (t, r) \<Longrightarrow> srv_events t = srv_events tr \<and> r = Ok ()"
  by (auto simp: log_line_def elim!: runE)

text \<open>The calls of a pass of the accept loop and of a thread are the steps of the relation.\<close>

lemma accept_pass_events:
  assumes "accept_pass sfd () env tr = (t, Ok y)" "r = env tr (Call ''accept'' [I sfd])"
  shows "if ret r < 0 then
      (if errno r = 103 \<or> errno r = 4 then srv_events t = srv_events tr @ [Accepted (ret r) (errno r)] \<and> y = Inl ()
       else srv_events t = srv_events tr @ [Accepted (ret r) (errno r), Closes sfd] \<and> y = Inr (- 1))
    else \<exists>c. srv_events t = srv_events tr @ [Accepted (ret r) (errno r), Created c] \<and> y = Inl ()"
  using assms unfolding accept_pass_def bind_invoke assms(2) [symmetric]
  by (auto elim!: runE bind_OkE dest!: log_events)

lemma response_body_events:
  "response_body m u b env tr = (t, Ok x) \<Longrightarrow> srv_events t = srv_events tr"
  unfolding response_body_def by (auto elim!: runE bind_OkE simp: lift_Ok return_eval invoke_eval dest!: log_events)

lemma dispatch_events:
  assumes "dispatch rq cap env tr = (t, Ok x)"
  shows "srv_events t = srv_events tr"
proof -
  from assms obtain l b m u t1 t2 where 
    1: "log_line ''dispatcher.c'' 27 (curl_line m u b) env tr = (t1, Ok ())"
    and 2: "response_body m u b env t1 = (t2, Ok l)" and 3: "t2 = t"
    unfolding dispatch_def by (auto elim!: bind_OkE simp: lift_Ok io_eval split: option.splits)
  show ?thesis using log_events [OF 1] response_body_events [OF 2] 3 by simp
qed

lemma rcvdata_events:
  assumes "rcvdata fd env tr = (t, Ok ())"
  shows "srv_events t = srv_events tr @ [Reads fd, Writes fd, Closes fd]"
proof -
  from assms obtain t0 r t1 t2 resp len t3 t4 t5 where
    0: "invoke ''read'' [I fd, I 1024] env tr = (t0, Ok r)"
    and 1: "log_line ''server.c'' 81 ('' '' @ show_int (ret r) @ '' bytes recieved'' @ [CHR 0x0A] @ cstr (received 1024 r) @ [CHR 0x0A]) env t0 = (t1, Ok ())"
    and 2: "dispatch (received 1024 r) 1024 env t1 = (t2, Ok (resp, len))"
    and 3: "do_call ''write'' [I fd, S resp] env t2 = (t3, Ok ())"
    and 4: "log_line ''server.c'' 85 (''return msg'' @ [CHR 0x0A] @ resp @ [CHR 0x0A]) env t3 = (t4, Ok ())"
    and 5: "do_call ''close'' [I fd] env t4 = (t5, Ok ())"
    and 6: "log_line ''server.c'' 87 (''connection closed'' @ [CHR 0x0A]) env t5 = (t, Ok ())"
    unfolding rcvdata_def Let_def by (auto elim!: bind_OkE simp: lift_Ok split: prod.splits)
  from 0 have "srv_events t0 = srv_events tr @ [Reads fd]" by (auto simp: invoke_eval)
  moreover from 3 have "srv_events t3 = srv_events t2 @ [Writes fd]" by (auto elim!: runE)
  moreover from 5 have "srv_events t5 = srv_events t4 @ [Closes fd]" by (auto elim!: runE)
  ultimately show ?thesis using log_events [OF 1] dispatch_events [OF 2] log_events [OF 4] log_events [OF 6] by simp
qed

text \<open>What holds in every reachable state.\<close>

lemma srv_invariant:
  assumes "srv_reach s"
  shows "length (loaded s) + waiting s + (if creating s then 1 else 0) \<le> length (fds s) \<and>
    set (loaded s) \<subseteq> insert (- 1) (set (fds s)) \<and> cfd s \<in> insert (- 1) (set (fds s))"
  using assms
proof (induction rule: srv_reach.induct)
  case (step s s')
  from step.hyps(2) step.IH show ?case by (cases rule: srv_step.cases) auto
qed (simp add: srv_start_def)

text \<open>
  What holds in every state reached without a race: the connection behind a thread's
  descriptor is its own, and the one that waits for its thread is the last.
\<close>

definition calm_inv :: "srv_state \<Rightarrow> bool" where
  "calm_inv s \<longleftrightarrow>
     length (loaded s) + waiting s + (if creating s then 1 else 0) = length (fds s) \<and>
     loaded s = take (length (loaded s)) (fds s) \<and> waiting s \<le> 1 \<and> (creating s \<longrightarrow> waiting s = 0) \<and>
     (creating s \<or> waiting s = 1 \<longrightarrow> cfd s = last (fds s) \<and> conns s (cfd s) = Some (length (loaded s))) \<and>
     distinct (map fst (threads s)) \<and>
     (\<forall>i fd k. (i, fd, k) \<in> set (threads s) \<longrightarrow> i < length (loaded s) \<and> conns s fd = Some i) \<and>
     (\<forall>(i, c) \<in> set (answers s). c = Some i)"

lemma calm_invariant:
  assumes "calm_reach s"
  shows "calm_inv s"
  using assms
proof (induction rule: calm_reach.induct)
  case calm_start
  show ?case by (simp add: calm_inv_def srv_start_def)
next
  case (calm_step s s')
  from calm_step.hyps(2,3) calm_step.IH show ?case
  proof (cases rule: srv_step.cases)
    case (accept_ok fd)
    then show ?thesis using calm_step.hyps(3) calm_step.IH by (fastforce simp: calm_inv_def calm_def)
  next
    case (thread_loads n)
    have I: "Suc (length (loaded s)) = length (fds s)" "loaded s = take (length (loaded s)) (fds s)" "n = 0" "\<not> creating s"
      "cfd s = last (fds s)" "conns s (cfd s) = Some (length (loaded s))"
      using calm_step.IH thread_loads by (auto simp: calm_inv_def)
    have "length (loaded s) = length (fds s) - 1" using I(1) by simp
    then have "loaded s = butlast (fds s)" using I(2) by (metis butlast_conv_take)
    then have all: "loaded s @ [cfd s] = fds s" using I(1,5) by (cases "fds s" rule: rev_cases) auto
    have fresh: "length (loaded s) \<notin> fst ` set (threads s)" using calm_step.IH by (force simp: calm_inv_def)
    have small: "i < length (fds s)" if "(i, fd, k) \<in> set (threads s)" for i fd k
      using calm_step.IH that I(1) by (fastforce simp: calm_inv_def)
    show ?thesis using calm_step.IH I(1,3,4,6) all fresh small thread_loads
      by (auto simp: calm_inv_def)
  next
    case (thread_closes xs i fd ys)
    have I: "distinct (map fst (threads s))" "i < length (loaded s)" "conns s fd = Some i"
      and owns: "\<And>j fd' k. (j, fd', k) \<in> set (threads s) \<Longrightarrow> j < length (loaded s) \<and> conns s fd' = Some j"
      and cfd: "creating s \<or> waiting s = 1 \<Longrightarrow> conns s (cfd s) = Some (length (loaded s))"
      using calm_step.IH thread_closes(3) unfolding calm_inv_def by auto
    have other: "(conns s)(fd := None) = conns s' \<and> j < length (loaded s) \<and> conns s' fd' = Some j"
      if "(j, fd', k) \<in> set (xs @ ys)" for j fd' k
    proof -
      have "j \<noteq> i" using that I(1) unfolding thread_closes(3) by (auto simp: rev_image_eqI)
      moreover have "j < length (loaded s)" "conns s fd' = Some j" using owns [of j fd' k] that thread_closes(3) by auto
      ultimately show ?thesis using I(3) thread_closes(1) by auto
    qed
    have f: "loaded s' = loaded s" "waiting s' = waiting s" "creating s' = creating s" "fds s' = fds s" "cfd s' = cfd s"
      "answers s' = answers s" "threads s' = xs @ ys" using thread_closes(1) by simp_all
    have c: "creating s \<or> waiting s = 1 \<longrightarrow> cfd s = last (fds s) \<and> conns s' (cfd s) = Some (length (loaded s))"
      using cfd I(2,3) thread_closes(1) calm_step.IH unfolding calm_inv_def by auto
    have d: "distinct (map fst (xs @ ys))" using I(1) thread_closes(3) by simp
    show ?thesis unfolding calm_inv_def f
      by (intro conjI, use calm_step.IH in \<open>simp_all only: calm_inv_def\<close>) (use c d other in blast)+
  qed (auto simp: calm_inv_def calm_def)
qed

section \<open>Properties\<close>

text \<open>
  C20: a response that \<^verbatim>\<open>dispatch\<close> returns for a request whose first line and body fit its buffers
  is the status line, a Content-Length that is the length of the body in decimal, a blank
  line and the body; it fits the buffer of the caller and the returned number is its
  length.  The method has at most 4 characters and the URI at most 49.  The body is, for
  \<^verbatim>\<open>GET\<close>, the JSON object with the URI and the time; for \<^verbatim>\<open>/prs/dt\<close>, what \<^verbatim>\<open>parsedt\<close> makes of the
  request's body; for \<^verbatim>\<open>/up/dt\<close>, empty; it is the fixed object otherwise, and never returned for
  \<^verbatim>\<open>/dn/dt\<close>.
\<close>

theorem dispatch_response:
  assumes "fits rq" "dispatch rq cap env tr = (t, Ok (resp, n))"
    and "m = token (line_at 0 (cstr rq))" "u = second_word (line_at 0 (cstr rq))" "b = after_blank (cstr rq)"
  shows \<open>length m < 5 \<and> length u < 50 \<and> n = int (length resp) \<and> length resp < cap \<and>
    (\<exists>bd. resp = ''HTTP/1.1 200 OK'' @ [CHR 13, CHR 10] @ ''Content-Length: '' @ show_nat (length bd) @
        [CHR 13, CHR 10, CHR 13, CHR 10] @ bd \<and>
     (if take 3 m = ''GET'' then \<exists>r. (Call ''gettime'' [], r) \<in> set t \<and>
        bd = cstr (''{"uri":"'' @ u @ ''","timestamp":"'' @ data r @ ''","status":200}'')
      else if take 7 u = ''/prs/dt'' then \<exists>r. parsedt b = Inr r \<and> bd = cstr r
      else if take 6 u = ''/up/dt'' then bd = []
      else take 6 u \<noteq> ''/dn/dt'' \<and> bd = ''{"status":200}''))\<close>
proof -
  from dispatch_answer [OF assms(1-4)] obtain t0 bd where
    a: "length m < 5" "length u < 50" "response_body m u (after_blank (cstr rq)) env t0 = (t, Ok (Some bd))"
      "resp = http_response (cstr bd)" "n = int (length resp)" "length resp < cap" .
  show ?thesis
    using a(1,2,4-6) response_body_Ok [OF a(3) refl, folded assms(5)]
    by (intro conjI exI [of _ "cstr bd"]) (simp_all only: http_response_def crlf_def append.simps append_assoc)
qed

definition quiet_env :: env where
  "quiet_env tr c = \<lparr>ret = 0, data = [], errno = 0\<rparr>"

theorem dispatch_response_witness:
  \<open>\<exists>t. dispatch (''PUT /x'' @ [NUL]) 1024 quiet_env [] =
     (t, Ok (''HTTP/1.1 200 OK'' @ [CHR 13, CHR 10] @ ''Content-Length: 14'' @ [CHR 13, CHR 10, CHR 13, CHR 10] @ ''{"status":200}'', 53))\<close>
proof -
  let ?rq = "''PUT /x'' @ [NUL]"
  have c: "case dispatch ?rq 1024 quiet_env [] of (tr, Ok x) \<Rightarrow> True | _ \<Rightarrow> False" by code_simp
  then obtain t resp n where d: "dispatch ?rq 1024 quiet_env [] = (t, Ok (resp, n))"
    by (auto split: prod.splits res.splits)
  have f: "fits ?rq" "token (line_at 0 (cstr ?rq)) = ''PUT''" "second_word (line_at 0 (cstr ?rq)) = ''/x''"
    by (simp_all add: fits_def cstr_def token_def second_word_def eol_def)
  from dispatch_response [OF f(1) d refl refl refl, unfolded f(2,3)] obtain bd where
    bd: "resp = ''HTTP/1.1 200 OK'' @ [CHR 13, CHR 10] @ ''Content-Length: '' @ show_nat (length bd) @ [CHR 13, CHR 10, CHR 13, CHR 10] @ bd"
      \<open>bd = ''{"status":200}''\<close> "n = int (length resp)" by auto
  have "length bd = 14" using bd(2) by simp
  moreover have "show_nat 14 = ''14''" by code_simp
  ultimately have "resp = ''HTTP/1.1 200 OK'' @ [CHR 13, CHR 10] @ ''Content-Length: 14'' @ [CHR 13, CHR 10, CHR 13, CHR 10] @ bd"
    using bd(1) by simp
  with bd(2,3) d show ?thesis by simp
qed

text \<open>
  Three requests the server does not survive: a method of five characters or more
  overflows \<^verbatim>\<open>method[5]\<close>; a request for \<^verbatim>\<open>/dn/dt\<close> uses the pointer \<^verbatim>\<open>respbd\<close> that no branch
  has set; and a request that fills the 1024-byte buffer of \<^verbatim>\<open>rcvdata\<close> is read past its end.
\<close>

theorem dispatch_faults:
  assumes "fits rq"
  shows "(5 \<le> length (token (line_at 0 (cstr rq))) \<longrightarrow> dispatch rq cap env tr = (tr, Fault OutOfBounds)) \<and>
    (length (token (line_at 0 (cstr rq))) < 5 \<and> length (second_word (line_at 0 (cstr rq))) < 50 \<and>
     \<not> has_prefix ''GET'' (token (line_at 0 (cstr rq))) \<and> has_prefix ''/dn/dt'' (second_word (line_at 0 (cstr rq))) \<longrightarrow>
       (\<exists>t. dispatch rq cap env tr = (t, Fault Indeterminate))) \<and>
    (ret (env tr (Call ''read'' [I fd, I 1024])) = 1024 \<and> length (data (env tr (Call ''read'' [I fd, I 1024]))) = 1024 \<and>
     NUL \<notin> set (data (env tr (Call ''read'' [I fd, I 1024]))) \<longrightarrow>
       (\<exists>t. rcvdata fd env tr = (t, Fault OutOfBounds)))"
  using dispatch_long_method [OF assms] dispatch_unset_body [OF assms] rcvdata_full by blast

theorem dispatch_faults_witness:
  "dispatch (''DELETE /'' @ [NUL]) 1024 quiet_env [] = ([], Fault OutOfBounds) \<and>
   (\<exists>t. dispatch (''POST /dn/dt'' @ [NUL]) 1024 quiet_env [] = (t, Fault Indeterminate))"
proof -
  have 1: "fits (''DELETE /'' @ [NUL])" "5 \<le> length (token (line_at 0 (cstr (''DELETE /'' @ [NUL]))))"
    and 2: "fits (''POST /dn/dt'' @ [NUL])"
      "length (token (line_at 0 (cstr (''POST /dn/dt'' @ [NUL])))) < 5"
      "length (second_word (line_at 0 (cstr (''POST /dn/dt'' @ [NUL])))) < 50"
      "\<not> has_prefix ''GET'' (token (line_at 0 (cstr (''POST /dn/dt'' @ [NUL]))))"
      "has_prefix ''/dn/dt'' (second_word (line_at 0 (cstr (''POST /dn/dt'' @ [NUL]))))"
    by (simp_all add: fits_def cstr_def token_def second_word_def eol_def has_prefix_def)
  show ?thesis
    using dispatch_faults [OF 1(1), of 1024 quiet_env "[]" 0] dispatch_faults [OF 2(1), of 1024 quiet_env "[]" 0] 1(2) 2(2-5)
    by blast
qed

text \<open>
  The function \<^verbatim>\<open>writemsg\<close> closes its socket exactly once on every return, except after a failed
  connect: there it returns 1 with the buffer untouched and the socket left open.
\<close>

theorem writemsg_socket:
  assumes "writemsg fuel ip port rq resp env tr = (tr', Ok (n, out))"
  shows "closes tr' = closes tr \<and> n = 1 \<and> out = resp \<or>
    closes tr' = closes tr @ [ret (env tr (Call ''socket'' [S ''AF_INET'', S ''SOCK_STREAM'']))]"
  by (rule writemsg_closes [OF assms])

definition refused_env :: env where
  "refused_env tr c = \<lparr>ret = (if fn c = ''connect'' then - 1 else 3), data = [], errno = 111\<rparr>"

theorem writemsg_socket_witness:
  "\<exists>tr'. writemsg 5 ''127.0.0.1'' 80 ''x'' [NUL] refused_env [] = (tr', Ok (1, [NUL])) \<and> closes tr' = []"
proof -
  have c: "case writemsg 5 ''127.0.0.1'' 80 ''x'' [NUL] refused_env [] of
      (tr, Ok (n, out)) \<Rightarrow> n = 1 \<and> out = [NUL] \<and> closes tr = [] | _ \<Rightarrow> False"
    by code_simp
  obtain tr' r where w: "writemsg 5 ''127.0.0.1'' 80 ''x'' [NUL] refused_env [] = (tr', r)" by (rule prod.exhaust)
  from c have "r = Ok (1, [NUL]) \<and> closes tr' = []" unfolding w prod.case by (cases r) auto
  with writemsg_socket [of 5 "''127.0.0.1''" 80 "''x''" "[NUL]" refused_env "[]" tr'] w show ?thesis by blast
qed

text \<open>Runs of the server, one step at a time.\<close>

lemmas srv_goes = srv_reach.step [OF _ srv_step.accept_ok] srv_reach.step [OF _ srv_step.create_ok]
  srv_reach.step [OF _ srv_step.thread_loads] srv_reach.step [OF _ srv_step.thread_reads]
  srv_reach.step [OF _ srv_step.thread_writes] srv_reach.step [OF _ srv_step.thread_closes]
  srv_reach.step [OF _ srv_step.accept_again]

text \<open>Two threads read the second of two descriptors; one of them answers a third connection that reuses it.\<close>

definition crossed :: srv_state where
  "crossed = \<lparr>cfd = 5, creating = False, down = False, waiting = 1, loaded = [5, 5], threads = [(1, 5, 2)],
     conns = [4 \<mapsto> 0, 5 \<mapsto> 2], fds = [4, 5, 5], answers = [(0, Some 1), (1, Some 2)]\<rparr>"

lemma crossed_reachable: "srv_reach crossed"
proof -
  have "srv_reach \<lparr>cfd = 4, creating = False, down = False, waiting = 1, loaded = [], threads = [],
      conns = [4 \<mapsto> 0], fds = [4], answers = []\<rparr>"
    using srv_goes(2) [OF srv_goes(1) [OF srv_reach.start, of 4]] by (simp add: srv_start_def)
  from srv_goes(2) [OF srv_goes(1) [OF this, of 5]]
  have "srv_reach \<lparr>cfd = 5, creating = False, down = False, waiting = 2, loaded = [], threads = [],
      conns = [4 \<mapsto> 0, 5 \<mapsto> 1], fds = [4, 5], answers = []\<rparr>" by (simp add: numeral_2_eq_2)
  from srv_goes(3) [OF srv_goes(3) [OF this, of 1], of 0]
  have "srv_reach \<lparr>cfd = 5, creating = False, down = False, waiting = 0, loaded = [5, 5], threads = [(0, 5, 0), (1, 5, 0)],
      conns = [4 \<mapsto> 0, 5 \<mapsto> 1], fds = [4, 5], answers = []\<rparr>" by simp
  from srv_goes(5) [OF srv_goes(4) [OF this, of "[]" 0 5 "[(1, 5, 0)]"], of "[]" 0 5 "[(1, 5, 0)]"]
  have "srv_reach \<lparr>cfd = 5, creating = False, down = False, waiting = 0, loaded = [5, 5], threads = [(0, 5, 2), (1, 5, 0)],
      conns = [4 \<mapsto> 0, 5 \<mapsto> 1], fds = [4, 5], answers = [(0, Some 1)]\<rparr>" by simp
  from srv_goes(6) [OF this, of "[]" 0 5 "[(1, 5, 0)]"]
  have "srv_reach \<lparr>cfd = 5, creating = False, down = False, waiting = 0, loaded = [5, 5], threads = [(1, 5, 0)],
      conns = [4 \<mapsto> 0], fds = [4, 5], answers = [(0, Some 1)]\<rparr>" by (simp add: fun_upd_twist)
  from srv_goes(2) [OF srv_goes(1) [OF this, of 5]]
  have "srv_reach \<lparr>cfd = 5, creating = False, down = False, waiting = 1, loaded = [5, 5], threads = [(1, 5, 0)],
      conns = [4 \<mapsto> 0, 5 \<mapsto> 2], fds = [4, 5, 5], answers = [(0, Some 1)]\<rparr>" by (simp add: numeral_2_eq_2)
  from srv_goes(5) [OF srv_goes(4) [OF this, of "[]" 1 5 "[]"], of "[]" 1 5 "[]"]
  show ?thesis by (simp add: crossed_def)
qed

text \<open>A thread reads -1 when a failed \<^verbatim>\<open>accept\<close> comes before it.\<close>

lemma minus_one_loaded: "\<exists>s. srv_reach s \<and> fds s = [4] \<and> loaded s = [- 1]"
proof -
  have "srv_reach \<lparr>cfd = 4, creating = False, down = False, waiting = 1, loaded = [], threads = [],
      conns = [4 \<mapsto> 0], fds = [4], answers = []\<rparr>"
    using srv_goes(2) [OF srv_goes(1) [OF srv_reach.start, of 4]] by (simp add: srv_start_def)
  from srv_goes(3) [OF srv_goes(7) [OF this], of 0] show ?thesis by (intro exI conjI) (assumption | simp)+
qed


definition one_client :: env where
  "one_client tr c = \<lparr>ret = (if fn c = ''accept'' then 4 else 5), data = ''PUT /x'', errno = 0\<rparr>"


end
