(* ===== verification/Kafka.thy ===== *)
theory Kafka
  imports C_IO "HOL-Library.Sublist"
begin

text \<open>
  The Kafka producer and consumer of \<^verbatim>\<open>src/cpp/kfk\<close>.  The library is the environment; its
  error codes are the fields of \<open>rdkafka\<close>, and the message behind a handle is a parameter.
  A signal is delivered when the loops test \<^verbatim>\<open>run\<close>: the pseudo call \<^verbatim>\<open>SIGINT\<close> replies whether
  one has arrived, and the handler then runs.  \<open>fuel\<close> bounds the passes of each loop that the
  environment may keep alive.
\<close>

section \<open>The library's codes and messages\<close>

record rdkafka =
  conf_ok :: int
  queue_full :: int
  partition_eof :: int
  unknown_partition :: int
  unknown_topic :: int

record rk_message =
  err :: int
  rkt :: int
  topic_name :: string
  partition_no :: int
  offset :: int
  payload :: string
  payload_len :: int
  key :: string
  key_len :: nat

section \<open>\<^verbatim>\<open>producer.c\<close>\<close>

definition stop_producer :: "bool prog" where
  "stop_producer = bind (do_call ''fclose'' [S ''stdin'']) (\<lambda>_. return False)"

definition dr_msg_cb :: "rk_message \<Rightarrow> unit prog" where
  "dr_msg_cb m =
     (if err m \<noteq> 0 then
        bind (call_text ''rd_kafka_err2str'' [I (err m)]) (\<lambda>e.
          eprint (''% Message delivery failed: '' @ e @ nl))
      else eprint (''% Message delivered ('' @ show_int (payload_len m) @ '' bytes, partition '' @
             show_int (partition_no m) @ '')'' @ nl))"

text \<open>The test of \<^verbatim>\<open>run\<close>, before which a signal may have run its handler.\<close>

definition test_run :: "bool prog \<Rightarrow> bool \<Rightarrow> bool prog" where
  "test_run handler run = bind (call_ret ''SIGINT'' []) (\<lambda>sig. if sig \<noteq> 0 then handler else return run)"

text \<open>One attempt to queue the message, at the label \<^verbatim>\<open>retry\<close>.\<close>

definition produce_pass :: "rdkafka \<Rightarrow> int \<Rightarrow> int \<Rightarrow> string \<Rightarrow> unit \<Rightarrow> (unit + unit) prog" where
  "produce_pass k rk rt msg = (\<lambda>_.
     bind (call_ret ''rd_kafka_produce'' [I rt, S msg]) (\<lambda>r.
     if r = - 1 then
       bind (call_text ''rd_kafka_topic_name'' [I rt]) (\<lambda>name.
       bind (call_ret ''rd_kafka_last_error'' []) (\<lambda>e0.
       bind (call_text ''rd_kafka_err2str'' [I e0]) (\<lambda>text.
       bind (eprint (''% Failed to produce to topic '' @ name @ '': '' @ text @ nl)) (\<lambda>_.
       bind (call_ret ''rd_kafka_last_error'' []) (\<lambda>e.
       if e = queue_full k then
         bind (do_call ''rd_kafka_poll'' [I rk, I 1000]) (\<lambda>_. return (Inl ()))
       else return (Inr ()))))))
     else
       bind (call_text ''rd_kafka_topic_name'' [I rt]) (\<lambda>name.
       bind (eprint (''% Enqueued message ('' @ show_nat (length msg) @ '' bytes) for topic '' @ name @ nl)) (\<lambda>_.
         return (Inr ())))))"

text \<open>The line \<^verbatim>\<open>fgets\<close> left in \<^verbatim>\<open>buf[512]\<close>; \<^verbatim>\<open>buf[len - 1]\<close> is out of bounds when it is empty.\<close>

definition strip_newline :: "string \<Rightarrow> string c_result" where
  "strip_newline line =
     (if line = [] then Inl OutOfBounds
      else Inr (if last line = CHR 0x0A then butlast line else line))"

definition fgets_line :: "nat \<Rightarrow> reply \<Rightarrow> string" where
  "fgets_line cap r = cstr (take (cap - 1) (data r))"

definition producer_pass :: "rdkafka \<Rightarrow> nat \<Rightarrow> int \<Rightarrow> int \<Rightarrow> bool \<Rightarrow> (bool + unit) prog" where
  "producer_pass k fuel rk rt run =
     bind (test_run stop_producer run) (\<lambda>run.
     if \<not> run then return (Inr ())
     else
       bind (invoke ''fgets'' [I 512, S ''stdin'']) (\<lambda>r.
       if ret r = 0 then return (Inr ())
       else
         bind (lift (strip_newline (fgets_line 512 r))) (\<lambda>msg.
         if msg = [] then bind (do_call ''rd_kafka_poll'' [I rk, I 0]) (\<lambda>_. return (Inl run))
         else
           bind (loop fuel (produce_pass k rk rt msg) ()) (\<lambda>_.
           bind (do_call ''rd_kafka_poll'' [I rk, I 0]) (\<lambda>_. return (Inl run))))))"

definition usage_text :: "string list \<Rightarrow> string" where
  "usage_text argv = ''% Usage: '' @ hd argv @ '' <broker> <topic>'' @ nl"

definition producer_main :: "rdkafka \<Rightarrow> nat \<Rightarrow> nat \<Rightarrow> string list \<Rightarrow> int prog" where
  "producer_main k fuel lines argv =
     (if length argv \<noteq> 3 then bind (eprint (usage_text argv)) (\<lambda>_. return 1)
      else
        bind (call_ret ''rd_kafka_conf_new'' []) (\<lambda>conf.
        bind (invoke ''rd_kafka_conf_set'' [I conf, S ''bootstrap.servers'', S (argv ! 1)]) (\<lambda>c.
        if ret c \<noteq> conf_ok k then bind (eprint (data c @ nl)) (\<lambda>_. return 1)
        else
          bind (do_call ''rd_kafka_conf_set_dr_msg_cb'' [I conf, S ''dr_msg_cb'']) (\<lambda>_.
          bind (invoke ''rd_kafka_new'' [S ''RD_KAFKA_PRODUCER'', I conf]) (\<lambda>n.
          if ret n = 0 then bind (eprint (''% Failed to create new producer:'' @ data n @ nl)) (\<lambda>_. return 1)
          else
            bind (call_ret ''rd_kafka_topic_new'' [I (ret n), S (argv ! 2)]) (\<lambda>rt.
            if rt = 0 then
              bind (call_ret ''rd_kafka_last_error'' []) (\<lambda>e.
              bind (call_text ''rd_kafka_err2str'' [I e]) (\<lambda>text.
              bind (eprint (''% Failed to create topic object: '' @ text @ nl)) (\<lambda>_.
              bind (do_call ''rd_kafka_destroy'' [I (ret n)]) (\<lambda>_. return 1))))
            else
              bind (do_call ''signal'' [S ''SIGINT'', S ''stop'']) (\<lambda>_.
              bind (eprint (''% Type some text and hit enter to produce message'' @ nl @
                      ''% Or just hit enter to only serve delivery reports'' @ nl @
                      ''% Press Ctrl-C or Ctrl-D to exit'' @ nl)) (\<lambda>_.
              bind (loop lines (producer_pass k fuel (ret n) rt) True) (\<lambda>_.
              bind (eprint (''% Flushing final message.. '' @ nl)) (\<lambda>_.
              bind (do_call ''rd_kafka_flush'' [I (ret n), I 10000]) (\<lambda>_.
              bind (do_call ''rd_kafka_topic_destroy'' [I rt]) (\<lambda>_.
              bind (do_call ''rd_kafka_destroy'' [I (ret n)]) (\<lambda>_. return 0)))))))))))))"

section \<open>\<^verbatim>\<open>consumer.c\<close>\<close>

definition stop_consumer :: "bool \<Rightarrow> bool prog" where
  "stop_consumer run = (if \<not> run then exit_with 1
     else bind (do_call ''fclose'' [S ''stdin'']) (\<lambda>_. return False))"

definition sig_usr1 :: "int \<Rightarrow> unit prog" where
  "sig_usr1 rk = do_call ''rd_kafka_dump'' [S ''stdout'', I rk]"

definition where_text :: "rk_message \<Rightarrow> string" where
  "where_text m = ''['' @ show_int (partition_no m) @ '']''"

text \<open>The new value of \<^verbatim>\<open>run\<close>.\<close>

definition msg_consume :: "rdkafka \<Rightarrow> rk_message \<Rightarrow> bool \<Rightarrow> bool prog" where
  \<open>msg_consume k m run =
     (if err m \<noteq> 0 then
        if err m = partition_eof k then
          bind (eprint (''% Consumer reached end of '' @ topic_name m @ '' '' @ where_text m @
                  '' message queue at offset '' @ show_int (offset m) @ nl)) (\<lambda>_. return run)
        else
          bind (if rkt m \<noteq> 0 then
                  bind (call_text ''rd_kafka_message_errstr'' [I (err m)]) (\<lambda>e.
                    eprint (''% Consume error for topic "'' @ topic_name m @ ''" '' @ where_text m @
                      '' offset '' @ show_int (offset m) @ '': '' @ e @ nl))
                else
                  bind (call_text ''rd_kafka_err2str'' [I (err m)]) (\<lambda>s.
                  bind (call_text ''rd_kafka_message_errstr'' [I (err m)]) (\<lambda>e.
                    eprint (''% Consumer error: '' @ s @ '': '' @ e @ nl)))) (\<lambda>_.
            return (if err m = unknown_partition k \<or> err m = unknown_topic k then False else run))
      else
        bind (print (''% Message (topic '' @ topic_name m @ '' '' @ where_text m @ '', offset '' @
                show_int (offset m) @ '', '' @ show_int (payload_len m) @ '' bytes):'' @ nl)) (\<lambda>_.
        bind (if key_len m \<noteq> 0 then print (''Key: '' @ cstr (take (key_len m) (key m)) @ nl) else return ()) (\<lambda>_.
        bind (print (cstr (take (nat (payload_len m)) (payload m)) @ nl)) (\<lambda>_. return run))))\<close>

text \<open>
  The handle \<^verbatim>\<open>rk\<close> and the list \<^verbatim>\<open>topics\<close> are globals, NULL at the start; the result has
  their values beside the returned number.  \<^verbatim>\<open>SIGIO\<close> is 29.
\<close>

definition initKafka :: "rdkafka \<Rightarrow> string \<Rightarrow> string option \<Rightarrow> string option \<Rightarrow> (int \<times> int \<times> int) prog" where
  "initKafka k brokers grp topic =
     bind (call_ret ''rd_kafka_conf_new'' []) (\<lambda>conf.
     bind (do_call ''rd_kafka_conf_set'' [I conf, S ''internal.termination.signal'', S (show_nat 29)]) (\<lambda>_.
     bind (call_ret ''rd_kafka_topic_conf_new'' []) (\<lambda>topic_conf.
     bind (invoke ''rd_kafka_conf_set''
             [I conf, S ''group.id'', S (case grp of None \<Rightarrow> ''rdkafka_consumer_example'' | Some g \<Rightarrow> g)]) (\<lambda>g.
     if ret g \<noteq> conf_ok k then bind (eprint (''% '' @ data g @ nl)) (\<lambda>_. return (- 1, 0, 0))
     else
       bind (invoke ''rd_kafka_topic_conf_set'' [I topic_conf, S ''offset.store.method'', S ''broker'']) (\<lambda>o'.
       if ret o' \<noteq> conf_ok k then bind (eprint (''% '' @ data o' @ nl)) (\<lambda>_. return (- 1, 0, 0))
       else
         bind (do_call ''rd_kafka_conf_set_default_topic_conf'' [I conf, I topic_conf]) (\<lambda>_.
         bind (invoke ''rd_kafka_new'' [S ''RD_KAFKA_CONSUMER'', I conf]) (\<lambda>n.
         let rk = ret n in
         if rk = 0 then bind (eprint (''% Failed to create new consumer:'' @ data n @ nl)) (\<lambda>_. return (- 1, rk, 0))
         else
           bind (call_ret ''rd_kafka_brokers_add'' [I rk, S brokers]) (\<lambda>added.
           if added = 0 then bind (eprint (''% No valid brokers specified'' @ nl)) (\<lambda>_. return (- 1, rk, 0))
           else
             bind (do_call ''rd_kafka_poll_set_consumer'' [I rk]) (\<lambda>_.
             bind (call_ret ''rd_kafka_topic_partition_list_new'' [I 1]) (\<lambda>topics.
             bind (do_call ''rd_kafka_topic_partition_list_add''
                     [I topics, (case topic of None \<Rightarrow> I 0 | Some t \<Rightarrow> S t), I (- 1)]) (\<lambda>_.
             bind (call_ret ''rd_kafka_subscribe'' [I rk, I topics]) (\<lambda>e.
             if e \<noteq> 0 then
               bind (call_text ''rd_kafka_err2str'' [I e]) (\<lambda>text.
               bind (eprint (''% Failed to start consuming topics: '' @ text @ nl)) (\<lambda>_. return (- 1, rk, topics)))
             else return (1, rk, topics)))))))))))))"

text \<open>\<^verbatim>\<open>getopt\<close> replies the option letter, or -1 at the end, and the argument of the option.\<close>

type_synonym options = "string \<times> string option \<times> string option"

definition option_pass :: "options \<Rightarrow> (options + options) prog" where
  "option_pass = (\<lambda>(brokers, grp, topic).
     bind (invoke ''getopt'' [S ''g:b:t:qd:eX:As:DO'']) (\<lambda>r.
     return
       (if ret r = - 1 then Inr (brokers, grp, topic)
        else if ret r = of_char CHR ''b'' then Inl (data r, grp, topic)
        else if ret r = of_char CHR ''g'' then Inl (brokers, Some (data r), topic)
        else if ret r = of_char CHR ''t'' then Inl (brokers, grp, Some (data r))
        else Inl (brokers, grp, topic))))"

definition consume_pass :: "rdkafka \<Rightarrow> (int \<Rightarrow> rk_message) \<Rightarrow> int \<Rightarrow> bool \<Rightarrow> (bool + unit) prog" where
  "consume_pass k msg rk run =
     bind (test_run (stop_consumer run) run) (\<lambda>run.
     if \<not> run then return (Inr ())
     else
       bind (call_ret ''rd_kafka_consumer_poll'' [I rk, I 1000]) (\<lambda>h.
       if h = 0 then return (Inl run)
       else
         bind (msg_consume k (msg h) run) (\<lambda>run.
         bind (do_call ''rd_kafka_message_destroy'' [I h]) (\<lambda>_. return (Inl run)))))"

text \<open>\<^verbatim>\<open>while (run-- > 0 && rd_kafka_wait_destroyed (1000) == -1)\<close>: the value of \<^verbatim>\<open>run\<close> after it.\<close>

primrec wait_destroyed :: "nat \<Rightarrow> int prog" where
  "wait_destroyed 0 = return (- 1)"
| "wait_destroyed (Suc run) =
     bind (call_ret ''rd_kafka_wait_destroyed'' [I 1000]) (\<lambda>w.
     if w = - 1 then
       bind (print (''Waiting for librdkafka to decommission'' @ nl)) (\<lambda>_. wait_destroyed run)
     else return (int run))"

definition consumer_end :: "int \<Rightarrow> int \<Rightarrow> int prog" where
  "consumer_end rk topics =
     bind (call_ret ''rd_kafka_consumer_close'' [I rk]) (\<lambda>e.
     bind (if e \<noteq> 0 then
             bind (call_text ''rd_kafka_err2str'' [I e]) (\<lambda>text.
               eprint (''% Failed to close consumer: '' @ text @ nl))
           else eprint (''% Consumer closed'' @ nl)) (\<lambda>_.
     bind (do_call ''rd_kafka_topic_partition_list_destroy'' [I topics]) (\<lambda>_.
     bind (do_call ''rd_kafka_destroy'' [I rk]) (\<lambda>_.
     bind (wait_destroyed 5) (\<lambda>run.
     bind (if run \<le> 0 then do_call ''rd_kafka_dump'' [S ''stdout'', I rk] else return ()) (\<lambda>_.
       return 0))))))"

definition consumer_main :: "rdkafka \<Rightarrow> (int \<Rightarrow> rk_message) \<Rightarrow> nat \<Rightarrow> nat \<Rightarrow> int prog" where
  "consumer_main k msg opts fuel =
     bind (loop opts option_pass (''localhost:9092'', None, None)) (\<lambda>(brokers, grp, topic).
     bind (do_call ''signal'' [S ''SIGINT'', S ''stop'']) (\<lambda>_.
     bind (do_call ''signal'' [S ''SIGUSR1'', S ''sig_usr1'']) (\<lambda>_.
     bind (initKafka k brokers grp topic) (\<lambda>(r, rk, topics).
     bind (if r = 0 then eprint (''kafka server initialize error'' @ nl)
           else loop fuel (consume_pass k msg rk) True) (\<lambda>_.
       consumer_end rk topics)))))"

section \<open>What the producer queues\<close>

text \<open>The lines typed, without their newline, and the messages the library has accepted.\<close>

definition typed :: "trace \<Rightarrow> string list" where
  "typed tr = concat (map (\<lambda>(c, r). if ret r = 0 then []
     else case strip_newline (fgets_line 512 r) of Inl _ \<Rightarrow> [] | Inr m \<Rightarrow> if m = [] then [] else [m]) (uses ''fgets'' tr))"

definition queued :: "trace \<Rightarrow> string list" where
  "queued tr = concat (map (\<lambda>(c, r). if ret r = - 1 then []
     else case args c of [I _, S m] \<Rightarrow> [m] | _ \<Rightarrow> []) (uses ''rd_kafka_produce'' tr))"

definition full_only :: "rdkafka \<Rightarrow> trace \<Rightarrow> bool" where
  "full_only k tr \<longleftrightarrow> (\<forall>e \<in> set (uses ''rd_kafka_last_error'' tr). ret (snd e) = queue_full k)"

definition queue_inv :: "rdkafka \<Rightarrow> trace \<Rightarrow> bool" where
  "queue_inv k tr \<longleftrightarrow> subseq (queued tr) (typed tr) \<and> (full_only k tr \<longrightarrow> queued tr = typed tr)"

lemma trace_fields [simp]:
  "typed (t @ u) = typed t @ typed u" "queued (t @ u) = queued t @ queued u"
  "full_only k (t @ u) \<longleftrightarrow> full_only k t \<and> full_only k u"
  by (auto simp: typed_def queued_def full_only_def)

lemma trace_other:
  "f \<noteq> ''fgets'' \<Longrightarrow> typed ((Call f xs, r) # t) = typed t"
  "f \<noteq> ''rd_kafka_produce'' \<Longrightarrow> queued ((Call f xs, r) # t) = queued t"
  "f \<noteq> ''rd_kafka_last_error'' \<Longrightarrow> full_only k ((Call f xs, r) # t) = full_only k t"
  "typed [] = []" "queued [] = []" "full_only k []"
  by (simp_all add: typed_def queued_def full_only_def)

lemma produce_attempt:
  assumes "produce_pass k rk rt msg u env tr = (t, r)"
  shows "typed t = typed tr \<and> (full_only k t \<longrightarrow> full_only k tr) \<and>
    (r = Ok (Inl ()) \<and> queued t = queued tr \<or>
     r = Ok (Inr ()) \<and> (queued t = queued tr @ [msg] \<or> queued t = queued tr \<and> \<not> full_only k t))"
  using assms unfolding produce_pass_def
  by (elim runE) (simp_all add: queued_def typed_def full_only_def)

lemma produce_loop:
  assumes "loop n (produce_pass k rk rt msg) u env tr = (t, r)"
  shows "typed t = typed tr \<and> (full_only k t \<longrightarrow> full_only k tr) \<and>
    (queued t = queued tr @ [msg] \<or> queued t = queued tr \<and> (r = Ok () \<longrightarrow> \<not> full_only k t))"
  using assms
proof (induction n arbitrary: u tr)
  case (Suc n)
  obtain t1 r1 where p: "produce_pass k rk rt msg u env tr = (t1, r1)" by fastforce
  show ?case
  proof (cases "r1 = Ok (Inl ())")
    case True
    then have "loop n (produce_pass k rk rt msg) () env t1 = (t, r)" using Suc.prems p by (simp add: bind_Ok)
    from Suc.IH [OF this] produce_attempt [OF p] True show ?thesis by auto
  next
    case False
    with produce_attempt [OF p] have "r1 = Ok (Inr ())" by auto
    then have "t = t1" using Suc.prems p by (simp add: bind_Ok io_eval)
    with produce_attempt [OF p] False show ?thesis by auto
  qed
qed simp

lemma typed_fgets:
  "typed ((Call ''fgets'' xs, r) # t) = (if ret r = 0 then []
     else case strip_newline (fgets_line 512 r) of Inl _ \<Rightarrow> [] | Inr m \<Rightarrow> if m = [] then [] else [m]) @ typed t"
  by (simp add: typed_def)

lemma producer_line:
  assumes "producer_pass k fuel rk rt run env tr = (t, Ok x)" "queue_inv k tr"
  shows "queue_inv k t"
  using assms unfolding producer_pass_def test_run_def stop_producer_def
  by (elim runE bind_OkE) (auto simp: queue_inv_def trace_other typed_fgets dest!: produce_loop)

lemma producer_lines:
  assumes "loop n (producer_pass k fuel rk rt) run env tr = (t, Ok x)" "queue_inv k tr"
  shows "queue_inv k t"
  using assms
proof (induction n arbitrary: run tr)
  case (Suc n)
  from Suc.prems(1) obtain t1 y where p: "producer_pass k fuel rk rt run env tr = (t1, Ok y)"
    and rest: "(case y of Inl s' \<Rightarrow> loop n (producer_pass k fuel rk rt) s' | Inr a \<Rightarrow> return a) env t1 = (t, Ok x)"
    unfolding loop.simps by (rule bind_OkE)
  from producer_line [OF p Suc.prems(2)] rest Suc.IH show ?case
    by (cases y) (auto simp: return_eval)
qed simp

lemma producer_end:
  assumes "producer_main k fuel lines argv env [] = (t, Ok 0)"
  shows "queue_inv k t \<and>
    (\<exists>u. map (fn \<circ> fst) t = u @ [''rd_kafka_flush'', ''rd_kafka_topic_destroy'', ''rd_kafka_destroy''])"
  using assms unfolding producer_main_def
  by (elim runE bind_OkE) (auto dest!: producer_lines simp: queue_inv_def trace_other)

section \<open>The consumer's messages and handles\<close>

definition polled :: "trace \<Rightarrow> int list" where
  "polled tr = filter (\<lambda>h. h \<noteq> 0) (map (\<lambda>(c, r). ret r) (uses ''rd_kafka_consumer_poll'' tr))"

definition destroyed :: "trace \<Rightarrow> int list" where
  "destroyed tr = concat (map (\<lambda>(c, r). case args c of [I h] \<Rightarrow> [h] | _ \<Rightarrow> []) (uses ''rd_kafka_message_destroy'' tr))"

lemma consume_one:
  assumes "consume_pass k msg rk run env tr = (t, Ok x)"
  shows "\<exists>hs. polled t = polled tr @ hs \<and> destroyed t = destroyed tr @ hs"
  using assms unfolding consume_pass_def test_run_def stop_consumer_def msg_consume_def
  by (elim runE) (auto simp: polled_def destroyed_def exit_eval)

text \<open>The events of the consumer's life in one list: messages polled and destroyed, and its end.\<close>

abbreviation ending :: "string list" where
  "ending \<equiv> [''rd_kafka_consumer_close'', ''rd_kafka_topic_partition_list_destroy'', ''rd_kafka_destroy'',
     ''rd_kafka_wait_destroyed'', ''rd_kafka_dump'']"

abbreviation messages :: "string list" where
  "messages \<equiv> [''rd_kafka_consumer_poll'', ''rd_kafka_message_destroy'']"

definition lifecycle :: "trace \<Rightarrow> event list" where
  "lifecycle tr = filter (\<lambda>e. fn (fst e) \<in> set (ending @ messages)) tr"

lemma lifecycle_simps [simp]:
  "lifecycle [] = []" "lifecycle (t @ u) = lifecycle t @ lifecycle u"
  "lifecycle ((c, r) # t) = (if fn c \<in> set (ending @ messages) then (c, r) # lifecycle t else lifecycle t)"
  by (simp_all add: lifecycle_def)

lemma uses_lifecycle: "f \<in> set (ending @ messages) \<Longrightarrow> uses f (lifecycle tr) = uses f tr"
  unfolding uses_def lifecycle_def filter_filter by (rule filter_cong) auto

lemma consume_pass_life:
  assumes "consume_pass k msg rk run env tr = (t, r)"
  shows "\<exists>l. lifecycle t = lifecycle tr @ l \<and> (\<forall>e \<in> set l. fn (fst e) \<in> set messages)"
  using assms unfolding consume_pass_def test_run_def stop_consumer_def msg_consume_def
  by (elim runE) (auto simp: exit_eval)

lemma consume_loop:
  assumes "loop n (consume_pass k msg rk) run env tr = (t, Ok x)"
  shows "(\<exists>l. lifecycle t = lifecycle tr @ l \<and> (\<forall>e \<in> set l. fn (fst e) \<in> set messages)) \<and>
    (\<exists>hs. polled t = polled tr @ hs \<and> destroyed t = destroyed tr @ hs)"
  using assms
proof (induction n arbitrary: run tr)
  case (Suc n)
  from Suc.prems obtain t1 y where p: "consume_pass k msg rk run env tr = (t1, Ok y)"
    and rest: "(case y of Inl s' \<Rightarrow> loop n (consume_pass k msg rk) s' | Inr a \<Rightarrow> return a) env t1 = (t, Ok x)"
    unfolding loop.simps by (rule bind_OkE)
  from consume_one [OF p] obtain hs where hs: "polled t1 = polled tr @ hs" "destroyed t1 = destroyed tr @ hs" by blast
  from consume_pass_life [OF p] obtain l where l: "lifecycle t1 = lifecycle tr @ l" "\<forall>e \<in> set l. fn (fst e) \<in> set messages" by blast
  show ?case
  proof (cases y)
    case (Inl s')
    then have "loop n (consume_pass k msg rk) s' env t1 = (t, Ok x)" using rest by simp
    from Suc.IH [OF this] obtain l' hs' where "lifecycle t = lifecycle t1 @ l'" "\<forall>e \<in> set l'. fn (fst e) \<in> set messages"
      "polled t = polled t1 @ hs'" "destroyed t = destroyed t1 @ hs'" by blast
    with l hs show ?thesis by (intro conjI exI [of _ "l @ l'"] exI [of _ "hs @ hs'"]) auto
  next
    case (Inr a)
    then have "t = t1" using rest by (simp add: return_eval)
    with l hs show ?thesis by blast
  qed
qed simp

lemma option_loop:
  assumes "loop n option_pass s env tr = (t, Ok x)"
  shows "lifecycle t = lifecycle tr"
  using assms
proof (induction n arbitrary: s tr)
  case (Suc n)
  from Suc.prems obtain t1 y where p: "option_pass s env tr = (t1, Ok y)"
    and rest: "(case y of Inl s' \<Rightarrow> loop n option_pass s' | Inr a \<Rightarrow> return a) env t1 = (t, Ok x)"
    unfolding loop.simps by (rule bind_OkE)
  have "lifecycle t1 = lifecycle tr"
    using p unfolding option_pass_def by (cases s) (auto elim!: runE split: if_splits)
  with rest Suc.IH show ?case by (cases y) (auto simp: return_eval)
qed simp

lemma init_result:
  assumes "initKafka k brokers grp topic env tr = (t, r)"
  shows "lifecycle t = lifecycle tr \<and> (\<exists>v rk tp. r = Ok (v, rk, tp) \<and> (v = 1 \<or> v = - 1) \<and> (v = 1 \<longrightarrow> rk \<noteq> 0))"
  using assms unfolding initKafka_def Let_def by (elim runE) simp_all

abbreviation waits :: "trace \<Rightarrow> int list" where
  "waits t \<equiv> map (\<lambda>e. ret (snd e)) (uses ''rd_kafka_wait_destroyed'' t)"

text \<open>The waits: all but the last time out, and the counter ends at 0 or below after all of them.\<close>

lemma wait_loop:
  assumes "wait_destroyed n env tr = (t, r)"
  shows "\<exists>ws v. lifecycle t = lifecycle tr @ ws \<and> map fst ws = replicate (length ws) (Call ''rd_kafka_wait_destroyed'' [I 1000]) \<and>
    r = Ok v \<and> length ws \<le> n \<and> (v \<le> 0 \<longleftrightarrow> length ws = n) \<and> (0 < n \<longrightarrow> ws \<noteq> []) \<and>
    (\<forall>w \<in> set (butlast ws). ret (snd w) = - 1) \<and> (length ws < n \<longrightarrow> ret (snd (last ws)) \<noteq> - 1)"
  using assms
proof (induction n arbitrary: tr)
  case (Suc n)
  let ?c = "Call ''rd_kafka_wait_destroyed'' [I 1000]"
  from Suc.prems show ?case
    unfolding wait_destroyed.simps
  proof (elim runE)
    fix w p
    assume w: "ret w = - 1" and rest: "wait_destroyed n env
      ((tr @ [(?c, w)]) @ [(Call ''printf'' [S (''Waiting for librdkafka to decommission'' @ nl)], p)]) = (t, r)"
    from Suc.IH [OF rest] obtain ws v where
      ws: "lifecycle t = lifecycle tr @ (?c, w) # ws" "map fst ws = replicate (length ws) ?c" "r = Ok v" "length ws \<le> n"
        "v \<le> 0 \<longleftrightarrow> length ws = n" "0 < n \<longrightarrow> ws \<noteq> []" "\<forall>w \<in> set (butlast ws). ret (snd w) = - 1"
        "length ws < n \<longrightarrow> ret (snd (last ws)) \<noteq> - 1" by auto
    then show ?thesis using w by (intro exI [of _ "(?c, w) # ws"] exI [of _ v]) auto
  next
    fix w
    assume w: "ret w \<noteq> - 1" "t = tr @ [(?c, w)]" "r = Ok (int n)"
    then show ?thesis by (intro exI [of _ "[(?c, w)]"] exI [of _ "int n"]) auto
  qed
qed (auto simp: return_eval)

lemma end_calls:
  assumes "consumer_end rk topics env tr = (t, Ok v)"
  shows "v = 0 \<and> (\<exists>l ws. lifecycle t = lifecycle tr @ l \<and> waits t = waits tr @ ws \<and>
    map fst l = [Call ''rd_kafka_consumer_close'' [I rk], Call ''rd_kafka_topic_partition_list_destroy'' [I topics], Call ''rd_kafka_destroy'' [I rk]] @
      replicate (length ws) (Call ''rd_kafka_wait_destroyed'' [I 1000]) @
      (if length ws = 5 then [Call ''rd_kafka_dump'' [S ''stdout'', I rk]] else []) \<and>
    1 \<le> length ws \<and> length ws \<le> 5 \<and> (\<forall>w \<in> set (butlast ws). w = - 1) \<and> (length ws < 5 \<longrightarrow> last ws \<noteq> - 1))"
proof -
  let ?k = "\<lambda>run. bind (if run \<le> 0 then do_call ''rd_kafka_dump'' [S ''stdout'', I rk] else return ()) (\<lambda>_. return 0)"
  from assms obtain t1 l1 where pre: "lifecycle t1 = lifecycle tr @ l1" "map fst l1 = [Call ''rd_kafka_consumer_close'' [I rk],
      Call ''rd_kafka_topic_partition_list_destroy'' [I topics], Call ''rd_kafka_destroy'' [I rk]]"
    and w: "bind (wait_destroyed 5) ?k env t1 = (t, Ok v)"
    unfolding consumer_end_def
  proof (elim runE, goal_cases)
    case (1 x xa xb xc xd)
    let ?c = "(Call ''rd_kafka_consumer_close'' [I rk], x)" and ?d = "Call ''rd_kafka_topic_partition_list_destroy'' [I topics]"
    show ?case by (rule 1(1) [OF _ _ 1(3), of "[?c, (?d, xc), (Call ''rd_kafka_destroy'' [I rk], xd)]"]) simp_all
  next
    case (2 x xa xb xc)
    let ?c = "(Call ''rd_kafka_consumer_close'' [I rk], x)" and ?d = "Call ''rd_kafka_topic_partition_list_destroy'' [I topics]"
    show ?case by (rule 2(1) [OF _ _ 2(3), of "[?c, (?d, xb), (Call ''rd_kafka_destroy'' [I rk], xc)]"]) simp_all
  qed
  from w obtain t2 run where w5: "wait_destroyed 5 env t1 = (t2, Ok run)" and e: "?k run env t2 = (t, Ok v)" by (rule bind_OkE)
  from wait_loop [OF w5] obtain ws where
    ws: "lifecycle t2 = lifecycle t1 @ ws" "map fst ws = replicate (length ws) (Call ''rd_kafka_wait_destroyed'' [I 1000])"
      "length ws \<le> 5" "run \<le> 0 \<longleftrightarrow> length ws = 5" "ws \<noteq> []" "\<forall>w \<in> set (butlast ws). ret (snd w) = - 1"
      "length ws < 5 \<longrightarrow> ret (snd (last ws)) \<noteq> - 1" by auto
  from e obtain l3 where l3: "lifecycle t = lifecycle t2 @ l3" "v = 0"
    "map fst l3 = (if run \<le> 0 then [Call ''rd_kafka_dump'' [S ''stdout'', I rk]] else [])"
    by (elim runE) auto
  let ?l = "l1 @ ws @ l3" and ?ws = "map (\<lambda>e. ret (snd e)) ws"
  have life: "lifecycle t = lifecycle tr @ ?l" using pre(1) ws(1) l3(1) by simp
  have "uses ''rd_kafka_wait_destroyed'' l1 = []" "uses ''rd_kafka_wait_destroyed'' l3 = []"
    using pre(2) l3(3) by (auto simp: uses_def filter_empty_conv map_eq_Cons_conv split: if_splits)
  moreover have "uses ''rd_kafka_wait_destroyed'' ws = ws"
  proof -
    have "fn (fst x) = ''rd_kafka_wait_destroyed''" if "x \<in> set ws" for x
    proof -
      have "fst x \<in> set (map fst ws)" using that by simp
      then show ?thesis unfolding ws(2) by auto
    qed
    then show ?thesis by (simp add: uses_def)
  qed
  ultimately have waits: "waits t = waits tr @ ?ws"
    using arg_cong [OF life, of "uses ''rd_kafka_wait_destroyed''"] uses_lifecycle [of "''rd_kafka_wait_destroyed''"] by simp
  show ?thesis
    using life waits pre(2) ws(2-7) l3(2,3)
    by (intro conjI exI [of _ ?l] exI [of _ ?ws]) (auto simp: last_map map_butlast [symmetric] Suc_le_eq)
qed

section \<open>Properties\<close>

text \<open>
  C16: the producer hands the library the non-empty lines that were typed, in order and each
  at most once; when no error other than a full queue occurs, every line is accepted exactly
  once, because a full queue is retried.  A normal end flushes the queue and then destroys
  the topic and the producer, after the last message.
\<close>

theorem producer_exactly_once:
  assumes "producer_main k fuel lines argv env [] = (t, Ok 0)"
  shows "subseq (queued t) (typed t) \<and> (full_only k t \<longrightarrow> queued t = typed t) \<and>
    (\<exists>u. map (fn \<circ> fst) t = u @ [''rd_kafka_flush'', ''rd_kafka_topic_destroy'', ''rd_kafka_destroy''])"
  using producer_end [OF assms] by (simp add: queue_inv_def)

definition sample_codes :: rdkafka where
  "sample_codes = \<lparr>conf_ok = 0, queue_full = - 184, partition_eof = - 191, unknown_partition = - 190, unknown_topic = - 188\<rparr>"

text \<open>One line is typed, the queue is full at the first attempt, then the input ends.\<close>

definition typing_env :: env where
  "typing_env tr c = \<lparr>ret =
     (if fn c = ''fgets'' then (if uses ''fgets'' tr = [] then 1 else 0)
      else if fn c = ''rd_kafka_produce'' then (if uses ''rd_kafka_produce'' tr = [] then - 1 else 0)
      else if fn c = ''rd_kafka_last_error'' then - 184
      else if fn c = ''rd_kafka_new'' \<or> fn c = ''rd_kafka_topic_new'' then 7 else 0),
     data = (if fn c = ''fgets'' then ''hi'' @ nl else []), errno = 0\<rparr>"

theorem producer_exactly_once_witness:
  "\<exists>t. producer_main sample_codes 3 3 [''p'', ''b'', ''t''] typing_env [] = (t, Ok 0) \<and>
     queued t = [''hi''] \<and> queued t = typed t"
proof -
  have c: "case producer_main sample_codes 3 3 [''p'', ''b'', ''t''] typing_env [] of
      (t, r) \<Rightarrow> r = Ok 0 \<and> queued t = [''hi''] \<and> full_only sample_codes t"
    by code_simp
  obtain t r where p: "producer_main sample_codes 3 3 [''p'', ''b'', ''t''] typing_env [] = (t, r)" by (rule prod.exhaust)
  from c have "r = Ok 0" "queued t = [''hi'']" "full_only sample_codes t" unfolding p by simp_all
  with p producer_exactly_once [of sample_codes 3 3 "[''p'', ''b'', ''t'']" typing_env t] show ?thesis by auto
qed

text \<open>
  C25: whatever the library replies, when the consumer's \<^verbatim>\<open>main\<close> ends, its calls on messages and
  handles are, in this order: the polls and the destructions of messages, every message
  polled being destroyed once and in order; then one close of the consumer, one destruction
  of the topic list and one of the handle; then one to five waits, each but the last a
  timeout and the last not when there are fewer than five; and, exactly when five waits were
  made, a dump of the destroyed handle, also when the fifth wait succeeded.
\<close>

theorem consumer_lifecycle:
  assumes "consumer_main k msg opts fuel env [] = (t, Ok v)"
  shows "v = 0 \<and> destroyed t = polled t \<and>
    (\<exists>rk topics ms n. map fst (lifecycle t) = ms @
        [Call ''rd_kafka_consumer_close'' [I rk], Call ''rd_kafka_topic_partition_list_destroy'' [I topics], Call ''rd_kafka_destroy'' [I rk]] @
        replicate n (Call ''rd_kafka_wait_destroyed'' [I 1000]) @
        (if n = 5 then [Call ''rd_kafka_dump'' [S ''stdout'', I rk]] else []) \<and>
      (\<forall>c \<in> set ms. fn c = ''rd_kafka_consumer_poll'' \<or> fn c = ''rd_kafka_message_destroy'') \<and>
      n = length (waits t) \<and> 1 \<le> n \<and> n \<le> 5 \<and> (\<forall>w \<in> set (butlast (waits t)). w = - 1) \<and> (n < 5 \<longrightarrow> last (waits t) \<noteq> - 1))"
proof -
  from assms obtain p t1 where o: "loop opts option_pass (''localhost:9092'', None, None) env [] = (t1, Ok p)" and
    rest: "(case p of (brokers, grp, topic) \<Rightarrow>
     bind (do_call ''signal'' [S ''SIGINT'', S ''stop'']) (\<lambda>_.
     bind (do_call ''signal'' [S ''SIGUSR1'', S ''sig_usr1'']) (\<lambda>_.
     bind (initKafka k brokers grp topic) (\<lambda>(r, rk, topics).
     bind (if r = 0 then eprint (''kafka server initialize error'' @ nl)
           else loop fuel (consume_pass k msg rk) True) (\<lambda>_.
       consumer_end rk topics))))) env t1 = (t, Ok v)"
    unfolding consumer_main_def by (rule bind_OkE)
  obtain brokers grp topic where p: "p = (brokers, grp, topic)" by (cases p)
  from rest [unfolded p prod.case] obtain x y q t2 where
    i: "initKafka k brokers grp topic env (t1 @ [(Call ''signal'' [S ''SIGINT'', S ''stop''], x)] @
      [(Call ''signal'' [S ''SIGUSR1'', S ''sig_usr1''], y)]) = (t2, Ok q)" and
    rest2: "(case q of (r, rk, topics) \<Rightarrow> bind (if r = 0 then eprint (''kafka server initialize error'' @ nl)
           else loop fuel (consume_pass k msg rk) True) (\<lambda>_. consumer_end rk topics)) env t2 = (t, Ok v)"
    by (elim run_do_callE) (erule bind_OkE, simp)
  obtain r rk topics where q: "q = (r, rk, topics)" by (cases q)
  have start: "lifecycle t2 = []" "r \<noteq> 0" using init_result [OF i] option_loop [OF o] q by auto
  from rest2 [unfolded q prod.case] start(2) obtain t3 u where
    l: "loop fuel (consume_pass k msg rk) True env t2 = (t3, Ok u)" and e: "consumer_end rk topics env t3 = (t, Ok v)"
    by (auto elim: bind_OkE)
  have none: "uses f t2 = []" if "f \<in> set (ending @ messages)" for f
    using uses_lifecycle [OF that, of t2] start(1) by (simp add: uses_def)
  from consume_loop [OF l] start(1) none obtain ms where m: "lifecycle t3 = ms" "\<forall>e \<in> set ms. fn (fst e) \<in> set messages"
    "polled t3 = destroyed t3" by (auto simp: polled_def destroyed_def)
  from end_calls [OF e] obtain n ws where n: "v = 0" "lifecycle t = ms @ n" "waits t = waits t3 @ ws"
    "map fst n = [Call ''rd_kafka_consumer_close'' [I rk], Call ''rd_kafka_topic_partition_list_destroy'' [I topics], Call ''rd_kafka_destroy'' [I rk]] @
      replicate (length ws) (Call ''rd_kafka_wait_destroyed'' [I 1000]) @
      (if length ws = 5 then [Call ''rd_kafka_dump'' [S ''stdout'', I rk]] else [])"
    "1 \<le> length ws" "length ws \<le> 5" "\<forall>w \<in> set (butlast ws). w = - 1" "length ws < 5 \<longrightarrow> last ws \<noteq> - 1"
    using m(1) by blast
  have "\<forall>c \<in> set (map fst n). fn c \<notin> set messages" unfolding n(4) by auto
  then have "uses f n = []" if "f \<in> set messages" for f using that by (auto simp: uses_def filter_empty_conv)
  then have same: "uses f t = uses f t3" if "f \<in> set messages" for f
    using that uses_lifecycle [of f t] uses_lifecycle [of f t3] n(2) m(1) by simp
  have "uses ''rd_kafka_wait_destroyed'' ms = []" using m(2) by (auto simp: uses_def filter_empty_conv)
  then have "waits t3 = []" using uses_lifecycle [of "''rd_kafka_wait_destroyed''" t3] m(1) by simp
  moreover have "polled t = polled t3" "destroyed t = destroyed t3" by (simp_all add: polled_def destroyed_def same)
  ultimately show ?thesis using n m by (intro conjI exI [of _ rk] exI [of _ topics] exI [of _ "map fst ms"] exI [of _ "length ws"]) auto
qed

definition sample_message :: rk_message where
  "sample_message = \<lparr>err = 0, rkt = 3, topic_name = ''t'', partition_no = 0, offset = 4, payload = ''ab'', payload_len = 2,
     key = [], key_len = 0\<rparr>"

text \<open>One message arrives, then the user interrupts; \<open>created\<close> is what \<^verbatim>\<open>rd_kafka_new\<close> returns.\<close>

definition consuming_env :: "int \<Rightarrow> env" where
  "consuming_env created tr c = \<lparr>ret =
     (if fn c = ''getopt'' then - 1
      else if fn c = ''rd_kafka_new'' then created
      else if fn c = ''rd_kafka_brokers_add'' then 1
      else if fn c = ''SIGINT'' then (if uses ''rd_kafka_consumer_poll'' tr = [] then 0 else 1)
      else if fn c = ''rd_kafka_consumer_poll'' then 5 else 0), data = [], errno = 0\<rparr>"

theorem consumer_lifecycle_witness:
  "\<exists>t. consumer_main sample_codes (\<lambda>_. sample_message) 1 3 (consuming_env 7) [] = (t, Ok 0) \<and>
     polled t = [5] \<and> destroyed t = [5]"
proof -
  have c: "case consumer_main sample_codes (\<lambda>_. sample_message) 1 3 (consuming_env 7) [] of
      (t, r) \<Rightarrow> r = Ok 0 \<and> polled t = [5]"
    by code_simp
  obtain t r where p: "consumer_main sample_codes (\<lambda>_. sample_message) 1 3 (consuming_env 7) [] = (t, r)" by (rule prod.exhaust)
  from c have "r = Ok 0" "polled t = [5]" unfolding p by simp_all
  with p consumer_lifecycle [of sample_codes "\<lambda>_. sample_message" 1 3 "consuming_env 7" t 0] show ?thesis by auto
qed

text \<open>
  \<^verbatim>\<open>initKafka\<close> returns 1 or -1 and \<^verbatim>\<open>main\<close> tests it against 0, so no failure is noticed: when the
  consumer cannot be created \<^verbatim>\<open>main\<close> polls, closes and destroys the NULL handle.
\<close>

theorem init_failure_unnoticed:
  "(case initKafka k brokers grp topic env tr of (t, r) \<Rightarrow>
      \<exists>v rk topics. r = Ok (v, rk, topics) \<and> (v = 1 \<and> rk \<noteq> 0 \<or> v = - 1)) \<and>
   (case consumer_main sample_codes (\<lambda>_. sample_message) 1 3 (consuming_env 0) [] of (t, r) \<Rightarrow>
      r = Ok 0 \<and> map fst (uses ''rd_kafka_consumer_poll'' t) = [Call ''rd_kafka_consumer_poll'' [I 0, I 1000]] \<and>
      map fst (uses ''rd_kafka_destroy'' t) = [Call ''rd_kafka_destroy'' [I 0]])"
proof (rule conjI)
  obtain t r where i: "initKafka k brokers grp topic env tr = (t, r)" by (rule prod.exhaust)
  from init_result [OF i] i show "case initKafka k brokers grp topic env tr of (t, r) \<Rightarrow>
      \<exists>v rk topics. r = Ok (v, rk, topics) \<and> (v = 1 \<and> rk \<noteq> 0 \<or> v = - 1)" by auto
  show "case consumer_main sample_codes (\<lambda>_. sample_message) 1 3 (consuming_env 0) [] of (t, r) \<Rightarrow>
      r = Ok 0 \<and> map fst (uses ''rd_kafka_consumer_poll'' t) = [Call ''rd_kafka_consumer_poll'' [I 0, I 1000]] \<and>
      map fst (uses ''rd_kafka_destroy'' t) = [Call ''rd_kafka_destroy'' [I 0]]"
    by code_simp
qed

end
