(* ===== verification/HttpClient.thy ===== *)
theory HttpClient
  imports C_IO
begin

text \<open>
  The download programs \<^verbatim>\<open>src/cpp/httpClient.c\<close> and \<^verbatim>\<open>src/cpp/http.c\<close>.  The arrays of \<^verbatim>\<open>main\<close> are not
  initialised: their contents are arguments, so that a theorem holds for all of them.  The
  resolver, the sockets and the files are the environment; \<open>fuel\<close> bounds the passes of the
  loops that send and receive.
\<close>

section \<open>Strings in buffers\<close>

text \<open>The position \<^verbatim>\<open>strchr\<close> finds.\<close>

definition find_char :: "char \<Rightarrow> string \<Rightarrow> nat option" where
  "find_char x s = (if x \<in> set s then Some (length (takeWhile (\<lambda>c. c \<noteq> x) s)) else None)"

definition starts_with :: "string \<Rightarrow> string \<Rightarrow> bool" where
  "starts_with p s \<longleftrightarrow> take (length p) s = p"

section \<open>\<^verbatim>\<open>httpClient.c\<close>\<close>

text \<open>The search from position \<open>i\<close> down; \<^verbatim>\<open>s[i - 1]\<close> is read before the array when \<open>i\<close> is 0.\<close>

fun rstr_from :: "string \<Rightarrow> char \<Rightarrow> nat \<Rightarrow> nat option c_result" where
  "rstr_from s x 0 = Inl OutOfBounds"
| "rstr_from s x (Suc i) = (if x \<in> set (drop i s) then Inr (Some i) else rstr_from s x i)"

definition Rstrchr :: "string \<Rightarrow> char \<Rightarrow> nat option c_result" where
  "Rstrchr s x = (if s = [] then Inr None else rstr_from s x (length s))"

definition tolower :: "char \<Rightarrow> char" where
  "tolower c = (if 65 \<le> (of_char c :: nat) \<and> (of_char c :: nat) \<le> 90 then char_of ((of_char c :: nat) + 32) else c)"

definition ToLowerCase :: "string \<Rightarrow> string" where
  "ToLowerCase s = map tolower s"

text \<open>
  The two buffers and the port.  \<^verbatim>\<open>sizeof (web)\<close> is the size of a pointer, so only eight bytes
  are cleared.
\<close>

definition GetHost :: "string \<Rightarrow> string \<Rightarrow> string \<Rightarrow> (string \<times> string \<times> int) c_result" where
  "GetHost src web file =
     c_bind (mem_write web 0 (replicate 8 NUL)) (\<lambda>web.
     c_bind (mem_write file 0 (replicate 8 NUL)) (\<lambda>file.
     if src = [] then Inr (web, file, 0)
     else
       let pA = (if starts_with ''http://'' src then drop 7 src
                 else if starts_with ''https://'' src then drop 8 src else src) in
       c_bind
         (case find_char CHR ''/'' pA of
            Some n \<Rightarrow>
              c_bind (mem_write web 0 (take n pA)) (\<lambda>web.
              c_bind (mem_write file 0 (drop (Suc n) pA)) (\<lambda>file.
              c_bind (store file (length pA - n - 1) NUL) (\<lambda>file.
              c_bind (store web n NUL) (\<lambda>web. Inr (web, file)))))
          | None \<Rightarrow>
              c_bind (mem_write web 0 pA) (\<lambda>web.
              c_bind (store web (length pA) NUL) (\<lambda>web. Inr (web, file)))) (\<lambda>(web, file).
       c_bind
         (case find_char CHR '':'' (cstr web) of
            Some n \<Rightarrow> atoi (drop (Suc n) (cstr web))
          | None \<Rightarrow> Inr 80) (\<lambda>port. Inr (web, file, port)))))"

definition request_of :: "string \<Rightarrow> string \<Rightarrow> int \<Rightarrow> string" where
  "request_of file host port =
     (let crlf = [CHR 0x0D, CHR 0x0A] in
      ''GET /'' @ file @ '' HTTP/1.1'' @ crlf @ ''Accept: */*'' @ crlf @ ''Accept-Language: zh-cn'' @ crlf @
      ''User-Agent: Mozilla/4.0 (compatible; MSIE 5.01; Windows NT 5.0)'' @ crlf @
      ''Host: '' @ host @ '':'' @ show_int port @ crlf @ ''Connection: Close'' @ crlf @ crlf)"

text \<open>The name of the local file, in \<^verbatim>\<open>local_file[256]\<close>.\<close>

definition local_name :: "string \<Rightarrow> string c_result" where
  "local_name file =
     c_bind (if file \<noteq> [] then Rstrchr file CHR ''/'' else Inr None) (\<lambda>pt.
     let buf = replicate 256 NUL in
     c_bind
       (case pt of
          Some i \<Rightarrow> if drop (Suc i) file \<noteq> [] then str_write buf (drop (Suc i) file)
                    else mem_write buf 0 (take (length file - 1) file)
        | None \<Rightarrow> str_write buf (if file \<noteq> [] then file else ''index.html'')) (\<lambda>buf.
       c_bind (c_strlen buf) (\<lambda>_. Inr (cstr buf))))"

text \<open>\<open>sent\<close> bytes of the request have been sent.\<close>

definition send_pass :: "int \<Rightarrow> string \<Rightarrow> int \<Rightarrow> (int + unit) prog" where
  "send_pass fd request sent =
     (if sent < int (length request) then
        bind (invoke ''write'' [I fd, S (drop (nat sent) request)]) (\<lambda>r.
        if ret r = - 1 then bind (print (''send error!'' @ data r @ nl)) (\<lambda>_. exit_with 0)
        else
          bind (print (show_int (sent + ret r) @ '' bytes send OK!'' @ nl)) (\<lambda>_. return (Inl (sent + ret r))))
      else return (Inr ()))"

definition byte_of :: "reply \<Rightarrow> char" where
  "byte_of r = (if data r = [] then NUL else hd (data r))"

definition line_end :: "char \<Rightarrow> bool" where
  "line_end c \<longleftrightarrow> c = CHR 0x0D \<or> c = CHR 0x0A"

text \<open>\<open>i\<close> counts the line ends in a row up to four, then the bytes.\<close>

definition read_pass :: "int \<Rightarrow> int \<Rightarrow> int \<Rightarrow> (int + unit) prog" where
  "read_pass fd fp i =
     bind (invoke ''read'' [I fd, I 1]) (\<lambda>r.
     if ret r \<noteq> 1 then return (Inr ())
     else
       let c = byte_of r in
       if i < 4 then
         bind (print [c]) (\<lambda>_. return (Inl (if line_end c then i + 1 else 0)))
       else
         bind (do_call ''fwrite'' [I fp, S [c]]) (\<lambda>_.
         bind (lift (c_int (i + 1))) (\<lambda>i.
         bind (if i mod 1024 = 0 then do_call ''fflush'' [I fp] else return ()) (\<lambda>_. return (Inl i)))))"

text \<open>\<^verbatim>\<open>main\<close> from the opened file on, and from the connection on.\<close>

definition client_receive :: "nat \<Rightarrow> int \<Rightarrow> string \<Rightarrow> int prog" where
  "client_receive fuel fd name =
     bind (invoke ''fopen'' [S name, S ''a'']) (\<lambda>f.
     if ret f = 0 then bind (print (''create file error! '' @ data f @ nl)) (\<lambda>_. return 0)
     else
       bind (print (nl @ ''The following is the response header:'' @ nl)) (\<lambda>_.
       bind (loop fuel (read_pass fd (ret f)) 0) (\<lambda>_.
       bind (do_call ''fclose'' [I (ret f)]) (\<lambda>_.
       bind (do_call ''close'' [I fd]) (\<lambda>_. exit_with 0)))))"

definition client_transfer :: "nat \<Rightarrow> int \<Rightarrow> string \<Rightarrow> string \<Rightarrow> int \<Rightarrow> int prog" where
  "client_transfer fuel fd host hfile port =
     (let request = request_of hfile host port in
      bind (lift (c_require (length request < 1024) OutOfBounds)) (\<lambda>_.
      bind (print request) (\<lambda>_.
      bind (lift (local_name hfile)) (\<lambda>name.
      bind (print (''local filename to write:'' @ name @ nl @ nl)) (\<lambda>_.
      bind (loop fuel (send_pass fd request) 0) (\<lambda>_. client_receive fuel fd name))))))"

text \<open>The contents of \<^verbatim>\<open>host_addr\<close> and \<^verbatim>\<open>host_file\<close> before the call are arguments.\<close>

definition client_main :: "nat \<Rightarrow> string \<Rightarrow> string \<Rightarrow> string list \<Rightarrow> int prog" where
  "client_main fuel web0 file0 argv =
     (if length argv \<noteq> 2 then
        bind (eprint (''Usage:'' @ hd argv @ '' web-address'' @ [CHR 0x07] @ nl)) (\<lambda>_. exit_with 1)
      else
        bind (print (''parameter.1 is: '' @ argv ! 1 @ nl)) (\<lambda>_.
        let url = ToLowerCase (argv ! 1) in
        bind (print (''lowercase parameter.1 is: '' @ url @ nl)) (\<lambda>_.
        bind (lift (GetHost url web0 file0)) (\<lambda>p.
        let host = cstr (fst p); hfile = cstr (fst (snd p)); port = snd (snd p) in
        bind (print (''webhost:'' @ host @ nl)) (\<lambda>_.
        bind (print (''hostfile:'' @ hfile @ nl)) (\<lambda>_.
        bind (print (''portnumber:'' @ show_int port @ nl @ nl)) (\<lambda>_.
        bind (invoke ''gethostbyname'' [S host]) (\<lambda>h.
        if ret h = 0 then bind (eprint (''Gethostname error, '' @ data h @ nl)) (\<lambda>_. exit_with 1)
        else
          bind (invoke ''socket'' [S ''AF_INET'', S ''SOCK_STREAM'']) (\<lambda>s.
          if ret s = - 1 then bind (eprint (''Socket Error:'' @ data s @ [CHR 0x07] @ nl)) (\<lambda>_. exit_with 1)
          else
            bind (invoke ''connect'' [I (ret s), I (ret h), I port]) (\<lambda>c.
            if ret c = - 1 then bind (eprint (''Connect Error:'' @ data c @ [CHR 0x07] @ nl)) (\<lambda>_. exit_with 1)
            else client_transfer fuel (ret s) host hfile port))))))))))"

section \<open>\<^verbatim>\<open>http.c\<close>\<close>

definition form_request :: string where
  "form_request =
     ''GET /data HTTP/1.1'' @ nl @ ''Host: www.test.cn'' @ nl @
     ''Content-Type: application/x-www-form-urlencoded'' @ nl @
     ''Content-Length: '' @ show_nat (length ''a=1&b=2'') @ nl @ nl @ ''a=1&b=2'' @
     [CHR 0x0D, CHR 0x0A, CHR 0x0D, CHR 0x0A]"

text \<open>
  One pass of the receive loop.  \<open>watched\<close> says whether the socket is still in \<^verbatim>\<open>t_set1\<close>:
  \<^verbatim>\<open>select\<close> removes it when it reports no event, and the set is not filled again.  The
  messages of the two failures are in Chinese; they are named here, and full-width signs
  are written in ASCII.
\<close>

definition select_pass :: "int \<Rightarrow> bool \<Rightarrow> (bool + int) prog" where
  "select_pass fd watched =
     bind (do_call ''sleep'' [I 1]) (\<lambda>_.
     bind (call_ret ''select'' [I (fd + 1), I (if watched then 1 else 0)]) (\<lambda>h.
     if h = 0 then return (Inl False)
     else if h < 0 then
       bind (do_call ''close'' [I fd]) (\<lambda>_.
       bind (print (''select error'' @ nl)) (\<lambda>_. return (Inr (- 1))))
     else
       bind (invoke ''read'' [I fd, I 4095]) (\<lambda>r.
       if ret r = 0 then
         bind (do_call ''close'' [I fd]) (\<lambda>_.
         bind (print (''remote closed'' @ nl)) (\<lambda>_. return (Inr (- 1))))
       else bind (print (cstr (take (nat (ret r)) (data r)) @ nl)) (\<lambda>_. return (Inr 0)))))"

definition get_data :: "nat \<Rightarrow> int prog" where
  "get_data fuel =
     bind (call_ret ''socket'' [S ''AF_INET'', S ''SOCK_STREAM'']) (\<lambda>fd.
     if fd < 0 then bind (print (''create socket error!'' @ nl)) (\<lambda>_. exit_with 0)
     else
       bind (call_ret ''inet_pton'' [S ''AF_INET'', S ''127.0.0.1'']) (\<lambda>p.
       if p \<le> 0 then bind (print (''inet pton error!'' @ nl)) (\<lambda>_. exit_with 0)
       else
         bind (call_ret ''connect'' [I fd, S ''127.0.0.1'', I 80]) (\<lambda>c.
         if c < 0 then bind (print (''connect error!'' @ nl)) (\<lambda>_. exit_with 0)
         else
           bind (print (''connect success'' @ nl)) (\<lambda>_.
           bind (print (form_request @ nl)) (\<lambda>_.
           bind (invoke ''write'' [I fd, S form_request]) (\<lambda>w.
           if ret w < 0 then
             bind (print (''snd fail, err_code = '' @ show_int (errno w) @ '',err_msg = '' @ [CHR 0x27] @ data w @ [CHR 0x27] @ nl)) (\<lambda>_. exit_with 0)
           else
             bind (print (''snd success '' @ show_int (ret w) @ '' byte!'' @ nl @ nl)) (\<lambda>_.
               loop fuel (select_pass fd) True)))))))"

definition http_main :: "nat \<Rightarrow> int prog" where
  "http_main fuel = bind (get_data fuel) (\<lambda>_. return 0)"

section \<open>Addresses\<close>

lemma mem_write_in [c_safe]:
  "off + length xs \<le> length b \<Longrightarrow> mem_write b off xs = Inr (take off b @ xs @ drop (off + length xs) b)"
  by (simp add: mem_write_def)

lemma rstr_from_skip: "x \<notin> set (drop j s) \<Longrightarrow> j \<le> i \<Longrightarrow> rstr_from s x i = rstr_from s x j"
proof (induction i)
  case (Suc i)
  show ?case
  proof (cases "j = Suc i")
    case False
    with Suc have "rstr_from s x i = rstr_from s x j" by simp
    moreover have "x \<notin> set (drop i s)" using Suc.prems False set_drop_subset_set_drop [of j i s] by auto
    ultimately show ?thesis by simp
  qed simp
qed simp

lemma Rstrchr_found: "x \<notin> set b \<Longrightarrow> Rstrchr (a @ x # b) x = Inr (Some (length a))"
  using rstr_from_skip [of x "Suc (length a)" "a @ x # b" "length (a @ x # b)"]
  by (simp add: Rstrchr_def)

lemma Rstrchr_missing: "s \<noteq> [] \<Longrightarrow> x \<notin> set s \<Longrightarrow> Rstrchr s x = Inl OutOfBounds"
  using rstr_from_skip [of x 0 s "length s"] by (simp add: Rstrchr_def)

lemma digit_char_value: "d < 10 \<Longrightarrow> is_digit (digit_char d) \<and> of_char (digit_char d) = (48 + int d)"
proof -
  assume "d < 10"
  then have "of_char (digit_char d) = 48 + d" by (simp add: digit_char_def)
  with \<open>d < 10\<close> show ?thesis
    using of_nat_of_char [of "digit_char d", where ?'a = int] by (simp add: is_digit_def)
qed

lemma digits_value_snoc: "digits_value (s @ [c]) = 10 * digits_value s + (of_char c - 48)"
  by (simp add: digits_value_def)

lemma show_nat_digits: "(\<forall>c \<in> set (show_nat n). is_digit c) \<and> digits_value (show_nat n) = int n"
proof (induction n rule: show_nat.induct)
  case (1 n)
  show ?case
  proof (cases "n < 10")
    case True
    then show ?thesis using digit_char_value [OF True]
      by (simp add: show_nat.simps [of n] digits_value_def)
  next
    case False
    have "int (n mod 10) = int n - 10 * int (n div 10)" by (simp add: zmod_int minus_mult_div_eq_mod zdiv_int)
    with False 1 digit_char_value [of "n mod 10"] show ?thesis
      by (simp add: show_nat.simps [of n] digits_value_snoc)
  qed
qed

lemma atoi_show: "int n \<le> INT_MAX \<Longrightarrow> atoi (show_nat n) = Inr (int n)"
proof -
  assume n: "int n \<le> INT_MAX"
  obtain c s where s: "show_nat n = c # s" by (cases "show_nat n") auto
  with show_nat_digits [of n] have c: "is_digit c" by simp
  then have cs: "\<not> is_space c" "c \<noteq> CHR ''-''" "c \<noteq> CHR ''+''" by (auto simp: is_digit_def is_space_def)
  have tw: "takeWhile is_digit s = s" using show_nat_digits [of n] s by (simp add: takeWhile_eq_all_conv)
  show ?thesis
    using n show_nat_digits [of n] c cs unfolding s by (simp add: atoi_def Let_def c_int_def INT_MIN_def tw)
qed

lemma find_char_split: "x \<notin> set a \<Longrightarrow> find_char x (a @ x # b) = Some (length a)"
  by (induction a) (auto simp: find_char_def)

lemma find_char_none: "x \<notin> set a \<Longrightarrow> find_char x a = None"
  by (simp add: find_char_def)

lemma cstr_mem_write:
  assumes "NUL \<notin> set xs" "length xs < length b" "n = length xs"
  shows "cstr ((xs @ drop (length xs) b)[n := NUL]) = xs"
proof -
  have "drop (length xs) b = b ! length xs # drop (Suc (length xs)) b" using assms(2) by (simp add: Cons_nth_drop_Suc)
  then have "(xs @ drop (length xs) b)[n := NUL] = xs @ NUL # drop (Suc (length xs)) b" by (simp add: assms(3))
  then show ?thesis using assms(1) by simp
qed


lemma GetHost_run:
  assumes "scheme \<in> {''http://'', ''https://''}" "url = scheme @ host @ path"
    "CHR ''/'' \<notin> set host" "path = [] \<or> hd path = CHR ''/''" "NUL \<notin> set url"
    "length host < length web" "length path \<le> length file" "8 \<le> length web" "8 \<le> length file"
  shows "\<exists>web' file'. cstr web' = host \<and> cstr file' = drop 1 path \<and>
    GetHost url web file =
      c_bind (case find_char CHR '':'' host of Some n \<Rightarrow> atoi (drop (Suc n) host) | None \<Rightarrow> Inr 80)
        (\<lambda>port. Inr (web', file', port))"
proof -
  let ?w = "replicate 8 NUL @ drop 8 web" and ?f = "replicate 8 NUL @ drop 8 file"
  have pA: "(if starts_with ''http://'' url then drop 7 url
      else if starts_with ''https://'' url then drop 8 url else url) = host @ path"
    using assms(1,2) by (auto simp: starts_with_def)
  have ne: "url \<noteq> []" using assms(1,2) by auto
  have lens: "length ?w = length web" "length ?f = length file" using assms(8,9) by simp_all
  have nuls: "NUL \<notin> set host" "NUL \<notin> set path" using assms(2,5) by auto
  show ?thesis
  proof (cases path)
    case Nil
    let ?w' = "(host @ drop (length host) ?w)[length host := NUL]"
    have w': "cstr ?w' = host" using cstr_mem_write [of host ?w] nuls assms(6) lens by simp
    have "cstr ?f = []" by (simp add: cstr_def numeral_eq_Suc)
    moreover have "GetHost url web file =
      c_bind (case find_char CHR '':'' host of Some n \<Rightarrow> atoi (drop (Suc n) host) | None \<Rightarrow> Inr 80)
        (\<lambda>port. Inr (?w', ?f, port))"
      unfolding GetHost_def pA Let_def using Nil ne assms(3,6,8,9) lens w'
      by (cases "find_char CHR '':'' host") (simp_all add: mem_write_in store_in find_char_none)
    ultimately show ?thesis using w' Nil by auto
  next
    case (Cons a p)
    then have a: "path = CHR ''/'' # p" using assms(4) by simp
    let ?w' = "(host @ drop (length host) ?w)[length host := NUL]"
    let ?f' = "(p @ drop (length p) ?f)[length p := NUL]"
    have w': "cstr ?w' = host" using cstr_mem_write [of host ?w] nuls assms(6) lens by simp
    have f': "cstr ?f' = p" using cstr_mem_write [of p ?f] nuls a assms(7) lens by simp
    have "GetHost url web file =
      c_bind (case find_char CHR '':'' host of Some n \<Rightarrow> atoi (drop (Suc n) host) | None \<Rightarrow> Inr 80)
        (\<lambda>port. Inr (?w', ?f', port))"
      unfolding GetHost_def pA Let_def using a ne assms(3,6,7,8,9) lens w'
      by (cases "find_char CHR '':'' host") (simp_all add: mem_write_in store_in find_char_split)
    then show ?thesis using w' f' a by auto
  qed
qed


section \<open>Sending and receiving\<close>

definition accepted :: "trace \<Rightarrow> string" where
  "accepted tr = concat (map (\<lambda>(c, r). case args c of [I _, S p] \<Rightarrow> take (nat (ret r)) p | _ \<Rightarrow> []) (uses ''write'' tr))"

definition writes_ok :: "trace \<Rightarrow> bool" where
  "writes_ok tr \<longleftrightarrow> (\<forall>(c, r) \<in> set (uses ''write'' tr). - 1 \<le> ret r \<and>
     (case args c of [I _, S p] \<Rightarrow> ret r \<le> int (length p) | _ \<Rightarrow> True))"

definition bytes_read :: "trace \<Rightarrow> string" where
  "bytes_read tr = map (\<lambda>(c, r). byte_of r) (filter (\<lambda>(c, r). ret r = 1) (uses ''read'' tr))"

definition saved :: "trace \<Rightarrow> string" where
  "saved tr = concat (map (\<lambda>(c, r). case args c of [I _, S p] \<Rightarrow> p | _ \<Rightarrow> []) (uses ''fwrite'' tr))"

lemma io_append [simp]:
  "accepted (t @ u) = accepted t @ accepted u" "saved (t @ u) = saved t @ saved u"
  "bytes_read (t @ u) = bytes_read t @ bytes_read u"
  "writes_ok (t @ u) \<longleftrightarrow> writes_ok t \<and> writes_ok u"
  by (auto simp: accepted_def saved_def bytes_read_def writes_ok_def)

lemma io_other:
  "f \<noteq> ''write'' \<Longrightarrow> accepted ((Call f xs, r) # t) = accepted t"
  "f \<noteq> ''write'' \<Longrightarrow> writes_ok ((Call f xs, r) # t) = writes_ok t"
  "f \<noteq> ''fwrite'' \<Longrightarrow> saved ((Call f xs, r) # t) = saved t"
  "f \<noteq> ''read'' \<Longrightarrow> bytes_read ((Call f xs, r) # t) = bytes_read t"
  "accepted [] = []" "saved [] = []" "bytes_read [] = []" "writes_ok []"
  by (simp_all add: accepted_def saved_def bytes_read_def writes_ok_def)

lemma io_events:
  "accepted ((Call ''write'' [I fd, S p], r) # t) = take (nat (ret r)) p @ accepted t"
  "saved ((Call ''fwrite'' [I fd, S p], r) # t) = p @ saved t"
  "bytes_read ((Call ''read'' xs, r) # t) = (if ret r = 1 then [byte_of r] else []) @ bytes_read t"
  "writes_ok ((Call ''write'' [I fd, S p], r) # t) \<longleftrightarrow> - 1 \<le> ret r \<and> ret r \<le> int (length p) \<and> writes_ok t"
  by (simp_all add: accepted_def saved_def bytes_read_def writes_ok_def)

lemma writes_ok_before: "appends m \<Longrightarrow> m env tr = (t, r) \<Longrightarrow> writes_ok t \<Longrightarrow> writes_ok tr"
  by (auto dest!: appendsD)

lemma appends_send: "appends (send_pass fd rq k)"
  unfolding send_pass_def by (intro appends_rules)

lemma send_loop:
  assumes "loop n (send_pass fd rq) k env tr = (t, Ok u)" "writes_ok t" "0 \<le> k" "k \<le> int (length rq)"
  shows "accepted t = accepted tr @ drop (nat k) rq \<and> saved t = saved tr \<and> bytes_read t = bytes_read tr \<and>
    uses ''fclose'' t = uses ''fclose'' tr"
  using assms
proof (induction n arbitrary: k tr)
  case (Suc n)
  from Suc.prems(1) obtain t1 y where p: "send_pass fd rq k env tr = (t1, Ok y)"
    and rest: "(case y of Inl s' \<Rightarrow> loop n (send_pass fd rq) s' | Inr a \<Rightarrow> return a) env t1 = (t, Ok u)"
    unfolding loop.simps by (rule bind_OkE)
  from p show ?case
    unfolding send_pass_def
  proof (elim runE, goal_cases)
    case (2 w x)
    then have l: "loop n (send_pass fd rq) (k + ret w) env t1 = (t, Ok u)" using rest by simp
    have "writes_ok t1" by (rule writes_ok_before [OF appends_loop [OF appends_send] l Suc.prems(2)])
    then have w: "0 \<le> ret w" "k + ret w \<le> int (length rq)"
      using 2(2,3) Suc.prems(3,4) by (auto simp: io_events io_other 2(3))
    have "drop (nat k) rq = take (nat (ret w)) (drop (nat k) rq) @ drop (nat (k + ret w)) rq"
      using w(1) Suc.prems(3) append_take_drop_id [of "nat (ret w)" "drop (nat k) rq"]
      by (simp add: nat_add_distrib add.commute)
    with Suc.IH [OF l Suc.prems(2)] w Suc.prems(3) 2(3) show ?case by (simp add: io_events io_other)
  qed (use rest Suc.prems in \<open>auto simp: return_eval exit_eval\<close>)
qed simp


text \<open>The bytes after the first four line ends in a row, from \<open>i\<close> of them on.\<close>

fun body_after :: "nat \<Rightarrow> string \<Rightarrow> string" where
  "body_after i [] = []"
| "body_after i (c # cs) =
     (if i < 4 then body_after (if line_end c then Suc i else 0) cs else c # body_after i cs)"

lemma body_after_done: "4 \<le> i \<Longrightarrow> body_after i bs = bs"
  by (induction bs) auto

lemma read_loop:
  assumes "loop n (read_pass fd fp) i env tr = (t, Ok u)" "0 \<le> i"
  shows "\<exists>bs. bytes_read t = bytes_read tr @ bs \<and> saved t = saved tr @ body_after (min 4 (nat i)) bs \<and>
    accepted t = accepted tr \<and> uses ''fclose'' t = uses ''fclose'' tr"
  using assms
proof (induction n arbitrary: i tr)
  case (Suc n)
  from Suc.prems(1) obtain t1 y where p: "read_pass fd fp i env tr = (t1, Ok y)"
    and rest: "(case y of Inl s' \<Rightarrow> loop n (read_pass fd fp) s' | Inr a \<Rightarrow> return a) env t1 = (t, Ok u)"
    unfolding loop.simps by (rule bind_OkE)
  show ?case
  proof (cases y)
    case (Inr a)
    have "t1 = tr @ [(Call ''read'' [I fd, I 1], x)] \<Longrightarrow> ret x \<noteq> 1 \<Longrightarrow> ?thesis" for x
      using rest Inr by (intro exI [of _ "[]"]) (auto simp: return_eval io_events io_other)
    with p Inr show ?thesis unfolding read_pass_def Let_def by (elim runE) auto
  next
    case (Inl j)
    then have l: "loop n (read_pass fd fp) j env t1 = (t, Ok u)" using rest by simp
    obtain c where c: "bytes_read t1 = bytes_read tr @ [c]" "accepted t1 = accepted tr" "uses ''fclose'' t1 = uses ''fclose'' tr"
      "saved t1 = saved tr @ (if i < 4 then [] else [c])" "j = (if i < 4 then if line_end c then i + 1 else 0 else i + 1)"
      using p Inl unfolding read_pass_def Let_def
      by (elim runE) (auto simp: io_events io_other c_int_def split: if_splits)
    then have "0 \<le> j" using Suc.prems(2) by (simp split: if_splits)
    from Suc.IH [OF l this] obtain bs where bs: "bytes_read t = bytes_read t1 @ bs" "saved t = saved t1 @ body_after (min 4 (nat j)) bs"
      "accepted t = accepted t1" "uses ''fclose'' t = uses ''fclose'' t1" by blast
    have "body_after (min 4 (nat i)) (c # bs) = (if i < 4 then [] else [c]) @ body_after (min 4 (nat j)) bs"
    proof (cases "i < 4")
      case True
      then have "min 4 (nat i) = nat i" "nat i < 4" "min 4 (nat (i + 1)) = Suc (nat i)" using Suc.prems(2) by auto
      then show ?thesis using True c(5) by simp
    qed (use c(5) in \<open>simp add: body_after_done min_absorb1\<close>)
    with bs c show ?thesis by (intro exI [of _ "c # bs"]) simp
  qed
qed simp


definition no_four :: "string \<Rightarrow> bool" where
  "no_four h \<longleftrightarrow> (\<forall>u v w. h = u @ v @ w \<and> length v = 4 \<longrightarrow> (\<exists>c \<in> set v. \<not> line_end c))"

lemma no_fourD: "no_four (u @ v @ w) \<Longrightarrow> length v = 4 \<Longrightarrow> \<exists>c \<in> set v. \<not> line_end c"
  unfolding no_four_def by (drule spec [of _ u], drule spec [of _ v], drule spec [of _ w]) simp

lemma header_scan:
  assumes "no_four (q @ v @ h)" "\<forall>c \<in> set v. line_end c" "length v < 4" "h \<noteq> []" "\<not> line_end (last h)"
  shows "body_after (length v) (h @ rest) = body_after 0 rest"
  using assms
proof (induction h arbitrary: q v)
  case (Cons c h)
  show ?case
  proof (cases "line_end c")
    case True
    then have all: "\<forall>c \<in> set (v @ [c]). line_end c" using Cons.prems(2) by auto
    have "length (v @ [c]) \<noteq> 4"
    proof
      assume "length (v @ [c]) = 4"
      from no_fourD [OF _ this, of q h] Cons.prems(1) all show False by auto
    qed
    moreover have "h \<noteq> []" "\<not> line_end (last h)" using Cons.prems(5) True by (auto split: if_splits)
    ultimately have "body_after (length (v @ [c])) (h @ rest) = body_after 0 rest"
      using Cons.IH [of q "v @ [c]"] Cons.prems(1,3) all by simp
    then show ?thesis using True Cons.prems(3) by auto
  next
    case False
    show ?thesis
    proof (cases "h = []")
      case h: False
      then have "body_after (length []) (h @ rest) = body_after 0 rest"
        using Cons.IH [of "q @ v @ [c]" "[]"] Cons.prems(1,5) by simp
      then show ?thesis using False Cons.prems(3) by simp
    qed (use False Cons.prems(3) in simp)
  qed
qed simp

lemma body_split:
  assumes "no_four h" "h = [] \<or> \<not> line_end (last h)" "length e = 4" "\<forall>c \<in> set e. line_end c"
  shows "body_after 0 (h @ e @ b) = b"
proof -
  have "body_after 0 (h @ e @ b) = body_after 0 (e @ b)"
    using header_scan [of "[]" "[]" h "e @ b"] assms(1,2) by (cases "h = []") auto
  moreover obtain c1 c2 c3 c4 where "e = [c1, c2, c3, c4]" using assms(3) by (auto simp: numeral_eq_Suc length_Suc_conv)
  ultimately show ?thesis using assms(4) by (auto simp: body_after_done)
qed

lemma no_close_loops: "avoids ''fclose'' (read_pass fd fp i)" "avoids ''fclose'' (send_pass fd rq k)"
  unfolding read_pass_def send_pass_def Let_def by (intro avoids_rules; simp)+

text \<open>
  The files after a trace: \<^verbatim>\<open>fopen\<close> with mode \<^verbatim>\<open>"a"\<close> keeps what the file holds, with \<^verbatim>\<open>"w"\<close> it empties it,
  and \<^verbatim>\<open>fwrite\<close> adds the items it reports at the end.  The state is the files by name and the
  names of the open streams.
\<close>

type_synonym files = "(string \<rightharpoonup> string) \<times> (int \<rightharpoonup> string)"

definition held :: "(string \<rightharpoonup> string) \<Rightarrow> string \<Rightarrow> string" where
  "held d name = (case d name of None \<Rightarrow> [] | Some x \<Rightarrow> x)"

fun disk_step :: "event \<Rightarrow> files \<Rightarrow> files" where
  "disk_step (Call f xs, r) (d, os) =
     (if f = ''fopen'' then
        (case xs of
           [S name, S mode] \<Rightarrow> if ret r = 0 then (d, os) else (d(name \<mapsto> if mode = ''w'' then [] else held d name), os(ret r \<mapsto> name))
         | _ \<Rightarrow> (d, os))
      else if f = ''fwrite'' then
        (case xs of
           [I fp, S w] \<Rightarrow> (case os fp of None \<Rightarrow> (d, os) | Some name \<Rightarrow> (d(name \<mapsto> held d name @ take (nat (ret r)) w), os))
         | _ \<Rightarrow> (d, os))
      else (d, os))"

definition files_after :: "trace \<Rightarrow> (string \<rightharpoonup> string) \<Rightarrow> string \<rightharpoonup> string" where
  "files_after tr d = fst (fold disk_step tr (d, Map.empty))"

definition fwrites_ok :: "trace \<Rightarrow> bool" where
  "fwrites_ok tr \<longleftrightarrow> (\<forall>(c, r) \<in> set tr. fn c = ''fwrite'' \<longrightarrow> ret r = 1)"

lemma fwrites_ok_simps [simp]:
  "fwrites_ok []" "fwrites_ok (t @ u) \<longleftrightarrow> fwrites_ok t \<and> fwrites_ok u"
  "fwrites_ok ((c, r) # t) \<longleftrightarrow> (fn c = ''fwrite'' \<longrightarrow> ret r = 1) \<and> fwrites_ok t"
  by (auto simp: fwrites_ok_def)

lemma disk_idle: "uses ''fopen'' tr = [] \<Longrightarrow> uses ''fwrite'' tr = [] \<Longrightarrow> fold disk_step tr st = st"
proof (induction tr arbitrary: st)
  case (Cons e tr)
  obtain f xs x where e: "e = (Call f xs, x)" by (metis call.exhaust surj_pair)
  obtain d os where st: "st = (d, os)" by (cases st)
  have "f \<noteq> ''fopen''" "f \<noteq> ''fwrite''" using Cons.prems by (auto simp: uses_def e split: if_splits)
  then show ?case using Cons by (simp add: e st uses_def)
qed simp

lemma appends_read: "appends (read_pass fd fp i)"
  unfolding read_pass_def Let_def by (intro appends_rules)

lemma fwrites_ok_before: "appends m \<Longrightarrow> m env tr = (t, r) \<Longrightarrow> fwrites_ok t \<Longrightarrow> fwrites_ok tr"
  by (auto dest!: appendsD)

text \<open>What the receive loop adds to the file is what it passes to \<^verbatim>\<open>fwrite\<close>.\<close>

lemma read_disk:
  assumes "loop n (read_pass fd fp) i env tr = (t, Ok u)" "fwrites_ok t"
    and "fold disk_step tr st = (d(name \<mapsto> x), os)" "os fp = Some name"
  shows "\<exists>w. saved t = saved tr @ w \<and> fold disk_step t st = (d(name \<mapsto> x @ w), os)"
  using assms
proof (induction n arbitrary: i tr x)
  case (Suc n)
  from Suc.prems(1) obtain t1 y where p: "read_pass fd fp i env tr = (t1, Ok y)"
    and rest: "(case y of Inl s' \<Rightarrow> loop n (read_pass fd fp) s' | Inr a \<Rightarrow> return a) env t1 = (t, Ok u)"
    unfolding loop.simps by (rule bind_OkE)
  have ok: "fwrites_ok t1"
    using rest Suc.prems(2) fwrites_ok_before [OF appends_loop [OF appends_read]] by (cases y) (auto simp: return_eval)
  have one: "\<exists>w. saved t1 = saved tr @ w \<and> fold disk_step t1 st = (d(name \<mapsto> x @ w), os)"
    using p ok Suc.prems(3,4) unfolding read_pass_def Let_def
    by (elim runE) (auto simp: io_events io_other held_def)
  then obtain w where w: "saved t1 = saved tr @ w" "fold disk_step t1 st = (d(name \<mapsto> x @ w), os)" by blast
  show ?case
  proof (cases y)
    case (Inl s')
    then have "loop n (read_pass fd fp) s' env t1 = (t, Ok u)" using rest by simp
    from Suc.IH [OF this Suc.prems(2) w(2) Suc.prems(4)] w(1) show ?thesis by auto
  next
    case (Inr a)
    then show ?thesis using rest w by (auto simp: return_eval)
  qed
qed simp

lemma receive_disk:
  assumes "client_receive fuel fd name env tr = (t, r)" "uses ''fclose'' t \<noteq> []" "fwrites_ok t"
    "uses ''fclose'' tr = []" "uses ''fopen'' tr = []" "uses ''fwrite'' tr = []" "saved tr = []"
  shows "files_after t d = d(name \<mapsto> held d name @ saved t)"
  using assms(1) unfolding client_receive_def
proof (elim runE run_bindE, goal_cases)
  case (2 f q x u)
  let ?t = "(tr @ [(Call ''fopen'' [S name, S ''a''], f)]) @ [(Call ''printf'' [S (nl @ ''The following is the response header:'' @ nl)], q)]"
  have "fold disk_step ?t (d, Map.empty) = (d(name \<mapsto> held d name), [ret f \<mapsto> name])"
    using 2(1) disk_idle [OF assms(5,6)] by simp
  from read_disk [OF 2(2) _ this] 2 assms(3,7) show ?case by (auto simp: files_after_def io_other)
next
  case (3 f q r')
  then show ?case using avoidsD [OF avoids_loop [OF no_close_loops(1)] 3(2)] assms(2,4) by simp
qed (use assms(2,4) in simp_all)

text \<open>Before any transfer.\<close>

definition clean :: "trace \<Rightarrow> bool" where
  "clean tr \<longleftrightarrow> uses ''fclose'' tr = [] \<and> bytes_read tr = [] \<and> saved tr = [] \<and> accepted tr = [] \<and>
     uses ''fopen'' tr = [] \<and> uses ''fwrite'' tr = []"

lemma receive_run:
  assumes "client_receive fuel fd name env tr = (t, r)" "uses ''fclose'' t \<noteq> []"
    "uses ''fclose'' tr = []" "bytes_read tr = []" "saved tr = []"
  shows "r = Exit 0 \<and> accepted t = accepted tr \<and> saved t = body_after 0 (bytes_read t)"
  using assms(1) unfolding client_receive_def
proof (elim runE run_bindE, goal_cases)
  case (2 f p x u)
  then show ?case using read_loop [OF 2(2)] assms(4,5) by (auto simp: io_other)
next
  case (3 f p r')
  then show ?case using avoidsD [OF avoids_loop [OF no_close_loops(1)] 3(2)] assms(2,3) by simp
qed (use assms(2,3) in simp_all)

lemma appends_receive: "appends (client_receive fuel fd name)"
  unfolding client_receive_def by (intro appends_rules appends_read)

lemma transfer_run:
  assumes "client_transfer fuel fd host hfile port env tr = (t, r)" "writes_ok t" "uses ''fclose'' t \<noteq> []" "clean tr"
  shows "r = Exit 0 \<and> accepted t = request_of hfile host port \<and> saved t = body_after 0 (bytes_read t)"
  using assms(1) unfolding client_transfer_def Let_def
proof (elim run_liftE run_printE run_bindE, goal_cases)
  case (1 u p name q x v)
  have "writes_ok v" by (rule writes_ok_before [OF appends_receive 1(4) assms(2)])
  from send_loop [OF 1(3) this] assms(4) have
    "accepted v = request_of hfile host port" "saved v = []" "bytes_read v = []" "uses ''fclose'' v = []"
    by (simp_all add: io_other clean_def)
  with receive_run [OF 1(4) assms(3)] show ?case by simp
next
  case (2 u p name q r')
  then show ?case using avoidsD [OF avoids_loop [OF no_close_loops(2)] 2(3)] assms(3,4) by (simp add: clean_def)
qed (use assms(3,4) in \<open>simp_all add: clean_def\<close>)

lemma send_no_file: "avoids ''fopen'' (send_pass fd rq k)" "avoids ''fwrite'' (send_pass fd rq k)"
  unfolding send_pass_def by (intro avoids_rules; simp)+

lemma transfer_disk:
  assumes "client_transfer fuel fd host hfile port env tr = (t, r)" "uses ''fclose'' t \<noteq> []" "fwrites_ok t" "clean tr" "writes_ok t"
  shows "\<exists>name. local_name hfile = Inr name \<and> files_after t d = d(name \<mapsto> held d name @ saved t)"
  using assms(1) unfolding client_transfer_def Let_def
proof (elim run_liftE run_printE run_bindE, goal_cases)
  case (1 u q name q' x v)
  have "writes_ok v" by (rule writes_ok_before [OF appends_receive 1(4) assms(5)])
  from send_loop [OF 1(3) this] assms(4) have "saved v = []" "uses ''fclose'' v = []" by (simp_all add: io_other clean_def)
  moreover have "uses ''fopen'' v = []" "uses ''fwrite'' v = []"
    using avoidsD [OF avoids_loop [OF send_no_file(1)] 1(3)] avoidsD [OF avoids_loop [OF send_no_file(2)] 1(3)] assms(4)
    by (simp_all add: clean_def)
  ultimately show ?case using receive_disk [OF 1(4) assms(2,3), of d] 1(2) by auto
next
  case (2 u q name q' r')
  then show ?case using avoidsD [OF avoids_loop [OF no_close_loops(2)] 2(3)] assms(2,4) by (simp add: clean_def)
qed (use assms(2,4) in \<open>simp_all add: clean_def\<close>)

lemma client_head:
  assumes run: "client_main fuel web0 file0 [prog, url] env [] = (t, r)"
    and none: "uses ''fclose'' t = [] \<Longrightarrow> P"
    and head: "\<And>v fd t1. GetHost (ToLowerCase url) web0 file0 = Inr v \<Longrightarrow>
      client_transfer fuel fd (cstr (fst v)) (cstr (fst (snd v))) (snd (snd v)) env t1 = (t, r) \<Longrightarrow> clean t1 \<Longrightarrow> P"
  shows P
  using run unfolding client_main_def Let_def
  by (elim runE) ((rule none, simp; fail) | (rule head, simp, assumption, simp add: clean_def io_other))+

section \<open>The loop of \<^verbatim>\<open>http.c\<close>\<close>

lemma select_empty:
  assumes "\<And>t. ret (env t (Call ''select'' [I (fd + 1), I 0])) = 0"
  shows "\<exists>t. loop n (select_pass fd) False env tr = (t, Running)"
proof (induction n arbitrary: tr)
  case (Suc n)
  have "select_pass fd False env tr = (tr @ [(Call ''sleep'' [I 1], env tr (Call ''sleep'' [I 1]))] @
      [(Call ''select'' [I (fd + 1), I 0], env (tr @ [(Call ''sleep'' [I 1], env tr (Call ''sleep'' [I 1]))]) (Call ''select'' [I (fd + 1), I 0]))],
      Ok (Inl False))"
    by (simp add: select_pass_def bind_do_call bind_call_ret assms return_eval)
  then show ?case using Suc by (simp add: bind_def)
qed simp

section \<open>Properties\<close>

text \<open>
  The function \<^verbatim>\<open>GetHost\<close> splits an address with a scheme into the host part and the file, whatever the
  buffers held before and as long as they are large enough, and finds the port, 80 by
  default (also for \<^verbatim>\<open>https\<close>).  The port stays in the host part, which is then looked up as a
  name and sent in the \<^verbatim>\<open>Host\<close> line with the port once more.
\<close>

theorem GetHost_parts:
  assumes "scheme \<in> {''http://'', ''https://''}" "CHR ''/'' \<notin> set host" "path = [] \<or> hd path = CHR ''/''"
    "NUL \<notin> set (host @ path)" "length host < length web" "length path \<le> length file"
    "8 \<le> length web" "8 \<le> length file" "host = name @ CHR '':'' # show_nat p \<or> host = name \<and> p = 80"
    "CHR '':'' \<notin> set name" "int p \<le> INT_MAX"
  shows "\<exists>web' file'. GetHost (scheme @ host @ path) web file = Inr (web', file', int p) \<and>
    cstr web' = host \<and> cstr file' = drop 1 path"
proof -
  have "NUL \<notin> set (scheme @ host @ path)" using assms(1,4) by auto
  from GetHost_run [OF assms(1) refl assms(2,3) this assms(5-8)] obtain web' file' where
    b: "cstr web' = host" "cstr file' = drop 1 path" "GetHost (scheme @ host @ path) web file =
      c_bind (case find_char CHR '':'' host of Some n \<Rightarrow> atoi (drop (Suc n) host) | None \<Rightarrow> Inr 80)
        (\<lambda>port. Inr (web', file', port))" by blast
  have "(case find_char CHR '':'' host of Some n \<Rightarrow> atoi (drop (Suc n) host) | None \<Rightarrow> Inr 80) = Inr (int p)"
    using assms(9-11) by (auto simp: find_char_split find_char_none atoi_show)
  with b show ?thesis by (intro exI [of _ web'] exI [of _ file']) simp
qed

theorem GetHost_parts_witness:
  "\<exists>web file. GetHost (''http://'' @ ''a.b:8080'' @ ''/x/y'') (replicate 256 NUL) (replicate 1024 NUL) = Inr (web, file, int 8080) \<and>
     cstr web = ''a.b:8080'' \<and> cstr file = drop 1 ''/x/y''"
proof (rule GetHost_parts [where name = "''a.b''"])
  show "''a.b:8080'' = ''a.b'' @ CHR '':'' # show_nat 8080 \<or> ''a.b:8080'' = ''a.b'' \<and> (8080 :: nat) = 80"
    by (simp add: show_nat.simps digit_char_def char_of_def bit_Suc_0_iff)
qed (simp_all add: INT_MAX_def)

text \<open>
  \<^verbatim>\<open>Rstrchr\<close> finds the last occurrence of a character; when there is none it reads before the
  start of the string, which \<^verbatim>\<open>main\<close> makes it do for every file that is not in a directory.
\<close>

theorem Rstrchr_last:
  assumes "x \<notin> set b" "s \<noteq> []" "x \<notin> set s"
  shows "Rstrchr (a @ x # b) x = Inr (Some (length a)) \<and> Rstrchr s x = Inl OutOfBounds"
  using Rstrchr_found [OF assms(1)] Rstrchr_missing [OF assms(2,3)] by simp

theorem Rstrchr_last_witness:
  "Rstrchr ''a/b/c'' CHR ''/'' = Inr (Some 3) \<and> Rstrchr ''index.html'' CHR ''/'' = Inl OutOfBounds"
  using Rstrchr_last [of "CHR ''/''" "''c''" "''index.html''" "''a/b''"] by simp


text \<open>Every write takes the whole request; a response of four line ends and one byte.\<close>

definition page_env :: env where
  "page_env tr c = \<lparr>ret =
     (if fn c = ''write'' then (case args c of [_, S p] \<Rightarrow> int (length p) | _ \<Rightarrow> 0)
      else if fn c = ''read'' then (if length (uses ''read'' tr) < 5 then 1 else 0)
      else if fn c = ''fwrite'' then 1 else if fn c = ''connect'' then 0 else 3),
     data = (if length (uses ''read'' tr) < 4 then nl else ''x''), errno = 0\<rparr>"


text \<open>
  The receive loop of \<^verbatim>\<open>http.c\<close> does not fill its descriptor set again, so if the answer is not
  there at the first look the program never ends: every later \<^verbatim>\<open>select\<close> watches no descriptor and
  reports none.
\<close>

theorem select_never_returns:
  assumes "\<And>t. ret (env t (Call ''select'' [I (fd + 1), I 0])) = 0"
    and "\<And>t. ret (env t (Call ''select'' [I (fd + 1), I 1])) = (if uses ''select'' t = [] then 0 else 1)"
    and "uses ''select'' tr = []"
  shows "\<exists>t. loop n (select_pass fd) True env tr = (t, Running)"
proof (cases n)
  case (Suc m)
  let ?s = "tr @ [(Call ''sleep'' [I 1], env tr (Call ''sleep'' [I 1]))]"
  have "select_pass fd True env tr = (?s @ [(Call ''select'' [I (fd + 1), I 1], env ?s (Call ''select'' [I (fd + 1), I 1]))], Ok (Inl False))"
    using assms(3) by (simp add: select_pass_def bind_do_call bind_call_ret assms(2) return_eval)
  then show ?thesis using select_empty [of env fd m, OF assms(1)] by (simp add: Suc bind_def)
qed simp

definition late_env :: env where
  "late_env tr c = \<lparr>ret = (if fn c = ''select'' \<and> args c \<noteq> [I 4, I 0] \<and> uses ''select'' tr \<noteq> [] then 1 else 0), data = [], errno = 0\<rparr>"

theorem select_never_returns_witness: "\<exists>t. loop 1000 (select_pass 3) True late_env [] = (t, Running)"
  by (rule select_never_returns) (simp_all add: late_env_def)

end
