(* ===== verification/SocketWrap.thy ===== *)
theory SocketWrap
  imports C_IO
begin

text \<open>
  The socket wrappers and the forking echo server of \<^verbatim>\<open>src/cpp/tcp_concurrent.cc\<close>.  A call that
  the source repeats at a label is a loop of at most \<open>fuel\<close> passes.  \<^verbatim>\<open>errno\<close> values are those of
  Linux (\<^verbatim>\<open>EINTR\<close> 4, \<^verbatim>\<open>ECONNABORTED\<close> 103).  \<^verbatim>\<open>Readline\<close> compares a character with a string literal; how
  that comparison comes out is the parameter \<open>ends\<close>.  The file uses \<^verbatim>\<open>request\<close> and \<^verbatim>\<open>catch_child\<close>
  without declaring them: the first is taken as a string, the second is only registered.
\<close>

section \<open>The wrappers\<close>

abbreviation EINTR :: int where "EINTR \<equiv> 4"
abbreviation ECONNABORTED :: int where "ECONNABORTED \<equiv> 103"

definition perr_exit :: "string \<Rightarrow> 'a prog" where
  "perr_exit s = bind (do_call ''perror'' [S s]) (\<lambda>_. exit_with (- 1))"

definition Accept :: "nat \<Rightarrow> int \<Rightarrow> int prog" where
  "Accept fuel fd = loop fuel (\<lambda>_.
     bind (invoke ''accept'' [I fd]) (\<lambda>r.
     if ret r < 0 then
       if errno r = ECONNABORTED \<or> errno r = EINTR then return (Inl ()) else perr_exit ''accept error''
     else return (Inr (ret r)))) ()"

definition Bind :: "int \<Rightarrow> int \<Rightarrow> int prog" where
  "Bind fd port = bind (call_ret ''bind'' [I fd, I port]) (\<lambda>n. if n < 0 then perr_exit ''bind error'' else return n)"

definition Connect :: "int \<Rightarrow> string \<Rightarrow> int prog" where
  "Connect fd sa = bind (call_ret ''connect'' [I fd, S sa]) (\<lambda>n. if n < 0 then perr_exit ''connect error'' else return n)"

definition Listen :: "int \<Rightarrow> int \<Rightarrow> int prog" where
  "Listen fd backlog = bind (call_ret ''listen'' [I fd, I backlog]) (\<lambda>n. if n < 0 then perr_exit ''listen error'' else return n)"

definition Socket :: "string \<Rightarrow> string \<Rightarrow> int prog" where
  "Socket family typ = bind (call_ret ''socket'' [S family, S typ]) (\<lambda>n. if n < 0 then perr_exit ''socket error'' else return n)"

text \<open>The bytes a read leaves in the buffer, and the number it returns: as many as it delivers.\<close>

definition read_data :: "reply \<Rightarrow> string" where
  "read_data r = take (nat (ret r)) (data r)"

definition count :: "reply \<Rightarrow> int" where
  "count r = (if ret r < 0 then ret r else int (length (read_data r)))"

definition Read :: "nat \<Rightarrow> int \<Rightarrow> int \<Rightarrow> (int \<times> string) prog" where
  "Read fuel fd nbytes = loop fuel (\<lambda>_.
     bind (invoke ''read'' [I fd, I nbytes]) (\<lambda>r.
     if ret r = - 1 then (if errno r = EINTR then return (Inl ()) else return (Inr (- 1, [])))
     else return (Inr (count r, read_data r)))) ()"

definition Write :: "nat \<Rightarrow> int \<Rightarrow> string \<Rightarrow> int prog" where
  "Write fuel fd p = loop fuel (\<lambda>_.
     bind (invoke ''write'' [I fd, S p]) (\<lambda>r.
     if ret r = - 1 then (if errno r = EINTR then return (Inl ()) else return (Inr (- 1)))
     else return (Inr (ret r)))) ()"

definition Close :: "int \<Rightarrow> int prog" where
  "Close fd = bind (call_ret ''close'' [I fd]) (\<lambda>n. if n = - 1 then perr_exit ''close error'' else return n)"

text \<open>
  \<^verbatim>\<open>Readn\<close>: the bytes so far and the number left.  The test \<^verbatim>\<open>errno = EINTR\<close> is an assignment, so
  every failed read is repeated.  A reply of more bytes than asked for would overflow the buffer.
\<close>

definition readn_pass :: "int \<Rightarrow> nat \<times> string \<Rightarrow> ((nat \<times> string) + (nat \<times> string)) prog" where
  "readn_pass fd = (\<lambda>(nleft, got).
     if nleft > 0 then
       bind (invoke ''read'' [I fd, I (int nleft)]) (\<lambda>r.
       if count r < 0 then return (Inl (nleft, got))
       else if count r = 0 then return (Inr (nleft, got))
       else if nleft < length (read_data r) then fault OutOfBounds
       else return (Inl (nleft - length (read_data r), got @ read_data r)))
     else return (Inr (nleft, got)))"

definition Readn :: "nat \<Rightarrow> int \<Rightarrow> nat \<Rightarrow> (nat \<times> string) prog" where
  "Readn fuel fd n = bind (loop fuel (readn_pass fd) (n, [])) (\<lambda>(nleft, got). return (n - nleft, got))"

text \<open>\<^verbatim>\<open>Writen\<close>: the bytes left to write; the result is \<open>n\<close> or -1.\<close>

definition writen_pass :: "int \<Rightarrow> nat \<Rightarrow> string \<Rightarrow> (string + int) prog" where
  "writen_pass fd n p =
     (if p \<noteq> [] then
        bind (invoke ''write'' [I fd, S p]) (\<lambda>r.
        if ret r \<le> 0 then
          (if ret r < 0 \<and> errno r = EINTR then return (Inl p) else return (Inr (- 1)))
        else if int (length p) < ret r then fault OutOfBounds
        else return (Inl (drop (nat (ret r)) p)))
      else return (Inr (int n)))"

definition Writen :: "nat \<Rightarrow> int \<Rightarrow> string \<Rightarrow> int prog" where
  "Writen fuel fd p = loop fuel (writen_pass fd (length p)) p"

section \<open>Buffered lines\<close>

text \<open>The static variables of \<^verbatim>\<open>my_read\<close>: \<^verbatim>\<open>read_ptr\<close> is an index of \<^verbatim>\<open>read_buf\<close>.\<close>

record rbuf =
  read_cnt :: int
  read_ptr :: nat
  read_buf :: string

definition fill_pass :: "int \<Rightarrow> rbuf \<Rightarrow> (rbuf + (int \<times> rbuf)) prog" where
  "fill_pass fd st =
     bind (invoke ''read'' [I fd, I 100]) (\<lambda>r.
     if count r < 0 then
       (if errno r = EINTR then return (Inl (st\<lparr>read_cnt := count r\<rparr>)) else return (Inr (- 1, st\<lparr>read_cnt := count r\<rparr>)))
     else if count r = 0 then return (Inr (0, st\<lparr>read_cnt := 0\<rparr>))
     else if 100 < count r then fault OutOfBounds
     else return (Inr (1, st\<lparr>read_cnt := count r, read_ptr := 0,
            read_buf := read_data r @ drop (length (read_data r)) (read_buf st)\<rparr>)))"

text \<open>The result, the character when it is 1, and the new state.\<close>

definition my_read :: "nat \<Rightarrow> int \<Rightarrow> rbuf \<Rightarrow> (int \<times> char \<times> rbuf) prog" where
  "my_read fuel fd st =
     bind (if read_cnt st \<le> 0 then loop fuel (fill_pass fd) st else return (1, st)) (\<lambda>(rc, st).
     if rc \<noteq> 1 then return (rc, NUL, st)
     else
       bind (lift (load (read_buf st) (read_ptr st))) (\<lambda>c.
         return (1, c, st\<lparr>read_cnt := read_cnt st - 1, read_ptr := Suc (read_ptr st)\<rparr>)))"

text \<open>
  The loop of \<^verbatim>\<open>Readline\<close> from \<open>n\<close> on, with \<open>k\<close> passes left before \<^verbatim>\<open>maxlen\<close>; the result, the
  characters stored before the NUL, and the state.  The source ends a line with the test
  \<^verbatim>\<open>c == "\n"\<close>, which compares the character, converted to a pointer of 64 bits, with the
  address \<open>lit\<close> the compiler gives to the string literal.
\<close>

definition is_literal :: "int \<Rightarrow> char \<Rightarrow> bool" where
  "is_literal lit c \<longleftrightarrow> char_int c mod 2 ^ 64 = lit"

primrec line_from :: "int \<Rightarrow> nat \<Rightarrow> int \<Rightarrow> nat \<Rightarrow> int \<Rightarrow> string \<Rightarrow> rbuf \<Rightarrow> (int \<times> string \<times> rbuf) prog" where
  "line_from lit fuel fd 0 n line st = return (n, line, st)"
| "line_from lit fuel fd (Suc k) n line st =
     bind (my_read fuel fd st) (\<lambda>(rc, c, st).
     if rc = 1 then
       (if is_literal lit c then return (n, line @ [c], st) else line_from lit fuel fd k (n + 1) (line @ [c]) st)
     else if rc = 0 then return (n - 1, line, st)
     else return (- 1, line, st))"

definition Readline :: "int \<Rightarrow> nat \<Rightarrow> int \<Rightarrow> nat \<Rightarrow> rbuf \<Rightarrow> (int \<times> string \<times> rbuf) prog" where
  "Readline lit fuel fd maxlen st = line_from lit fuel fd (maxlen - 1) 1 [] st"

section \<open>The server\<close>

definition toupper :: "char \<Rightarrow> char" where
  "toupper c = (if 97 \<le> (of_char c :: nat) \<and> (of_char c :: nat) \<le> 122 then char_of ((of_char c :: nat) - 32) else c)"

text \<open>
  One pass of the child on its buffer of \<^verbatim>\<open>BUFSIZ\<close> bytes.  After a failed read the count -1 is
  passed to \<^verbatim>\<open>write\<close> as the largest size, more than the buffer has.
\<close>

definition child_pass :: "int \<Rightarrow> string \<Rightarrow> (string + unit) prog" where
  "child_pass cfd buf =
     bind (invoke ''read'' [I cfd, I (int (length buf))]) (\<lambda>r.
     if count r = 0 then bind (do_call ''close'' [I cfd]) (\<lambda>_. exit_with 1)
     else if int (length buf) < count r then fault OutOfBounds
     else
       let d = read_data r; up = map toupper d; buf = up @ drop (length d) buf in
       bind (for_each d (\<lambda>c _. print ([c] @ nl)) ()) (\<lambda>_.
       bind (lift (c_strlen buf)) (\<lambda>_.
       bind (print (cstr buf @ nl)) (\<lambda>_.
       bind (lift (c_require (0 \<le> count r) OutOfBounds)) (\<lambda>_.
       bind (do_call ''write'' [I cfd, S up]) (\<lambda>_.
       bind (do_call ''write'' [S ''STDOUT_FILENO'', S up]) (\<lambda>_. return (Inl buf))))))))"

text \<open>The accept loop: \<open>Inr\<close> is the child with its connection.\<close>

definition parent_pass :: "nat \<Rightarrow> int \<Rightarrow> unit \<Rightarrow> (unit + int) prog" where
  "parent_pass fuel lfd = (\<lambda>_.
     bind (Accept fuel lfd) (\<lambda>cfd.
     bind (call_ret ''fork'' []) (\<lambda>pid.
     if pid < 0 then perr_exit ''fork error''
     else if pid = 0 then bind (do_call ''close'' [I lfd]) (\<lambda>_. return (Inr cfd))
     else
       bind (call_ret ''sigaction'' [S ''SIGCHLD'', S ''catch_child'']) (\<lambda>s.
       if s \<noteq> 0 then perr_exit ''sigaction error''
       else bind (do_call ''close'' [I cfd]) (\<lambda>_. return (Inl ()))))))"

definition concurrent_main :: "nat \<Rightarrow> string \<Rightarrow> int prog" where
  "concurrent_main fuel buf =
     bind (Socket ''AF_INET'' ''SOCK_STREAM'') (\<lambda>lfd.
     bind (Bind lfd 7000) (\<lambda>_.
     bind (Listen lfd 128) (\<lambda>_.
     bind (loop fuel (parent_pass fuel lfd) ()) (\<lambda>cfd.
     bind (loop fuel (child_pass cfd) buf) (\<lambda>_. return 0)))))"

section \<open>Bytes delivered and accepted\<close>

definition delivered :: "trace \<Rightarrow> string" where
  "delivered tr = concat (map (\<lambda>(c, r). if ret r < 0 then [] else read_data r) (uses ''read'' tr))"

definition taken :: "int \<Rightarrow> trace \<Rightarrow> string" where
  "taken fd tr = concat (map (\<lambda>(c, r). case args c of [I d, S p] \<Rightarrow> if d = fd then take (nat (ret r)) p else [] | _ \<Rightarrow> [])
     (uses ''write'' tr))"

lemma bytes_append [simp]:
  "delivered (t @ u) = delivered t @ delivered u" "taken fd (t @ u) = taken fd t @ taken fd u"
  by (simp_all add: delivered_def taken_def)

lemma bytes_other:
  "f \<noteq> ''read'' \<Longrightarrow> delivered ((Call f xs, r) # t) = delivered t"
  "f \<noteq> ''write'' \<Longrightarrow> taken fd ((Call f xs, r) # t) = taken fd t"
  by (simp_all add: delivered_def taken_def)

lemma bytes_Nil [simp]: "delivered [] = []" "taken fd [] = []"
  by (simp_all add: delivered_def taken_def)

lemma bytes_events:
  "delivered ((Call ''read'' xs, r) # t) = (if ret r < 0 then [] else read_data r) @ delivered t"
  "taken fd ((Call ''write'' [I d, S p], r) # t) = (if d = fd then take (nat (ret r)) p else []) @ taken fd t"
  by (simp_all add: delivered_def taken_def)

lemma count_simps:
  "count r < 0 \<longleftrightarrow> ret r < 0" "count r = 0 \<longleftrightarrow> \<not> ret r < 0 \<and> read_data r = []"
  by (auto simp: count_def)

lemma readn_loop:
  assumes "loop k (readn_pass fd) (nleft, got) env tr = (t, Ok (left, all))"
  shows "\<exists>d. delivered t = delivered tr @ d \<and> all = got @ d \<and> left + length d = nleft \<and>
    (0 < left \<longrightarrow> (\<exists>u c r. t = u @ [(c, r)] \<and> fn c = ''read'' \<and> count r = 0))"
  using assms
proof (induction k arbitrary: nleft got tr)
  case (Suc k)
  from Suc.prems obtain t1 y where p: "readn_pass fd (nleft, got) env tr = (t1, Ok y)"
    and rest: "(case y of Inl s' \<Rightarrow> loop k (readn_pass fd) s' | Inr a \<Rightarrow> return a) env t1 = (t, Ok (left, all))"
    unfolding loop.simps by (rule bind_OkE)
  show ?case
  proof (cases y)
    case (Inr a)
    with p rest show ?thesis unfolding readn_pass_def
      by (auto elim!: runE simp: return_eval bytes_events count_simps)
  next
    case (Inl s')
    obtain d where d: "delivered t1 = delivered tr @ d" "s' = (nleft - length d, got @ d)" "length d \<le> nleft"
      using p Inl unfolding readn_pass_def by (auto elim!: runE simp: bytes_events count_simps)
    then have "loop k (readn_pass fd) (nleft - length d, got @ d) env t1 = (t, Ok (left, all))" using rest Inl by simp
    from Suc.IH [OF this] d(1,3) show ?thesis by auto
  qed
qed simp

lemma readn_failing:
  assumes "\<And>t c. fn c = ''read'' \<Longrightarrow> ret (env t c) = - 1" "0 < nleft"
  shows "\<exists>t. loop k (readn_pass fd) (nleft, got) env tr = (t, Running)"
proof (induction k arbitrary: tr)
  case (Suc k)
  have "readn_pass fd (nleft, got) env tr =
      (tr @ [(Call ''read'' [I fd, I (int nleft)], env tr (Call ''read'' [I fd, I (int nleft)]))], Ok (Inl (nleft, got)))"
    using assms by (simp add: readn_pass_def bind_invoke count_simps return_eval)
  then show ?case using Suc by (simp add: bind_def)
qed simp

lemma writen_loop:
  assumes "loop k (writen_pass fd n) p env tr = (t, Ok v)"
  shows "v = int n \<and> taken fd t = taken fd tr @ p \<or> v = - 1 \<and> (\<exists>q. q \<noteq> [] \<and> taken fd tr @ p = taken fd t @ q)"
  using assms
proof (induction k arbitrary: p tr)
  case (Suc k)
  from Suc.prems obtain t1 y where w: "writen_pass fd n p env tr = (t1, Ok y)"
    and rest: "(case y of Inl s' \<Rightarrow> loop k (writen_pass fd n) s' | Inr a \<Rightarrow> return a) env t1 = (t, Ok v)"
    unfolding loop.simps by (rule bind_OkE)
  show ?case
  proof (cases y)
    case (Inr a)
    with w rest show ?thesis unfolding writen_pass_def
      by (auto elim!: runE simp: return_eval bytes_events bytes_other)
  next
    case (Inl p')
    have e: "taken fd tr @ p = taken fd t1 @ p'"
      using w Inl unfolding writen_pass_def by (auto elim!: runE simp: bytes_events bytes_other)
    from rest Inl have "loop k (writen_pass fd n) p' env t1 = (t, Ok v)" by simp
    from Suc.IH [OF this] e show ?thesis by auto
  qed
qed simp

section \<open>The buffered reader\<close>

text \<open>The bytes read ahead; together with what is delivered they are the stream of the peer.\<close>

definition pending :: "rbuf \<Rightarrow> string" where
  "pending st = take (nat (read_cnt st)) (drop (read_ptr st) (read_buf st))"

definition buf_ok :: "rbuf \<Rightarrow> bool" where
  "buf_ok st \<longleftrightarrow> length (read_buf st) = 100 \<and> (0 < read_cnt st \<longrightarrow> read_ptr st + nat (read_cnt st) \<le> 100)"

lemma pending_empty: "read_cnt st \<le> 0 \<Longrightarrow> pending st = []"
  by (simp add: pending_def)

lemma fill_loop_run:
  assumes "loop k (fill_pass fd) st env tr = (t, Ok (rc, st'))" "buf_ok st" "read_cnt st \<le> 0"
  shows "buf_ok st' \<and> delivered t = delivered tr @ pending st' \<and> (rc = 1 \<longleftrightarrow> 0 < read_cnt st')"
  using assms
proof (induction k arbitrary: st tr)
  case (Suc k)
  from Suc.prems(1) obtain t1 y where p: "fill_pass fd st env tr = (t1, Ok y)"
    and rest: "(case y of Inl s' \<Rightarrow> loop k (fill_pass fd) s' | Inr a \<Rightarrow> return a) env t1 = (t, Ok (rc, st'))"
    unfolding loop.simps by (rule bind_OkE)
  from p show ?case unfolding fill_pass_def
  proof (elim runE, goal_cases)
    case (1 r)
    from rest 1 have "loop k (fill_pass fd) (st\<lparr>read_cnt := count r\<rparr>) env t1 = (t, Ok (rc, st'))" by simp
    from Suc.IH [OF this] 1 Suc.prems(2) show ?case by (simp add: buf_ok_def bytes_events count_simps)
  next
    case (5 r)
    have "st' = st\<lparr>read_cnt := count r, read_ptr := 0, read_buf := read_data r @ drop (length (read_data r)) (read_buf st)\<rparr>"
      "t = t1" "rc = 1" using rest 5 by (simp_all add: return_eval)
    then show ?case using 5 Suc.prems(2)
      by (auto simp: buf_ok_def pending_def bytes_events count_def split: if_splits)
  qed (use rest Suc.prems in \<open>auto simp: return_eval buf_ok_def bytes_events count_def pending_def split: if_splits\<close>)
qed simp

lemma my_read_stream:
  assumes "my_read fuel fd st env tr = (t, Ok (rc, c, st'))" "buf_ok st"
  shows "buf_ok st' \<and> (\<exists>d. delivered t = delivered tr @ d \<and>
    (rc = 1 \<and> pending st @ d = c # pending st' \<or> rc \<noteq> 1 \<and> pending st @ d = [] \<and> pending st' = []))"
proof -
  let ?k = "\<lambda>(rc, st). if rc \<noteq> 1 then return (rc, NUL, st)
     else bind (lift (load (read_buf st) (read_ptr st))) (\<lambda>c.
         return (1, c, st\<lparr>read_cnt := read_cnt st - 1, read_ptr := Suc (read_ptr st)\<rparr>))"
  from assms(1) obtain t1 p where mp: "(if read_cnt st \<le> 0 then loop fuel (fill_pass fd) st else return (1, st)) env tr = (t1, Ok p)"
    and kp: "?k p env t1 = (t, Ok (rc, c, st'))"
    unfolding my_read_def by (rule bind_OkE)
  obtain q st1 where p: "p = (q, st1)" by (cases p)
  note m = mp [unfolded p] and k = kp [unfolded p]
  have one: "buf_ok st1 \<and> (\<exists>d. delivered t1 = delivered tr @ d \<and> pending st @ d = pending st1) \<and> (q = 1 \<longleftrightarrow> 0 < read_cnt st1)"
  proof (cases "read_cnt st \<le> 0")
    case True
    then show ?thesis using m fill_loop_run [of fuel fd st env tr t1 q st1] assms(2) by (auto simp: pending_empty)
  next
    case False
    then have "t1 = tr" "st1 = st" "q = 1" using m by (simp_all add: return_eval)
    then show ?thesis using False assms(2) by simp
  qed
  show ?thesis
  proof (cases "q = 1")
    case True
    then have pos: "0 < read_cnt st1" "read_ptr st1 + nat (read_cnt st1) \<le> 100" "length (read_buf st1) = 100"
      using one by (simp_all add: buf_ok_def)
    then have lt: "read_ptr st1 < length (read_buf st1)" by simp
    with k True have e: "t = t1" "rc = 1" "c = read_buf st1 ! read_ptr st1"
      "st' = st1\<lparr>read_cnt := read_cnt st1 - 1, read_ptr := Suc (read_ptr st1)\<rparr>"
      by (auto simp: load_in [OF lt] return_eval)
    have suc: "nat (read_cnt st1) = Suc (nat (read_cnt st1 - 1))" using pos by simp
    with lt have "pending st1 = c # pending st'" using e by (simp add: pending_def Cons_nth_drop_Suc [symmetric])
    moreover have "buf_ok st'" using pos(2,3) e(4) unfolding suc by (simp add: buf_ok_def)
    ultimately show ?thesis using one e by auto
  next
    case False
    then have "t = t1" "rc = q" "st' = st1" using k by (simp_all add: return_eval)
    then show ?thesis using one False pending_empty [of st1] by auto
  qed
qed

text \<open>The last event of a read that gives no character: the end of the input, or an error.\<close>

definition ended :: "int \<Rightarrow> trace \<Rightarrow> bool" where
  "ended rc t \<longleftrightarrow> (\<exists>u c r. t = u @ [(c, r)] \<and> fn c = ''read'' \<and>
     (rc = 0 \<and> count r = 0 \<or> rc = - 1 \<and> ret r < 0 \<and> errno r \<noteq> EINTR))"

lemma fill_loop_end:
  assumes "loop k (fill_pass fd) st env tr = (t, Ok (rc, st'))"
  shows "rc = 1 \<or> ended rc t"
  using assms
proof (induction k arbitrary: st tr)
  case (Suc k)
  from Suc.prems obtain t1 y where p: "fill_pass fd st env tr = (t1, Ok y)"
    and rest: "(case y of Inl s' \<Rightarrow> loop k (fill_pass fd) s' | Inr a \<Rightarrow> return a) env t1 = (t, Ok (rc, st'))"
    unfolding loop.simps by (rule bind_OkE)
  show ?case
  proof (cases y)
    case (Inl s')
    with rest Suc.IH show ?thesis by simp
  next
    case (Inr a)
    with p rest show ?thesis unfolding fill_pass_def ended_def
      by (auto elim!: runE simp: return_eval count_simps)
  qed
qed simp

lemma my_read_end:
  assumes "my_read fuel fd st env tr = (t, Ok (rc, c, st'))"
  shows "rc = 1 \<or> ended rc t"
proof -
  let ?k = "\<lambda>(rc, st). if rc \<noteq> 1 then return (rc, NUL, st)
     else bind (lift (load (read_buf st) (read_ptr st))) (\<lambda>c.
         return (1, c, st\<lparr>read_cnt := read_cnt st - 1, read_ptr := Suc (read_ptr st)\<rparr>))"
  from assms obtain t1 p where mp: "(if read_cnt st \<le> 0 then loop fuel (fill_pass fd) st else return (1, st)) env tr = (t1, Ok p)"
    and kp: "?k p env t1 = (t, Ok (rc, c, st'))"
    unfolding my_read_def by (rule bind_OkE)
  obtain q st1 where p: "p = (q, st1)" by (cases p)
  show ?thesis
  proof (cases "q = 1")
    case True
    then show ?thesis using kp p by (auto elim!: runE)
  next
    case False
    then have "t = t1" "rc = q" using kp p by (simp_all add: return_eval)
    then show ?thesis using mp p False fill_loop_end [of fuel fd st env tr t1 q st1]
      by (auto simp: return_eval split: if_splits)
  qed
qed

text \<open>How a line ends: at a character that is the literal, at the end of the input, at an error, or at the limit.\<close>

definition line_stop :: "int \<Rightarrow> int \<Rightarrow> nat \<Rightarrow> int \<Rightarrow> string \<Rightarrow> trace \<Rightarrow> bool" where
  "line_stop lit n k v l t \<longleftrightarrow>
     l \<noteq> [] \<and> is_literal lit (last l) \<and> (\<forall>c \<in> set (butlast l). \<not> is_literal lit c) \<and> v = n + int (length l) - 1 \<or>
     (\<forall>c \<in> set l. \<not> is_literal lit c) \<and>
       (ended 0 t \<and> v = n + int (length l) - 1 \<or> ended (- 1) t \<and> v = - 1 \<or> length l = k \<and> v = n + int (length l))"

lemma line_run:
  assumes "line_from lit fuel fd k n line st env tr = (t, Ok (v, out, st'))" "buf_ok st"
  shows "buf_ok st' \<and> (\<exists>l d. out = line @ l \<and> delivered t = delivered tr @ d \<and> pending st @ d = l @ pending st' \<and> length l \<le> k \<and>
    line_stop lit n k v l t)"
  using assms
proof (induction k arbitrary: n line st tr)
  case 0
  then show ?case by (auto simp: return_eval line_stop_def)
next
  case (Suc k)
  let ?k = "\<lambda>(rc, c, st). if rc = 1 then
       (if is_literal lit c then return (n, line @ [c], st) else line_from lit fuel fd k (n + 1) (line @ [c]) st)
     else if rc = 0 then return (n - 1, line, st)
     else return (- 1, line, st)"
  from Suc.prems(1) obtain t1 p where mp: "my_read fuel fd st env tr = (t1, Ok p)"
    and kp: "?k p env t1 = (t, Ok (v, out, st'))"
    unfolding line_from.simps by (rule bind_OkE)
  obtain rc c st1 where p: "p = (rc, c, st1)" by (cases p)
  note m = mp [unfolded p] and rest = kp [unfolded p prod.case]
  from my_read_stream [OF m Suc.prems(2)] obtain d where d: "buf_ok st1" "delivered t1 = delivered tr @ d"
    "rc = 1 \<and> pending st @ d = c # pending st1 \<or> rc \<noteq> 1 \<and> pending st @ d = [] \<and> pending st1 = []" by blast
  show ?case
  proof (cases "rc = 1 \<and> \<not> is_literal lit c")
    case True
    then have "line_from lit fuel fd k (n + 1) (line @ [c]) st1 env t1 = (t, Ok (v, out, st'))" using rest by simp
    from Suc.IH [OF this d(1)] obtain l e where l: "buf_ok st'" "out = line @ c # l" "delivered t = delivered t1 @ e"
      "pending st1 @ e = l @ pending st'" "length l \<le> k"
      "line_stop lit (n + 1) k v l t" by auto
    have "pending st @ d @ e = (c # l) @ pending st'" using d(3) True l(4) by (auto simp flip: append_assoc)
    moreover have "line_stop lit n (Suc k) v (c # l) t"
      using True l(6) by (auto simp: line_stop_def)
    ultimately show ?thesis using l d(2) by (intro conjI exI [of _ "c # l"] exI [of _ "d @ e"]) auto
  next
    case False
    then have "t = t1 \<and> st' = st1 \<and> (rc = 1 \<and> is_literal lit c \<and> v = n \<and> out = line @ [c] \<or>
        rc = 0 \<and> out = line \<and> v = n - 1 \<or> rc \<noteq> 0 \<and> rc \<noteq> 1 \<and> out = line \<and> v = - 1)"
      using rest by (auto simp: return_eval split: if_splits)
    moreover have "rc = 1 \<or> rc = 0 \<and> ended 0 t1 \<or> rc = - 1 \<and> ended (- 1) t1"
      using my_read_end [OF m] by (auto simp: ended_def)
    ultimately show ?thesis using d
      by (intro conjI exI [of _ "if rc = 1 then [c] else []"] exI [of _ d]) (auto simp: line_stop_def)
  qed
qed

text \<open>No address a string literal can have is the value of a character.\<close>

lemma literal_never:
  assumes "128 \<le> lit" "lit < 2 ^ 64 - 128"
  shows "\<not> is_literal lit c"
proof -
  have "(of_char c :: nat) < 256" by simp
  then have "(of_char c :: int) < 256" by (metis of_nat_less_numeral_iff of_nat_of_char)
  moreover have "0 \<le> (of_char c :: int)" by (metis of_nat_0_le_iff of_nat_of_char)
  ultimately have c: "- 128 \<le> char_int c" "char_int c < 128" by (auto simp: char_int_def Let_def)
  have "char_int c mod 2 ^ 64 = (if 0 \<le> char_int c then char_int c else char_int c + 2 ^ 64)"
  proof (cases "0 \<le> char_int c")
    case False
    have "char_int c mod 2 ^ 64 = (char_int c + 2 ^ 64) mod 2 ^ 64" by (rule mod_add_self2 [symmetric])
    also have "\<dots> = char_int c + 2 ^ 64" using False c by (intro mod_pos_pos_trivial) auto
    finally show ?thesis using False by simp
  qed (use c in simp)
  then show ?thesis using assms c by (auto simp: is_literal_def)
qed

section \<open>Echo servers\<close>

text \<open>What a program has passed to \<^verbatim>\<open>write\<close> for a descriptor.\<close>

definition written :: "int \<Rightarrow> trace \<Rightarrow> string" where
  "written fd tr = concat (map (\<lambda>(c, r). case args c of [I d, S p] \<Rightarrow> if d = fd then p else [] | _ \<Rightarrow> []) (uses ''write'' tr))"

lemma written_simps [simp]:
  "written fd [] = []" "written fd (t @ u) = written fd t @ written fd u"
  "written fd ((Call f xs, r) # t) =
     (if f = ''write'' then (case xs of [I d, S p] \<Rightarrow> if d = fd then p else [] | _ \<Rightarrow> []) else []) @ written fd t"
  by (simp_all add: written_def)

text \<open>
  The contract of one pass of an echo server: a pass that goes on has answered exactly what
  it received, in upper case, and the pass that ends the service receives nothing.
\<close>

locale echo_service =
  fixes pass :: "'s \<Rightarrow> ('s + 'a) prog" and fd :: int
  assumes pass_echo: "pass s env tr = (t, Ok (Inl s')) \<Longrightarrow>
      \<exists>d. delivered t = delivered tr @ d \<and> written fd t = written fd tr @ map toupper d"
    and pass_end: "pass s env tr = (t, r) \<Longrightarrow> (\<exists>n. r = Exit n) \<or> (\<exists>a. r = Ok (Inr a)) \<Longrightarrow>
      delivered t = delivered tr \<and> written fd t = written fd tr"
begin

lemma echoes:
  assumes "loop k pass s env tr = (t, r)" "(\<exists>n. r = Exit n) \<or> (\<exists>a. r = Ok a)"
  shows "\<exists>d. delivered t = delivered tr @ d \<and> written fd t = written fd tr @ map toupper d"
  using assms
proof (induction k arbitrary: s tr)
  case (Suc k)
  from Suc.prems(1) show ?case unfolding loop.simps
  proof (rule run_bindE)
    fix x u
    assume p: "pass s env tr = (u, Ok x)" and rest: "(case x of Inl s' \<Rightarrow> loop k pass s' | Inr a \<Rightarrow> return a) env u = (t, r)"
    show ?thesis
    proof (cases x)
      case (Inl s')
      from pass_echo [OF p [unfolded Inl]] obtain d where
        d: "delivered u = delivered tr @ d" "written fd u = written fd tr @ map toupper d" by blast
      from rest Inl Suc.IH [OF _ Suc.prems(2), of s' u] obtain e where
        "delivered t = delivered u @ e" "written fd t = written fd u @ map toupper e" by auto
      with d show ?thesis by (intro exI [of _ "d @ e"]) simp
    next
      case (Inr a)
      with pass_end [OF p] rest show ?thesis by (auto simp: return_eval)
    qed
  next
    fix r'
    assume p: "pass s env tr = (t, r')" "\<forall>x. r' \<noteq> Ok x" "r = stopped r'"
    with Suc.prems(2) have "\<exists>n. r' = Exit n" by (cases r') auto
    with pass_end [OF p(1)] show ?thesis by auto
  qed
qed simp

end

lemma print_chars:
  assumes "for_each d (\<lambda>c _. print ([c] @ nl)) () env tr = (t, r)"
  shows "r = Ok () \<and> delivered t = delivered tr \<and> written fd t = written fd tr"
  using assms by (induction d arbitrary: tr) (auto elim!: runE simp: bytes_other)

interpretation child: echo_service "child_pass cfd" cfd for cfd
proof (unfold_locales, goal_cases)
  case (1 s env tr t s')
  then show ?case unfolding child_pass_def Let_def
  proof (elim runE bind_OkE, goal_cases)
    case (3 x ta)
    from print_chars [OF 3(3), of cfd] 3(5,6) show ?case
      by (intro exI [of _ "read_data x"]) (simp add: bytes_events bytes_other count_def split: if_splits)
  qed simp_all
next
  case (2 s env tr t r)
  from 2(1) show ?case unfolding child_pass_def Let_def
  proof (elim runE run_bindE, goal_cases)
    case (1 x xa)
    then show ?case by (simp add: bytes_events bytes_other count_simps)
  next
    case (6 x r')
    then show ?case using print_chars [OF 6(3), of cfd] by simp
  qed (use 2(2) in simp_all)
qed

section \<open>Properties\<close>

text \<open>
  C23: \<^verbatim>\<open>Readn\<close> returns the number of bytes it stored, which are exactly the bytes the peer
  delivered, at most \<open>n\<close>, and fewer only after an end of file.  It never reports an error:
  when every read fails it does not return, because \<^verbatim>\<open>errno = EINTR\<close> assigns.
\<close>

theorem Readn_delivers:
  assumes "Readn fuel fd n env tr = (t, Ok (m, got))" "\<And>t c. fn c = ''read'' \<Longrightarrow> ret (bad t c) = - 1" "0 < n"
  shows "delivered t = delivered tr @ got \<and> m = length got \<and> m \<le> n \<and>
    (m < n \<longrightarrow> (\<exists>u c r. t = u @ [(c, r)] \<and> fn c = ''read'' \<and> count r = 0)) \<and>
    (\<exists>t'. Readn k fd n bad tr = (t', Running))"
proof -
  from assms(1) obtain left all where l: "loop fuel (readn_pass fd) (n, []) env tr = (t, Ok (left, all))" "m = n - left" "got = all"
    unfolding Readn_def by (elim bind_OkE) (auto simp: return_eval)
  from readn_failing [of bad n k fd "[]" tr] assms(2,3) obtain t' where "loop k (readn_pass fd) (n, []) bad tr = (t', Running)" by blast
  then have "\<exists>t'. Readn k fd n bad tr = (t', Running)" unfolding Readn_def by (simp add: bind_stop)
  with readn_loop [OF l(1)] l(2,3) show ?thesis by auto
qed

definition two_env :: env where
  "two_env tr c = \<lparr>ret = (if length tr < 2 then 2 else 0), data = ''ab'', errno = 0\<rparr>"

definition dead_env :: env where
  "dead_env tr c = \<lparr>ret = - 1, data = [], errno = 5\<rparr>"

theorem Readn_delivers_witness:
  "\<exists>t. Readn 9 3 5 two_env [] = (t, Ok (4, ''abab'')) \<and> delivered t = ''abab'' \<and> (\<exists>t'. Readn 7 3 5 dead_env [] = (t', Running))"
proof -
  have c: "case Readn 9 3 5 two_env [] of (t, r) \<Rightarrow> r = Ok (4, ''abab'')" by code_simp
  obtain t r where m: "Readn 9 3 5 two_env [] = (t, r)" by (rule prod.exhaust)
  with c have "Readn 9 3 5 two_env [] = (t, Ok (4, ''abab''))" by simp
  with Readn_delivers [OF this, of dead_env 7] show ?thesis by (auto simp: dead_env_def)
qed

text \<open>
  C24: \<^verbatim>\<open>Writen\<close> returns the full length exactly when the peer has accepted every byte, in order
  and once, however the writes were split or interrupted; otherwise it returns -1 with a
  proper prefix accepted.
\<close>

theorem Writen_complete:
  assumes "Writen fuel fd p env tr = (t, Ok v)"
  shows "v = int (length p) \<and> taken fd t = taken fd tr @ p \<or>
    v = - 1 \<and> (\<exists>q. q \<noteq> [] \<and> taken fd tr @ p = taken fd t @ q)"
  using writen_loop [OF assms [unfolded Writen_def]] by simp

definition one_env :: env where
  "one_env tr c = \<lparr>ret = (if length tr = 1 then - 1 else 1), data = ''a'', errno = 4\<rparr>"

theorem Writen_complete_witness: "\<exists>t. Writen 9 3 ''abc'' one_env [] = (t, Ok 3) \<and> taken 3 t = ''abc''"
proof -
  have c: "case Writen 9 3 ''abc'' one_env [] of (t, r) \<Rightarrow> r = Ok 3" by code_simp
  obtain t r where m: "Writen 9 3 ''abc'' one_env [] = (t, r)" by (rule prod.exhaust)
  with c have "Writen 9 3 ''abc'' one_env [] = (t, Ok 3)" by simp
  with Writen_complete [OF this] show ?thesis by auto
qed


definition fresh_buf :: rbuf where
  "fresh_buf = \<lparr>read_cnt = 0, read_ptr = 0, read_buf = replicate 100 NUL\<rparr>"

definition lines_env :: env where
  "lines_env tr c = \<lparr>ret = (if tr = [] then 4 else 0), data = [CHR ''a'', CHR 10, CHR ''b'', CHR 10], errno = 0\<rparr>"


text \<open>
  The child answers a client that closes its connection with exactly the bytes it sent,
  in upper case and in order.
\<close>

theorem child_echo:
  assumes "loop k (child_pass cfd) buf env tr = (t, r)" "\<exists>n. r = Exit n"
  shows "\<exists>d. delivered t = delivered tr @ d \<and> written cfd t = written cfd tr @ map toupper d"
  by (rule child.echoes [OF assms(1)]) (use assms(2) in simp)

definition hello_env :: env where
  "hello_env tr c = \<lparr>ret = (if tr = [] then 2 else 0), data = ''hi'', errno = 0\<rparr>"

theorem child_echo_witness:
  "\<exists>t. loop 3 (child_pass 4) (replicate 8 NUL) hello_env [] = (t, Exit 1) \<and> written 4 t = ''HI''"
proof -
  have c: "case loop 3 (child_pass 4) (replicate 8 NUL) hello_env [] of (t, r) \<Rightarrow> r = Exit 1 \<and> delivered t = ''hi''" by code_simp
  obtain t r where m: "loop 3 (child_pass 4) (replicate 8 NUL) hello_env [] = (t, r)" by (rule prod.exhaust)
  from c have r: "r = Exit 1" "delivered t = ''hi''" unfolding m by simp_all
  have "map toupper ''hi'' = ''HI''" by code_simp
  with child_echo [OF m] r m show ?thesis by auto
qed

end
