(* ===== verification/Sockets.thy ===== *)
theory Sockets
  imports SocketWrap
begin

text \<open>
  The plain socket programs: \<^verbatim>\<open>src/cpp/tcp_client.c\<close> and \<^verbatim>\<open>tcp_server.c\<close>, which take turns line by
  line, and \<^verbatim>\<open>uni_sock_cli.c\<close> and \<^verbatim>\<open>uni_sock_srv.c\<close>, an echo over a UNIX domain socket.  Buffers
  keep their contents between passes, as in the code; a string that is printed or measured
  without a NUL in its buffer faults.
\<close>

section \<open>Input\<close>

text \<open>\<^verbatim>\<open>fgets\<close> into a buffer: \<open>None\<close> for its null result.\<close>

definition fgets_into :: "nat \<Rightarrow> string \<Rightarrow> string option prog" where
  "fgets_into cap buf =
     bind (invoke ''fgets'' [I (int cap), S ''stdin'']) (\<lambda>r.
     if ret r = 0 then return None
     else bind (lift (str_write buf (cstr (take (cap - 1) (data r))))) (\<lambda>b. return (Some b)))"

text \<open>\<^verbatim>\<open>read\<close> into a buffer: its result and the buffer.\<close>

definition read_into :: "int \<Rightarrow> nat \<Rightarrow> string \<Rightarrow> (int \<times> string) prog" where
  "read_into fd cap buf =
     bind (invoke ''read'' [I fd, I (int cap)]) (\<lambda>r.
     bind (lift (mem_write buf 0 (if ret r < 0 then [] else read_data r))) (\<lambda>b. return (count r, b)))"

text \<open>\<^verbatim>\<open>buf[strlen (buf) - 1] = 0\<close>, which writes before the buffer when the string is empty.\<close>

definition chop :: "string \<Rightarrow> string c_result" where
  "chop buf = c_bind (c_strlen buf) (\<lambda>n. if n = 0 then Inl OutOfBounds else store buf (n - 1) NUL)"

definition print_buf :: "string \<Rightarrow> string \<Rightarrow> string \<Rightarrow> unit prog" where
  "print_buf before buf after = bind (lift (c_strlen buf)) (\<lambda>_. print (before @ cstr buf @ after))"

definition print_errno :: "string \<Rightarrow> reply \<Rightarrow> unit prog" where
  "print_errno what r =
     bind (call_text ''strerror'' [I (errno r)]) (\<lambda>s.
     print (what @ '' error, errno is '' @ show_int (errno r) @ '', errstring is '' @ s @ nl))"

section \<open>The client of \<open>tcp_client.c\<close>\<close>

definition to_lower :: "char \<Rightarrow> char" where
  "to_lower c = (if 65 \<le> (of_char c :: nat) \<and> (of_char c :: nat) \<le> 90 then char_of ((of_char c :: nat) + 32) else c)"

text \<open>\<^verbatim>\<open>strncasecmp (buf, "quit", 4) == 0\<close>\<close>

definition is_quit :: "string \<Rightarrow> bool" where
  "is_quit buf \<longleftrightarrow> map to_lower (take 4 (cstr buf)) = ''quit''"

definition talk_pass :: "int \<Rightarrow> string \<Rightarrow> (string + string) prog" where
  "talk_pass sock buf =
     bind (print ''client# :'') (\<lambda>_.
     bind (fgets_into 1024 buf) (\<lambda>line.
     bind (lift (chop (case line of None \<Rightarrow> buf | Some b \<Rightarrow> b))) (\<lambda>buf.
     bind (do_call ''write'' [I sock, S buf]) (\<lambda>_.
     if is_quit buf then bind (print (''quit !'' @ nl)) (\<lambda>_. return (Inr buf))
     else
       bind (print (''please wait'' @ nl)) (\<lambda>_.
       bind (read_into sock 1024 buf) (\<lambda>(n, buf).
       bind (print_buf ''server #:'' buf nl) (\<lambda>_. return (Inl buf))))))))"

definition tcp_client_main :: "nat \<Rightarrow> string list \<Rightarrow> int prog" where
  "tcp_client_main fuel argv =
     (if length argv \<noteq> 2 then bind (print (''Usage : client IP'' @ nl)) (\<lambda>_. return 1)
      else
        bind (invoke ''socket'' [S ''AF_INET'', S ''SOCK_STREAM'', I 0]) (\<lambda>s.
        bind (if ret s < 0 then print_errno ''socket'' s else return ()) (\<lambda>_.
        bind (do_call ''inet_pton'' [S ''AF_INET'', S (argv ! 1)]) (\<lambda>_.
        bind (invoke ''connect'' [I (ret s), S (argv ! 1), I 9999]) (\<lambda>c.
        if ret c < 0 then bind (print_errno ''connect'' c) (\<lambda>_. return 1)
        else
          bind (print (''connect sucess!'' @ nl)) (\<lambda>_.
          bind (loop fuel (talk_pass (ret s)) (replicate 1024 NUL)) (\<lambda>_.
          bind (do_call ''close'' [I (ret s)]) (\<lambda>_. return 0))))))))"

section \<open>The server of \<open>tcp_server.c\<close>\<close>

definition answer_pass :: "int \<Rightarrow> unit \<Rightarrow> (unit + unit) prog" where
  "answer_pass sock = (\<lambda>_.
     bind (read_into sock 1024 (replicate 1024 NUL)) (\<lambda>(n, buf).
     bind (print_buf ''client# : '' buf nl) (\<lambda>_.
     bind (print ''server# :'') (\<lambda>_.
     bind (fgets_into 1024 (replicate 1024 NUL)) (\<lambda>line.
     bind (lift (chop (case line of None \<Rightarrow> replicate 1024 NUL | Some b \<Rightarrow> b))) (\<lambda>buf.
     bind (do_call ''write'' [I sock, S (cstr buf @ [NUL])]) (\<lambda>_.
     bind (print (''please wait ...'' @ nl)) (\<lambda>_. return (Inl ())))))))))"

definition serve_pass :: "nat \<Rightarrow> int \<Rightarrow> unit \<Rightarrow> (unit + int) prog" where
  "serve_pass fuel sock = (\<lambda>_.
     bind (invoke ''accept'' [I sock]) (\<lambda>a.
     if ret a < 0 then
       bind (print_errno ''accept '' a) (\<lambda>_. bind (do_call ''close'' [I sock]) (\<lambda>_. return (Inr 3)))
     else
       bind (call_text ''inet_ntop'' [I (ret a)]) (\<lambda>ip.
       bind (call_ret ''ntohs'' [I (ret a)]) (\<lambda>port.
       bind (print (''get connection :ip is  '' @ cstr (take 15 ip) @ '', port is '' @ show_int port @ nl @ '' '')) (\<lambda>_.
       bind (loop fuel (answer_pass (ret a)) ()) (\<lambda>_. return (Inl ()))))))) "

definition tcp_server_main :: "nat \<Rightarrow> int prog" where
  "tcp_server_main fuel =
     bind (invoke ''socket'' [S ''AF_INET'', S ''SOCK_STREAM'', I 0]) (\<lambda>s.
     bind (if ret s < 0 then print_errno ''socket'' s else return ()) (\<lambda>_.
     bind (invoke ''bind'' [I (ret s), S ''INADDR_ANY'', I 9999]) (\<lambda>b.
     if ret b < 0 then bind (print_errno ''bind'' b) (\<lambda>_. bind (do_call ''close'' [I (ret s)]) (\<lambda>_. return 1))
     else
       bind (invoke ''listen'' [I (ret s), I 10]) (\<lambda>l.
       if ret l < 0 then bind (print_errno ''listen'' l) (\<lambda>_. bind (do_call ''close'' [I (ret s)]) (\<lambda>_. return 2))
       else
         bind (print (''bind and listen success, wait accept!'' @ nl)) (\<lambda>_.
         loop fuel (serve_pass fuel (ret s)) ())))))"

section \<open>The pair over a UNIX domain socket\<close>

definition perror_exit :: "string \<Rightarrow> 'a prog" where
  "perror_exit s = bind (do_call ''perror'' [S s]) (\<lambda>_. exit_with 1)"

text \<open>An address is its path and \<^verbatim>\<open>offsetof (struct sockaddr_un, sun_path) + strlen\<close>, where the offset is 2.\<close>

definition un_addr :: "string \<Rightarrow> arg list" where
  "un_addr path = [S path, I (2 + int (length path))]"

definition send_line_pass :: "int \<Rightarrow> string \<Rightarrow> (string + unit) prog" where
  "send_line_pass fd buf =
     bind (fgets_into 80 buf) (\<lambda>line.
     case line of
       None \<Rightarrow> return (Inr ())
     | Some buf \<Rightarrow>
         bind (do_call ''write'' [I fd, S (cstr buf)]) (\<lambda>_.
         bind (read_into fd 80 buf) (\<lambda>(n, buf).
         bind (if n < 0 then print (''the other side has been closed.'' @ nl)
               else do_call ''write'' [I 1, S (take (nat n) buf)]) (\<lambda>_. return (Inl buf)))))"

definition uni_cli_main :: "nat \<Rightarrow> string \<Rightarrow> int prog" where
  "uni_cli_main fuel buf =
     bind (call_ret ''socket'' [S ''AF_UNIX'', S ''SOCK_STREAM'', I 0]) (\<lambda>fd.
     if fd < 0 then perror_exit ''client socket error''
     else
       bind (do_call ''unlink'' [S ''client.socket'']) (\<lambda>_.
       bind (call_ret ''bind'' (I fd # un_addr ''client.socket'')) (\<lambda>b.
       if b < 0 then perror_exit ''bind error''
       else
         bind (call_ret ''connect'' (I fd # un_addr ''server.socket'')) (\<lambda>c.
         if c < 0 then perror_exit ''connect error''
         else
           bind (loop fuel (send_line_pass fd) buf) (\<lambda>_.
           bind (do_call ''close'' [I fd]) (\<lambda>_. return 0))))))"

definition echo_pass :: "int \<Rightarrow> string \<Rightarrow> (string + string) prog" where
  "echo_pass fd buf =
     bind (read_into fd 80 buf) (\<lambda>(n, buf).
     if n < 0 then bind (do_call ''perror'' [S ''read error'']) (\<lambda>_. return (Inr buf))
     else if n = 0 then bind (print (''EOF'' @ nl)) (\<lambda>_. return (Inr buf))
     else
       bind (print_buf ''received: '' buf []) (\<lambda>_.
       let up = map toupper (take (nat n) buf) in
       bind (do_call ''write'' [I fd, S up]) (\<lambda>_. return (Inl (up @ drop (nat n) buf)))))"

definition conn_pass :: "nat \<Rightarrow> int \<Rightarrow> string \<Rightarrow> (string + unit) prog" where
  "conn_pass fuel lfd buf =
     bind (call_ret ''accept'' [I lfd]) (\<lambda>fd.
     if fd < 0 then bind (do_call ''perror'' [S ''accept error'']) (\<lambda>_. return (Inl buf))
     else
       bind (loop fuel (echo_pass fd) buf) (\<lambda>buf.
       bind (do_call ''close'' [I fd]) (\<lambda>_. return (Inl buf))))"

definition uni_srv_main :: "nat \<Rightarrow> string \<Rightarrow> int prog" where
  "uni_srv_main fuel buf =
     bind (call_ret ''socket'' [S ''AF_UNIX'', S ''SOCK_STREAM'', I 0]) (\<lambda>lfd.
     if lfd < 0 then perror_exit ''socket error''
     else
       bind (do_call ''unlink'' [S ''server.socket'']) (\<lambda>_.
       bind (call_ret ''bind'' (I lfd # un_addr ''server.socket'')) (\<lambda>b.
       if b < 0 then perror_exit ''bind error''
       else
         bind (print (''UNIX domain socket bound'' @ nl)) (\<lambda>_.
         bind (call_ret ''listen'' [I lfd, I 20]) (\<lambda>l.
         if l < 0 then perror_exit ''listen error''
         else
           bind (print (''Accepting connections ...'' @ nl)) (\<lambda>_.
           bind (loop fuel (conn_pass fuel lfd) buf) (\<lambda>_.
           bind (do_call ''close'' [I lfd]) (\<lambda>_. return 0))))))))"

section \<open>The echo\<close>

lemma mem_write_front: "mem_write b 0 xs = Inr b' \<longleftrightarrow> length xs \<le> length b \<and> b' = xs @ drop (length xs) b"
  by (auto simp: mem_write_def)

lemma read_intoE:
  assumes "bind (read_into fd cap buf) (\<lambda>(n, b). k n b) env tr = (t, r)"
  obtains x b where "mem_write buf 0 (if ret x < 0 then [] else read_data x) = Inr b"
      "k (count x) b env (tr @ [(Call ''read'' [I fd, I (int cap)], x)]) = (t, r)"
  | x where "t = tr @ [(Call ''read'' [I fd, I (int cap)], x)]" "r = Fault OutOfBounds"
proof -
  from assms have "bind (invoke ''read'' [I fd, I (int cap)]) (\<lambda>x.
      bind (lift (mem_write buf 0 (if ret x < 0 then [] else read_data x))) (k (count x))) env tr = (t, r)"
    by (simp add: read_into_def bind_assoc)
  then show ?thesis
    by (elim runE) (auto intro: that simp: mem_write_def split: if_splits)
qed

lemma print_bufE:
  assumes "bind (print_buf s b u) k env tr = (t, r)"
  obtains x where "NUL \<in> set b" "k () env (tr @ [(Call ''printf'' [S (s @ cstr b @ u)], x)]) = (t, r)"
  | "NUL \<notin> set b" "t = tr" "r = Fault OutOfBounds"
proof -
  from assms have "bind (lift (c_strlen b)) (\<lambda>_. bind (print (s @ cstr b @ u)) k) env tr = (t, r)"
    by (simp add: print_buf_def bind_assoc)
  then show ?thesis
    by (elim runE) (auto intro: that simp: c_strlen_def split: if_splits)
qed

lemmas sockE = runE read_intoE print_bufE

text \<open>
  What the echo does inside one connection: every read and write is on its descriptor, nothing is
  accepted or closed, and what it writes is what it was sent, in upper case.  \<open>reads\<close> are the
  results of the reads; the peer is still there as long as they are positive, and gone at the
  first that is not.
\<close>

definition answered :: "int \<Rightarrow> trace \<Rightarrow> bool" where
  "answered fd b \<longleftrightarrow> written fd b = map toupper (delivered b) \<and>
     list_all (\<lambda>(c, r). fn c \<noteq> ''accept'' \<and> fn c \<noteq> ''close'' \<and>
       (fn c = ''read'' \<or> fn c = ''write'' \<longrightarrow> take 1 (args c) = [I fd])) b"

definition reads :: "trace \<Rightarrow> int list" where
  "reads b = map (\<lambda>(c, r). count r) (uses ''read'' b)"

definition talking :: "trace \<Rightarrow> bool" where
  "talking b \<longleftrightarrow> list_all (\<lambda>n. 0 < n) (reads b)"

definition hung_up :: "trace \<Rightarrow> bool" where
  "hung_up b \<longleftrightarrow> reads b \<noteq> [] \<and> last (reads b) \<le> 0 \<and> list_all (\<lambda>n. 0 < n) (butlast (reads b))"

text \<open>
  A connection from beginning to end: an accept that fails is reported, and one that succeeds is
  answered until the peer has gone and then closed.  And the one being served when the run is
  looked at: waiting for its next bytes, or just fallen over a string without end in the buffer.
\<close>

definition connection :: "int \<Rightarrow> trace \<Rightarrow> bool" where
  "connection lfd c \<longleftrightarrow> (case c of [] \<Rightarrow> False | (k, a) # b \<Rightarrow> k = Call ''accept'' [I lfd] \<and>
     (if ret a < 0 then map fst b = [Call ''perror'' [S ''accept error'']]
      else b \<noteq> [] \<and> fst (last b) = Call ''close'' [I (ret a)] \<and> answered (ret a) (butlast b) \<and> hung_up (butlast b)))"

definition serving :: "int \<Rightarrow> 'a res \<Rightarrow> trace \<Rightarrow> bool" where
  "serving lfd r c \<longleftrightarrow> (case c of [] \<Rightarrow> r = Running | (k, a) # b \<Rightarrow> k = Call ''accept'' [I lfd] \<and> 0 \<le> ret a \<and>
     (r = Running \<and> answered (ret a) b \<and> talking b \<or>
      r = Fault OutOfBounds \<and> answered (ret a) (butlast b) \<and> talking (butlast b) \<and>
        b \<noteq> [] \<and> fst (last b) = Call ''read'' [I (ret a), I 80]))"

lemma reads_simps [simp]:
  "reads [] = []" "reads (t @ u) = reads t @ reads u"
  "reads ((Call f xs, r) # t) = (if f = ''read'' then [count r] else []) @ reads t"
  by (auto simp: reads_def)

lemma echo_step:
  "triple (\<lambda>t. \<exists>b. t = tr @ b \<and> answered fd b \<and> talking b) (echo_pass fd buf)
     (\<lambda>t r. case r of
        Ok (Inl buf') \<Rightarrow> \<exists>b. t = tr @ b \<and> answered fd b \<and> talking b
      | Ok (Inr buf') \<Rightarrow> \<exists>b. t = tr @ b \<and> answered fd b \<and> hung_up b
      | Fault e \<Rightarrow> e = OutOfBounds \<and> (\<exists>b x. t = tr @ b @ [(Call ''read'' [I fd, I 80], x)] \<and> answered fd b \<and> talking b)
      | _ \<Rightarrow> False)"
proof (rule tripleI)
  fix env t0 t r
  assume "\<exists>b. t0 = tr @ b \<and> answered fd b \<and> talking b" and run: "echo_pass fd buf env t0 = (t, r)"
  then obtain b where b: "t0 = tr @ b" "answered fd b" "talking b" by blast
  from run show "case r of
        Ok (Inl buf') \<Rightarrow> \<exists>b. t = tr @ b \<and> answered fd b \<and> talking b
      | Ok (Inr buf') \<Rightarrow> \<exists>b. t = tr @ b \<and> answered fd b \<and> hung_up b
      | Fault e \<Rightarrow> e = OutOfBounds \<and> (\<exists>b x. t = tr @ b @ [(Call ''read'' [I fd, I 80], x)] \<and> answered fd b \<and> talking b)
      | _ \<Rightarrow> False"
    unfolding echo_pass_def Let_def prod.case using b
    by (elim sockE)
      (auto simp: answered_def talking_def hung_up_def butlast_append bytes_events bytes_other mem_write_front count_def
        split: if_splits)
qed

lemma echo_loop:
  assumes "loop k (echo_pass fd) buf env tr = (t, r)"
  shows "\<exists>b. t = tr @ b \<and> (case r of
        Ok buf' \<Rightarrow> answered fd b \<and> hung_up b
      | Running \<Rightarrow> answered fd b \<and> talking b
      | Fault e \<Rightarrow> e = OutOfBounds \<and> b \<noteq> [] \<and> fst (last b) = Call ''read'' [I fd, I 80] \<and> answered fd (butlast b) \<and> talking (butlast b)
      | Exit n \<Rightarrow> False)"
proof -
  let ?Q = "\<lambda>t r. \<exists>b. t = tr @ b \<and> (case r of
        Ok buf' \<Rightarrow> answered fd b \<and> hung_up b
      | Running \<Rightarrow> answered fd b \<and> talking b
      | Fault e \<Rightarrow> e = OutOfBounds \<and> b \<noteq> [] \<and> fst (last b) = Call ''read'' [I fd, I 80] \<and> answered fd (butlast b) \<and> talking (butlast b)
      | Exit n \<Rightarrow> False)"
  have "triple (\<lambda>t. \<exists>b. t = tr @ b \<and> answered fd b \<and> talking b) (loop k (echo_pass fd) buf) ?Q"
  proof (rule triple_loop [where Inv = "\<lambda>s t. \<exists>b. t = tr @ b \<and> answered fd b \<and> talking b"], goal_cases)
    case (1 s)
    show ?case by (rule triple_conseq [OF echo_step]) (fastforce split: res.splits sum.splits)+
  qed auto
  from tripleD [OF this _ assms] show ?thesis by (simp add: answered_def talking_def)
qed

lemma conn_step:
  assumes "conn_pass fuel lfd buf env tr = (t, r)"
  shows "\<exists>c. t = tr @ c \<and> ((\<exists>b. r = Ok (Inl b)) \<and> connection lfd c \<or> (\<forall>x. r \<noteq> Ok x) \<and> c \<noteq> [] \<and> serving lfd r c)"
  using assms unfolding conn_pass_def
proof (elim runE run_bindE, goal_cases)
  case (1 a p)
  then show ?case by (auto simp: connection_def)
next
  case (2 a buf' u x)
  from echo_loop [OF 2(2)] obtain b where "u = tr @ [(Call ''accept'' [I lfd], a)] @ b" "answered (ret a) b" "hung_up b" by auto
  with 2 show ?case by (auto simp: connection_def)
next
  case (3 a r')
  from echo_loop [OF 3(2)] obtain b where "t = tr @ [(Call ''accept'' [I lfd], a)] @ b" and
    "case r' of Ok buf' \<Rightarrow> answered (ret a) b \<and> hung_up b | Running \<Rightarrow> answered (ret a) b \<and> talking b
     | Fault e \<Rightarrow> e = OutOfBounds \<and> b \<noteq> [] \<and> fst (last b) = Call ''read'' [I (ret a), I 80] \<and> answered (ret a) (butlast b) \<and> talking (butlast b)
     | Exit n \<Rightarrow> False" by auto
  with 3 show ?case by (cases r') (auto simp: serving_def)
qed

lemma conn_loop:
  assumes "loop k (conn_pass fuel lfd) buf env tr = (t, r)"
  shows "(\<forall>v. r \<noteq> Ok v) \<and> (\<exists>cs rest. t = tr @ concat cs @ rest \<and> list_all (connection lfd) cs \<and> serving lfd r rest)"
  using assms
proof (induction k arbitrary: buf tr)
  case 0
  then show ?case by (auto simp: serving_def intro!: exI [of _ "[]"])
next
  case (Suc k)
  from Suc.prems show ?case unfolding loop.simps
  proof (rule run_bindE, goal_cases)
    case (1 x u)
    from conn_step [OF 1(1)] obtain c b where c: "u = tr @ c" "x = Inl b" "connection lfd c" by auto
    with 1(2) have "loop k (conn_pass fuel lfd) b env u = (t, r)" by simp
    from Suc.IH [OF this] obtain cs rest where "\<forall>v. r \<noteq> Ok v" "t = u @ concat cs @ rest" "list_all (connection lfd) cs"
      "serving lfd r rest" by blast
    with c show ?case by (intro conjI exI [of _ "c # cs"] exI [of _ rest]) auto
  next
    case (2 r')
    from conn_step [OF 2(1)] 2(2) obtain c where "t = tr @ c" "serving lfd r' c" by auto
    with 2(2,3) show ?case by (cases r') (auto simp: serving_def intro!: exI [of _ "[]"] exI [of _ c] split: list.splits)
  qed
qed

section \<open>Sessions\<close>

lemma loop_endless:
  assumes "\<And>s env tr t a. body s env tr \<noteq> (t, Ok (Inr a))"
  shows "loop n body s env tr \<noteq> (t, Ok x)"
proof (induction n arbitrary: s tr)
  case (Suc n)
  show ?case
  proof
    assume "loop (Suc n) body s env tr = (t, Ok x)"
    then obtain u y where "body s env tr = (u, Ok y)" "(case y of Inl s' \<Rightarrow> loop n body s' | Inr a \<Rightarrow> return a) env u = (t, Ok x)"
      unfolding loop.simps by (rule bind_OkE)
    then show False using assms Suc by (cases y) auto
  qed
qed simp

lemma fgets_intoE:
  assumes "bind (fgets_into cap buf) k env tr = (t, r)"
  obtains x where "ret x = 0" "k None env (tr @ [(Call ''fgets'' [I (int cap), S ''stdin''], x)]) = (t, r)"
  | x b where "ret x \<noteq> 0" "str_write buf (cstr (take (cap - 1) (data x))) = Inr b"
      "k (Some b) env (tr @ [(Call ''fgets'' [I (int cap), S ''stdin''], x)]) = (t, r)"
  | x where "ret x \<noteq> 0" "t = tr @ [(Call ''fgets'' [I (int cap), S ''stdin''], x)]" "r = Fault OutOfBounds"
proof -
  from assms have "bind (invoke ''fgets'' [I (int cap), S ''stdin'']) (\<lambda>x.
      if ret x = 0 then k None else bind (lift (str_write buf (cstr (take (cap - 1) (data x))))) (\<lambda>b. k (Some b))) env tr = (t, r)"
    by (simp add: fgets_into_def bind_assoc bind_if cong: if_cong)
  then show ?thesis
    by (elim runE) (auto intro: that simp: str_write_def mem_write_def split: if_splits)
qed

text \<open>What was typed, as the programs see it.\<close>

definition typed :: "nat \<Rightarrow> trace \<Rightarrow> string" where
  "typed cap tr = concat (map (\<lambda>(c, r). if ret r = 0 then [] else cstr (take (cap - 1) (data r))) (uses ''fgets'' tr))"

lemma typed_simps [simp]:
  "typed cap [] = []" "typed cap (t @ u) = typed cap t @ typed cap u"
  "typed cap ((Call f xs, r) # t) = (if f = ''fgets'' \<and> ret r \<noteq> 0 then cstr (take (cap - 1) (data r)) else []) @ typed cap t"
  by (auto simp: typed_def)

lemma cstr_nonul: "NUL \<notin> set (cstr s)"
  by (auto simp: cstr_def dest: set_takeWhileD)

lemma str_write_cstr: "str_write buf (cstr s) = Inr b \<Longrightarrow> cstr b = cstr s \<and> length b = length buf"
  by (auto simp: str_write_def mem_write_def cstr_nonul split: if_splits)

text \<open>The client has sent exactly what was typed and has shown exactly what came back.\<close>

definition relayed :: "int \<Rightarrow> trace \<Rightarrow> bool" where
  "relayed fd t \<longleftrightarrow> written fd t = typed 80 t \<and> written 1 t = delivered t"

lemma send_line_step:
  assumes "fd \<noteq> 1"
  shows "triple (relayed fd) (send_line_pass fd buf)
     (\<lambda>t r. case r of
        Ok (Inl buf') \<Rightarrow> relayed fd t
      | Ok (Inr u) \<Rightarrow> relayed fd t \<and> (\<exists>v x. t = v @ [(Call ''fgets'' [I 80, S ''stdin''], x)] \<and> ret x = 0)
      | Fault e \<Rightarrow> True
      | _ \<Rightarrow> False)"
proof (rule tripleI)
  fix env tr t r
  assume "relayed fd tr" "send_line_pass fd buf env tr = (t, r)"
  then show "case r of
        Ok (Inl buf') \<Rightarrow> relayed fd t
      | Ok (Inr u) \<Rightarrow> relayed fd t \<and> (\<exists>v x. t = v @ [(Call ''fgets'' [I 80, S ''stdin''], x)] \<and> ret x = 0)
      | Fault e \<Rightarrow> True
      | _ \<Rightarrow> False"
    using assms unfolding send_line_pass_def relayed_def
    by (elim fgets_intoE)
      (auto elim!: sockE dest!: str_write_cstr simp: bytes_events bytes_other mem_write_front count_def split: if_splits)
qed

lemma send_line_loop:
  assumes "loop k (send_line_pass fd) buf env tr = (t, r)" "relayed fd tr" "fd \<noteq> 1"
  shows "case r of
      Ok u \<Rightarrow> relayed fd t \<and> (\<exists>v x. t = v @ [(Call ''fgets'' [I 80, S ''stdin''], x)] \<and> ret x = 0)
    | Running \<Rightarrow> relayed fd t
    | Fault e \<Rightarrow> True
    | Exit n \<Rightarrow> False"
proof -
  have "triple (relayed fd) (loop k (send_line_pass fd) buf) (\<lambda>t r. case r of
      Ok u \<Rightarrow> relayed fd t \<and> (\<exists>v x. t = v @ [(Call ''fgets'' [I 80, S ''stdin''], x)] \<and> ret x = 0)
    | Running \<Rightarrow> relayed fd t
    | Fault e \<Rightarrow> True
    | Exit n \<Rightarrow> False)"
    by (rule triple_loop, rule triple_conseq [OF send_line_step [OF assms(3)]]) (auto split: res.splits sum.splits)
  from tripleD [OF this assms(2,1)] show ?thesis .
qed

lemma uni_srv_run:
  assumes "uni_srv_main fuel buf env [] = (t, r)"
  shows "(\<forall>v. r \<noteq> Ok v) \<and> (r = Exit 1 \<and> uses ''accept'' t = [] \<or>
    (\<exists>lfd start cs rest. t = start @ concat cs @ rest \<and> map fst start =
        [Call ''socket'' [S ''AF_UNIX'', S ''SOCK_STREAM'', I 0], Call ''unlink'' [S ''server.socket''],
         Call ''bind'' [I lfd, S ''server.socket'', I 15], Call ''printf'' [S (''UNIX domain socket bound'' @ nl)],
         Call ''listen'' [I lfd, I 20], Call ''printf'' [S (''Accepting connections ...'' @ nl)]] \<and>
      lfd = ret (snd (hd start)) \<and> list_all (connection lfd) cs \<and> serving lfd r rest))"
proof -
  have served: "(\<forall>v. q \<noteq> Ok v) \<and> (\<exists>cs rest. t = tr @ concat cs @ rest \<and> list_all (connection lfd) cs \<and> serving lfd q rest)"
    if "bind (loop fuel (conn_pass fuel lfd) buf) k env tr = (t, q)" for lfd tr and k :: "unit \<Rightarrow> int prog" and q
    using that
  proof (rule run_bindE, goal_cases)
    case (1 x u)
    then show ?case using conn_loop [OF 1(1)] by blast
  next
    case (2 r')
    from conn_loop [OF 2(1)] obtain cs rest where "t = tr @ concat cs @ rest" "list_all (connection lfd) cs" "serving lfd r' rest"
      by blast
    with 2 show ?case by (cases r') (auto simp: serving_def split: list.splits)
  qed
  from assms show ?thesis unfolding uni_srv_main_def un_addr_def perror_exit_def
  proof (elim runE, goal_cases)
    case (4 s a b c d e)
    from served [OF 4(4)] obtain cs rest where "\<forall>v. r \<noteq> Ok v" "list_all (connection (ret s)) cs" "serving (ret s) r rest" and
      t: "t = ([(Call ''socket'' [S ''AF_UNIX'', S ''SOCK_STREAM'', I 0], s), (Call ''unlink'' [S ''server.socket''], a),
         (Call ''bind'' [I (ret s), S ''server.socket'', I 15], b), (Call ''printf'' [S (''UNIX domain socket bound'' @ nl)], c),
         (Call ''listen'' [I (ret s), I 20], d), (Call ''printf'' [S (''Accepting connections ...'' @ nl)], e)]) @ concat cs @ rest"
      (is "t = ?start @ _") by auto
    then show ?case by (intro conjI disjI2 exI [of _ "ret s"] exI [of _ ?start] exI [of _ cs] exI [of _ rest]) simp_all
  qed auto
qed

lemma uni_cli_run:
  assumes "uni_cli_main fuel' buf' env' [] = (t', r')"
  shows "r' = Exit 1 \<and> uses ''fgets'' t' = [] \<or>
    (\<exists>s. uses ''socket'' t' = [(Call ''socket'' [S ''AF_UNIX'', S ''SOCK_STREAM'', I 0], s)] \<and> (ret s \<noteq> 1 \<longrightarrow>
      (case r' of
         Ok n \<Rightarrow> n = 0 \<and> relayed (ret s) t' \<and>
           (\<exists>v x y. t' = v @ [(Call ''fgets'' [I 80, S ''stdin''], x), (Call ''close'' [I (ret s)], y)] \<and> ret x = 0)
       | Running \<Rightarrow> relayed (ret s) t'
       | Fault e \<Rightarrow> True
       | Exit n \<Rightarrow> False)))"
proof -
  have sent: "case q of
           Ok n \<Rightarrow> n = 0 \<and> relayed fd t' \<and> (\<exists>v x y. t' = v @ [(Call ''fgets'' [I 80, S ''stdin''], x), (Call ''close'' [I fd], y)] \<and> ret x = 0)
         | Running \<Rightarrow> relayed fd t' | Fault e \<Rightarrow> True | Exit n \<Rightarrow> False"
    if "bind (loop fuel' (send_line_pass fd) buf') (\<lambda>_. bind (do_call ''close'' [I fd]) (\<lambda>_. return 0)) env' tr = (t', q)"
      "relayed fd tr" "fd \<noteq> 1" for fd tr and q :: "int res"
    using that(1)
  proof (rule run_bindE, goal_cases)
    case (1 x u)
    from send_line_loop [OF 1(1) that(2,3)] 1(2) show ?case by (auto elim!: runE simp: relayed_def bytes_other)
  next
    case (2 q')
    from send_line_loop [OF 2(1) that(2,3)] 2(2,3) show ?case by (cases q') auto
  qed
  have av: "avoids ''socket'' (send_line_pass fd b)" for fd b
    unfolding send_line_pass_def read_into_def fgets_into_def by (intro avoids_rules) (simp_all split: option.splits add: avoids_rules)
  have first: "uses ''socket'' t' = uses ''socket'' tr"
    if "bind (loop fuel' (send_line_pass fd) buf') (\<lambda>_. bind (do_call ''close'' [I fd]) (\<lambda>_. return (0 :: int))) env' tr = (t', q)" for fd tr q
    using that by (rule avoidsD [rotated]) (intro avoids_rules av; simp)
  have start: "relayed fd [(Call ''socket'' xs, a), (Call ''unlink'' ys, b), (Call ''bind'' zs, c), (Call ''connect'' ws, d)]"
    for fd xs ys zs ws a b c d by (simp add: relayed_def bytes_other)
  from assms show ?thesis unfolding uni_cli_main_def un_addr_def perror_exit_def
  proof (elim runE, goal_cases)
    case (4 s a b c)
    from first [OF 4(4)] sent [OF 4(4), simplified, OF start] show ?case by (auto simp del: append_Cons)
  qed auto
qed

text \<open>
  C34: the programs of the pair, whole.  The server never returns: either it gives up before it
  has accepted anything, or after its six calls to open the socket its run is a sequence of
  complete connections, each accepted one answered with exactly the bytes it sent, in upper case
  and in order, until a read returns nothing, and then closed before the next is accepted; at
  most the last one is still being served, and it is lost when the bytes read leave no NUL in the
  buffer.  A client that gets as far as its loop has sent exactly what was typed and written to
  its output exactly what came back, at the end of every pass, and it returns, with 0, only at
  the end of its input and after closing the socket.
\<close>

theorem uni_sock_session:
  assumes "uni_srv_main fuel buf env [] = (t, r)" "uni_cli_main fuel' buf' env' [] = (t', r')"
  shows "((\<forall>v. r \<noteq> Ok v) \<and> (r = Exit 1 \<and> uses ''accept'' t = [] \<or>
    (\<exists>lfd start cs rest. t = start @ concat cs @ rest \<and> map fst start =
        [Call ''socket'' [S ''AF_UNIX'', S ''SOCK_STREAM'', I 0], Call ''unlink'' [S ''server.socket''],
         Call ''bind'' [I lfd, S ''server.socket'', I 15], Call ''printf'' [S (''UNIX domain socket bound'' @ nl)],
         Call ''listen'' [I lfd, I 20], Call ''printf'' [S (''Accepting connections ...'' @ nl)]] \<and>
      lfd = ret (snd (hd start)) \<and> list_all (connection lfd) cs \<and> serving lfd r rest))) \<and>
   (r' = Exit 1 \<and> uses ''fgets'' t' = [] \<or>
    (\<exists>s. uses ''socket'' t' = [(Call ''socket'' [S ''AF_UNIX'', S ''SOCK_STREAM'', I 0], s)] \<and> (ret s \<noteq> 1 \<longrightarrow>
      (case r' of
         Ok n \<Rightarrow> n = 0 \<and> relayed (ret s) t' \<and>
           (\<exists>v x y. t' = v @ [(Call ''fgets'' [I 80, S ''stdin''], x), (Call ''close'' [I (ret s)], y)] \<and> ret x = 0)
       | Running \<Rightarrow> relayed (ret s) t'
       | Fault e \<Rightarrow> True
       | Exit n \<Rightarrow> False))))"
  using uni_srv_run [OF assms(1)] uni_cli_run [OF assms(2)] by (rule conjI)

definition srv_env :: env where
  "srv_env tr c = (if fn c = ''socket'' then \<lparr>ret = 3, data = [], errno = 0\<rparr>
     else if fn c = ''accept'' then \<lparr>ret = 4, data = [], errno = 0\<rparr>
     else if fn c = ''read'' \<and> uses ''read'' tr = [] then \<lparr>ret = 2, data = ''hi'', errno = 0\<rparr>
     else \<lparr>ret = 0, data = [], errno = 0\<rparr>)"

definition client_env :: env where
  "client_env tr c = (if fn c = ''socket'' then \<lparr>ret = 5, data = [], errno = 0\<rparr>
     else if fn c = ''fgets'' \<and> uses ''fgets'' tr = [] then \<lparr>ret = 1, data = ''hi'' @ nl, errno = 0\<rparr>
     else if fn c = ''read'' then \<lparr>ret = 3, data = ''HI'' @ nl, errno = 0\<rparr>
     else \<lparr>ret = 0, data = [], errno = 0\<rparr>)"

theorem uni_sock_session_witness:
  "(\<exists>t lfd start cs rest. uni_srv_main 3 (replicate 80 NUL) srv_env [] = (t, Running) \<and> length (uses ''close'' t) = 3 \<and>
     t = start @ concat cs @ rest \<and> list_all (connection lfd) cs \<and> serving lfd (Running :: int res) rest \<and> written 4 t = ''HI'') \<and>
   (\<exists>t s. uni_cli_main 3 (replicate 100 NUL) client_env [] = (t, Ok 0) \<and>
     uses ''socket'' t = [(Call ''socket'' [S ''AF_UNIX'', S ''SOCK_STREAM'', I 0], s)] \<and> relayed (ret s) t \<and> typed 80 t = ''hi'' @ nl)"
proof -
  have c: "case uni_srv_main 3 (replicate 80 NUL) srv_env [] of
      (t, Running) \<Rightarrow> length (uses ''close'' t) = 3 \<and> written 4 t = ''HI'' | _ \<Rightarrow> False" by code_simp
  obtain t r where m: "uni_srv_main 3 (replicate 80 NUL) srv_env [] = (t, r)" by (rule prod.exhaust)
  from c have r: "r = Running" "length (uses ''close'' t) = 3" "written 4 t = ''HI''" unfolding m by (cases r; simp)+
  have c': "case uni_cli_main 3 (replicate 100 NUL) client_env [] of
      (t, Ok v) \<Rightarrow> v = 0 \<and> typed 80 t = ''hi'' @ nl \<and> map (\<lambda>e. ret (snd e)) (uses ''socket'' t) = [5] | _ \<Rightarrow> False" by code_simp
  obtain t' r' where m': "uni_cli_main 3 (replicate 100 NUL) client_env [] = (t', r')" by (rule prod.exhaust)
  from c' have r': "r' = Ok 0" "typed 80 t' = ''hi'' @ nl" "map (\<lambda>e. ret (snd e)) (uses ''socket'' t') = [5]" unfolding m' by (cases r'; simp)+
  note both = uni_sock_session [OF m m']
  from both [THEN conjunct1] r(1) obtain lfd start cs rest where
    "t = start @ concat cs @ rest" "list_all (connection lfd) cs" "serving lfd r rest" by auto
  moreover from both [THEN conjunct2] r'(1,3) obtain s where
    "uses ''socket'' t' = [(Call ''socket'' [S ''AF_UNIX'', S ''SOCK_STREAM'', I 0], s)]" "relayed (ret s) t'" by auto
  ultimately show ?thesis using m m' r r' by blast
qed

section \<open>One client at a time, and one in all\<close>

definition accepted :: "trace \<Rightarrow> int list" where
  "accepted tr = filter (\<lambda>n. 0 \<le> n) (map (\<lambda>(c, r). ret r) (uses ''accept'' tr))"

lemma accepted_simps [simp]:
  "accepted [] = []" "accepted (t @ u) = accepted t @ accepted u"
  "accepted ((Call f xs, r) # t) = (if f = ''accept'' \<and> 0 \<le> ret r then [ret r] else []) @ accepted t"
  by (auto simp: accepted_def)

lemma accepted_avoids: "avoids ''accept'' m \<Longrightarrow> m env tr = (t, r) \<Longrightarrow> accepted t = accepted tr"
  unfolding accepted_def by (drule (1) avoidsD) simp

lemma answer_avoids: "avoids ''accept'' (answer_pass sock u)"
  unfolding answer_pass_def read_into_def fgets_into_def print_buf_def by (intro avoids_rules) simp_all

lemma answer_endless: "answer_pass sock u env tr \<noteq> (t, Ok (Inr a))"
  unfolding answer_pass_def by (rule notI) (elim read_intoE print_bufE fgets_intoE runE; simp)

lemma serve_step:
  assumes "serve_pass fuel sock u env tr = (t, r)"
  shows "length (accepted t) \<le> length (accepted tr) + 1 \<and> r \<noteq> Ok (Inl ()) \<and> (\<forall>v. r = Ok (Inr v) \<longrightarrow> accepted t = accepted tr \<and> v = 3)"
proof -
  have av: "avoids ''accept'' (loop fuel (answer_pass fd) ())" for fd by (intro avoids_rules answer_avoids)
  have lp: "accepted t' = accepted tr' \<and> (\<forall>x. r' \<noteq> Ok x)" if "bind (loop fuel (answer_pass fd) ()) k env tr' = (t', r')"
    for fd tr' t' r' and k :: "unit \<Rightarrow> (unit + int) prog"
    using that
  proof (rule run_bindE, goal_cases)
    case (1 x v)
    then show ?case using loop_endless [of "answer_pass fd", OF answer_endless] by blast
  next
    case (2 q)
    then show ?case using accepted_avoids [OF av 2(1)] by (cases q) auto
  qed
  show ?thesis using assms unfolding serve_pass_def print_errno_def
    by (elim runE) (auto dest!: lp)
qed

text \<open>
  The server of \<^verbatim>\<open>tcp_server.c\<close> serves one client only: it never leaves the conversation with the
  first one, and it returns only when binding, listening or the first accept fails.
\<close>

theorem tcp_server_one_client:
  assumes "tcp_server_main fuel env [] = (t, r)"
  shows "length (accepted t) \<le> 1 \<and> (\<forall>v. r = Ok v \<longrightarrow> accepted t = [] \<and> v \<in> {1, 2, 3})"
proof -
  have lp: "length (accepted t') \<le> length (accepted tr') + 1 \<and> (\<forall>v. r' = Ok v \<longrightarrow> accepted t' = accepted tr' \<and> v = 3)"
    if "loop fuel (serve_pass fuel sock) () env tr' = (t', r')" for sock tr' t' r'
  proof (cases fuel)
    case (Suc n)
    from that [unfolded Suc loop.simps] show ?thesis
    proof (rule run_bindE, goal_cases)
      case (1 x v)
      then show ?case using serve_step [of "Suc n" sock "()" env tr' v "Ok x"] by (cases x) (auto simp: return_eval)
    next
      case (2 q)
      then show ?case using serve_step [of "Suc n" sock "()" env tr' t' q] by (cases q) auto
    qed
  qed (use that in simp)
  show ?thesis using assms unfolding tcp_server_main_def print_errno_def
    by (elim runE) (simp_all, (drule lp, simp)+)
qed

definition one_client_env :: env where
  "one_client_env tr c = \<lparr>ret = (if fn c = ''accept'' then - 1 else 3), data = ''x'', errno = 4\<rparr>"

theorem tcp_server_one_client_witness: "\<exists>t. tcp_server_main 5 one_client_env [] = (t, Ok 3) \<and> accepted t = []"
proof -
  have c: "case tcp_server_main 5 one_client_env [] of (t, r) \<Rightarrow> r = Ok 3" by code_simp
  obtain t r where m: "tcp_server_main 5 one_client_env [] = (t, r)" by (rule prod.exhaust)
  with c tcp_server_one_client [OF m] show ?thesis by auto
qed

end
