(* ===== verification/SqlClients.thy ===== *)
theory SqlClients
  imports C_IO
begin

text \<open>
  The database clients \<^verbatim>\<open>src/cpp/mysql/crud.c\<close> (MySQL) and \<^verbatim>\<open>src/cpp/odbc/kwdb_demo.c\<close> (ODBC).  The
  client libraries are the environment.  A pointer is a number with 0 as NULL; reading a field
  name or a cell of a row is a call whose result 0 is a null string, and it faults on a null
  array.  ODBC handles are the texts the library hands out.
\<close>

section \<open>The client of \<open>crud.c\<close>\<close>

definition get_connection :: "int prog" where
  "get_connection =
     bind (call_text ''mysql_get_client_info'' []) (\<lambda>v.
     bind (print (''mysql client version, '' @ v @ nl)) (\<lambda>_.
     bind (call_ret ''mysql_init'' [I 0]) (\<lambda>my.
     bind (call_ret ''mysql_real_connect''
             [I my, S ''127.0.0.1'', S ''root'', S ''P@$$W0rd123'', S ''test'', I 3306, I 0, I 0]) (\<lambda>c.
     if c = 0 then bind (print (''mysql conenct failed!'' @ nl)) (\<lambda>_. exit_with (- 1))
     else
       bind (call_text ''mysql_get_server_info'' [I my]) (\<lambda>v.
       bind (print (''mysql server version, '' @ v @ nl)) (\<lambda>_. return my))))))"

definition connect_utf8 :: "int prog" where
  "connect_utf8 =
     bind get_connection (\<lambda>my.
     bind (do_call ''mysql_set_character_set'' [I my, S ''utf8'']) (\<lambda>_.
     bind (print (''mysql connected!'' @ nl)) (\<lambda>_. return my)))"

text \<open>\<^verbatim>\<open>printf ("%s\t", array[i])\<close> for an array of strings of the library.\<close>

definition print_cell :: "string \<Rightarrow> int \<Rightarrow> nat \<Rightarrow> unit prog" where
  "print_cell array p i =
     (if p = 0 then fault NullPointer
      else
        bind (invoke array [I p, I (int i)]) (\<lambda>r.
        if ret r = 0 then fault NullPointer else print (data r @ [CHR 0x09])))"

definition print_row :: "int \<Rightarrow> nat \<Rightarrow> unit \<Rightarrow> unit prog" where
  "print_row res cols = (\<lambda>_.
     bind (call_ret ''mysql_fetch_row'' [I res]) (\<lambda>row.
     bind (for_each [0..<cols] (\<lambda>j _. print_cell ''row'' row j) ()) (\<lambda>_. print nl)))"

definition select_sql :: string where
  "select_sql = ''select id, a, b from a limit 5''"

definition select_dt :: "int prog" where
  "select_dt =
     bind connect_utf8 (\<lambda>my.
     bind (call_ret ''mysql_query'' [I my, S select_sql]) (\<lambda>q.
     if q \<noteq> 0 then bind (print (''execute failed, '' @ select_sql @ nl)) (\<lambda>_. return (- 2))
     else
       bind (print (''execute success, '' @ select_sql @ nl)) (\<lambda>_.
       bind (call_ret ''mysql_store_result'' [I my]) (\<lambda>res.
       bind (call_ret ''mysql_num_rows'' [I res]) (\<lambda>rows.
       bind (call_ret ''mysql_num_fields'' [I res]) (\<lambda>cols.
       bind (call_ret ''mysql_fetch_field'' [I res]) (\<lambda>fields.
       bind (for_each [0..<nat cols] (\<lambda>i _. print_cell ''field'' fields i) ()) (\<lambda>_.
       bind (print nl) (\<lambda>_.
       bind (for_each [0..<3] (\<lambda>i. print_row res (nat cols)) ()) (\<lambda>_.
       bind (print (''select data finish'' @ nl)) (\<lambda>_.
       bind (do_call ''mysql_free_result'' [I res]) (\<lambda>_.
       bind (do_call ''mysql_close'' [I my]) (\<lambda>_.
       bind (print (''connection closed'' @ nl)) (\<lambda>_. return 0))))))))))))))"

text \<open>The three functions that change the table differ in their texts.\<close>

definition change_dt :: "string \<Rightarrow> string \<Rightarrow> int prog" where
  "change_dt sql what =
     bind connect_utf8 (\<lambda>my.
     bind (call_ret ''mysql_query'' [I my, S sql]) (\<lambda>result.
     if result \<noteq> 0 then bind (print (''execute failed, '' @ sql @ nl)) (\<lambda>_. return 2)
     else
       bind (print (''execute success, '' @ sql @ '', '' @ show_int result @ nl)) (\<lambda>_.
       bind (print (what @ '' data finish'' @ nl)) (\<lambda>_.
       bind (do_call ''mysql_close'' [I my]) (\<lambda>_.
       bind (print (''connection closed'' @ nl)) (\<lambda>_. return 0))))))"

definition insert_dt :: "int prog" where
  "insert_dt = change_dt (''insert into test.a(a,b) values ('' @ [CHR 0x27] @ ''testa'' @ [CHR 0x27] @ '', '' @ [CHR 0x27] @ ''testb'' @ [CHR 0x27] @ '')'') ''insert''"

definition update_dt :: "int prog" where
  "update_dt = change_dt (''update test.a set a='' @ [CHR 0x27] @ ''testa1'' @ [CHR 0x27] @ '' where a='' @ [CHR 0x27] @ ''testa'' @ [CHR 0x27] @ '' limit 1;'') ''update''"

definition delete_dt :: "int prog" where
  "delete_dt = change_dt (''delete from test.a where a='' @ [CHR 0x27] @ ''testa1'' @ [CHR 0x27] @ '' limit 1;'') ''delete''"

definition crud_main :: "int prog" where
  "crud_main = bind select_dt (\<lambda>_. return 0)"

section \<open>The client of \<open>kwdb_demo.c\<close>\<close>

abbreviation (input) SQL_SUCCESS :: int where "SQL_SUCCESS \<equiv> 0"
abbreviation (input) SQL_NO_DATA :: int where "SQL_NO_DATA \<equiv> 100"

definition alloc_handle :: "string \<Rightarrow> string \<Rightarrow> string prog" where
  "alloc_handle kind parent = call_text ''SQLAllocHandle'' [S kind, S parent]"

definition free_handle :: "string \<Rightarrow> string \<Rightarrow> unit prog" where
  "free_handle kind h = do_call ''SQLFreeHandle'' [S kind, S h]"

text \<open>A statement with a handle of its own: \<open>None\<close> when it fails and the program returns.\<close>

definition exec_direct :: "string \<Rightarrow> string \<Rightarrow> string option prog" where
  "exec_direct dbc sql =
     bind (alloc_handle ''SQL_HANDLE_STMT'' dbc) (\<lambda>h.
     bind (call_ret ''SQLExecDirect'' [S h, S sql]) (\<lambda>r.
     if r \<noteq> SQL_SUCCESS then bind (print (''execute failed, '' @ sql @ nl)) (\<lambda>_. return None)
     else bind (print (''execute success, '' @ sql @ nl)) (\<lambda>_. return (Some h))))"

text \<open>A pass of the fetch loop: the row number goes on, or the code that ended the loop.\<close>

definition fetch_pass :: "string \<Rightarrow> nat \<Rightarrow> (nat + int) prog" where
  "fetch_pass h row =
     bind (invoke ''SQLFetch'' [S h]) (\<lambda>r.
     if ret r = SQL_SUCCESS then
       bind (print (''row '' @ show_nat row @ '', column a: '' @ cstr (take 31 (data r)) @ nl)) (\<lambda>_. return (Inl (row + 1)))
     else return (Inr (ret r)))"

definition insert_b :: string where
  "insert_b = ''INSERT INTO b VALUES ('' @ [CHR 0x27, CHR 0xE4, CHR 0xB8, CHR 0xAD, CHR 0xE6, CHR 0x96, CHR 0x87,
     CHR 0xE8, CHR 0xAF, CHR 0xBB, CHR 0xE5, CHR 0x8F, CHR 0x96, CHR 0x27] @ ''); ''"

definition kwdb_main :: "nat \<Rightarrow> int prog" where
  "kwdb_main fuel =
     bind (alloc_handle ''SQL_HANDLE_ENV'' ''SQL_NULL_HANDLE'') (\<lambda>hEnv.
     bind (do_call ''SQLSetEnvAttr'' [S hEnv, S ''SQL_ATTR_ODBC_VERSION'', S ''SQL_OV_ODBC3'']) (\<lambda>_.
     bind (alloc_handle ''SQL_HANDLE_DBC'' hEnv) (\<lambda>hDbc.
     bind (call_ret ''SQLConnect'' [S hDbc, S ''kwdb'', S ''test'', S ''123)'']) (\<lambda>r.
     if r \<noteq> SQL_SUCCESS then
       bind (print (''Failed to connect the database, error code '' @ show_int r @ nl @ nl)) (\<lambda>_. return (- 1))
     else
       bind (print (''Connected to the database'' @ nl @ nl)) (\<lambda>_.
       bind (exec_direct hDbc ''CREATE TABLE if not exists b(a varchar); '') (\<lambda>h3.
       if h3 = None then return (- 1)
       else
         bind (exec_direct hDbc insert_b) (\<lambda>h4.
         case h4 of
           None \<Rightarrow> return (- 1)
         | Some hStmt4 \<Rightarrow>
             bind (exec_direct hDbc ''select * from b;'') (\<lambda>h9.
             case h9 of
               None \<Rightarrow> return (- 1)
             | Some hStmt9 \<Rightarrow>
                 bind (do_call ''SQLBindCol'' [S hStmt9, I 1, I 32]) (\<lambda>_.
                 bind (loop fuel (fetch_pass hStmt9) 0) (\<lambda>r.
                 bind (print (if r = SQL_NO_DATA then ''No more data'' @ nl else ''Failed to fetch data'' @ nl)) (\<lambda>_.
                 bind (free_handle ''SQL_HANDLE_STMT'' hStmt4) (\<lambda>_.
                 bind (free_handle ''SQL_HANDLE_STMT'' hStmt9) (\<lambda>_.
                 bind (do_call ''SQLDisconnect'' [S hDbc]) (\<lambda>_.
                 bind (free_handle ''SQL_HANDLE_DBC'' hDbc) (\<lambda>_.
                 bind (free_handle ''SQL_HANDLE_ENV'' hEnv) (\<lambda>_. return 0))))))))))))))))"

section \<open>Connections and rows\<close>

definition rets :: "string \<Rightarrow> trace \<Rightarrow> int list" where
  "rets f tr = map (\<lambda>(c, r). ret r) (uses f tr)"

definition handles :: "string \<Rightarrow> trace \<Rightarrow> int list" where
  "handles f tr = concat (map (\<lambda>(c, r). case args c of [I h] \<Rightarrow> [h] | _ \<Rightarrow> []) (uses f tr))"

lemma rets_simps [simp]:
  "rets f [] = []" "rets f (t @ u) = rets f t @ rets f u"
  "rets f ((Call g xs, r) # t) = (if g = f then [ret r] else []) @ rets f t"
  "handles f [] = []" "handles f (t @ u) = handles f t @ handles f u"
  "handles f ((Call g xs, r) # t) = (if g = f then (case xs of [I h] \<Rightarrow> [h] | _ \<Rightarrow> []) else []) @ handles f t"
  by (auto simp: rets_def handles_def)

text \<open>The part of a trace the theorems speak of: connections opened and closed, rows and field counts.\<close>

definition session :: "trace \<Rightarrow> int list \<times> int list \<times> int list \<times> int list" where
  "session tr = (rets ''mysql_init'' tr, handles ''mysql_close'' tr, rets ''mysql_fetch_row'' tr, rets ''mysql_num_fields'' tr)"

lemma session_avoids:
  assumes "avoids ''mysql_init'' m" "avoids ''mysql_close'' m" "avoids ''mysql_fetch_row'' m" "avoids ''mysql_num_fields'' m"
    "m env tr = (t, r)"
  shows "session t = session tr"
  unfolding session_def rets_def handles_def using assms(1-4) [THEN avoidsD, OF assms(5)] by simp

lemma connect_utf8E:
  assumes "bind connect_utf8 k env tr = (t, r)" "session tr = (os, c, f, n)"
  obtains my u where "k my env u = (t, r)" "session u = (os @ [my], c, f, n)"
  | my where "r = Exit (- 1)" "session t = (os @ [my], c, f, n)"
  using assms unfolding connect_utf8_def get_connection_def
  by (elim runE) (auto intro: that simp: exit_eval session_def)

lemma print_cells:
  assumes "for_each [0..<n] (\<lambda>j _. print_cell a p j) () env tr = (t, r)" "a = ''field'' \<or> a = ''row''"
  shows "session t = session tr \<and> (\<forall>v. r = Ok v \<longrightarrow> n = 0 \<or> p \<noteq> 0)"
proof
  have av: "avoids f (for_each [0..<n] (\<lambda>j _. print_cell a p j) ())" if "f \<noteq> a" "f \<noteq> ''printf''" for f
    unfolding print_cell_def using that by (intro avoids_rules) auto
  show "session t = session tr" by (rule session_avoids [OF av av av av assms(1)]) (use assms(2) in auto)
  show "\<forall>v. r = Ok v \<longrightarrow> n = 0 \<or> p \<noteq> 0"
  proof (cases n)
    case (Suc m)
    then have "bind (print_cell a p 0) (for_each (map Suc [0..<m]) (\<lambda>j _. print_cell a p j)) env tr = (t, r)"
      using assms(1) by (simp add: upt_conv_Cons map_Suc_upt del: upt_Suc)
    then show ?thesis by (cases "p = 0") (auto simp: print_cell_def io_eval)
  qed simp
qed

lemma print_row_run:
  assumes "print_row res m u env tr = (t, Ok v)" "session tr = (os, c, f, n)"
  shows "\<exists>row. session t = (os, c, f @ [row], n) \<and> (m = 0 \<or> row \<noteq> 0)"
  using assms(1) unfolding print_row_def
proof (elim run_call_retE bind_OkE, goal_cases)
  case (1 x w y)
  then show ?case using print_cells [OF 1(1)] assms(2) by (auto elim!: runE simp: session_def)
qed

lemma print_rows:
  assumes "for_each xs (\<lambda>i. print_row res m) u env tr = (t, Ok v)" "session tr = (os, c, f, n)"
  shows "\<exists>rows. session t = (os, c, f @ rows, n) \<and> length rows = length xs \<and> (m = 0 \<or> 0 \<notin> set rows)"
  using assms
proof (induction xs arbitrary: u tr f)
  case (Cons x xs)
  from Cons.prems(1) obtain w y where p: "print_row res m u env tr = (w, Ok y)"
    and rest: "for_each xs (\<lambda>i. print_row res m) y env w = (t, Ok v)" unfolding for_each.simps by (elim bind_OkE)
  from print_row_run [OF p Cons.prems(2)] obtain row where row: "session w = (os, c, f @ [row], n)" "m = 0 \<or> row \<noteq> 0" by blast
  from Cons.IH [OF rest row(1)] obtain rows where "session t = (os, c, (f @ [row]) @ rows, n)" "length rows = length xs" "m = 0 \<or> 0 \<notin> set rows"
    by blast
  with row(2) show ?case by (intro exI [of _ "row # rows"]) auto
qed (auto simp: return_eval)

lemma change_session:
  assumes "change_dt sql what env [] = (t, r)"
  shows "\<exists>my. r = Ok 0 \<and> session t = ([my], [my], [], []) \<or> (r = Ok 2 \<or> r = Exit (- 1)) \<and> session t = ([my], [], [], [])"
proof -
  have e: "session [] = ([], [], [], [])" by (simp add: session_def)
  show ?thesis using assms unfolding change_dt_def by (elim connect_utf8E [OF _ e] runE) (auto simp: session_def)
qed

lemma cellsE:
  assumes "bind (for_each [0..<n] (\<lambda>j _. print_cell a p j) ()) k env tr = (t, Ok y)" "a = ''field'' \<or> a = ''row''"
  obtains u where "k () env u = (t, Ok y)" "session u = session tr"
  using assms by (elim bind_OkE) (auto dest!: print_cells)

lemma rowsE:
  assumes "bind (for_each xs (\<lambda>i. print_row res m) ()) k env tr = (t, Ok y)" "session tr = (os, c, f, n)"
  obtains u rows where "k () env u = (t, Ok y)" "session u = (os, c, f @ rows, n)" "length rows = length xs" "m = 0 \<or> 0 \<notin> set rows"
  using assms by (elim bind_OkE) (auto dest!: print_rows)

lemma select_session:
  assumes "select_dt env [] = (t, Ok 0)"
  shows "\<exists>my rows cols. session t = ([my], [my], rows, [cols]) \<and> length rows = 3 \<and> (0 < cols \<longrightarrow> 0 \<notin> set rows)"
proof -
  have e: "session [] = ([], [], [], [])" by (simp add: session_def)
  show ?thesis using assms unfolding select_dt_def
  proof (elim connect_utf8E [OF _ e] run_call_retE run_printE run_ifE cellsE run_returnE, goal_cases)
    case (3 my u x xa xb xc xd xe ua xf)
    then have "session (ua @ [(Call ''printf'' [S nl], xf)]) = ([my], [], [], [ret xd])" by (simp add: session_def)
    with 3(4) show ?case by (elim rowsE runE) (auto simp: session_def)
  qed simp_all
qed


definition db_env :: env where
  "db_env tr c = \<lparr>ret = (if fn c = ''mysql_query'' then 0 else 1), data = ''x'', errno = 0\<rparr>"


section \<open>Handles\<close>

definition allocated :: "trace \<Rightarrow> string list" where
  "allocated tr = map (\<lambda>(c, r). data r) (uses ''SQLAllocHandle'' tr)"

definition freed :: "trace \<Rightarrow> string list" where
  "freed tr = concat (map (\<lambda>(c, r). case args c of [S k, S h] \<Rightarrow> [h] | _ \<Rightarrow> []) (uses ''SQLFreeHandle'' tr))"

lemma handle_simps [simp]:
  "allocated [] = []" "allocated (t @ u) = allocated t @ allocated u"
  "allocated ((Call f xs, r) # t) = (if f = ''SQLAllocHandle'' then [data r] else []) @ allocated t"
  "freed [] = []" "freed (t @ u) = freed t @ freed u"
  "freed ((Call f xs, r) # t) = (if f = ''SQLFreeHandle'' then (case xs of [S k, S h] \<Rightarrow> [h] | _ \<Rightarrow> []) else []) @ freed t"
  by (auto simp: allocated_def freed_def)

lemma exec_directE:
  assumes "bind (exec_direct dbc sql) k env tr = (t, r)"
  obtains u h where "k (Some h) env u = (t, r)" "allocated u = allocated tr @ [h]" "freed u = freed tr"
  | u h where "k None env u = (t, r)" "allocated u = allocated tr @ [h]" "freed u = freed tr"
  using assms unfolding exec_direct_def alloc_handle_def
  by (elim runE) (auto intro: that)

lemma exec_caseE:
  assumes "bind (exec_direct dbc sql) (\<lambda>h. case h of None \<Rightarrow> n | Some h \<Rightarrow> k h) env tr = (t, r)"
  obtains u h where "k h env u = (t, r)" "allocated u = allocated tr @ [h]" "freed u = freed tr"
  | u h where "n env u = (t, r)" "allocated u = allocated tr @ [h]" "freed u = freed tr"
  using assms by (elim exec_directE) (auto intro: that)

lemma fetch_loopE:
  assumes "bind (loop n (fetch_pass h) s) k env tr = (t, Ok y)"
  obtains u v where "k v env u = (t, Ok y)" "allocated u = allocated tr" "freed u = freed tr"
proof -
  have av: "avoids f (loop n (fetch_pass h) s)" if "f \<noteq> ''SQLFetch''" "f \<noteq> ''printf''" for f
    unfolding fetch_pass_def using that by (intro avoids_rules) auto
  from assms obtain u v where u: "loop n (fetch_pass h) s env tr = (u, Ok v)" "k v env u = (t, Ok y)" by (rule bind_OkE)
  have "allocated u = allocated tr" "freed u = freed tr"
    unfolding allocated_def freed_def using avoidsD [OF av u(1)] by simp_all
  with u(2) show ?thesis by (rule that)
qed

text \<open>
  When the ODBC client returns 0 it has allocated an environment, a connection and three
  statements, and freed all of them but the statement of \<^verbatim>\<open>CREATE TABLE\<close>; when it returns -1 it has freed none.
\<close>

theorem kwdb_handles:
  assumes "kwdb_main fuel env [] = (t, Ok v)"
  shows "(v = 0 \<and> (\<exists>e d h3 h4 h9. allocated t = [e, d, h3, h4, h9] \<and> freed t = [h4, h9, d, e])) \<or>
    (v = - 1 \<and> 2 \<le> length (allocated t) \<and> freed t = [])"
  using assms unfolding kwdb_main_def alloc_handle_def free_handle_def
  by (elim run_call_textE run_do_callE run_call_retE run_printE run_ifE exec_caseE exec_directE fetch_loopE run_returnE) auto

definition odbc_env :: env where
  "odbc_env tr c = \<lparr>ret = (if fn c = ''SQLFetch'' then 100 else 0), data = show_nat (length tr), errno = 0\<rparr>"

theorem kwdb_handles_witness:
  "\<exists>t e d h3 h4 h9. kwdb_main 3 odbc_env [] = (t, Ok 0) \<and> allocated t = [e, d, h3, h4, h9] \<and> freed t = [h4, h9, d, e]"
proof -
  have c: "case kwdb_main 3 odbc_env [] of (t, r) \<Rightarrow> r = Ok 0" by code_simp
  obtain t r where m: "kwdb_main 3 odbc_env [] = (t, r)" by (rule prod.exhaust)
  with c have r: "r = Ok 0" by simp
  from kwdb_handles [OF m [unfolded r]] m r show ?thesis by auto
qed

end
