(* ===== verification/Mqtt.thy ===== *)
theory Mqtt
  imports C_IO
begin

text \<open>
  The MQTT clients \<^verbatim>\<open>src/cpp/mqtt/publish.c\<close> and \<^verbatim>\<open>subscribe.c\<close>, over an arbitrary Paho library.  The
  callbacks of the subscriber run while \<^verbatim>\<open>main\<close> waits for a character: before each \<^verbatim>\<open>getchar\<close> the
  library may deliver one event, which is the reply to the call \<open>MQTT_event\<close>.
\<close>

section \<open>The publisher\<close>

definition publish_main :: "int prog" where
  "publish_main =
     bind (call_ret ''MQTTClient_create'' [S ''tcp://localhost:1883'', S ''ExampleClientPub'']) (\<lambda>_.
     bind (call_ret ''MQTTClient_connect'' [I 20, I 1, S ''test'', S ''test'']) (\<lambda>rc.
     if rc \<noteq> 0 then
       bind (print (''failed to connect, return code '' @ show_int rc @ nl)) (\<lambda>_. exit_with 1)
     else
       bind (call_ret ''MQTTClient_publishMessage'' [S ''MQTT Examples'', S ''Hello World!'', I 1, I 0]) (\<lambda>token.
       bind (print (''waiting for up to ['' @ show_nat 10 @ '']s for message publication of ['' @ ''Hello World!'' @
               ''] on topic ['' @ ''MQTT Examples'' @ ''] for client with ClientID ['' @ ''ExampleClientPub'' @ '']'' @ nl)) (\<lambda>_.
       bind (call_ret ''MQTTClient_waitForCompletion'' [I token, I 10000]) (\<lambda>rc.
       bind (print (''message with delivery token '' @ show_int token @ '' delivered'' @ nl)) (\<lambda>_.
       bind (do_call ''MQTTClient_disconnect'' [I 10000]) (\<lambda>_.
       bind (do_call ''MQTTClient_destroy'' []) (\<lambda>_. return rc))))))))"

section \<open>The subscriber\<close>

definition delivered :: "int \<Rightarrow> int prog" where
  "delivered dt = bind (print (''message with token value '' @ show_int dt @ '' delivery confirmed'' @ nl)) (\<lambda>_. return dt)"

definition msgarrvd :: "string \<Rightarrow> string \<Rightarrow> int prog" where
  "msgarrvd topicName payload =
     bind (print (''message arrived'' @ nl)) (\<lambda>_.
     bind (print (''     topic: '' @ topicName @ nl)) (\<lambda>_.
     bind (print ''   message: '') (\<lambda>_.
     bind (for_each payload (\<lambda>c _. do_call ''putchar'' [S [c]]) ()) (\<lambda>_.
     bind (do_call ''putchar'' [S nl]) (\<lambda>_.
     bind (do_call ''MQTTClient_freeMessage'' [S payload]) (\<lambda>_.
     bind (do_call ''MQTTClient_free'' [S topicName]) (\<lambda>_. return 1)))))))"

definition connlost :: "string \<Rightarrow> unit prog" where
  "connlost cause =
     bind (print (nl @ ''Connection lost'' @ nl)) (\<lambda>_. print (''     cause: '' @ cause @ nl))"

text \<open>
  What the library may call while \<^verbatim>\<open>main\<close> waits; the state is \<^verbatim>\<open>deliveredtoken\<close>.  An arrived
  message is the text of the reply; its topic is asked for.
\<close>

definition on_event :: "int \<Rightarrow> int prog" where
  "on_event token =
     bind (invoke ''MQTT_event'' []) (\<lambda>e.
     if ret e = 1 then delivered (errno e)
     else if ret e = 2 then
       bind (call_text ''MQTT_topic'' []) (\<lambda>topic. bind (msgarrvd topic (data e)) (\<lambda>_. return token))
     else if ret e = 3 then bind (connlost (data e)) (\<lambda>_. return token)
     else return token)"

definition wait_pass :: "int \<Rightarrow> (int + int) prog" where
  "wait_pass token =
     bind (on_event token) (\<lambda>token.
     bind (call_ret ''getchar'' []) (\<lambda>ch.
       return (if ch \<noteq> 81 \<and> ch \<noteq> 113 then Inl token else Inr token)))"

definition subscribe_main :: "nat \<Rightarrow> int prog" where
  "subscribe_main fuel =
     bind (call_ret ''MQTTClient_create'' [S ''tcp://localhost:1883'', S ''ExampleClientSub'']) (\<lambda>_.
     bind (do_call ''MQTTClient_setCallbacks'' [S ''connlost'', S ''msgarrvd'', S ''delivered'']) (\<lambda>_.
     bind (call_ret ''MQTTClient_connect'' [I 20, I 1, S ''test'', S ''test'']) (\<lambda>rc.
     if rc \<noteq> 0 then
       bind (print (''Failed to connect, return code '' @ show_int rc @ nl)) (\<lambda>_. exit_with 1)
     else
       bind (print (''Subscribing to topic '' @ ''MQTT Examples'' @ nl @ ''for client '' @ ''ExampleClientSub'' @
               '' using QoS'' @ show_nat 1 @ nl @ nl @ ''Press Q<Enter> to quit'' @ nl @ nl)) (\<lambda>_.
       bind (do_call ''MQTTClient_subscribe'' [S ''MQTT Examples'', I 1]) (\<lambda>_.
       bind (loop fuel wait_pass 0) (\<lambda>_.
       bind (do_call ''MQTTClient_disconnect'' [I 10000]) (\<lambda>_.
       bind (do_call ''MQTTClient_destroy'' []) (\<lambda>_. return rc))))))))"

section \<open>Messages\<close>

definition arrived :: "trace \<Rightarrow> string list" where
  "arrived tr = concat (map (\<lambda>(c, r). if ret r = 2 then [data r] else []) (uses ''MQTT_event'' tr))"

definition texts :: "string \<Rightarrow> trace \<Rightarrow> string list" where
  "texts f tr = concat (map (\<lambda>(c, r). case args c of [S m] \<Rightarrow> [m] | _ \<Rightarrow> []) (uses f tr))"

lemma message_simps [simp]:
  "arrived [] = []" "arrived (t @ u) = arrived t @ arrived u"
  "arrived ((Call f xs, r) # t) = (if f = ''MQTT_event'' \<and> ret r = 2 then [data r] else []) @ arrived t"
  "texts g [] = []" "texts g (t @ u) = texts g t @ texts g u"
  "texts g ((Call f xs, r) # t) = (if f = g then (case xs of [S m] \<Rightarrow> [m] | _ \<Rightarrow> []) else []) @ texts g t"
  by (auto simp: arrived_def texts_def)

lemma putchars:
  assumes "for_each p (\<lambda>c _. do_call ''putchar'' [S [c]]) () env tr = (t, r)"
  shows "r = Ok () \<and> arrived t = arrived tr \<and> concat (texts ''putchar'' t) = concat (texts ''putchar'' tr) @ p \<and>
    (\<forall>f. f \<noteq> ''putchar'' \<longrightarrow> texts f t = texts f tr)"
  using assms
proof (induction p arbitrary: tr)
  case (Cons c p)
  from Cons.prems obtain x where "for_each p (\<lambda>c _. do_call ''putchar'' [S [c]]) () env (tr @ [(Call ''putchar'' [S [c]], x)]) = (t, r)"
    unfolding for_each.simps by (elim run_do_callE)
  from Cons.IH [OF this] show ?case by simp
qed (auto simp: return_eval)

text \<open>Every message that arrives is printed whole and released.\<close>

definition handled :: "trace \<Rightarrow> bool" where
  "handled tr \<longleftrightarrow> texts ''MQTTClient_freeMessage'' tr = arrived tr \<and>
     concat (texts ''putchar'' tr) = concat (map (\<lambda>m. m @ nl) (arrived tr))"

lemma putcharsE:
  assumes "bind (for_each p (\<lambda>c _. do_call ''putchar'' [S [c]]) ()) k env tr = (t, r)"
  obtains u where "k () env u = (t, r)" "arrived u = arrived tr" "concat (texts ''putchar'' u) = concat (texts ''putchar'' tr) @ p"
    "texts ''MQTTClient_freeMessage'' u = texts ''MQTTClient_freeMessage'' tr"
proof -
  obtain u q where u: "for_each p (\<lambda>c _. do_call ''putchar'' [S [c]]) () env tr = (u, q)" by fastforce
  with putchars [OF u] assms show ?thesis by (intro that [of u]) (auto simp: bind_Ok)
qed

lemma wait_step:
  assumes "wait_pass token env tr = (t, r)" "handled tr"
  shows "handled t \<and> (\<exists>y. r = Ok y)"
  using assms unfolding wait_pass_def on_event_def delivered_def msgarrvd_def connlost_def
  by (elim putcharsE runE) (auto elim!: putcharsE runE simp: handled_def)

lemma wait_loop_handled:
  assumes "loop n wait_pass token env tr = (t, r)" "handled tr"
  shows "handled t"
  using assms
proof (induction n arbitrary: token tr)
  case (Suc n)
  obtain u y where u: "wait_pass token env tr = (u, Ok y)" "handled u"
    using wait_step [OF _ Suc.prems(2), of token env] by (metis surj_pair)
  with Suc.prems(1) have "(case y of Inl s \<Rightarrow> loop n wait_pass s | Inr a \<Rightarrow> return a) env u = (t, r)" by (simp add: bind_Ok)
  with Suc.IH u(2) show ?case by (cases y) (auto simp: return_eval)
qed simp


definition broker_env :: env where
  "broker_env tr c = \<lparr>ret = (if fn c = ''MQTT_event'' then 2 else if fn c = ''getchar'' then 113 else 0), data = ''hi'', errno = 0\<rparr>"


end
