(* ===== verification/Calendar.thy ===== *)
theory Calendar
  imports C_IO
begin

text \<open>
  The calendar window of \<^verbatim>\<open>src/cpp/gtk/gtk_calendar.c\<close>: its callbacks and its construction.  GTK is the
  environment; a widget is the number it hands out, with 0 as NULL.  What the theorems rely on
  is stated of the environment: a label shows the text set last, a day is marked when it was
  marked last, and \<^verbatim>\<open>g_date_strftime\<close> keeps to its size.  The three results of
  \<^verbatim>\<open>gtk_calendar_get_date\<close> are asked for one by one.
\<close>

section \<open>The callbacks\<close>

record CalendarData =
  flag_checkboxes :: "int list"
  settings :: "bool list"
  font_dialog :: int
  window :: int
  prev2_sig :: int
  prev_sig :: int
  last_sig :: int

definition get_date :: "int \<Rightarrow> string \<Rightarrow> int prog" where
  "get_date w part = call_ret ''gtk_calendar_get_date'' [I w, S part]"

text \<open>The buffer with the date written at \<open>off\<close>, where \<open>len\<close> bytes are left.\<close>

definition calendar_date_to_string :: "CalendarData \<Rightarrow> string \<Rightarrow> nat \<Rightarrow> nat \<Rightarrow> string prog" where
  "calendar_date_to_string cd buffer off len =
     bind (get_date (window cd) ''year'') (\<lambda>year.
     bind (get_date (window cd) ''month'') (\<lambda>month.
     bind (get_date (window cd) ''day'') (\<lambda>day.
     bind (call_text ''g_date_strftime'' [I (int len - 1), S ''%x'', I day, I (month + 1), I year]) (\<lambda>s.
       lift (mem_write buffer off (s @ [NUL]))))))"

definition calendar_set_signal_strings :: "string \<Rightarrow> CalendarData \<Rightarrow> unit prog" where
  "calendar_set_signal_strings sig cd =
     bind (call_text ''gtk_label_get_text'' [I (prev_sig cd)]) (\<lambda>s.
     bind (do_call ''gtk_label_set_text'' [I (prev2_sig cd), S s]) (\<lambda>_.
     bind (call_text ''gtk_label_get_text'' [I (last_sig cd)]) (\<lambda>s.
     bind (do_call ''gtk_label_set_text'' [I (prev_sig cd), S s]) (\<lambda>_.
       do_call ''gtk_label_set_text'' [I (last_sig cd), S (cstr sig)]))))"

text \<open>\<^verbatim>\<open>char buffer[256] = name\<close>, the date behind it, and the labels.\<close>

definition note_signal :: "string \<Rightarrow> nat \<Rightarrow> CalendarData \<Rightarrow> unit prog" where
  "note_signal name off cd =
     bind (calendar_date_to_string cd (name @ replicate (256 - length name) NUL) off (256 - off)) (\<lambda>buffer.
       calendar_set_signal_strings buffer cd)"

definition calendar_month_changed :: "CalendarData \<Rightarrow> unit prog" where
  "calendar_month_changed = note_signal ''month_changed: '' 15"

definition calendar_day_selected :: "CalendarData \<Rightarrow> unit prog" where
  "calendar_day_selected = note_signal ''day_selected: '' 14"

text \<open>\<^verbatim>\<open>marked_date\<close> has 31 cells; day 0, when no day is selected, is before them.\<close>

definition calendar_day_selected_double_click :: "CalendarData \<Rightarrow> unit prog" where
  "calendar_day_selected_double_click cd =
     bind (note_signal ''day_selected_double_click: '' 27 cd) (\<lambda>_.
     bind (get_date (window cd) ''day'') (\<lambda>day.
     bind (lift (c_require (1 \<le> day \<and> day \<le> 31) OutOfBounds)) (\<lambda>_.
     bind (call_ret ''marked_date'' [I (window cd), I (day - 1)]) (\<lambda>m.
       do_call (if m = 0 then ''gtk_calendar_mark_day'' else ''gtk_calendar_unmark_day'') [I (window cd), I day]))))"

definition calendar_prev_month :: "CalendarData \<Rightarrow> unit prog" where
  "calendar_prev_month = note_signal ''prev_month: '' 12"

definition calendar_next_month :: "CalendarData \<Rightarrow> unit prog" where
  "calendar_next_month = note_signal ''next_month: '' 12"

definition calendar_prev_year :: "CalendarData \<Rightarrow> unit prog" where
  "calendar_prev_year = note_signal ''prev_year: '' 11"

definition calendar_next_year :: "CalendarData \<Rightarrow> unit prog" where
  "calendar_next_year = note_signal ''next_year: '' 11"

definition calendar_options :: "bool list \<Rightarrow> int c_result" where
  "calendar_options st =
     for_loop 0 5 (\<lambda>i options. c_bind (load st i) (\<lambda>s. if s then c_int (options + 2 ^ i) else Inr options)) 0"

definition calendar_set_flags :: "CalendarData \<Rightarrow> unit prog" where
  "calendar_set_flags cd =
     bind (lift (calendar_options (settings cd))) (\<lambda>options.
     if window cd \<noteq> 0 then do_call ''gtk_calendar_display_options'' [I (window cd), I options] else return ())"

definition calendar_toggle_flag :: "int \<Rightarrow> CalendarData \<Rightarrow> CalendarData prog" where
  "calendar_toggle_flag toggle cd =
     bind (lift (for_loop 0 5 (\<lambda>i j. c_bind (load (flag_checkboxes cd) i) (\<lambda>b. Inr (if b = toggle then i else j))) 0)) (\<lambda>j.
     bind (lift (load (settings cd) j)) (\<lambda>s.
     bind (lift (store (settings cd) j (\<not> s))) (\<lambda>st.
     let cd = cd\<lparr>settings := st\<rparr> in
     bind (calendar_set_flags cd) (\<lambda>_. return cd))))"

text \<open>Destroying the dialog calls \<^verbatim>\<open>gtk_widget_destroyed\<close>, which clears \<^verbatim>\<open>font_dialog\<close>.\<close>

definition destroy_dialog :: "CalendarData \<Rightarrow> CalendarData prog" where
  "destroy_dialog cd =
     bind (do_call ''gtk_widget_destroy'' [I (font_dialog cd)]) (\<lambda>_. return (cd\<lparr>font_dialog := 0\<rparr>))"

definition calendar_font_selection_ok :: "CalendarData \<Rightarrow> CalendarData prog" where
  "calendar_font_selection_ok cd =
     bind (if window cd \<noteq> 0 then
             bind (invoke ''gtk_font_selection_dialog_get_font_name'' [I (font_dialog cd)]) (\<lambda>f.
             if ret f \<noteq> 0 then
               bind (call_ret ''gtk_rc_style_new'' []) (\<lambda>style.
               bind (do_call ''pango_font_description_free'' [I style]) (\<lambda>_.
               bind (call_ret ''pango_font_description_from_string'' [S (data f)]) (\<lambda>desc.
               bind (do_call ''gtk_widget_modify_style'' [I (window cd), I style, I desc]) (\<lambda>_.
                 do_call ''g_free'' [I (ret f)]))))
             else return ())
           else return ()) (\<lambda>_.
       destroy_dialog cd)"

definition calendar_select_font :: "CalendarData \<Rightarrow> CalendarData prog" where
  "calendar_select_font cd =
     bind (if font_dialog cd = 0 then
             bind (call_ret ''gtk_font_selection_dialog_new'' [S ''Font Selection Dialog'']) (\<lambda>w.
             if w = 0 then return None
             else
               bind (do_call ''gtk_window_set_position'' [I w, S ''GTK_WIN_POS_MOUSE'']) (\<lambda>_.
               bind (do_call ''g_signal_connect'' [I w, S ''destroy'', S ''gtk_widget_destroyed'']) (\<lambda>_.
               bind (do_call ''g_signal_connect'' [I w, S ''ok_button'', S ''clicked'', S ''calendar_font_selection_ok'']) (\<lambda>_.
               bind (do_call ''g_signal_connect_swapped'' [I w, S ''cancel_button'', S ''clicked'', S ''gtk_widget_destroy'']) (\<lambda>_.
                 return (Some (cd\<lparr>font_dialog := w\<rparr>)))))))
           else return (Some cd)) (\<lambda>d.
     case d of
       None \<Rightarrow> return cd
     | Some cd \<Rightarrow>
         bind (call_ret ''GTK_WIDGET_VISIBLE'' [I (font_dialog cd)]) (\<lambda>v.
         if v = 0 then bind (do_call ''gtk_widget_show'' [I (font_dialog cd)]) (\<lambda>_. return cd)
         else destroy_dialog cd))"

section \<open>The window\<close>

definition pack :: "int \<Rightarrow> int \<Rightarrow> int \<Rightarrow> int \<Rightarrow> int \<Rightarrow> unit prog" where
  "pack box w expand filled padding = do_call ''gtk_box_pack_start'' [I box, I w, I expand, I filled, I padding]"

definition add :: "int \<Rightarrow> int \<Rightarrow> unit prog" where
  "add c w = do_call ''gtk_container_add'' [I c, I w]"

definition connect :: "int \<Rightarrow> string \<Rightarrow> string \<Rightarrow> unit prog" where
  "connect w sig callback = do_call ''g_signal_connect'' [I w, S sig, S callback]"

definition flag_labels :: "string list" where
  "flag_labels = [''Show Heading'', ''Show Day Names'', ''No Month Change'', ''Show Week Numbers'', ''Week Start Monday'']"

definition make_checkbox :: "int \<Rightarrow> string \<Rightarrow> int list \<Rightarrow> int list prog" where
  "make_checkbox vbox3 l boxes =
     bind (call_ret ''gtk_check_button_new_with_label'' [S l]) (\<lambda>toggle.
     bind (connect toggle ''toggled'' ''calendar_toggle_flag'') (\<lambda>_.
     bind (pack vbox3 toggle 1 1 0) (\<lambda>_. return (boxes @ [toggle]))))"

text \<open>A line of the signal part: a caption and the label that shows a signal.\<close>

definition signal_label :: "int \<Rightarrow> string \<Rightarrow> int prog" where
  "signal_label vbox2 caption =
     bind (call_ret ''gtk_hbox_new'' [I 0, I 3]) (\<lambda>hbox.
     bind (pack vbox2 hbox 0 1 0) (\<lambda>_.
     bind (call_ret ''gtk_label_new'' [S caption]) (\<lambda>label.
     bind (pack hbox label 0 1 0) (\<lambda>_.
     bind (call_ret ''gtk_label_new'' [S []]) (\<lambda>sig.
     bind (pack hbox sig 0 1 0) (\<lambda>_. return sig))))))"

definition create_calendar :: "CalendarData prog" where
  "create_calendar =
     (let cd = \<lparr>flag_checkboxes = [], settings = replicate 5 False, font_dialog = 0, window = 0,
                  prev2_sig = 0, prev_sig = 0, last_sig = 0\<rparr> in
     bind (call_ret ''gtk_window_new'' [S ''GTK_WINDOW_TOPLEVEL'']) (\<lambda>window.
     bind (do_call ''gtk_window_set_title'' [I window, S ''GtkCalendar Example'']) (\<lambda>_.
     bind (do_call ''gtk_container_set_border_width'' [I window, I 5]) (\<lambda>_.
     bind (connect window ''destroy'' ''gtk_main_quit'') (\<lambda>_.
     bind (connect window ''delete-event'' ''gtk_false'') (\<lambda>_.
     bind (do_call ''gtk_window_set_resizable'' [I window, I 0]) (\<lambda>_.
     bind (call_ret ''gtk_vbox_new'' [I 0, I 10]) (\<lambda>vbox.
     bind (add window vbox) (\<lambda>_.
     bind (call_ret ''gtk_hbox_new'' [I 0, I 10]) (\<lambda>hbox.
     bind (pack vbox hbox 1 1 10) (\<lambda>_.
     bind (call_ret ''gtk_hbutton_box_new'' []) (\<lambda>hbbox.
     bind (pack hbox hbbox 0 0 10) (\<lambda>_.
     bind (do_call ''gtk_button_box_set_layout'' [I hbbox, S ''GTK_BUTTONBOX_SPREAD'']) (\<lambda>_.
     bind (do_call ''gtk_box_set_spacing'' [I hbbox, I 5]) (\<lambda>_.
     bind (call_ret ''gtk_frame_new'' [S ''Calendar'']) (\<lambda>frame.
     bind (pack hbbox frame 0 1 10) (\<lambda>_.
     bind (call_ret ''gtk_calendar_new'' []) (\<lambda>calendar.
     let cd = cd\<lparr>window := calendar\<rparr> in
     bind (calendar_set_flags cd) (\<lambda>_.
     bind (do_call ''gtk_calendar_mark_day'' [I calendar, I 19]) (\<lambda>_.
     bind (add frame calendar) (\<lambda>_.
     bind (connect calendar ''month_changed'' ''calendar_month_changed'') (\<lambda>_.
     bind (connect calendar ''day_selected'' ''calendar_day_selected'') (\<lambda>_.
     bind (connect calendar ''day_selected_double_click'' ''calendar_day_selected_double_click'') (\<lambda>_.
     bind (connect calendar ''prev_month'' ''calendar_prev_month'') (\<lambda>_.
     bind (connect calendar ''next_month'' ''calendar_next_month'') (\<lambda>_.
     bind (connect calendar ''prev_year'' ''calendar_prev_year'') (\<lambda>_.
     bind (connect calendar ''next_year'' ''calendar_next_year'') (\<lambda>_.
     bind (call_ret ''gtk_vseparator_new'' []) (\<lambda>separator.
     bind (pack hbox separator 0 1 0) (\<lambda>_.
     bind (call_ret ''gtk_vbox_new'' [I 0, I 10]) (\<lambda>vbox2.
     bind (pack hbox vbox2 0 0 10) (\<lambda>_.
     bind (call_ret ''gtk_frame_new'' [S ''Flags'']) (\<lambda>frame.
     bind (pack vbox2 frame 1 1 10) (\<lambda>_.
     bind (call_ret ''gtk_vbox_new'' [I 1, I 5]) (\<lambda>vbox3.
     bind (add frame vbox3) (\<lambda>_.
     bind (for_each flag_labels (make_checkbox vbox3) []) (\<lambda>boxes.
     bind (call_ret ''gtk_button_new_with_label'' [S ''Font...'']) (\<lambda>button.
     bind (connect button ''clicked'' ''calendar_select_font'') (\<lambda>_.
     bind (pack vbox2 button 0 0 0) (\<lambda>_.
     bind (call_ret ''gtk_frame_new'' [S ''Signal events'']) (\<lambda>frame.
     bind (pack vbox frame 1 1 10) (\<lambda>_.
     bind (call_ret ''gtk_vbox_new'' [I 1, I 5]) (\<lambda>vbox2.
     bind (add frame vbox2) (\<lambda>_.
     bind (signal_label vbox2 ''Signal:'') (\<lambda>last.
     bind (signal_label vbox2 ''Previous signal:'') (\<lambda>prev.
     bind (signal_label vbox2 ''Second previous signal:'') (\<lambda>prev2.
     bind (call_ret ''gtk_hbutton_box_new'' []) (\<lambda>bbox.
     bind (pack vbox bbox 0 0 0) (\<lambda>_.
     bind (do_call ''gtk_button_box_set_layout'' [I bbox, S ''GTK_BUTTONBOX_END'']) (\<lambda>_.
     bind (call_ret ''gtk_button_new_with_label'' [S ''Close'']) (\<lambda>button.
     bind (connect button ''clicked'' ''gtk_main_quit'') (\<lambda>_.
     bind (add bbox button) (\<lambda>_.
     bind (do_call ''gtk_widget_set_can_default'' [I button, I 1]) (\<lambda>_.
     bind (do_call ''gtk_widget_grab_default'' [I button]) (\<lambda>_.
     bind (do_call ''gtk_widget_show_all'' [I window]) (\<lambda>_.
       return (cd\<lparr>flag_checkboxes := boxes, last_sig := last, prev_sig := prev, prev2_sig := prev2\<rparr>)))))))))))))))))))))))))))))))))))))))))))))))))))))))))"

definition calendar_main :: "int prog" where
  "calendar_main =
     bind (do_call ''gtk_init'' []) (\<lambda>_.
     bind create_calendar (\<lambda>_.
     bind (do_call ''gtk_main'' []) (\<lambda>_. return 0)))"

section \<open>What GTK promises\<close>

text \<open>The text of a label and the mark of a day after the calls so far.\<close>

definition set_label :: "int \<Rightarrow> string \<Rightarrow> call \<Rightarrow> string" where
  "set_label w s c = (if fn c = ''gtk_label_set_text'' then (case args c of [I v, S x] \<Rightarrow> if v = w then x else s | _ \<Rightarrow> s) else s)"

definition set_mark :: "int \<Rightarrow> int \<Rightarrow> bool \<Rightarrow> call \<Rightarrow> bool" where
  "set_mark w d m c = (if args c = [I w, I d] then
     (if fn c = ''gtk_calendar_mark_day'' then True else if fn c = ''gtk_calendar_unmark_day'' then False else m) else m)"

definition after :: "('s \<Rightarrow> call \<Rightarrow> 's) \<Rightarrow> 's \<Rightarrow> trace \<Rightarrow> 's" where
  "after step s tr = foldl (\<lambda>s e. step s (fst e)) s tr"

abbreviation label :: "int \<Rightarrow> trace \<Rightarrow> string" where
  "label w \<equiv> after (set_label w) []"

abbreviation marked :: "int \<Rightarrow> int \<Rightarrow> trace \<Rightarrow> bool" where
  "marked w d \<equiv> after (set_mark w d) False"

lemma after_simps [simp]:
  "after step s [] = s" "after step s (t @ u) = after step (after step s t) u" "after step s ((c, r) # u) = after step (step s c) u"
  by (simp_all add: after_def)

lemma set_label_simps [simp]:
  "f \<noteq> ''gtk_label_set_text'' \<Longrightarrow> set_label w s (Call f xs) = s"
  "set_label w s (Call ''gtk_label_set_text'' [I v, S x]) = (if v = w then x else s)"
  by (simp_all add: set_label_def)

lemma set_mark_simps [simp]:
  "f \<noteq> ''gtk_calendar_mark_day'' \<Longrightarrow> f \<noteq> ''gtk_calendar_unmark_day'' \<Longrightarrow> set_mark w d m (Call f xs) = m"
  "set_mark w d m (Call ''gtk_calendar_mark_day'' [I v, I e]) = (v = w \<and> e = d \<or> m)"
  "set_mark w d m (Call ''gtk_calendar_unmark_day'' [I v, I e]) = (\<not> (v = w \<and> e = d) \<and> m)"
  by (auto simp: set_mark_def)

definition labels_law :: "env \<Rightarrow> bool" where
  "labels_law env \<longleftrightarrow> (\<forall>tr w. data (env tr (Call ''gtk_label_get_text'' [I w])) = label w tr)"

definition marks_law :: "env \<Rightarrow> bool" where
  "marks_law env \<longleftrightarrow> (\<forall>tr w i. ret (env tr (Call ''marked_date'' [I w, I i])) = (if marked w (i + 1) tr then 1 else 0))"

definition strftime_fits :: "env \<Rightarrow> bool" where
  "strftime_fits env \<longleftrightarrow> (\<forall>tr n xs. 0 < n \<longrightarrow> length (data (env tr (Call ''g_date_strftime'' (I n # xs)))) < nat n)"

section \<open>The log of signals\<close>

lemma cstr_date: "NUL \<notin> set name \<Longrightarrow> cstr (name @ s @ NUL # rest) = name @ cstr s"
  unfolding cstr_def by (induction name) (auto, induction s, auto)

lemma date_buffer:
  assumes "length name = off" "off < 255" "length s < 255 - off" "NUL \<notin> set name"
  shows "\<exists>b. mem_write (name @ replicate (256 - length name) NUL) off (s @ [NUL]) = Inr b \<and> cstr b = name @ cstr s"
  using assms cstr_date [OF assms(4)] by (auto simp: mem_write_def)

lemma note_signal_run:
  assumes "labels_law env" "strftime_fits env" "distinct [prev2_sig cd, prev_sig cd, last_sig cd]"
    "length name = off" "off < 255" "NUL \<notin> set name"
  shows "\<exists>t date. note_signal name off cd env tr = (t, Ok ()) \<and> label (last_sig cd) t = name @ date \<and>
    label (prev_sig cd) t = label (last_sig cd) tr \<and> label (prev2_sig cd) t = label (prev_sig cd) tr \<and>
    (\<forall>w d. marked w d t = marked w d tr)"
proof -
  let ?g = "\<lambda>p. Call ''gtk_calendar_get_date'' [I (window cd), S p]"
  define t1 where "t1 = tr @ [(?g ''year'', env tr (?g ''year''))]"
  define t2 where "t2 = t1 @ [(?g ''month'', env t1 (?g ''month''))]"
  define t3 where "t3 = t2 @ [(?g ''day'', env t2 (?g ''day''))]"
  define c where "c = Call ''g_date_strftime'' [I (int (256 - off) - 1), S ''%x'', I (ret (env t2 (?g ''day''))),
    I (ret (env t1 (?g ''month'')) + 1), I (ret (env tr (?g ''year'')))]"
  define t4 where "t4 = t3 @ [(c, env t3 c)]"
  have "0 < int (256 - off) - 1" using assms(5) by simp
  then have "length (data (env t3 c)) < nat (int (256 - off) - 1)" using assms(2) unfolding strftime_fits_def c_def by blast
  then have "length (data (env t3 c)) < 255 - off" using assms(5) by linarith
  from date_buffer [OF assms(4,5) this assms(6)] obtain b where
    b: "mem_write (name @ replicate (256 - length name) NUL) off (data (env t3 c) @ [NUL]) = Inr b" "cstr b = name @ cstr (data (env t3 c))"
    by blast
  have d: "calendar_date_to_string cd (name @ replicate (256 - length name) NUL) off (256 - off) env tr = (t4, Ok b)"
    using b(1) unfolding calendar_date_to_string_def get_date_def
    by (simp add: bind_calls io_eval t1_def [symmetric] t2_def [symmetric] t3_def [symmetric] c_def [symmetric] t4_def)
  have l: "label w t4 = label w tr" "marked w d t4 = marked w d tr" for w d
    by (simp_all add: t4_def t3_def t2_def t1_def c_def)
  have law: "data (env u (Call ''gtk_label_get_text'' [I w])) = label w u" for u w using assms(1) by (simp add: labels_law_def)
  obtain t where t: "calendar_set_signal_strings b cd env t4 = (t, Ok ())" "label (last_sig cd) t = cstr b"
    "label (prev_sig cd) t = label (last_sig cd) t4" "label (prev2_sig cd) t = label (prev_sig cd) t4" "\<forall>w d. marked w d t = marked w d t4"
  proof (rule that)
    let ?t = "fst (calendar_set_signal_strings b cd env t4)"
    show "calendar_set_signal_strings b cd env t4 = (?t, Ok ())" by (simp add: calendar_set_signal_strings_def bind_calls io_eval)
    show "label (last_sig cd) ?t = cstr b" "label (prev_sig cd) ?t = label (last_sig cd) t4" "label (prev2_sig cd) ?t = label (prev_sig cd) t4"
      "\<forall>w d. marked w d ?t = marked w d t4"
      using assms(3) by (auto simp: calendar_set_signal_strings_def bind_calls io_eval law)
  qed
  then show ?thesis using d b(2) l by (auto simp: note_signal_def bind_Ok)
qed

definition handlers :: "(string \<times> (CalendarData \<Rightarrow> unit prog)) list" where
  "handlers = [(''month_changed: '', calendar_month_changed), (''day_selected: '', calendar_day_selected),
     (''prev_month: '', calendar_prev_month), (''next_month: '', calendar_next_month),
     (''prev_year: '', calendar_prev_year), (''next_year: '', calendar_next_year)]"

text \<open>
  A signal handler of the calendar stays within its buffer and shifts the log: the last
  signal becomes the previous one, the previous one the second previous one, and the
  name of the signal with the date is shown as the last.
\<close>

theorem calendar_log:
  assumes "labels_law env" "strftime_fits env" "distinct [prev2_sig cd, prev_sig cd, last_sig cd]" "(name, h) \<in> set handlers"
  shows "\<exists>t date. h cd env tr = (t, Ok ()) \<and> label (last_sig cd) t = name @ date \<and>
    label (prev_sig cd) t = label (last_sig cd) tr \<and> label (prev2_sig cd) t = label (prev_sig cd) tr"
proof -
  have "\<exists>off. h = note_signal name off \<and> length name = off \<and> off < 255 \<and> NUL \<notin> set name"
    using assms(4) by (auto simp: handlers_def calendar_month_changed_def calendar_day_selected_def calendar_prev_month_def
        calendar_next_month_def calendar_prev_year_def calendar_next_year_def numeral_eq_Suc)
  then obtain off where "h = note_signal name off" "length name = off" "off < 255" "NUL \<notin> set name" by blast
  with note_signal_run [OF assms(1-3)] show ?thesis by blast
qed

definition cal :: CalendarData where
  "cal = \<lparr>flag_checkboxes = [11, 12, 13, 14, 15], settings = replicate 5 False, font_dialog = 0, window = 1,
     prev2_sig = 2, prev_sig = 3, last_sig = 4\<rparr>"

text \<open>An environment that keeps the promises.\<close>

definition gtk_env :: env where
  "gtk_env tr c =
     \<lparr>ret = (if fn c = ''marked_date'' then (case args c of [I w, I i] \<Rightarrow> if marked w (i + 1) tr then 1 else 0 | _ \<Rightarrow> 0) else 7),
      data = (if fn c = ''gtk_label_get_text'' then (case args c of [I w] \<Rightarrow> label w tr | _ \<Rightarrow> [])
              else if fn c = ''g_date_strftime'' then (case args c of I n # xs \<Rightarrow> take (nat n - 1) ''05/07/24'' | _ \<Rightarrow> []) else []),
      errno = 0\<rparr>"

lemma gtk_env_laws: "labels_law gtk_env" "marks_law gtk_env" "strftime_fits gtk_env"
  by (auto simp: labels_law_def marks_law_def strftime_fits_def gtk_env_def)

theorem calendar_log_witness:
  "\<exists>t date. calendar_prev_year cal gtk_env [] = (t, Ok ()) \<and> label 4 t = ''prev_year: '' @ date"
  using calendar_log [OF gtk_env_laws(1,3), of cal "''prev_year: ''" calendar_prev_year "[]"] by (simp add: handlers_def cal_def) blast

section \<open>Marks\<close>

text \<open>
  A double click turns the mark of the selected day over and leaves the other days as they
  are; when no day is selected it reads outside the array of marks.
\<close>

theorem double_click_toggles:
  assumes "labels_law env" "marks_law env" "strftime_fits env" "distinct [prev2_sig cd, prev_sig cd, last_sig cd]"
    "\<And>t. ret (env t (Call ''gtk_calendar_get_date'' [I (window cd), S ''day''])) = d"
  shows "\<exists>t. if 1 \<le> d \<and> d \<le> 31
    then calendar_day_selected_double_click cd env tr = (t, Ok ()) \<and>
      (\<forall>e. marked (window cd) e t = (if e = d then \<not> marked (window cd) e tr else marked (window cd) e tr))
    else calendar_day_selected_double_click cd env tr = (t, Fault OutOfBounds)"
proof -
  obtain t1 where n: "note_signal ''day_selected_double_click: '' 27 cd env tr = (t1, Ok ())" "\<forall>w d. marked w d t1 = marked w d tr"
    using note_signal_run [OF assms(1,3,4), of "''day_selected_double_click: ''" 27 tr] by auto
  have law: "ret (env t (Call ''marked_date'' [I w, I (d - 1)])) = (if marked w d t then 1 else 0)" for t w
    using assms(2) by (simp add: marks_law_def)
  show ?thesis using n assms(5)
    by (auto simp: calendar_day_selected_double_click_def bind_Ok get_date_def bind_calls io_eval law c_require_def)
qed

theorem double_click_toggles_witness:
  "\<exists>t. calendar_day_selected_double_click cal gtk_env [] = (t, Ok ()) \<and> marked 1 7 t"
proof -
  have "ret (gtk_env t (Call ''gtk_calendar_get_date'' [I (window cal), S ''day''])) = 7" for t by (simp add: gtk_env_def)
  from double_click_toggles [OF gtk_env_laws, of cal, OF _ this, of "[]"] show ?thesis by (auto simp: cal_def)
qed

section \<open>Flags\<close>

lemma list5: "length xs = 5 \<Longrightarrow> \<exists>a b c d e. xs = [a, b, c, d, e]"
  by (simp add: numeral_eq_Suc length_Suc_conv) blast

definition option_bits :: "bool list \<Rightarrow> int" where
  "option_bits st = (\<Sum>i < 5. if st ! i then 2 ^ i else 0)"

lemma calendar_options_bits:
  assumes "length st = 5"
  shows "calendar_options st = Inr (option_bits st)"
proof -
  obtain a b c d e where "st = [a, b, c, d, e]" using list5 [OF assms] by blast
  then show ?thesis
    by (simp add: calendar_options_def option_bits_def for_loop_def upt_conv_Cons load_def c_int_def INT_MAX_def INT_MIN_def
        numeral_eq_Suc lessThan_Suc)
qed

text \<open>A click on check box \<open>k\<close>.\<close>

lemma toggle_run:
  assumes "length (flag_checkboxes cd) = 5" "distinct (flag_checkboxes cd)" "length (settings cd) = 5" "window cd \<noteq> 0" "k < 5"
  shows "\<exists>u r. calendar_toggle_flag (flag_checkboxes cd ! k) cd env tr =
    (u @ [(Call ''gtk_calendar_display_options'' [I (window cd), I (option_bits ((settings cd)[k := \<not> settings cd ! k]))], r)],
     Ok (cd\<lparr>settings := (settings cd)[k := \<not> settings cd ! k]\<rparr>))"
proof -
  obtain b0 b1 b2 b3 b4 where b: "flag_checkboxes cd = [b0, b1, b2, b3, b4]" using list5 [OF assms(1)] by blast
  have "k = 0 \<or> k = 1 \<or> k = 2 \<or> k = 3 \<or> k = 4" using assms(5) by linarith
  then have "for_loop 0 5 (\<lambda>i j. c_bind (load (flag_checkboxes cd) i) (\<lambda>b. Inr (if b = flag_checkboxes cd ! k then i else j))) 0 = Inr k"
    using assms(2) unfolding b by (auto simp: for_loop_def upt_conv_Cons load_def numeral_eq_Suc)
  moreover have "calendar_options ((settings cd)[k := \<not> settings cd ! k]) = Inr (option_bits ((settings cd)[k := \<not> settings cd ! k]))"
    using assms(3) by (intro calendar_options_bits) simp
  ultimately show ?thesis using assms(3,4,5)
    by (simp add: calendar_toggle_flag_def calendar_set_flags_def load_def store_def io_eval bind_calls bind_Ok Let_def)
qed

text \<open>
  C32: after any sequence of clicks on the check boxes each setting has been turned over as often
  as its box was clicked, and the options last shown are the bits of the settings.
\<close>

theorem calendar_flags:
  assumes "length (flag_checkboxes cd) = 5" "distinct (flag_checkboxes cd)" "length (settings cd) = 5" "window cd \<noteq> 0"
    "ks \<noteq> []" "set ks \<subseteq> {..<5}"
  shows "\<exists>u r d. for_each (map ((!) (flag_checkboxes cd)) ks) calendar_toggle_flag cd env tr =
      (u @ [(Call ''gtk_calendar_display_options'' [I (window cd), I (option_bits (settings d))], r)], Ok d) \<and>
    (\<forall>i < 5. settings d ! i = (settings cd ! i \<noteq> odd (count_list ks i)))"
  using assms
proof (induction ks arbitrary: cd tr)
  case (Cons k ks)
  let ?d = "cd\<lparr>settings := (settings cd)[k := \<not> settings cd ! k]\<rparr>"
  obtain u r where t: "calendar_toggle_flag (flag_checkboxes cd ! k) cd env tr =
      (u @ [(Call ''gtk_calendar_display_options'' [I (window cd), I (option_bits (settings ?d))], r)], Ok ?d)"
    using toggle_run [of cd k env tr] Cons.prems by auto
  show ?case
  proof (cases "ks = []")
    case True
    then show ?thesis using t Cons.prems(3) by (auto simp: bind_Ok io_eval nth_list_update)
  next
    case False
    let ?tr = "u @ [(Call ''gtk_calendar_display_options'' [I (window cd), I (option_bits (settings ?d))], r)]"
    from Cons.IH [of ?d ?tr] False Cons.prems obtain u' r' d where
      "for_each (map ((!) (flag_checkboxes cd)) ks) calendar_toggle_flag ?d env ?tr =
        (u' @ [(Call ''gtk_calendar_display_options'' [I (window cd), I (option_bits (settings d))], r')], Ok d)"
      "\<forall>i < 5. settings d ! i = (settings ?d ! i \<noteq> odd (count_list ks i))" by auto
    then show ?thesis using t Cons.prems(3) by (auto simp: bind_Ok nth_list_update)
  qed
qed simp

theorem calendar_flags_witness:
  "\<exists>u r d. for_each [11, 15, 11, 11] calendar_toggle_flag cal gtk_env [] =
      (u @ [(Call ''gtk_calendar_display_options'' [I 1, I (option_bits (settings d))], r)], Ok d) \<and>
    (\<forall>i < 5. settings d ! i = odd (count_list [0, 4, 0, 0] i))"
  using calendar_flags [of cal "[0, 4, 0, 0]" gtk_env "[]"] by (simp add: cal_def)

section \<open>Construction\<close>

definition connections :: "trace \<Rightarrow> (int \<times> string \<times> string) list" where
  "connections tr = concat (map (\<lambda>(c, r). case args c of [I w, S s, S f] \<Rightarrow> [(w, s, f)] | _ \<Rightarrow> []) (uses ''g_signal_connect'' tr))"

lemma connections_simps [simp]:
  "connections [] = []" "connections (t @ u) = connections t @ connections u"
  "connections ((Call f xs, r) # t) =
     (if f = ''g_signal_connect'' then (case xs of [I w, S s, S g] \<Rightarrow> [(w, s, g)] | _ \<Rightarrow> []) else []) @ connections t"
  by (auto simp: connections_def)

lemma create_calendar_run:
  assumes "create_calendar env [] = (t, r)"
  shows "\<exists>d. r = Ok d \<and> length (flag_checkboxes d) = 5 \<and> settings d = replicate 5 False \<and> font_dialog d = 0 \<and>
    take 7 (drop 2 (connections t)) = map (\<lambda>s. (window d, s, ''calendar_'' @ s))
      [''month_changed'', ''day_selected'', ''day_selected_double_click'', ''prev_month'', ''next_month'', ''prev_year'', ''next_year''] \<and>
    take 5 (drop 9 (connections t)) = map (\<lambda>b. (b, ''toggled'', ''calendar_toggle_flag'')) (flag_checkboxes d)"
proof -
  have o: "calendar_options (replicate 5 False) = Inr 0" using calendar_options_bits [of "replicate 5 False"] by (simp add: option_bits_def)
  show ?thesis using assms
    unfolding create_calendar_def Let_def calendar_set_flags_def flag_labels_def for_each.simps make_checkbox_def signal_label_def pack_def add_def connect_def
      CalendarData.simps o
    by (elim runE) simp_all
qed

end
