(* ===== verification/Gtk.thy ===== *)
theory Gtk
  imports C_IO "HOL-Library.AList"
begin

text \<open>
  Programs of GTK.  The body of a program that builds a window is straight-line code: a
  statement assigns the result of a call to a variable or makes a call for its effect.
  \<open>run\<close> executes a list of statements as a program of \<open>C_IO\<close>; reading a variable
  that was not set is a fault.  The arguments of a call are the objects in variables
  (\<open>I\<close>) and the constants and literals as they are written (\<open>S\<close>); the casts of GTK have no effect.

  \<open>gui_of\<close> reads from a trace what the toolkit has been told: the objects made, the tree
  of widgets, and which are shown.  It is \<open>None\<close> when the program breaks a rule of the
  toolkit: a widget is placed twice, into itself, or before it exists.
  The main lemma, \<open>run_window\<close>, decides this for every toolkit at once: a script is run
  with the numbers 1, 2, 3, ... for its objects, and any toolkit that hands out new objects
  builds the same tree up to renaming.
\<close>

section \<open>Statements\<close>

datatype val = V string | C string

datatype stmt =
    Set string string "val list"
  | Get string string "val list"
  | Do string "val list"

text \<open>\<open>Set\<close> keeps a reference, \<open>Get\<close> a number or a text.\<close>

type_synonym store = "(string \<times> arg) list"

primrec val_of :: "store \<Rightarrow> val \<Rightarrow> arg option" where
  "val_of st (V x) = map_of st x"
| "val_of st (C s) = Some (S s)"

primrec vals :: "store \<Rightarrow> val list \<Rightarrow> arg list option" where
  "vals st [] = Some []"
| "vals st (a # as) = (case val_of st a of None \<Rightarrow> None | Some x \<Rightarrow> map_option ((#) x) (vals st as))"

definition with_vals :: "store \<Rightarrow> val list \<Rightarrow> (arg list \<Rightarrow> 'a prog) \<Rightarrow> 'a prog" where
  "with_vals st as k = (case vals st as of None \<Rightarrow> fault Indeterminate | Some xs \<Rightarrow> k xs)"

primrec run_stmt :: "stmt \<Rightarrow> store \<Rightarrow> store prog" where
  "run_stmt (Set v f as) st = with_vals st as (\<lambda>xs. bind (call_ret f xs) (\<lambda>r. return (AList.update v (I r) st)))"
| "run_stmt (Get v f as) st = with_vals st as (\<lambda>xs. bind (call_text f xs) (\<lambda>s. return (AList.update v (S s) st)))"
| "run_stmt (Do f as) st = with_vals st as (\<lambda>xs. bind (do_call f xs) (\<lambda>_. return st))"

definition run :: "stmt list \<Rightarrow> store \<Rightarrow> store prog" where
  "run ss = for_each ss run_stmt"

text \<open>A \<^verbatim>\<open>main\<close> that is a list of statements returns 0 after them, and a text that is not ASCII is its bytes.\<close>

definition main_of :: "stmt list \<Rightarrow> int prog" where
  "main_of ss = bind (run ss []) (\<lambda>_. return 0)"

definition utf8 :: "nat list \<Rightarrow> string" where
  "utf8 = map char_of"

text \<open>A callback run \<open>n\<close> times.\<close>

primrec clicks :: "nat \<Rightarrow> ('s \<Rightarrow> 's prog) \<Rightarrow> 's \<Rightarrow> 's prog" where
  "clicks 0 f s = return s"
| "clicks (Suc n) f s = bind (clicks n f s) f"

section \<open>What the toolkit is told\<close>

datatype kind = Thing | Widget | Toplevel | Menu

datatype role = Maker kind | Inner | Product | Placer nat | Shower | AllShower | MainLoop | Plain

fun has_new :: "string \<Rightarrow> bool" where
  "has_new (a # b # c # d # s) = (a = CHR ''_'' \<and> b = CHR ''n'' \<and> c = CHR ''e'' \<and> d = CHR ''w'' \<or> has_new (b # c # d # s))"
| "has_new _ = False"

definition toplevels :: "string list" where
  "toplevels = [''gtk_window_new'', ''gtk_dialog_new'', ''gtk_dialog_new_with_buttons'', ''gtk_file_selection_new'']"

definition things :: "string list" where
  "things = [''gtk_adjustment_new'', ''gtk_tooltips_new'', ''gtk_accel_group_new'', ''gtk_item_factory_new'', ''gtk_list_store_new'',
     ''gtk_cell_renderer_text_new'', ''gtk_tree_view_column_new_with_attributes'', ''gdk_cursor_new'', ''gdk_pixbuf_new_from_file'']"

text \<open>Functions that put widgets into a container, with the number of widgets they put.\<close>

definition placers :: "(string \<times> nat) list" where
  "placers = [(''gtk_box_pack_start'', 1), (''gtk_container_add'', 1), (''gtk_table_attach_defaults'', 1), (''gtk_table_attach'', 1),
     (''gtk_box_pack_end'', 1), (''gtk_box_pack_start_defaults'', 1), (''gtk_menu_shell_append'', 1), (''gtk_fixed_put'', 1),
     (''gtk_paned_add1'', 1), (''gtk_paned_add2'', 1), (''gtk_scrolled_window_add_with_viewport'', 1),
     (''gtk_menu_item_set_submenu'', 1), (''gtk_option_menu_set_menu'', 1),
     (''gtk_notebook_append_page'', 2), (''gtk_notebook_prepend_page'', 2), (''gtk_notebook_insert_page'', 2)]"

text \<open>Parts a widget was made with.\<close>

definition inners :: "string list" where
  "inners = [''GTK_DIALOG->vbox'', ''GTK_DIALOG->action_area'', ''GTK_FILE_SELECTION->ok_button'', ''GTK_FILE_SELECTION->cancel_button'']"

definition role :: "string \<Rightarrow> role" where
  "role f =
     (if f = ''g_malloc'' then Maker Thing
      else if has_new f then Maker (if f \<in> set toplevels then Toplevel else if f = ''gtk_menu_new'' then Menu else if f \<in> set things then Thing else Widget)
      else if f = ''gtk_widget_show'' then Shower else if f = ''gtk_widget_show_all'' then AllShower else if f = ''gtk_main'' then MainLoop
      else if f = ''gtk_item_factory_get_widget'' then Product else if f \<in> set inners then Inner
      else case map_of placers f of Some n \<Rightarrow> Placer n | None \<Rightarrow> Plain)"

definition makes :: "role \<Rightarrow> bool" where
  "makes r = (case r of Maker k \<Rightarrow> True | Inner \<Rightarrow> True | Product \<Rightarrow> True | _ \<Rightarrow> False)"

text \<open>
  The objects, the widgets among them, the toplevel windows, the container of each widget
  that is in one, the widgets shown, the parts asked for, and how often the main loop was entered.
\<close>

datatype 'i gui = Gui (objs: "'i list") (wids: "'i list") (tops: "'i list") (par: "('i \<times> 'i) list") (vis: "'i list")
  (asked: "(string \<times> 'i list) list") (loops: nat)

definition no_gui :: "'i gui" where
  "no_gui = Gui [] [] [] [] [] [] 0"

text \<open>A widget with its container, the container of this, and so on.\<close>

primrec chain :: "nat \<Rightarrow> ('i \<times> 'i) list \<Rightarrow> 'i \<Rightarrow> 'i list" where
  "chain 0 ps w = [w]"
| "chain (Suc n) ps w = w # (case map_of ps w of None \<Rightarrow> [] | Some p \<Rightarrow> chain n ps p)"

definition above :: "'i gui \<Rightarrow> 'i \<Rightarrow> 'i list" where
  "above g = chain (length (par g)) (par g)"

definition create :: "kind \<Rightarrow> 'i \<Rightarrow> 'i gui \<Rightarrow> 'i gui option" where
  "create k r g =
     (if r \<in> set (objs g) then None
      else Some (Gui (r # objs g) (if k = Thing then wids g else r # wids g) (if k = Toplevel then r # tops g else tops g)
        (par g) (if k = Menu then r # vis g else vis g) (asked g) (loops g)))"

definition place :: "'i \<Rightarrow> 'i \<Rightarrow> 'i gui \<Rightarrow> 'i gui option" where
  "place p c g =
     (if p \<in> set (wids g) \<and> c \<in> set (wids g) \<and> c \<notin> set (tops g) \<and> map_of (par g) c = None \<and> c \<notin> set (above g p)
      then Some (Gui (objs g) (wids g) (tops g) ((c, p) # par g) (vis g) (asked g) (loops g)) else None)"

definition ask :: "string \<Rightarrow> 'i list \<Rightarrow> 'i gui \<Rightarrow> 'i gui option" where
  "ask f rs g = (if (f, rs) \<in> set (asked g) then None
     else Some (Gui (objs g) (wids g) (tops g) (par g) (vis g) ((f, rs) # asked g) (loops g)))"

definition expose :: "'i list \<Rightarrow> 'i gui \<Rightarrow> 'i gui" where
  "expose ws g = Gui (objs g) (wids g) (tops g) (par g) (ws @ vis g) (asked g) (loops g)"

primrec place_all :: "'i \<Rightarrow> 'i list \<Rightarrow> 'i gui \<Rightarrow> 'i gui option" where
  "place_all p [] g = Some g"
| "place_all p (c # cs) g = Option.bind (place p c g) (place_all p cs)"

text \<open>
  One call: its function, the objects among its arguments, and its result.  A notebook shows
  the labels of its pages, a part of a widget is shown with it, and a menu when it is opened.
\<close>

definition tell :: "string \<Rightarrow> 'i list \<Rightarrow> 'i \<Rightarrow> 'i gui \<Rightarrow> 'i gui option" where
  "tell f rs r g =
     (case role f of
        Maker k \<Rightarrow> create k r g
      | Inner \<Rightarrow> (case rs of [] \<Rightarrow> None | w # _ \<Rightarrow>
          Option.bind (ask f rs g) (\<lambda>g. Option.bind (create Widget r g) (\<lambda>g. place w r (expose [r] g))))
      | Product \<Rightarrow> Option.bind (ask f rs g) (create Widget r)
      | Placer n \<Rightarrow> (case rs of [] \<Rightarrow> None | p # cs \<Rightarrow> map_option (expose (drop 1 (take n cs))) (place_all p (take n cs) g))
      | Shower \<Rightarrow> (case rs of [] \<Rightarrow> None | w # _ \<Rightarrow> if w \<in> set (wids g) then Some (expose [w] g) else None)
      | AllShower \<Rightarrow> (case rs of [] \<Rightarrow> None | w # _ \<Rightarrow> if w \<in> set (wids g) then Some (expose (filter (\<lambda>x. w \<in> set (above g x)) (wids g)) g) else None)
      | MainLoop \<Rightarrow> Some (Gui (objs g) (wids g) (tops g) (par g) (vis g) (asked g) (Suc (loops g)))
      | Plain \<Rightarrow> Some g)"

primrec refs :: "arg list \<Rightarrow> int list" where
  "refs [] = []"
| "refs (x # xs) = (case x of I n \<Rightarrow> n # refs xs | S s \<Rightarrow> refs xs)"

definition gui_of :: "trace \<Rightarrow> int gui option" where
  "gui_of tr = foldl (\<lambda>g e. Option.bind g (tell (fn (fst e)) (refs (args (fst e))) (ret (snd e)))) (Some no_gui) tr"

text \<open>Widgets that do not appear: not shown, or in no window.\<close>

definition strays :: "'i gui \<Rightarrow> 'i list" where
  "strays g = filter (\<lambda>w. w \<notin> set (vis g) \<or> last (above g w) \<notin> set (tops g)) (wids g)"

text \<open>The law of the toolkit: a constructor, or a part asked for the first time, is a new object.\<close>

definition new_call :: "string \<Rightarrow> 'i list \<Rightarrow> 'i gui \<Rightarrow> bool" where
  "new_call f rs g = (case role f of Maker k \<Rightarrow> True | Inner \<Rightarrow> (f, rs) \<notin> set (asked g) | Product \<Rightarrow> (f, rs) \<notin> set (asked g) | _ \<Rightarrow> False)"

definition new_objects :: "env \<Rightarrow> bool" where
  "new_objects env \<longleftrightarrow> (\<forall>tr c g. gui_of tr = Some g \<and> new_call (fn c) (refs (args c)) g \<longrightarrow> ret (env tr c) \<notin> set (objs g))"

section \<open>Running a script on numbers\<close>

datatype 'i sval = Ref 'i | Txt

primrec sval_of :: "(string \<times> 'i sval) list \<Rightarrow> val \<Rightarrow> 'i list option" where
  "sval_of st (V x) = (case map_of st x of None \<Rightarrow> None | Some s \<Rightarrow> Some (case s of Ref k \<Rightarrow> [k] | Txt \<Rightarrow> []))"
| "sval_of st (C s) = Some []"

primrec svals :: "(string \<times> 'i sval) list \<Rightarrow> val list \<Rightarrow> 'i list option" where
  "svals st [] = Some []"
| "svals st (a # as) = (case sval_of st a of None \<Rightarrow> None | Some x \<Rightarrow> map_option ((@) x) (svals st as))"

type_synonym sym = "(string \<times> int sval) list \<times> int gui \<times> int"

primrec sym_stmt :: "stmt \<Rightarrow> sym \<Rightarrow> sym option" where
  "sym_stmt (Set v f as) s = (case s of (st, g, n) \<Rightarrow>
     if makes (role f) then Option.bind (svals st as) (\<lambda>rs. Option.bind (tell f rs n g) (\<lambda>g. Some (AList.update v (Ref n) st, g, n + 1)))
     else None)"
| "sym_stmt (Get v f as) s = (case s of (st, g, n) \<Rightarrow>
     if role f = Plain then Option.bind (svals st as) (\<lambda>rs. Some (AList.update v Txt st, g, n)) else None)"
| "sym_stmt (Do f as) s = (case s of (st, g, n) \<Rightarrow>
     if makes (role f) then None else Option.bind (svals st as) (\<lambda>rs. Option.bind (tell f rs 0 g) (\<lambda>g. Some (st, g, n))))"

primrec sym_run :: "stmt list \<Rightarrow> sym \<Rightarrow> sym option" where
  "sym_run [] s = Some s"
| "sym_run (x # xs) s = Option.bind (sym_stmt x s) (sym_run xs)"

text \<open>The result for a whole program: the strays and the number of main loops.\<close>

definition outcome :: "stmt list \<Rightarrow> (int list \<times> nat) option" where
  "outcome ss = map_option (\<lambda>(st, g, n). (strays g, loops g)) (sym_run ss ([], no_gui, 1))"

section \<open>Renaming\<close>

lemma map_of_rename: "inj f \<Longrightarrow> map_of (map (map_prod f f) ps) (f w) = map_option f (map_of ps w)"
  by (induction ps) (auto simp: inj_eq)

lemma chain_rename: "inj f \<Longrightarrow> chain n (map (map_prod f f) ps) (f w) = map f (chain n ps w)"
  by (induction n arbitrary: w) (auto simp: map_of_rename split: option.splits)

lemma gui_sel [simp]:
  "objs (map_gui f g) = map f (objs g)" "wids (map_gui f g) = map f (wids g)" "tops (map_gui f g) = map f (tops g)"
  "par (map_gui f g) = map (map_prod f f) (par g)" "vis (map_gui f g) = map f (vis g)"
  "asked (map_gui f g) = map (map_prod id (map f)) (asked g)" "loops (map_gui f g) = loops g"
  by (cases g; simp)+

lemma above_rename: "inj f \<Longrightarrow> above (map_gui f g) (f w) = map f (above g w)"
  by (simp add: above_def chain_rename)

lemma create_rename: "inj f \<Longrightarrow> create k (f r) (map_gui f g) = map_option (map_gui f) (create k r g)"
  by (auto simp: create_def inj_image_mem_iff)

lemma place_rename: "inj f \<Longrightarrow> place (f p) (f c) (map_gui f g) = map_option (map_gui f) (place p c g)"
  by (auto simp: place_def above_rename map_of_rename inj_image_mem_iff)

lemma ask_rename: "inj f \<Longrightarrow> ask h (map f rs) (map_gui f g) = map_option (map_gui f) (ask h rs g)"
  by (auto simp: ask_def inj_eq map_prod_def dest: injD [OF inj_mapI])

lemma expose_rename: "expose (map f ws) (map_gui f g) = map_gui f (expose ws g)"
  by (simp add: expose_def)

lemma place_all_rename: "inj f \<Longrightarrow> place_all (f p) (map f cs) (map_gui f g) = map_option (map_gui f) (place_all p cs g)"
proof (induction cs arbitrary: g)
  case (Cons c cs)
  then show ?case by (cases "place p c g") (simp_all add: place_rename)
qed simp

lemma tell_rename:
  assumes "inj f"
  shows "tell h (map f rs) (f r) (map_gui f g) = map_option (map_gui f) (tell h rs r g)"
proof -
  note rn = create_rename [OF assms] place_rename [OF assms] ask_rename [OF assms] place_all_rename [OF assms] above_rename [OF assms]
  have ex: "expose [f a] (map_gui f x) = map_gui f (expose [a] x)" for a x using expose_rename [of f "[a]"] by simp
  have fl: "filter (\<lambda>x. f a \<in> set (above (map_gui f g) x)) (map f ws) = map f (filter (\<lambda>x. a \<in> set (above g x)) ws)" for a ws
    using assms by (induction ws) (simp_all add: rn inj_image_mem_iff)
  show ?thesis
  proof (cases "role h")
    case Inner
    have "Option.bind (create Widget (f r) (map_gui f x)) (\<lambda>g. place (f a) (f r) (expose [f r] g)) =
        map_option (map_gui f) (Option.bind (create Widget r x) (\<lambda>g. place a r (expose [r] g)))" for x a
      by (cases "create Widget r x") (simp_all add: rn ex)
    then show ?thesis using Inner ask_rename [OF assms, of h rs g] by (cases "ask h rs g"; cases rs) (simp_all add: tell_def)
  next
    case Product
    then show ?thesis using ask_rename [OF assms, of h rs g] by (cases "ask h rs g") (simp_all add: tell_def rn)
  next
    case (Placer n)
    have "place_all (f p) (take n (map f cs)) (map_gui f g) = map_option (map_gui f) (place_all p (take n cs) g)" for p cs
      by (simp add: take_map rn)
    moreover have "expose (drop 1 (take n (map f cs))) (map_gui f x) = map_gui f (expose (drop 1 (take n cs)) x)" for cs x
      by (simp add: take_map drop_map expose_rename)
    ultimately show ?thesis using Placer by (cases rs) (simp_all add: tell_def option.map_comp comp_def)
  qed (use assms in \<open>auto simp: tell_def rn ex fl expose_rename inj_image_mem_iff inj_eq split: list.splits\<close>)
qed

lemma strays_rename:
  assumes "inj f"
  shows "strays (map_gui f g) = map f (strays g)"
proof -
  have "above g w \<noteq> []" for w by (cases "length (par g)") (simp_all add: above_def)
  then have "last (above (map_gui f g) (f w)) = f (last (above g w))" for w by (simp add: above_rename [OF assms] last_map)
  then show ?thesis using assms by (simp add: strays_def filter_map comp_def inj_image_mem_iff)
qed

section \<open>Every toolkit builds the same window\<close>

definition keys :: "'i gui \<Rightarrow> 'i set" where
  "keys g = set (objs g) \<union> set (wids g) \<union> set (tops g) \<union> fst ` set (par g) \<union> snd ` set (par g) \<union> set (vis g) \<union> (\<Union>(h, rs) \<in> set (asked g). set rs)"

lemma pair_keys: "x \<in> Basic_BNFs.fsts p \<Longrightarrow> x = fst p" "y \<in> Basic_BNFs.snds p \<Longrightarrow> y = snd p"
  by (auto elim: Basic_BNFs.fsts.cases Basic_BNFs.snds.cases)

lemma set_gui_keys: "set_gui g \<subseteq> keys g"
proof (cases g)
  case (Gui os ws ts ps vs as n)
  show ?thesis
  proof
    fix x
    assume "x \<in> set_gui g"
    then consider "x \<in> set os \<union> set ws \<union> set ts \<union> set vs" | p where "p \<in> set ps" "x \<in> Basic_BNFs.fsts p \<or> x \<in> Basic_BNFs.snds p"
      | a where "a \<in> set as" "\<exists>rs \<in> Basic_BNFs.snds a. x \<in> set rs"
      using Gui by auto
    then show "x \<in> keys g"
    proof cases
      case 2
      then have "x = fst p \<or> x = snd p" by (auto dest: pair_keys)
      with 2(1) Gui show ?thesis by (auto simp: keys_def)
    next
      case 3
      then have "x \<in> set (snd a)" by (auto dest: pair_keys)
      with 3(1) Gui show ?thesis by (force simp: keys_def)
    qed (use Gui in \<open>auto simp: keys_def\<close>)
  qed
qed

lemma map_gui_keys: "(\<And>k. k \<in> keys g \<Longrightarrow> f k = f' k) \<Longrightarrow> map_gui f g = map_gui f' g"
  using set_gui_keys [of g] by (intro gui.map_cong0) (simp add: subset_iff)

lemma keys_no_gui [simp]: "keys no_gui = {}"
  by (simp add: keys_def no_gui_def)

lemma keys_steps:
  "create k r g = Some g' \<Longrightarrow> keys g' \<subseteq> insert r (keys g)"
  "place p c g = Some g' \<Longrightarrow> keys g' \<subseteq> keys g"
  "ask h rs g = Some g' \<Longrightarrow> keys g' \<subseteq> keys g \<union> set rs"
  "keys (expose ws g) = keys g \<union> set ws"
  by (auto simp: keys_def create_def place_def ask_def expose_def split: if_splits)

lemma keys_place_all: "place_all p cs g = Some g' \<Longrightarrow> keys g' \<subseteq> keys g"
proof (induction cs arbitrary: g)
  case (Cons c cs)
  then obtain g1 where "place p c g = Some g1" "place_all p cs g1 = Some g'" by (auto simp: bind_eq_Some_conv)
  with Cons.IH [of g1] keys_steps(2) [of p c g g1] show ?case by blast
qed simp

lemma keys_tell:
  assumes "tell h rs r g = Some g'"
  shows "keys g' \<subseteq> keys g \<union> set rs \<union> (if makes (role h) then {r} else {})"
proof (cases "role h")
  case (Maker k)
  then show ?thesis using assms keys_steps(1) [of k r g g'] by (auto simp: tell_def makes_def)
next
  case Inner
  then obtain w g1 g2 where "ask h rs g = Some g1" "create Widget r g1 = Some g2" "place w r (expose [r] g2) = Some g'"
    using assms by (auto simp: tell_def bind_eq_Some_conv split: list.splits)
  then show ?thesis using Inner keys_steps(3) keys_steps(1) keys_steps(2) keys_steps(4) [of "[r]" g2] by (fastforce simp: makes_def)
next
  case Product
  then obtain g1 where "ask h rs g = Some g1" "create Widget r g1 = Some g'" using assms by (auto simp: tell_def bind_eq_Some_conv)
  then show ?thesis using Product keys_steps(3) keys_steps(1) by (fastforce simp: makes_def)
next
  case (Placer n)
  then obtain p cs g1 where "rs = p # cs" "place_all p (take n cs) g = Some g1" "g' = expose (drop 1 (take n cs)) g1"
    using assms by (auto simp: tell_def split: list.splits)
  then show ?thesis using keys_place_all [of p "take n cs" g g1] by (auto simp: keys_steps dest: in_set_dropD in_set_takeD)
next
  case AllShower
  then show ?thesis using assms by (auto simp: tell_def keys_steps split: list.splits if_splits) (auto simp: keys_def)
qed (use assms in \<open>auto simp: tell_def expose_def keys_def split: list.splits if_splits\<close>)

text \<open>An injection can be made to take a new value at a new place.\<close>

lemma inj_extend:
  assumes "inj f" "r \<notin> f ` K" "n \<notin> K"
  obtains f' where "inj f'" "\<And>k. k \<in> K \<Longrightarrow> f' k = f k" "f' n = r"
proof (cases "r \<in> range f")
  case True
  then obtain m where m: "r = f m" by auto
  with assms(2) have "m \<notin> K" by blast
  then show ?thesis using assms(1,3) m
    by (intro that [of "\<lambda>k. if k = n then f m else if k = m then f n else f k"]) (auto simp: inj_def split: if_splits)
next
  case False
  then show ?thesis using assms(1,3) by (intro that [of "f(n := r)"]) (auto simp: inj_def)
qed

definition same_store :: "(int \<Rightarrow> int) \<Rightarrow> (string \<times> int sval) list \<Rightarrow> store \<Rightarrow> bool" where
  "same_store f = list_all2 (\<lambda>(v, s) (u, x). u = v \<and> (case s of Ref k \<Rightarrow> x = I (f k) | Txt \<Rightarrow> \<exists>t. x = S t))"

definition sim :: "sym \<Rightarrow> store \<Rightarrow> trace \<Rightarrow> bool" where
  "sim s st tr \<longleftrightarrow> (case s of (ss, g, n) \<Rightarrow>
     keys g \<subseteq> set (objs g) \<and> (\<forall>v k. (v, Ref k) \<in> set ss \<longrightarrow> k \<in> set (objs g)) \<and> (\<forall>k \<in> set (objs g). k < n) \<and>
     (\<exists>f. inj f \<and> same_store f ss st \<and> gui_of tr = Some (map_gui f g)))"

lemma same_store_map_of:
  assumes "same_store f ss st"
  shows "(case map_of ss v of None \<Rightarrow> map_of st v = None
    | Some (Ref k) \<Rightarrow> map_of st v = Some (I (f k)) | Some Txt \<Rightarrow> \<exists>t. map_of st v = Some (S t))"
  using assms unfolding same_store_def
proof (induction ss st rule: list_all2_induct)
  case (Cons a ss b st)
  then show ?case by (cases a; cases b) (auto split: option.splits sval.splits)
qed simp

lemma same_store_update:
  assumes "same_store f ss st" "case s of Ref k \<Rightarrow> x = I (f k) | Txt \<Rightarrow> \<exists>t. x = S t"
  shows "same_store f (AList.update v s ss) (AList.update v x st)"
  using assms unfolding same_store_def
proof (induction ss st rule: list_all2_induct)
  case (Cons a ss b st)
  then show ?case by (cases a; cases b) auto
qed auto

lemma same_store_cong:
  assumes "same_store f ss st" "\<And>v k. (v, Ref k) \<in> set ss \<Longrightarrow> f' k = f k"
  shows "same_store f' ss st"
  using assms unfolding same_store_def list_all2_iff by (fastforce dest: set_zip_leftD split: sval.splits)

lemma same_vals:
  assumes "same_store f ss st" "svals ss as = Some rs"
  obtains xs where "vals st as = Some xs" "refs xs = map f rs"
  using assms(2)
proof (induction as arbitrary: rs thesis)
  case (Cons a as)
  then obtain p q where pq: "sval_of ss a = Some p" "svals ss as = Some q" "rs = p @ q" by (auto split: option.splits)
  obtain xs where xs: "vals st as = Some xs" "refs xs = map f q" using Cons.IH pq(2) by blast
  show ?case
  proof (cases a)
    case (V v)
    then show ?thesis using pq xs same_store_map_of [OF assms(1), of v] by (intro Cons.prems(1) [of "the (val_of st a) # xs"])
      (auto split: option.splits sval.splits)
  next
    case (C t)
    then show ?thesis using pq xs by (intro Cons.prems(1) [of "S t # xs"]) auto
  qed
qed simp

lemma gui_of_snoc: "gui_of (tr @ [(c, r)]) = Option.bind (gui_of tr) (tell (fn c) (refs (args c)) (ret r))"
  by (simp add: gui_of_def)

lemma sim_storeE:
  assumes "sim (ss, g, n) st tr" "svals ss as = Some rs"
  obtains f xs where "inj f" "same_store f ss st" "gui_of tr = Some (map_gui f g)" "keys g \<subseteq> set (objs g)"
    "\<forall>v k. (v, Ref k) \<in> set ss \<longrightarrow> k \<in> set (objs g)" "\<forall>k \<in> set (objs g). k < n" "vals st as = Some xs" "refs xs = map f rs"
proof -
  obtain f where f: "inj f" "same_store f ss st" "gui_of tr = Some (map_gui f g)" using assms(1) by (auto simp: sim_def)
  moreover obtain xs where "vals st as = Some xs" "refs xs = map f rs" using same_vals [OF f(2) assms(2)] by blast
  ultimately show thesis using assms(1) by (intro that) (simp_all add: sim_def)
qed

lemma update_set: "(u, x) \<in> set (AList.update v y ss) \<Longrightarrow> u = v \<and> x = y \<or> (u, x) \<in> set ss"
  by (induction ss) (auto split: if_splits)

lemma svals_bound:
  assumes "svals ss as = Some rs" "\<forall>v k. (v, Ref k) \<in> set ss \<longrightarrow> k \<in> K"
  shows "set rs \<subseteq> K"
  using assms(1)
proof (induction as arbitrary: rs)
  case (Cons a as)
  then obtain p q where pq: "sval_of ss a = Some p" "svals ss as = Some q" "rs = p @ q" by (auto split: option.splits)
  moreover have "set p \<subseteq> K" using pq(1) assms(2) by (cases a) (auto split: option.splits sval.splits dest!: map_of_SomeD)
  ultimately show ?case using Cons.IH by auto
qed simp

lemma tell_result_unused: "\<not> makes (role h) \<Longrightarrow> tell h rs r g = tell h rs r' g"
  by (auto simp: tell_def makes_def split: role.splits)

lemma place_all_objs: "place_all p cs g = Some g' \<Longrightarrow> objs g' = objs g"
  by (induction cs arbitrary: g) (fastforce simp: bind_eq_Some_conv place_def split: if_splits)+

lemma tell_objs: "tell h rs r g = Some g' \<Longrightarrow> objs g' = (if makes (role h) then r # objs g else objs g)"
  by (auto simp: tell_def makes_def create_def place_def ask_def expose_def bind_eq_Some_conv dest!: place_all_objs
      split: role.splits list.splits if_splits)

text \<open>A statement keeps the relation between the run on numbers and the run in a toolkit.\<close>

lemma sim_Set:
  assumes "new_objects env" "sym_stmt (Set v h as) (ss, g, n) = Some (ss', g', n')" "sim (ss, g, n) st tr"
  shows "\<exists>st' tr'. run_stmt (Set v h as) st env tr = (tr', Ok st') \<and> sim (ss', g', n') st' tr'"
proof -
  obtain rs where s: "makes (role h)" "svals ss as = Some rs" "tell h rs n g = Some g'" "ss' = AList.update v (Ref n) ss" "n' = n + 1"
    using assms(2) by (auto simp: bind_eq_Some_conv split: if_splits)
  from assms(3) s(2) obtain f xs where f: "inj f" "same_store f ss st" "gui_of tr = Some (map_gui f g)" "keys g \<subseteq> set (objs g)"
    "\<forall>v k. (v, Ref k) \<in> set ss \<longrightarrow> k \<in> set (objs g)" "\<forall>k \<in> set (objs g). k < n" "vals st as = Some xs" "refs xs = map f rs"
    by (rule sim_storeE)
  let ?c = "Call h xs"
  let ?r = "ret (env tr ?c)"
  have "new_call h rs g" using s(1,3) by (auto simp: tell_def makes_def new_call_def ask_def bind_eq_Some_conv split: role.splits list.splits if_splits)
  then have "new_call h (map f rs) (map_gui f g)"
    using f(1) by (auto simp: new_call_def map_prod_def dest: injD [OF inj_mapI] split: role.splits)
  then have "?r \<notin> set (objs (map_gui f g))"
    using assms(1) [unfolded new_objects_def, rule_format, of tr "map_gui f g" ?c] f(3,8) by simp
  then have "?r \<notin> f ` set (objs g)" by simp
  then obtain f' where f': "inj f'" "\<And>k. k \<in> set (objs g) \<Longrightarrow> f' k = f k" "f' n = ?r"
    using inj_extend [of f ?r "set (objs g)" n] f(1,6) by blast
  have b: "set rs \<subseteq> set (objs g)" by (rule svals_bound [OF s(2) f(5)])
  have g: "gui_of tr = Some (map_gui f' g)" using f(3,4) f'(2) map_gui_keys [of g f f'] by (metis subsetD)
  have "refs xs = map f' rs" using f(8) b f'(2) by (simp add: subset_iff)
  then have "gui_of (tr @ [(?c, env tr ?c)]) = Some (map_gui f' g')"
    using g s(3) tell_rename [OF f'(1), of h rs n g] f'(3) by (simp add: gui_of_snoc)
  moreover have "same_store f' ss st" using f(2,5) f'(2) by (blast intro: same_store_cong)
  then have "same_store f' ss' (AList.update v (I ?r) st)" unfolding s(4) using f'(3) by (simp add: same_store_update)
  moreover have "keys g' \<subseteq> set (objs g')" using keys_tell [OF s(3)] tell_objs [OF s(3)] s(1) f(4) b by auto
  moreover have "\<forall>u k. (u, Ref k) \<in> set ss' \<longrightarrow> k \<in> set (objs g')" "\<forall>k \<in> set (objs g'). k < n'"
    using tell_objs [OF s(3)] s(1,4,5) f(5,6) by (auto dest!: update_set)
  ultimately have "sim (ss', g', n') (AList.update v (I ?r) st) (tr @ [(?c, env tr ?c)])" using f'(1) by (auto simp: sim_def)
  then show ?thesis using f(7) by (auto simp: with_vals_def bind_calls io_eval)
qed

lemma plain_tell: "role h = Plain \<Longrightarrow> tell h rs r g = Some g"
  by (simp add: tell_def)

lemma sim_Get:
  assumes "sym_stmt (Get v h as) (ss, g, n) = Some (ss', g', n')" "sim (ss, g, n) st tr"
  shows "\<exists>st' tr'. run_stmt (Get v h as) st env tr = (tr', Ok st') \<and> sim (ss', g', n') st' tr'"
proof -
  obtain rs where s: "role h = Plain" "svals ss as = Some rs" "ss' = AList.update v Txt ss" "g' = g" "n' = n"
    using assms(1) by (auto simp: bind_eq_Some_conv split: if_splits)
  from assms(2) s(2) obtain f xs where f: "inj f" "same_store f ss st" "gui_of tr = Some (map_gui f g)" "keys g \<subseteq> set (objs g)"
    "\<forall>v k. (v, Ref k) \<in> set ss \<longrightarrow> k \<in> set (objs g)" "\<forall>k \<in> set (objs g). k < n" "vals st as = Some xs" "refs xs = map f rs"
    by (rule sim_storeE)
  let ?c = "Call h xs"
  have "same_store f ss' (AList.update v (S (data (env tr ?c))) st)" unfolding s(3) using f(2) by (simp add: same_store_update)
  moreover have "gui_of (tr @ [(?c, env tr ?c)]) = Some (map_gui f g)" using f(3) s(1) by (simp add: gui_of_snoc plain_tell)
  moreover have "\<forall>u k. (u, Ref k) \<in> set ss' \<longrightarrow> k \<in> set (objs g)" using f(5) s(3) by (auto dest!: update_set)
  ultimately have "sim (ss', g', n') (AList.update v (S (data (env tr ?c))) st) (tr @ [(?c, env tr ?c)])"
    using f(1,4,6) s(4,5) by (auto simp: sim_def)
  then show ?thesis using f(7) by (auto simp: with_vals_def bind_calls io_eval)
qed

lemma sim_Do:
  assumes "sym_stmt (Do h as) (ss, g, n) = Some (ss', g', n')" "sim (ss, g, n) st tr"
  shows "\<exists>st' tr'. run_stmt (Do h as) st env tr = (tr', Ok st') \<and> sim (ss', g', n') st' tr'"
proof -
  obtain rs where s: "\<not> makes (role h)" "svals ss as = Some rs" "tell h rs 0 g = Some g'" "ss' = ss" "n' = n"
    using assms(1) by (auto simp: bind_eq_Some_conv split: if_splits)
  from assms(2) s(2) obtain f xs where f: "inj f" "same_store f ss st" "gui_of tr = Some (map_gui f g)" "keys g \<subseteq> set (objs g)"
    "\<forall>v k. (v, Ref k) \<in> set ss \<longrightarrow> k \<in> set (objs g)" "\<forall>k \<in> set (objs g). k < n" "vals st as = Some xs" "refs xs = map f rs"
    by (rule sim_storeE)
  let ?c = "Call h xs"
  have "tell h (map f rs) (ret (env tr ?c)) (map_gui f g) = Some (map_gui f g')"
    using tell_rename [OF f(1), of h rs 0 g] s(3) tell_result_unused [OF s(1), of "map f rs" "ret (env tr ?c)" "map_gui f g" "f 0"] by simp
  then have "gui_of (tr @ [(?c, env tr ?c)]) = Some (map_gui f g')" using f(3,8) by (simp add: gui_of_snoc)
  moreover have "keys g' \<subseteq> set (objs g')" "objs g' = objs g"
    using keys_tell [OF s(3)] tell_objs [OF s(3)] s(1) f(4) svals_bound [OF s(2) f(5)] by auto
  ultimately have "sim (ss', g', n') st (tr @ [(?c, env tr ?c)])" using f(1,2,5,6) s(4,5) by (auto simp: sim_def)
  then show ?thesis using f(7) by (auto simp: with_vals_def bind_calls io_eval)
qed

lemma sim_stmt:
  assumes "new_objects env" "sym_stmt x s = Some s'" "sim s st tr"
  shows "\<exists>st' tr'. run_stmt x st env tr = (tr', Ok st') \<and> sim s' st' tr'"
proof -
  obtain ss g n ss' g' n' where s: "s = (ss, g, n)" "s' = (ss', g', n')" by (metis prod_cases3)
  show ?thesis
  proof (cases x)
    case (Set v h as)
    then show ?thesis using sim_Set [of env v h as ss g n ss' g' n' st tr] assms s by simp
  next
    case (Get v h as)
    then show ?thesis using sim_Get [of v h as ss g n ss' g' n' st tr env] assms s by simp
  next
    case (Do h as)
    then show ?thesis using sim_Do [of h as ss g n ss' g' n' st tr env] assms s by simp
  qed
qed

lemma sim_run:
  assumes "new_objects env" "sym_run xs s = Some s'" "sim s st tr"
  shows "\<exists>st' tr'. run xs st env tr = (tr', Ok st') \<and> sim s' st' tr'"
  using assms(2,3)
proof (induction xs arbitrary: s st tr)
  case (Cons x xs)
  then obtain s1 where s1: "sym_stmt x s = Some s1" "sym_run xs s1 = Some s'" by (auto simp: bind_eq_Some_conv)
  from sim_stmt [OF assms(1) s1(1) Cons.prems(2)] obtain st1 tr1 where
    r: "run_stmt x st env tr = (tr1, Ok st1)" "sim s1 st1 tr1" by blast
  from Cons.IH [OF s1(2) r(2)] r(1) show ?case by (auto simp: run_def bind_Ok)
qed (simp add: run_def io_eval)

text \<open>A widget appears when it and everything around it is shown, up to a toplevel window.\<close>

inductive appears :: "'i gui \<Rightarrow> 'i \<Rightarrow> bool" for g where
  toplevel: "w \<in> set (tops g) \<Longrightarrow> w \<in> set (vis g) \<Longrightarrow> appears g w"
| inside: "map_of (par g) w = Some p \<Longrightarrow> appears g p \<Longrightarrow> w \<in> set (vis g) \<Longrightarrow> appears g w"

definition parents_ok :: "'i gui \<Rightarrow> bool" where
  "parents_ok g \<longleftrightarrow> (\<forall>(c, p) \<in> set (par g). p \<in> set (wids g))"

lemma place_all_par:
  "place_all p cs g = Some g' \<Longrightarrow> parents_ok g \<Longrightarrow> parents_ok g' \<and> wids g' = wids g"
proof (induction cs arbitrary: g)
  case (Cons c cs)
  then obtain g1 where g1: "place p c g = Some g1" "place_all p cs g1 = Some g'" by (auto simp: bind_eq_Some_conv)
  then have "parents_ok g1" "wids g1 = wids g" using Cons.prems(2) by (auto simp: place_def parents_ok_def split: if_splits)
  with Cons.IH [OF g1(2)] show ?case by simp
qed simp

lemma tell_par: "tell h rs r g = Some g' \<Longrightarrow> parents_ok g \<Longrightarrow> parents_ok g'"
  by (auto simp: parents_ok_def tell_def makes_def create_def place_def ask_def expose_def bind_eq_Some_conv
      dest!: place_all_par [unfolded parents_ok_def] split: role.splits list.splits if_splits)

lemma gui_of_par: "gui_of t = Some g \<Longrightarrow> parents_ok g"
proof (induction t arbitrary: g rule: rev_induct)
  case (snoc e t)
  obtain c r where e: "e = (c, r)" by (cases e)
  with snoc.prems obtain g1 where "gui_of t = Some g1" "tell (fn c) (refs (args c)) (ret r) g1 = Some g"
    by (auto simp: gui_of_snoc bind_eq_Some_conv)
  then show ?case using tell_par [OF _ snoc.IH] by simp
qed (simp add: gui_of_def no_gui_def parents_ok_def)

lemma no_strays_appear:
  assumes "gui_of t = Some g" "strays g = []" "w \<in> set (wids g)"
  shows "appears g w"
proof -
  have st: "v \<in> set (vis g)" "last (above g v) \<in> set (tops g)" if "v \<in> set (wids g)" for v
    using assms(2) that by (auto simp: strays_def filter_empty_conv)
  have "appears g v" if "v \<in> set (wids g)" "last (chain n (par g) v) \<in> set (tops g)" for n v
    using that
  proof (induction n arbitrary: v)
    case (Suc n)
    show ?case
    proof (cases "map_of (par g) v")
      case (Some p)
      then have p: "p \<in> set (wids g)" using gui_of_par [OF assms(1)] by (fastforce simp: parents_ok_def dest: map_of_SomeD)
      have "chain n (par g) p \<noteq> []" by (cases n) auto
      with Suc.prems(2) Some have "last (chain n (par g) p) \<in> set (tops g)" by simp
      with Suc.IH p Some st(1) Suc.prems(1) show ?thesis by (blast intro: appears.inside)
    qed (use Suc.prems st in \<open>auto intro: appears.toplevel\<close>)
  qed (use st in \<open>auto intro: appears.toplevel\<close>)
  then show ?thesis using assms(3) st(2) by (auto simp: above_def)
qed

lemma run_window_strays:
  assumes "new_objects env" "outcome xs = Some (ws, k)"
  shows "\<exists>t st g f. run xs [] env [] = (t, Ok st) \<and> gui_of t = Some g \<and> inj f \<and> strays g = map f ws \<and> loops g = k"
proof -
  obtain ss g n where s: "sym_run xs ([], no_gui, 1) = Some (ss, g, n)" "ws = strays g" "k = loops g"
    using assms(2) by (auto simp: outcome_def)
  have "gui_of [] = Some (map_gui id no_gui)" by (simp add: gui_of_def no_gui_def)
  then have "sim ([], no_gui, 1) [] []" by (auto simp: sim_def same_store_def no_gui_def keys_def intro!: exI [of _ id])
  from sim_run [OF assms(1) s(1) this] obtain t st where r: "run xs [] env [] = (t, Ok st)" "sim (ss, g, n) st t" by blast
  then obtain f where "inj f" "gui_of t = Some (map_gui f g)" by (auto simp: sim_def)
  with r(1) s(2,3) strays_rename show ?thesis by fastforce
qed

text \<open>
  A program whose run on numbers has no strays shows all its widgets in every toolkit and
  enters the main loop once.
\<close>

lemma run_window:
  assumes "outcome xs = Some ([], 1)" "new_objects env"
  shows "\<exists>t g. main_of xs env [] = (t, Ok 0) \<and> gui_of t = Some g \<and> (\<forall>w \<in> set (wids g). appears g w) \<and> loops g = 1"
proof -
  obtain t st g where "run xs [] env [] = (t, Ok st)" "gui_of t = Some g" "strays g = []" "loops g = 1"
    using run_window_strays [OF assms(2,1)] by auto
  then show ?thesis using no_strays_appear by (fastforce simp: main_of_def bind_Ok io_eval)
qed

text \<open>A toolkit that numbers its objects.\<close>

definition numbering :: env where
  "numbering tr c = \<lparr>ret = (case gui_of tr of None \<Rightarrow> 0 | Some g \<Rightarrow> fold max (objs g) 0 + 1), data = [], errno = 0\<rparr>"

lemma fold_max_ge: "m \<le> fold max xs (m :: int) \<and> (\<forall>x \<in> set xs. x \<le> fold max xs m)"
  by (induction xs arbitrary: m) (auto, (meson max.cobounded1 max.cobounded2 order_trans)+)

lemma numbering_new: "new_objects numbering"
proof -
  have "fold max (objs g) 0 + 1 \<notin> set (objs g)" for g :: "int gui" using fold_max_ge [of 0 "objs g"] by force
  then show ?thesis by (simp add: new_objects_def numbering_def)
qed

end
