(* ===== verification/GtkWindows.thy ===== *)
theory GtkWindows
  imports Gtk
begin

text \<open>
  The windows of \<^verbatim>\<open>src/cpp/gtk\<close> that have few controls.  The statements of a \<^verbatim>\<open>main\<close> keep the order and the
  variables of the source; a \<^verbatim>\<open>for\<close> loop over literals is a \<open>concat\<close> of its passes, and a text
  that \<^verbatim>\<open>sprintf\<close> writes to a local buffer is written where it is used (all of them are shorter than
  their buffers).  The callbacks follow, then what they do.
\<close>

section \<open>Windows with a few widgets\<close>

definition hello_main :: "stmt list" where
  "hello_main = [
     Do ''gtk_init'' [C ''&argc'', C ''&argv''],
     Set ''window'' ''gtk_window_new'' [C ''GTK_WINDOW_TOPLEVEL''],
     Do ''g_signal_connect'' [V ''window'', C ''destroy'', C ''destroy'', C ''NULL''],
     Do ''g_signal_connect'' [V ''window'', C ''delete-event'', C ''delete_event'', C ''NULL''],
     Do ''gtk_window_set_title'' [V ''window'', C ''Hello windows''],
     Do ''gtk_window_set_default_size'' [V ''window'', C ''200'', C ''100''],
     Do ''gtk_container_set_border_width'' [V ''window'', C ''5''],
     Set ''box1'' ''gtk_hbox_new'' [C ''FALSE'', C ''0''],
     Do ''gtk_container_add'' [V ''window'', V ''box1''],
     Set ''button'' ''gtk_button_new_with_label'' [C ''button1''],
     Do ''g_signal_connect'' [V ''button'', C ''clicked'', C ''callback'', C ''button 1''],
     Do ''gtk_box_pack_start'' [V ''box1'', V ''button'', C ''TRUE'', C ''TRUE'', C ''0''],
     Do ''gtk_widget_show_all'' [V ''window''],
     Do ''gtk_main'' []]"

definition box_main :: "stmt list" where
  "box_main = [
     Do ''gtk_init'' [C ''&argc'', C ''&argv''],
     Set ''window'' ''gtk_window_new'' [C ''GTK_WINDOW_TOPLEVEL''],
     Do ''gtk_window_set_title'' [V ''window'', C ''Hello box!''],
     Do ''g_signal_connect'' [V ''window'', C ''delete-event'', C ''delete_event'', C ''NULL''],
     Do ''gtk_container_set_border_width'' [V ''window'', C ''20''],
     Set ''box1'' ''gtk_hbox_new'' [C ''FALSE'', C ''0''],
     Do ''gtk_container_add'' [V ''window'', V ''box1''],
     Set ''button'' ''gtk_button_new_with_label'' [C ''Button 1''],
     Do ''g_signal_connect'' [V ''button'', C ''clicked'', C ''callback'', C ''button 1''],
     Do ''gtk_box_pack_start'' [V ''box1'', V ''button'', C ''FALSE'', C ''TRUE'', C ''1''],
     Do ''gtk_widget_show'' [V ''button''],
     Set ''button'' ''gtk_button_new_with_label'' [C ''Button 2''],
     Do ''g_signal_connect'' [V ''button'', C ''clicked'', C ''callback'', C ''button 2''],
     Do ''gtk_box_pack_start'' [V ''box1'', V ''button'', C ''FALSE'', C ''TRUE'', C ''1''],
     Do ''gtk_widget_show'' [V ''button''],
     Do ''gtk_widget_show'' [V ''box1''],
     Do ''gtk_widget_show'' [V ''window''],
     Do ''gtk_main'' []]"

definition table_main :: "stmt list" where
  "table_main = [
     Do ''gtk_init'' [C ''&argc'', C ''&argv''],
     Set ''window'' ''gtk_window_new'' [C ''GTK_WINDOW_TOPLEVEL''],
     Do ''gtk_window_set_title'' [V ''window'', C ''Table''],
     Do ''g_signal_connect'' [V ''window'', C ''delete-event'', C ''delete_event'', C ''NULL''],
     Do ''gtk_container_set_border_width'' [V ''window'', C ''20''],
     Set ''table'' ''gtk_table_new'' [C ''2'', C ''2'', C ''TRUE''],
     Do ''gtk_container_add'' [V ''window'', V ''table''],
     Set ''button'' ''gtk_button_new_with_label'' [C ''button 1''],
     Do ''g_signal_connect'' [V ''button'', C ''clicked'', C ''callback'', C ''button 1''],
     Do ''gtk_table_attach_defaults'' [V ''table'', V ''button'', C ''0'', C ''1'', C ''0'', C ''1''],
     Do ''gtk_widget_show'' [V ''button''],
     Set ''button'' ''gtk_button_new_with_label'' [C ''button 2''],
     Do ''g_signal_connect'' [V ''button'', C ''clicked'', C ''callback'', C ''button 2''],
     Do ''gtk_table_attach_defaults'' [V ''table'', V ''button'', C ''1'', C ''2'', C ''0'', C ''1''],
     Do ''gtk_widget_show'' [V ''button''],
     Set ''button'' ''gtk_button_new_with_label'' [C ''Quit''],
     Do ''g_signal_connect'' [V ''button'', C ''clicked'', C ''delete_event'', C ''NULL''],
     Do ''gtk_table_attach_defaults'' [V ''table'', V ''button'', C ''0'', C ''2'', C ''1'', C ''2''],
     Do ''gtk_widget_show'' [V ''button''],
     Do ''gtk_widget_show'' [V ''table''],
     Do ''gtk_widget_show'' [V ''window''],
     Do ''gtk_main'' []]"

definition frame_main :: "stmt list" where
  "frame_main = [
     Do ''gtk_init'' [C ''&argc'', C ''&argv''],
     Set ''window'' ''gtk_window_new'' [C ''GTK_WINDOW_TOPLEVEL''],
     Do ''gtk_window_set_title'' [V ''window'', C ''My Frame''],
     Do ''g_signal_connect'' [V ''window'', C ''destroy'', C ''gtk_main_quit'', C ''NULL''],
     Do ''gtk_widget_set_size_request'' [V ''window'', C ''400'', C ''300''],
     Do ''gtk_container_set_border_width'' [V ''window'', C ''5''],
     Set ''frame'' ''gtk_frame_new'' [C ''NULL''],
     Do ''gtk_container_add'' [V ''window'', V ''frame''],
     Do ''gtk_frame_set_label'' [V ''frame'', C ''GTK Frame Widget''],
     Do ''gtk_frame_set_label_align'' [V ''frame'', C ''1.0'', C ''0.0''],
     Do ''gtk_frame_set_shadow_type'' [V ''frame'', C ''GTK_SHADOW_ETCHED_OUT''],
     Do ''gtk_widget_show'' [V ''frame''],
     Do ''gtk_widget_show'' [V ''window''],
     Do ''gtk_main'' []]"

definition aspect_main :: "stmt list" where
  "aspect_main = [
     Do ''gtk_init'' [C ''&argc'', C ''&argv''],
     Set ''window'' ''gtk_window_new'' [C ''GTK_WINDOW_TOPLEVEL''],
     Do ''gtk_window_set_title'' [V ''window'', C ''Aspect Frame''],
     Do ''g_signal_connect'' [V ''window'', C ''destroy'', C ''gtk_main_quit'', C ''NULL''],
     Do ''gtk_container_set_border_width'' [V ''window'', C ''10''],
     Set ''aspect_frame'' ''gtk_aspect_frame_new'' [C ''2x1'', C ''0.5'', C ''1.5'', C ''2'', C ''FALSE''],
     Do ''gtk_container_add'' [V ''window'', V ''aspect_frame''],
     Do ''gtk_widget_show'' [V ''aspect_frame''],
     Set ''drawing_area'' ''gtk_drawing_area_new'' [],
     Do ''gtk_widget_set_size_request'' [V ''drawing_area'', C ''200'', C ''200''],
     Do ''gtk_container_add'' [V ''aspect_frame'', V ''drawing_area''],
     Do ''gtk_widget_show'' [V ''drawing_area''],
     Do ''gtk_widget_show'' [V ''window''],
     Do ''gtk_main'' []]"

definition tooltips_main :: "stmt list" where
  "tooltips_main = [
     Do ''gtk_init'' [C ''&argc'', C ''&argv''],
     Set ''window'' ''gtk_window_new'' [C ''GTK_WINDOW_TOPLEVEL''],
     Do ''gtk_window_set_title'' [V ''window'', C ''Arrow Buttons''],
     Do ''g_signal_connect'' [V ''window'', C ''destroy'', C ''gtk_main_quit'', C ''NULL''],
     Do ''gtk_container_set_border_width'' [V ''window'', C ''10''],
     Set ''tooltips'' ''gtk_tooltips_new'' [],
     Set ''button'' ''gtk_button_new_with_label'' [C ''button 1''],
     Do ''gtk_tooltips_set_tip'' [V ''tooltips'', V ''button'', C ''This is button 1, You can click it'', C ''NULL''],
     Do ''gtk_container_add'' [V ''window'', V ''button''],
     Do ''gtk_widget_show_all'' [V ''window''],
     Do ''gtk_main'' []]"

definition fixed_button_main :: "stmt list" where
  "fixed_button_main = [
     Do ''gtk_init'' [C ''&argc'', C ''&argv''],
     Set ''window'' ''gtk_window_new'' [C ''GTK_WINDOW_TOPLEVEL''],
     Do ''gtk_window_set_default_size'' [V ''window'', C ''800'', C ''600''],
     Set ''fixed'' ''gtk_fixed_new'' [],
     Set ''button1'' ''gtk_button_new_with_label'' [C ''Tom''],
     Set ''button2'' ''gtk_button_new_with_label'' [C ''Jerry''],
     Do ''g_signal_connect'' [V ''window'', C ''destroy'', C ''gtk_main_quit'', C ''NULL''],
     Do ''g_signal_connect'' [V ''button1'', C ''clicked'', C ''on_button_clicked'', C ''Tom''],
     Do ''g_signal_connect'' [V ''button2'', C ''clicked'', C ''on_button_clicked'', C ''Jerry''],
     Do ''gtk_container_add'' [V ''window'', V ''fixed''],
     Do ''gtk_fixed_put'' [V ''fixed'', V ''button1'', C ''0'', C ''300''],
     Do ''gtk_fixed_put'' [V ''fixed'', V ''button2'', C ''400'', C ''300''],
     Do ''gtk_widget_show_all'' [V ''window''],
     Do ''gtk_main'' []]"

text \<open>\<^verbatim>\<open>gtk_alignment.c\<close> makes an alignment that it puts nowhere.\<close>

definition alignment_main :: "stmt list" where
  "alignment_main = [
     Do ''gtk_init'' [C ''&argc'', C ''&argv''],
     Set ''window'' ''gtk_window_new'' [C ''GTK_WINDOW_TOPLEVEL''],
     Do ''g_signal_connect'' [V ''window'', C ''destroy'', C ''destroy'', C ''NULL''],
     Do ''g_signal_connect'' [V ''window'', C ''delete-event'', C ''delete_event'', C ''NULL''],
     Do ''gtk_window_set_title'' [V ''window'', C ''Hello windows''],
     Do ''gtk_container_set_border_width'' [V ''window'', C ''5''],
     Set ''box1'' ''gtk_hbox_new'' [C ''FALSE'', C ''0''],
     Do ''gtk_container_add'' [V ''window'', V ''box1''],
     Set ''button'' ''gtk_button_new_with_label'' [C ''button1''],
     Do ''gtk_widget_set_size_request'' [V ''button'', C ''200'', C ''30''],
     Set ''align'' ''gtk_alignment_new'' [C ''0.5'', C ''0.5'', C ''0.5'', C ''0.5''],
     Do ''g_signal_connect'' [V ''button'', C ''clicked'', C ''callback'', C ''button 1''],
     Do ''gtk_box_pack_start'' [V ''box1'', V ''button'', C ''TRUE'', C ''TRUE'', C ''0''],
     Do ''gtk_widget_show_all'' [V ''window''],
     Do ''gtk_main'' []]"

definition file_selection_main :: "stmt list" where
  "file_selection_main = [
     Do ''gtk_init'' [C ''&argc'', C ''&argv''],
     Set ''filew'' ''gtk_file_selection_new'' [C ''select file''],
     Do ''g_signal_connect'' [V ''filew'', C ''destroy'', C ''gtk_main_quit'', C ''NULL''],
     Set ''filew->ok_button'' ''GTK_FILE_SELECTION->ok_button'' [V ''filew''],
     Do ''g_signal_connect'' [V ''filew->ok_button'', C ''clicked'', C ''file_ok_sel'', V ''filew''],
     Set ''filew->cancel_button'' ''GTK_FILE_SELECTION->cancel_button'' [V ''filew''],
     Do ''g_signal_connect_swapped'' [V ''filew->cancel_button'', C ''clicked'', C ''gtk_widget_destroy'', V ''filew''],
     Do ''gtk_file_selection_set_filename'' [V ''filew'', C ''testme.png''],
     Do ''gtk_widget_show'' [V ''filew''],
     Do ''gtk_main'' []]"

definition event_box_main :: "stmt list" where
  "event_box_main = [
     Do ''gtk_init'' [C ''&argc'', C ''&argv''],
     Set ''window'' ''gtk_window_new'' [C ''GTK_WINDOW_TOPLEVEL''],
     Do ''gtk_window_set_title'' [V ''window'', C ''Event Box''],
     Do ''g_signal_connect'' [V ''window'', C ''destroy'', C ''exit'', C ''NULL''],
     Do ''gtk_container_set_border_width'' [V ''window'', C ''10''],
     Set ''event_box'' ''gtk_event_box_new'' [],
     Do ''gtk_container_add'' [V ''window'', V ''event_box''],
     Do ''gtk_widget_show'' [V ''event_box''],
     Set ''label'' ''gtk_label_new'' [C ''Click here to quit, quit, quit, quit, quit''],
     Do ''gtk_container_add'' [V ''event_box'', V ''label''],
     Do ''gtk_widget_show'' [V ''label''],
     Do ''gtk_widget_set_size_request'' [V ''label'', C ''200'', C ''50''],
     Do ''gtk_widget_set_events'' [V ''event_box'', C ''GDK_BUTTON_PRESS_MASK''],
     Do ''g_signal_connect'' [V ''event_box'', C ''button_press_event'', C ''exit'', C ''NULL''],
     Do ''gtk_widget_realize'' [V ''event_box''],
     Get ''event_box->window'' ''GtkWidget->window'' [V ''event_box''],
     Set ''cursor'' ''gdk_cursor_new'' [C ''GDK_HAND1''],
     Do ''gdk_window_set_cursor'' [V ''event_box->window'', V ''cursor''],
     Do ''gtk_widget_show'' [V ''window''],
     Do ''gtk_main'' []]"

definition ruler_main :: "stmt list" where
  "ruler_main = [
     Do ''gtk_init'' [C ''&argc'', C ''&argv''],
     Set ''window'' ''gtk_window_new'' [C ''GTK_WINDOW_TOPLEVEL''],
     Do ''g_signal_connect'' [V ''window'', C ''delete-event'', C ''close_application'', C ''NULL''],
     Do ''gtk_container_set_border_width'' [V ''window'', C ''10''],
     Set ''table'' ''gtk_table_new'' [C ''3'', C ''2'', C ''FALSE''],
     Do ''gtk_container_add'' [V ''window'', V ''table''],
     Set ''area'' ''gtk_drawing_area_new'' [],
     Do ''gtk_widget_set_size_request'' [V ''area'', C ''XSIZE'', C ''YSIZE''],
     Do ''gtk_table_attach'' [V ''table'', V ''area'', C ''1'', C ''2'', C ''1'', C ''2'', C ''GTK_EXPAND|GTK_FILL'', C ''GTK_FILL'', C ''0'', C ''0''],
     Do ''gtk_widget_set_events'' [V ''area'', C ''GDK_POINTER_MOTION_MASK | GDK_POINTER_MOTION_HINT_MASK''],
     Set ''hrule'' ''gtk_hruler_new'' [],
     Do ''gtk_ruler_set_metric'' [V ''hrule'', C ''GTK_PIXELS''],
     Do ''gtk_ruler_set_range'' [V ''hrule'', C ''7'', C ''13'', C ''0'', C ''20''],
     Do ''g_signal_connect_swapped'' [V ''area'', C ''motion_notify_event'', C ''GTK_WIDGET_GET_CLASS(hrule)->motion_notify_event'', V ''hrule''],
     Do ''gtk_table_attach'' [V ''table'', V ''hrule'', C ''1'', C ''2'', C ''0'', C ''1'', C ''GTK_EXPAND|GTK_SHRINK|GTK_FILL'', C ''GTK_FILL'', C ''0'', C ''0''],
     Set ''vrule'' ''gtk_vruler_new'' [],
     Do ''gtk_ruler_set_metric'' [V ''vrule'', C ''GTK_PIXELS''],
     Do ''gtk_ruler_set_range'' [V ''vrule'', C ''0'', C ''YSIZE'', C ''10'', C ''YSIZE''],
     Do ''g_signal_connect_swapped'' [V ''area'', C ''motion_notify_event'', C ''GTK_WIDGET_GET_CLASS(vrule)->motion_notify_event'', V ''vrule''],
     Do ''gtk_table_attach'' [V ''table'', V ''vrule'', C ''0'', C ''1'', C ''1'', C ''2'', C ''GTK_FILL'', C ''GTK_EXPAND|GTK_SHRINK|GTK_FILL'', C ''0'', C ''0''],
     Do ''gtk_widget_show'' [V ''area''],
     Do ''gtk_widget_show'' [V ''hrule''],
     Do ''gtk_widget_show'' [V ''vrule''],
     Do ''gtk_widget_show'' [V ''table''],
     Do ''gtk_widget_show'' [V ''window''],
     Do ''gtk_main'' []]"

definition radio_main :: "stmt list" where
  "radio_main = [
     Do ''gtk_init'' [C ''&argc'', C ''&argv''],
     Set ''window'' ''gtk_window_new'' [C ''GTK_WINDOW_TOPLEVEL''],
     Do ''g_signal_connect'' [V ''window'', C ''delete-event'', C ''close_application'', C ''NULL''],
     Do ''gtk_window_set_title'' [V ''window'', C ''radio buttons''],
     Do ''gtk_container_set_border_width'' [V ''window'', C ''0''],
     Set ''box1'' ''gtk_vbox_new'' [C ''FALSE'', C ''0''],
     Do ''gtk_container_add'' [V ''window'', V ''box1''],
     Do ''gtk_widget_show'' [V ''box1''],
     Set ''box2'' ''gtk_vbox_new'' [C ''FALSE'', C ''10''],
     Do ''gtk_container_set_border_width'' [V ''box2'', C ''10''],
     Do ''gtk_box_pack_start'' [V ''box1'', V ''box2'', C ''TRUE'', C ''TRUE'', C ''0''],
     Do ''gtk_widget_show'' [V ''box2''],
     Set ''button'' ''gtk_radio_button_new_with_label'' [C ''NULL'', C ''button1''],
     Do ''gtk_box_pack_start'' [V ''box2'', V ''button'', C ''TRUE'', C ''TRUE'', C ''0''],
     Do ''gtk_widget_show'' [V ''button''],
     Get ''group'' ''gtk_radio_button_get_group'' [V ''button''],
     Set ''button'' ''gtk_radio_button_new_with_label'' [V ''group'', C ''button2''],
     Do ''gtk_toggle_button_set_active'' [V ''button'', C ''TRUE''],
     Do ''gtk_box_pack_start'' [V ''box2'', V ''button'', C ''TRUE'', C ''TRUE'', C ''0''],
     Do ''gtk_widget_show'' [V ''button''],
     Set ''button'' ''gtk_radio_button_new_with_label_from_widget'' [V ''button'', C ''button3''],
     Do ''gtk_box_pack_start'' [V ''box2'', V ''button'', C ''TRUE'', C ''TRUE'', C ''0''],
     Do ''gtk_widget_show'' [V ''button''],
     Set ''separator'' ''gtk_hseparator_new'' [],
     Do ''gtk_box_pack_start'' [V ''box1'', V ''separator'', C ''FALSE'', C ''TRUE'', C ''0''],
     Do ''gtk_widget_show'' [V ''separator''],
     Set ''box2'' ''gtk_vbox_new'' [C ''FALSE'', C ''10''],
     Do ''gtk_container_set_border_width'' [V ''box2'', C ''10''],
     Do ''gtk_box_pack_start'' [V ''box1'', V ''box2'', C ''FALSE'', C ''TRUE'', C ''0''],
     Do ''gtk_widget_show'' [V ''box2''],
     Set ''button'' ''gtk_button_new_with_label'' [C ''close''],
     Do ''g_signal_connect_swapped'' [V ''button'', C ''clicked'', C ''close_application'', V ''window''],
     Do ''gtk_box_pack_start'' [V ''box2'', V ''button'', C ''TRUE'', C ''TRUE'', C ''0''],
     Do ''gtk_widget_set_can_default'' [V ''button'', C ''TRUE''],
     Do ''gtk_widget_grab_default'' [V ''button''],
     Do ''gtk_widget_show'' [V ''button''],
     Do ''gtk_widget_show'' [V ''window''],
     Do ''gtk_main'' []]"

definition label_main :: "stmt list" where
  "label_main = [
     Do ''gtk_init'' [C ''&argc'', C ''&argv''],
     Set ''window'' ''gtk_window_new'' [C ''GTK_WINDOW_TOPLEVEL''],
     Do ''gtk_window_set_resizable'' [V ''window'', C ''FALSE''],
     Do ''gtk_window_set_gravity'' [V ''window'', C ''GDK_GRAVITY_SOUTH''],
     Do ''g_signal_connect'' [V ''window'', C ''destroy'', C ''gtk_main_quit'', C ''NULL''],
     Do ''gtk_window_set_title'' [V ''window'', C ''Label''],
     Set ''vbox'' ''gtk_vbox_new'' [C ''FALSE'', C ''5''],
     Set ''hbox'' ''gtk_hbox_new'' [C ''FALSE'', C ''5''],
     Do ''gtk_container_add'' [V ''window'', V ''hbox''],
     Do ''gtk_box_pack_start'' [V ''hbox'', V ''vbox'', C ''FALSE'', C ''FALSE'', C ''0''],
     Do ''gtk_container_set_border_width'' [V ''window'', C ''5''],
     Set ''frame'' ''gtk_frame_new'' [C ''Normal Label''],
     Set ''label'' ''gtk_label_new'' [C ''This is a Normal label''],
     Do ''gtk_container_add'' [V ''frame'', V ''label''],
     Do ''gtk_box_pack_start'' [V ''vbox'', V ''frame'', C ''FALSE'', C ''FALSE'', C ''0''],
     Set ''frame'' ''gtk_frame_new'' [C ''Multi-line Label''],
     Set ''label'' ''gtk_label_new'' [C (''This is a Multi-line label.'' @ nl @ ''Second line'' @ nl @ ''Third line'')],
     Do ''gtk_container_add'' [V ''frame'', V ''label''],
     Do ''gtk_box_pack_start'' [V ''vbox'', V ''frame'', C ''FALSE'', C ''FALSE'', C ''10''],
     Set ''frame'' ''gtk_frame_new'' [C ''Left Justified Label''],
     Set ''label'' ''gtk_label_new'' [C (''This is a Left-Justified'' @ nl @ ''Multi-line label.'' @ nl @ ''Third      line'')],
     Do ''gtk_label_set_justify'' [V ''label'', C ''GTK_JUSTIFY_LEFT''],
     Do ''gtk_container_add'' [V ''frame'', V ''label''],
     Do ''gtk_box_pack_start'' [V ''vbox'', V ''frame'', C ''FALSE'', C ''FALSE'', C ''0''],
     Set ''frame'' ''gtk_frame_new'' [C ''Right Justified Label''],
     Set ''label'' ''gtk_label_new'' [C (''This is a Right-Justified'' @ nl @ ''Multi-line label.'' @ nl @ ''Fourth line, (j/k)'')],
     Do ''gtk_label_set_justify'' [V ''label'', C ''GTK_JUSTIFY_RIGHT''],
     Do ''gtk_container_add'' [V ''frame'', V ''label''],
     Do ''gtk_box_pack_start'' [V ''vbox'', V ''frame'', C ''FALSE'', C ''FALSE'', C ''0''],
     Set ''vbox'' ''gtk_vbox_new'' [C ''FALSE'', C ''5''],
     Do ''gtk_box_pack_start'' [V ''hbox'', V ''vbox'', C ''FALSE'', C ''FALSE'', C ''0''],
     Set ''frame'' ''gtk_frame_new'' [C ''Line wrapped label''],
     Set ''label'' ''gtk_label_new'' [C (''This is an example of a line-wrapped label.  It should not be taking up the entire             width allocated to it, but automatically wraps the words to fit.  The time has come, for all good men, to come to the aid of their party.  The sixth sheik's six sheep's sick.'' @ nl @ ''     It supports multiple paragraphs correctly, and  correctly   adds many          extra  spaces. '')],
     Do ''gtk_label_set_line_wrap'' [V ''label'', C ''TRUE''],
     Do ''gtk_container_add'' [V ''frame'', V ''label''],
     Do ''gtk_box_pack_start'' [V ''vbox'', V ''frame'', C ''FALSE'', C ''FALSE'', C ''0''],
     Set ''frame'' ''gtk_frame_new'' [C ''Filled, wrapped label''],
     Set ''label'' ''gtk_label_new'' [C (''This is an example of a line-wrapped, filled label.  It should be taking up the entire              width allocated to it.  Here is a sentence to prove my point.  Here is another sentence. Here comes the sun, do de do de do.'' @ nl @ ''    This is a new paragraph.'' @ nl @ ''    This is another newer, longer, better paragraph.  It is coming to an end, unfortunately.'')],
     Do ''gtk_label_set_justify'' [V ''label'', C ''GTK_JUSTIFY_FILL''],
     Do ''gtk_label_set_line_wrap'' [V ''label'', C ''TRUE''],
     Do ''gtk_container_add'' [V ''frame'', V ''label''],
     Do ''gtk_box_pack_start'' [V ''vbox'', V ''frame'', C ''FALSE'', C ''FALSE'', C ''0''],
     Set ''frame'' ''gtk_frame_new'' [C ''Underlined label''],
     Set ''label'' ''gtk_label_new'' [C (''This label is underlined!'' @ nl @ ''This one is underlined in quite a funky fashion'')],
     Do ''gtk_label_set_justify'' [V ''label'', C ''GTK_JUSTIFY_LEFT''],
     Do ''gtk_label_set_pattern'' [V ''label'', C ''_________________________ ____ ___ _______ ______     __ _______ ___''],
     Do ''gtk_container_add'' [V ''frame'', V ''label''],
     Do ''gtk_box_pack_start'' [V ''vbox'', V ''frame'', C ''FALSE'', C ''FALSE'', C ''0''],
     Do ''gtk_widget_show_all'' [V ''window''],
     Do ''gtk_main'' []]"

section \<open>Functions that build a part\<close>

text \<open>A function that returns a widget is given the variable its result is assigned to.\<close>

definition create_arrow_button :: "string \<Rightarrow> string \<Rightarrow> string \<Rightarrow> stmt list" where
  "create_arrow_button res arrow_type shadow_type = [
     Set res ''gtk_button_new'' [],
     Set ''create_arrow_button arrow'' ''gtk_arrow_new'' [C arrow_type, C shadow_type],
     Do ''gtk_container_add'' [V res, V ''create_arrow_button arrow''],
     Do ''gtk_widget_show'' [V res],
     Do ''gtk_widget_show'' [V ''create_arrow_button arrow'']]"

definition arrow_main :: "stmt list" where
  "arrow_main = [
     Do ''gtk_init'' [C ''&argc'', C ''&argv''],
     Set ''window'' ''gtk_window_new'' [C ''GTK_WINDOW_TOPLEVEL''],
     Do ''gtk_window_set_title'' [V ''window'', C ''Arrow Buttons''],
     Do ''g_signal_connect'' [V ''window'', C ''destroy'', C ''gtk_main_quit'', C ''NULL''],
     Do ''gtk_container_set_border_width'' [V ''window'', C ''10''],
     Set ''box'' ''gtk_hbox_new'' [C ''FALSE'', C ''0''],
     Do ''gtk_container_set_border_width'' [V ''box'', C ''2''],
     Do ''gtk_container_add'' [V ''window'', V ''box''],
     Do ''gtk_widget_show'' [V ''box'']] @
     create_arrow_button ''button'' ''GTK_ARROW_UP'' ''GTK_SHADOW_IN'' @
     [
     Do ''gtk_box_pack_start'' [V ''box'', V ''button'', C ''TRUE'', C ''FALSE'', C ''10'']] @
     create_arrow_button ''button'' ''GTK_ARROW_DOWN'' ''GTK_SHADOW_OUT'' @
     [
     Do ''gtk_box_pack_start'' [V ''box'', V ''button'', C ''TRUE'', C ''FALSE'', C ''10'']] @
     create_arrow_button ''button'' ''GTK_ARROW_LEFT'' ''GTK_SHADOW_ETCHED_IN'' @
     [
     Do ''gtk_box_pack_start'' [V ''box'', V ''button'', C ''TRUE'', C ''FALSE'', C ''10'']] @
     create_arrow_button ''button'' ''GTK_ARROW_RIGHT'' ''GTK_SHADOW_ETCHED_OUT'' @
     [
     Do ''gtk_box_pack_start'' [V ''box'', V ''button'', C ''TRUE'', C ''FALSE'', C ''10''],
     Do ''gtk_widget_show'' [V ''window''],
     Do ''gtk_main'' []]"

definition xpm_label_box :: "string \<Rightarrow> string \<Rightarrow> string \<Rightarrow> stmt list" where
  "xpm_label_box res xpm_filename label_text = [
     Set res ''gtk_hbox_new'' [C ''FALSE'', C ''0''],
     Do ''gtk_container_set_border_width'' [V res, C ''2''],
     Set ''xpm_label_box image'' ''gtk_image_new_from_file'' [C xpm_filename],
     Set ''xpm_label_box label'' ''gtk_label_new'' [C label_text],
     Do ''gtk_box_pack_start'' [V res, V ''xpm_label_box image'', C ''FALSE'', C ''FALSE'', C ''3''],
     Do ''gtk_box_pack_start'' [V res, V ''xpm_label_box label'', C ''FALSE'', C ''FALSE'', C ''3''],
     Do ''gtk_widget_show'' [V ''xpm_label_box image''],
     Do ''gtk_widget_show'' [V ''xpm_label_box label'']]"

definition pic_main :: "stmt list" where
  "pic_main = [
     Do ''gtk_init'' [C ''&argc'', C ''&argv''],
     Set ''window'' ''gtk_window_new'' [C ''GTK_WINDOW_TOPLEVEL''],
     Do ''gtk_window_set_title'' [V ''window'', C ''Pixmap'd Buttons!''],
     Do ''g_signal_connect'' [V ''window'', C ''destroy'', C ''gtk_main_quit'', C ''NULL''],
     Do ''g_signal_connect'' [V ''window'', C ''delete-event'', C ''gtk_main_quit'', C ''NULL''],
     Do ''gtk_container_set_border_width'' [V ''window'', C ''10''],
     Set ''button'' ''gtk_button_new'' [],
     Do ''g_signal_connect'' [V ''button'', C ''clicked'', C ''callback'', C ''cool button'']] @
     xpm_label_box ''box'' ''pic1.png'' ''cool button'' @
     [
     Do ''gtk_widget_show'' [V ''box''],
     Do ''gtk_container_add'' [V ''button'', V ''box''],
     Do ''gtk_widget_show'' [V ''button''],
     Do ''gtk_container_add'' [V ''window'', V ''button''],
     Do ''gtk_widget_show'' [V ''window''],
     Do ''gtk_main'' []]"

definition check_main :: "stmt list" where
  "check_main = [
     Do ''gtk_init'' [C ''&argc'', C ''&argv''],
     Set ''window'' ''gtk_window_new'' [C ''GTK_WINDOW_TOPLEVEL''],
     Do ''gtk_window_set_title'' [V ''window'', C ''Check Buttons!''],
     Do ''g_signal_connect'' [V ''window'', C ''destroy'', C ''gtk_main_quit'', C ''NULL''],
     Do ''g_signal_connect'' [V ''window'', C ''delete-event'', C ''gtk_main_quit'', C ''NULL''],
     Do ''gtk_container_set_border_width'' [V ''window'', C ''10''],
     Set ''button'' ''gtk_check_button_new_with_label'' [C ''Check it with label''],
     Do ''g_signal_connect'' [V ''button'', C ''clicked'', C ''check_button_callback'', C ''check button''],
     Do ''gtk_widget_show'' [V ''button''],
     Do ''gtk_container_add'' [V ''window'', V ''button''],
     Do ''gtk_widget_show'' [V ''window''],
     Do ''gtk_main'' []]"

definition toggle_main :: "stmt list" where
  "toggle_main = [
     Do ''gtk_init'' [C ''&argc'', C ''&argv''],
     Set ''window'' ''gtk_window_new'' [C ''GTK_WINDOW_TOPLEVEL''],
     Do ''gtk_window_set_title'' [V ''window'', C ''Toggle Buttons!''],
     Do ''g_signal_connect'' [V ''window'', C ''destroy'', C ''gtk_main_quit'', C ''NULL''],
     Do ''g_signal_connect'' [V ''window'', C ''delete-event'', C ''gtk_main_quit'', C ''NULL''],
     Do ''gtk_container_set_border_width'' [V ''window'', C ''10''],
     Set ''button'' ''gtk_toggle_button_new_with_mnemonic'' [C ''Check it with mnemonic''],
     Do ''g_signal_connect'' [V ''button'', C ''clicked'', C ''toggle_button_callback'', C ''toggle button''],
     Do ''gtk_widget_show'' [V ''button''],
     Do ''gtk_container_add'' [V ''window'', V ''button''],
     Do ''gtk_widget_show'' [V ''window''],
     Do ''gtk_main'' []]"

section \<open>Windows built in loops\<close>

definition fixed_main :: "stmt list" where
  "fixed_main = [
     Do ''gtk_init'' [C ''&argc'', C ''&argv''],
     Set ''window'' ''gtk_window_new'' [C ''GTK_WINDOW_TOPLEVEL''],
     Do ''gtk_window_set_title'' [V ''window'', C ''Fixed Container''],
     Do ''gtk_window_set_default_size'' [V ''window'', C ''800'', C ''600''],
     Do ''g_signal_connect'' [V ''window'', C ''destroy'', C ''gtk_main_quit'', C ''NULL''],
     Do ''gtk_container_set_border_width'' [V ''window'', C ''10''],
     Set ''fixed'' ''gtk_fixed_new'' [],
     Do ''gtk_container_add'' [V ''window'', V ''fixed''],
     Do ''gtk_widget_show'' [V ''fixed'']] @
   concat (map (\<lambda>i. [
       Set ''button'' ''gtk_button_new_with_label'' [C ''Press me''],
       Do ''g_signal_connect'' [V ''button'', C ''clicked'', C ''move_button'', V ''fixed''],
       Do ''gtk_fixed_put'' [V ''fixed'', V ''button'', C (show_nat (i * 50)), C (show_nat (i * 50))],
       Do ''gtk_widget_show'' [V ''button'']]) [1..<4]) @ [
     Do ''gtk_widget_show'' [V ''window''],
     Do ''gtk_main'' []]"

definition scrolled_main :: "stmt list" where
  "scrolled_main = [
     Do ''gtk_init'' [C ''&argc'', C ''&argv''],
     Set ''window'' ''gtk_dialog_new'' [],
     Do ''g_signal_connect'' [V ''window'', C ''destroy'', C ''destroy'', C ''NULL''],
     Do ''gtk_window_set_title'' [V ''window'', C ''GtkScrolledWindow example''],
     Do ''gtk_container_set_border_width'' [V ''window'', C ''0''],
     Do ''gtk_widget_set_size_request'' [V ''window'', C ''300'', C ''300''],
     Set ''scrolled_window'' ''gtk_scrolled_window_new'' [C ''NULL'', C ''NULL''],
     Do ''gtk_container_set_border_width'' [V ''scrolled_window'', C ''10''],
     Do ''gtk_scrolled_window_set_policy'' [V ''scrolled_window'', C ''GTK_POLICY_AUTOMATIC'', C ''GTK_POLICY_ALWAYS''],
     Set ''window->vbox'' ''GTK_DIALOG->vbox'' [V ''window''],
     Do ''gtk_box_pack_start'' [V ''window->vbox'', V ''scrolled_window'', C ''TRUE'', C ''TRUE'', C ''0''],
     Do ''gtk_widget_show'' [V ''scrolled_window''],
     Set ''table'' ''gtk_table_new'' [C ''10'', C ''10'', C ''FALSE''],
     Do ''gtk_table_set_row_spacings'' [V ''table'', C ''10''],
     Do ''gtk_table_set_col_spacings'' [V ''table'', C ''10''],
     Do ''gtk_scrolled_window_add_with_viewport'' [V ''scrolled_window'', V ''table''],
     Do ''gtk_widget_show'' [V ''table'']] @
   concat (map (\<lambda>i. concat (map (\<lambda>j. [
       Set ''button'' ''gtk_toggle_button_new_with_label'' [C (''button ('' @ show_nat i @ '','' @ show_nat j @ '')'' @ nl)],
       Do ''gtk_table_attach_defaults'' [V ''table'', V ''button'', C (show_nat i), C (show_nat (i + 1)), C (show_nat j), C (show_nat (j + 1))],
       Do ''gtk_widget_show'' [V ''button'']]) [0..<10])) [0..<10]) @ [
     Set ''button'' ''gtk_button_new_with_label'' [C ''close''],
     Do ''g_signal_connect_swapped'' [V ''button'', C ''clicked'', C ''gtk_widget_destroy'', V ''window''],
     Do ''gtk_widget_set_can_default'' [V ''button'', C ''TRUE''],
     Set ''window->action_area'' ''GTK_DIALOG->action_area'' [V ''window''],
     Do ''gtk_box_pack_start'' [V ''window->action_area'', V ''button'', C ''TRUE'', C ''TRUE'', C ''0''],
     Do ''gtk_widget_grab_default'' [V ''button''],
     Do ''gtk_widget_show'' [V ''button''],
     Do ''gtk_widget_show'' [V ''window''],
     Do ''gtk_main'' []]"

text \<open>The part of \<^verbatim>\<open>gtk_color_selection.c\<close> that builds the window; the colour is a global record.\<close>

definition color_main :: "stmt list" where
  "color_main = [
     Do ''gtk_init'' [C ''&argc'', C ''&argv''],
     Set ''window'' ''gtk_window_new'' [C ''GTK_WINDOW_TOPLEVEL''],
     Do ''gtk_window_set_title'' [V ''window'', C ''Color selection test''],
     Do ''gtk_window_set_policy'' [V ''window'', C ''TRUE'', C ''TRUE'', C ''TRUE''],
     Do ''g_signal_connect'' [V ''window'', C ''delete-event'', C ''destroy_window'', V ''window''],
     Set ''drawingarea'' ''gtk_drawing_area_new'' [],
     Do ''gtk_widget_modify_bg'' [V ''drawingarea'', C ''GTK_STATE_NORMAL'', C ''&color''],
     Do ''gtk_widget_set_size_request'' [V ''drawingarea'', C ''200'', C ''200''],
     Do ''gtk_widget_set_events'' [V ''drawingarea'', C ''GDK_BUTTON_PRESS_MASK''],
     Do ''g_signal_connect'' [V ''drawingarea'', C ''event'', C ''area_event'', V ''drawingarea''],
     Do ''gtk_container_add'' [V ''window'', V ''drawingarea''],
     Do ''gtk_widget_show'' [V ''drawingarea''],
     Do ''gtk_widget_show'' [V ''window''],
     Do ''gtk_main'' []]"

definition dialog_main :: "stmt list" where
  "dialog_main = [
     Do ''gtk_init'' [C ''&argc'', C ''&argv''],
     Set ''window'' ''gtk_window_new'' [C ''GTK_WINDOW_TOPLEVEL''],
     Do ''g_signal_connect'' [V ''window'', C ''delete_event'', C ''gtk_main_quit'', C ''NULL''],
     Do ''gtk_window_set_title'' [V ''window'', C (utf8 [229, 175, 185, 232, 175, 157, 230, 161, 134, 231, 187, 131, 228, 185, 160])],
     Do ''gtk_window_set_position'' [V ''window'', C ''GTK_WIN_POS_CENTER''],
     Do ''gtk_container_set_border_width'' [V ''window'', C ''20''],
     Set ''button'' ''gtk_button_new_with_mnemonic'' [C ''clicked me''],
     Do ''gtk_container_add'' [V ''window'', V ''button''],
     Do ''g_signal_connect'' [V ''button'', C ''clicked'', C ''button_click'', V ''window''],
     Do ''gtk_widget_show'' [V ''button''],
     Do ''gtk_widget_show_all'' [V ''window''],
     Do ''gtk_main'' []]"

text \<open>The dialog that a click opens, with \<^verbatim>\<open>SCHEMALESS_WINDOW\<close> defined; \<open>parent\<close> is the variable of the window.\<close>

definition button_click :: "string \<Rightarrow> stmt list" where
  "button_click parent = [
     Set ''dialog'' ''gtk_dialog_new_with_buttons'' [C (utf8 [230, 136, 145, 231, 154, 132, 231, 172, 172, 228, 184, 128, 228, 184, 170, 229, 175, 185, 232, 175, 157, 230, 161, 134]), V parent, C ''GTK_DIALOG_DESTROY_WITH_PARENT'', C ''GTK_STOCK_OK'', C ''GTK_RESPONSE_OK'', C ''NULL''],
     Do ''gtk_dialog_set_has_separator'' [V ''dialog'', C ''FALSE''],
     Set ''label'' ''gtk_label_new'' [C ''the button was clicked!''],
     Set ''image'' ''gtk_image_new_from_stock'' [C ''GTK_STOCK_DIALOG_INFO'', C ''GTK_ICON_SIZE_DIALOG''],
     Set ''hbox'' ''gtk_hbox_new'' [C ''FALSE'', C ''5''],
     Do ''gtk_container_set_border_width'' [V ''hbox'', C ''10''],
     Do ''gtk_box_pack_start_defaults'' [V ''hbox'', V ''image''],
     Do ''gtk_box_pack_start_defaults'' [V ''hbox'', V ''label''],
     Set ''dialog->vbox'' ''GTK_DIALOG->vbox'' [V ''dialog''],
     Do ''gtk_box_pack_start_defaults'' [V ''dialog->vbox'', V ''hbox''],
     Do ''gtk_widget_show_all'' [V ''dialog''],
     Do ''g_signal_connect'' [V ''dialog'', C ''response'', C ''gtk_widget_destroy'', C ''NULL'']]"

section \<open>Callbacks\<close>

definition print_hello :: "unit prog" where
  "print_hello = do_call ''g_print'' [S (''button clicked'' @ nl)]"

definition callback :: "string \<Rightarrow> unit prog" where
  "callback udata = do_call ''g_print'' [S (''Hello again - '' @ udata @ '' was pressed'' @ nl)]"

definition delete_event :: "int prog" where
  "delete_event = bind (do_call ''gtk_main_quit'' []) (\<lambda>_. return 0)"

definition destroy :: "unit prog" where
  "destroy = do_call ''gtk_main_quit'' []"

definition on_button_clicked :: "string \<Rightarrow> unit prog" where
  "on_button_clicked udata = do_call ''g_print'' [S (udata @ '' clicked, I am here, can u see me?'' @ nl)]"

definition toggle_button_callback :: "int \<Rightarrow> string \<Rightarrow> unit prog" where
  "toggle_button_callback widget udata =
     bind (call_ret ''gtk_toggle_button_get_active'' [I widget]) (\<lambda>active.
     if active \<noteq> 0 then do_call ''g_print'' [S (udata @ '' was pressed, i am active'' @ nl)]
     else do_call ''g_print'' [S (udata @ '' was pressed, i am deactive'' @ nl)])"

definition check_button_callback :: "int \<Rightarrow> string \<Rightarrow> unit prog" where
  "check_button_callback widget udata =
     bind (call_ret ''gtk_toggle_button_get_active'' [I widget]) (\<lambda>active.
     if active \<noteq> 0 then do_call ''g_print'' [S (udata @ '' was pressed, i am active'' @ nl)]
     else do_call ''g_print'' [S (udata @ '' was pressed, i am deactive'' @ nl)])"

definition file_ok_sel :: "int \<Rightarrow> unit prog" where
  "file_ok_sel fs =
     bind (call_text ''gtk_file_selection_get_filename'' [I fs]) (\<lambda>name. do_call ''g_print'' [S (name @ nl)])"

text \<open>\<^verbatim>\<open>gtk_fixed_container.c\<close>: the position of the button is in two global variables.\<close>

definition move_button :: "int \<Rightarrow> int \<Rightarrow> int \<times> int \<Rightarrow> (int \<times> int) prog" where
  "move_button widget fixed = (\<lambda>(x, y).
     bind (lift (c_bind (c_int (x + 30)) (\<lambda>x. c_rem x 300))) (\<lambda>x.
     bind (lift (c_bind (c_int (y + 50)) (\<lambda>y. c_rem y 300))) (\<lambda>y.
     bind (do_call ''gtk_fixed_move'' [I fixed, I widget, I x, I y]) (\<lambda>_. return (x, y)))))"

text \<open>\<^verbatim>\<open>gtk_icon.c\<close>: a picture that cannot be read is reported and the null pointer is used.\<close>

definition create_pixbuf :: "string \<Rightarrow> int prog" where
  "create_pixbuf filename =
     bind (invoke ''gdk_pixbuf_new_from_file'' [S filename]) (\<lambda>r.
     bind (if ret r = 0 then
             bind (do_call ''g_print'' [S (data r @ nl)]) (\<lambda>_. do_call ''g_error_free'' [])
           else return ()) (\<lambda>_. return (ret r)))"

definition icon_main :: "int prog" where
  "icon_main =
     bind (do_call ''gtk_init'' []) (\<lambda>_.
     bind (call_ret ''gtk_window_new'' [S ''GTK_WINDOW_TOPLEVEL'']) (\<lambda>window.
     bind (do_call ''gtk_window_set_title'' [I window, S ''Customized Title'']) (\<lambda>_.
     bind (create_pixbuf ''pic1.png'') (\<lambda>pixbuf.
     bind (do_call ''gtk_window_set_icon'' [I window, I pixbuf]) (\<lambda>_.
     bind (do_call ''gtk_widget_show_all'' [I window]) (\<lambda>_.
     bind (do_call ''gtk_main'' []) (\<lambda>_. return 0)))))))"

definition combo_main :: "int prog" where
  "combo_main = bind (do_call ''g_print'' [S (''nothing here to display'' @ nl)]) (\<lambda>_. return 0)"

text \<open>\<^verbatim>\<open>gtk_color_selection.c\<close>: the dialog (0 is the null pointer), the area and the colour are global.\<close>

record color_state =
  colorseldlg :: int
  drawingarea :: int
  color :: string

definition color_changed_cb :: "int \<Rightarrow> color_state \<Rightarrow> unit prog" where
  "color_changed_cb colorsel g =
     bind (call_text ''gtk_color_selection_get_current_color'' [I colorsel]) (\<lambda>ncolor.
     do_call ''gtk_widget_modify_bg'' [I (drawingarea g), S ''GTK_STATE_NORMAL'', S ncolor])"

definition area_event :: "string \<Rightarrow> color_state \<Rightarrow> (bool \<times> color_state) prog" where
  "area_event type g =
     (if type = ''GDK_BUTTON_PRESS'' then
        bind (if colorseldlg g = 0 then call_ret ''gtk_color_selection_dialog_new'' [S ''Select background color''] else return (colorseldlg g)) (\<lambda>dlg.
        bind (call_ret ''GTK_COLOR_SELECTION_DIALOG->colorsel'' [I dlg]) (\<lambda>colorsel.
        bind (do_call ''gtk_color_selection_set_previous_color'' [I colorsel, S (color g)]) (\<lambda>_.
        bind (do_call ''gtk_color_selection_set_current_color'' [I colorsel, S (color g)]) (\<lambda>_.
        bind (do_call ''gtk_color_selection_set_has_palette'' [I colorsel, I 1]) (\<lambda>_.
        bind (do_call ''g_signal_connect'' [I colorsel, S ''color_changed'', S ''color_changed_cb'', I colorsel]) (\<lambda>_.
        bind (call_text ''gtk_dialog_run'' [I dlg]) (\<lambda>response.
        bind (if response = ''GTK_RESPONSE_OK'' then call_text ''gtk_color_selection_get_current_color'' [I colorsel]
              else bind (do_call ''gtk_widget_modify_bg'' [I (drawingarea g), S ''GTK_STATE_NORMAL'', S (color g)]) (\<lambda>_. return (color g))) (\<lambda>color.
        bind (do_call ''gtk_widget_hide'' [I dlg]) (\<lambda>_. return (True, g\<lparr>colorseldlg := dlg, color := color\<rparr>))))))))))
      else return (False, g))"

definition destroy_window :: "bool prog" where
  "destroy_window = bind (do_call ''gtk_main_quit'' []) (\<lambda>_. return True)"

section \<open>\<^verbatim>\<open>x11_window.c\<close>\<close>

definition x_event_pass :: "int \<Rightarrow> int \<Rightarrow> int \<Rightarrow> unit \<Rightarrow> (unit + unit) prog" where
  "x_event_pass d s w = (\<lambda>_.
     bind (call_text ''XNextEvent'' [I d]) (\<lambda>type.
     bind (if type = ''Expose'' then
             bind (call_ret ''DefaultGC'' [I d, I s]) (\<lambda>gc. do_call ''XFillRectangle'' [I d, I w, I gc, I 10, I 10, I 100, I 100])
           else return ()) (\<lambda>_.
     return (if type = ''KeyPress'' then Inr () else Inl ()))))"

definition x11_main :: "nat \<Rightarrow> int prog" where
  "x11_main fuel =
     bind (call_ret ''XOpenDisplay'' [S ''NULL'']) (\<lambda>d.
     if d = 0 then bind (print (''Cannot open display'' @ nl)) (\<lambda>_. exit_with 1)
     else
       bind (call_ret ''DefaultScreen'' [I d]) (\<lambda>s.
       bind (call_ret ''RootWindow'' [I d, I s]) (\<lambda>root.
       bind (call_ret ''BlackPixel'' [I d, I s]) (\<lambda>black.
       bind (call_ret ''WhitePixel'' [I d, I s]) (\<lambda>white.
       bind (call_ret ''XCreateSimpleWindow'' [I d, I root, I 10, I 10, I 100, I 100, I 1, I black, I white]) (\<lambda>w.
       bind (do_call ''XSelectInput'' [I d, I w, S ''ExposureMask | KeyPressMask'']) (\<lambda>_.
       bind (do_call ''XMapWindow'' [I d, I w]) (\<lambda>_.
       bind (loop fuel (x_event_pass d s w) ()) (\<lambda>_.
       bind (do_call ''XCloseDisplay'' [I d]) (\<lambda>_. return 0))))))))))"

section \<open>The windows appear\<close>

text \<open>The programs of this theory, and the dialog opened in its window.  Left out are \<open>alignment_main\<close>, which
  is treated below, and \<open>scrolled_main\<close>, whose hundred buttons make the run on numbers long.\<close>

definition windows :: "stmt list list" where
  "windows = [hello_main, box_main, table_main, frame_main, aspect_main, tooltips_main, fixed_button_main, file_selection_main,
     event_box_main, ruler_main, radio_main, label_main, arrow_main, pic_main, check_main, toggle_main, fixed_main,
     color_main, dialog_main, dialog_main @ button_click ''window'']"

lemma hello_outcome: "outcome hello_main = Some ([], 1)"
  by code_simp

lemma box_outcome: "outcome box_main = Some ([], 1)"
  by code_simp

lemma table_outcome: "outcome table_main = Some ([], 1)"
  by code_simp

lemma frame_outcome: "outcome frame_main = Some ([], 1)"
  by code_simp

lemma aspect_outcome: "outcome aspect_main = Some ([], 1)"
  by code_simp

lemma tooltips_outcome: "outcome tooltips_main = Some ([], 1)"
  by code_simp

lemma fixed_button_outcome: "outcome fixed_button_main = Some ([], 1)"
  by code_simp

lemma file_selection_outcome: "outcome file_selection_main = Some ([], 1)"
  by code_simp

lemma event_box_outcome: "outcome event_box_main = Some ([], 1)"
  by code_simp

lemma ruler_outcome: "outcome ruler_main = Some ([], 1)"
  by code_simp

lemma radio_outcome: "outcome radio_main = Some ([], 1)"
  by code_simp

lemma label_outcome: "outcome label_main = Some ([], 1)"
  by code_simp

lemma arrow_outcome: "outcome arrow_main = Some ([], 1)"
  by code_simp

lemma pic_outcome: "outcome pic_main = Some ([], 1)"
  by code_simp

lemma check_outcome: "outcome check_main = Some ([], 1)"
  by code_simp

lemma toggle_outcome: "outcome toggle_main = Some ([], 1)"
  by code_simp

lemma fixed_outcome: "outcome fixed_main = Some ([], 1)"
  by code_simp

lemma color_outcome: "outcome color_main = Some ([], 1)"
  by code_simp

lemma dialog_outcome: "outcome dialog_main = Some ([], 1)"
  by code_simp

lemma button_click_outcome: "outcome (dialog_main @ button_click ''window'') = Some ([], 1)"
  by code_simp

lemma windows_outcome: "ss \<in> set windows \<Longrightarrow> outcome ss = Some ([], 1)"
  by (auto simp: windows_def hello_outcome box_outcome table_outcome frame_outcome aspect_outcome tooltips_outcome fixed_button_outcome file_selection_outcome event_box_outcome ruler_outcome radio_outcome label_outcome arrow_outcome pic_outcome check_outcome toggle_outcome fixed_outcome color_outcome dialog_outcome button_click_outcome)

text \<open>The alignment of \<^verbatim>\<open>gtk_alignment.c\<close> is the one widget, the fourth made, that is in no window.\<close>

lemma alignment_outcome: "outcome alignment_main = Some ([4], 1)"
  by code_simp

section \<open>What the callbacks do\<close>

text \<open>
  The button of the fixed container stays in its 300 by 300 square: after \<open>n\<close> clicks it has moved
  \<open>n\<close> times by 30 and 50, modulo 300, and it is back after 30 clicks.
\<close>

lemma move_button_run:
  assumes "0 \<le> x" "x < 300" "0 \<le> y" "y < 300"
  shows "\<exists>t. move_button widget fixed (x, y) env tr = (t, Ok ((x + 30) mod 300, (y + 50) mod 300))"
  using assms by (simp add: move_button_def c_int_def c_rem_nonneg INT_MIN_def INT_MAX_def bind_calls io_eval)

lemma move_button_cycle:
  "\<exists>t. clicks n (move_button widget fixed) (50, 50) env tr = (t, Ok ((50 + 30 * int n) mod 300, (50 + 50 * int n) mod 300))"
proof (induction n)
  case (Suc n)
  then obtain t where t: "clicks n (move_button widget fixed) (50, 50) env tr = (t, Ok ((50 + 30 * int n) mod 300, (50 + 50 * int n) mod 300))" ..
  obtain u where u: "move_button widget fixed ((50 + 30 * int n) mod 300, (50 + 50 * int n) mod 300) env t =
      (u, Ok (((50 + 30 * int n) mod 300 + 30) mod 300, ((50 + 50 * int n) mod 300 + 50) mod 300))"
    using move_button_run by (metis (no_types, lifting) pos_mod_bound pos_mod_sign zero_less_numeral)
  have "((50 + 30 * int n) mod 300 + 30) mod 300 = (50 + 30 * int (Suc n)) mod 300"
    "((50 + 50 * int n) mod 300 + 50) mod 300 = (50 + 50 * int (Suc n)) mod 300"
    by (simp_all add: mod_simps algebra_simps)
  with t u show ?case by (simp add: bind_Ok)
qed (simp add: io_eval)

text \<open>A press of the mouse button on the drawing area, and the calls that matter: dialogs made, handlers connected, dialogs hidden, and colours taken or restored.\<close>

definition press :: "color_state \<Rightarrow> color_state prog" where
  "press g = bind (area_event ''GDK_BUTTON_PRESS'' g) (\<lambda>(handled, g). return g)"

definition color_counts :: "trace \<Rightarrow> nat \<times> nat \<times> nat \<times> nat" where
  "color_counts t = (length (uses ''gtk_color_selection_dialog_new'' t), length (uses ''g_signal_connect'' t), length (uses ''gtk_widget_hide'' t),
     length (uses ''gtk_color_selection_get_current_color'' t) + length (uses ''gtk_widget_modify_bg'' t))"

lemma press_run:
  assumes "\<And>t. ret (env t (Call ''gtk_color_selection_dialog_new'' [S ''Select background color''])) \<noteq> 0"
    "color_counts tr = (if colorseldlg g = 0 then 0 else 1, n, n, n)" "press g env tr = (t, r)"
  shows "\<exists>g'. r = Ok g' \<and> colorseldlg g' \<noteq> 0 \<and> color_counts t = (1, Suc n, Suc n, Suc n)"
proof -
  let ?m = "if colorseldlg g = 0 then call_ret ''gtk_color_selection_dialog_new'' [S ''Select background color''] else return (colorseldlg g)"
  obtain t1 d where d: "?m env tr = (t1, Ok d)" "d \<noteq> 0" "color_counts t1 = (1, n, n, n)"
    using assms(1,2) by (cases "colorseldlg g = 0") (auto simp: color_counts_def call_ret_def bind_invoke io_eval)
  from assms(3) show ?thesis unfolding press_def area_event_def bind_assoc
    using d(2,3) by (simp add: bind_Ok [where m = ?m, OF d(1)] bind_assoc) (auto elim!: runE simp: color_counts_def)
qed
text \<open>
  Over any number of presses the colour dialog is made once and hidden each time, and each press
  either takes the new colour or paints the area with the old one; but the handler of
  the colour is connected once per press, so after \<open>n\<close> presses it runs \<open>n\<close> times for a change.
\<close>

theorem color_presses:
  assumes "\<And>t. ret (env t (Call ''gtk_color_selection_dialog_new'' [S ''Select background color''])) \<noteq> 0" "colorseldlg g = 0"
  shows "\<exists>t g'. clicks n press g env [] = (t, Ok g') \<and> color_counts t = (if n = 0 then 0 else 1, n, n, n) \<and> (colorseldlg g' = 0 \<longleftrightarrow> n = 0)"
proof (induction n)
  case 0
  then show ?case using assms(2) by (auto simp: io_eval color_counts_def)
next
  case (Suc n)
  then obtain t h where t: "clicks n press g env [] = (t, Ok h)" "color_counts t = (if colorseldlg h = 0 then 0 else 1, n, n, n)" by auto
  obtain u r where u: "press h env t = (u, r)" by fastforce
  from press_run [OF assms(1) t(2) u] t(1) u show ?case by (auto simp: bind_Ok)
qed

theorem color_presses_witness:
  "\<exists>t g. clicks 3 press \<lparr>colorseldlg = 0, drawingarea = 1, color = ''blue''\<rparr> (\<lambda>tr c. \<lparr>ret = 7, data = ''red'', errno = 0\<rparr>) [] = (t, Ok g) \<and>
    color_counts t = (1, 3, 3, 3)"
  using color_presses [of "\<lambda>tr c. \<lparr>ret = 7, data = ''red'', errno = 0\<rparr>" "\<lparr>colorseldlg = 0, drawingarea = 1, color = ''blue''\<rparr>" 3] by auto

end
