(* ===== verification/GtkControls.thy ===== *)
theory GtkControls
  imports Gtk Complex_Main
begin

text \<open>
  The windows of \<^verbatim>\<open>src/cpp/gtk\<close> that demonstrate controls: packing, scales, spin buttons, the progress
  bar, the notebook, menus, panes, button boxes, the status bar and the text entry.
  Values of \<^verbatim>\<open>double\<close> are reals; \<open>rnd\<close> is the rounding of an operation to a double.
  A field of a widget that a callback reads is a call with the name of the field, answered by the toolkit.
\<close>

section \<open>\<^verbatim>\<open>gtk_packbox.c\<close>\<close>

text \<open>A row of buttons that shows the arguments it was packed with; 80 bytes are enough for the padding.\<close>

definition truth :: "bool \<Rightarrow> string" where
  "truth b = (if b then ''TRUE'' else ''FALSE'')"

definition make_box :: "string \<Rightarrow> bool \<Rightarrow> nat \<Rightarrow> bool \<Rightarrow> bool \<Rightarrow> nat \<Rightarrow> stmt list" where
  "make_box res homogeneous spacing expand fill padding = [
     Set res ''gtk_hbox_new'' [C (truth homogeneous), C (show_nat spacing)],
     Set ''make_box button'' ''gtk_button_new_with_label'' [C ''gtk_box_pack''],
     Do ''gtk_box_pack_start'' [V res, V ''make_box button'', C (truth expand), C (truth fill), C (show_nat padding)],
     Do ''gtk_widget_show'' [V ''make_box button''],
     Set ''make_box button'' ''gtk_button_new_with_label'' [C ''(box,''],
     Do ''gtk_box_pack_start'' [V res, V ''make_box button'', C (truth expand), C (truth fill), C (show_nat padding)],
     Do ''gtk_widget_show'' [V ''make_box button''],
     Set ''make_box button'' ''gtk_button_new_with_label'' [C ''button,''],
     Do ''gtk_box_pack_start'' [V res, V ''make_box button'', C (truth expand), C (truth fill), C (show_nat padding)],
     Do ''gtk_widget_show'' [V ''make_box button''],
     Set ''make_box button'' ''gtk_button_new_with_label'' [C (if expand then ''TRUE,'' else ''FALSE,'')],
     Do ''gtk_box_pack_start'' [V res, V ''make_box button'', C (truth expand), C (truth fill), C (show_nat padding)],
     Do ''gtk_widget_show'' [V ''make_box button''],
     Set ''make_box button'' ''gtk_button_new_with_label'' [C (if fill then ''TRUE,'' else ''FALSE,'')],
     Do ''gtk_box_pack_start'' [V res, V ''make_box button'', C (truth expand), C (truth fill), C (show_nat padding)],
     Do ''gtk_widget_show'' [V ''make_box button''],
     Set ''make_box button'' ''gtk_button_new_with_label'' [C (show_nat padding @ '');'')],
     Do ''gtk_box_pack_start'' [V res, V ''make_box button'', C (truth expand), C (truth fill), C (show_nat padding)],
     Do ''gtk_widget_show'' [V ''make_box button'']]"

definition packbox1 :: "stmt list" where
  "packbox1 = [
     Set ''label'' ''gtk_label_new'' [C ''gtk_hbox_new (FALSE, 0);''],
     Do ''gtk_misc_set_alignment'' [V ''label'', C ''0'', C ''0''],
     Do ''gtk_box_pack_start'' [V ''box1'', V ''label'', C ''FALSE'', C ''FALSE'', C ''0''],
     Do ''gtk_widget_show'' [V ''label'']] @
     make_box ''box2'' False 0 False False 0 @
     [
     Do ''gtk_box_pack_start'' [V ''box1'', V ''box2'', C ''FALSE'', C ''FALSE'', C ''0''],
     Do ''gtk_widget_show'' [V ''box2'']] @
     make_box ''box2'' False 0 True False 0 @
     [
     Do ''gtk_box_pack_start'' [V ''box1'', V ''box2'', C ''FALSE'', C ''FALSE'', C ''0''],
     Do ''gtk_widget_show'' [V ''box2'']] @
     make_box ''box2'' False 0 True True 0 @
     [
     Do ''gtk_box_pack_start'' [V ''box1'', V ''box2'', C ''FALSE'', C ''FALSE'', C ''0''],
     Do ''gtk_widget_show'' [V ''box2''],
     Set ''separator'' ''gtk_hseparator_new'' [],
     Do ''gtk_box_pack_start'' [V ''box1'', V ''separator'', C ''FALSE'', C ''TRUE'', C ''5''],
     Do ''gtk_widget_show'' [V ''separator''],
     Set ''label'' ''gtk_label_new'' [C ''gtk_hbox_new (TRUE, 0);''],
     Do ''gtk_misc_set_alignment'' [V ''label'', C ''0'', C ''0''],
     Do ''gtk_box_pack_start'' [V ''box1'', V ''label'', C ''FALSE'', C ''FALSE'', C ''0''],
     Do ''gtk_widget_show'' [V ''label'']] @
     make_box ''box2'' True 0 True False 0 @
     [
     Do ''gtk_box_pack_start'' [V ''box1'', V ''box2'', C ''FALSE'', C ''FALSE'', C ''0''],
     Do ''gtk_widget_show'' [V ''box2'']] @
     make_box ''box2'' True 0 True True 0 @
     [
     Do ''gtk_box_pack_start'' [V ''box1'', V ''box2'', C ''FALSE'', C ''FALSE'', C ''0''],
     Do ''gtk_widget_show'' [V ''box2''],
     Set ''separator'' ''gtk_hseparator_new'' [],
     Do ''gtk_box_pack_start'' [V ''box1'', V ''separator'', C ''FALSE'', C ''TRUE'', C ''5''],
     Do ''gtk_widget_show'' [V ''separator'']]"

definition packbox2 :: "stmt list" where
  "packbox2 = [
     Set ''label'' ''gtk_label_new'' [C ''gtk_hbox_new (FALSE, 10);''],
     Do ''gtk_misc_set_alignment'' [V ''label'', C ''0'', C ''0''],
     Do ''gtk_box_pack_start'' [V ''box1'', V ''label'', C ''FALSE'', C ''FALSE'', C ''0''],
     Do ''gtk_widget_show'' [V ''label'']] @
     make_box ''box2'' False 10 True False 0 @
     [
     Do ''gtk_box_pack_start'' [V ''box1'', V ''box2'', C ''FALSE'', C ''FALSE'', C ''0''],
     Do ''gtk_widget_show'' [V ''box2'']] @
     make_box ''box2'' False 10 True True 0 @
     [
     Do ''gtk_box_pack_start'' [V ''box1'', V ''box2'', C ''FALSE'', C ''FALSE'', C ''0''],
     Do ''gtk_widget_show'' [V ''box2''],
     Set ''separator'' ''gtk_hseparator_new'' [],
     Do ''gtk_box_pack_start'' [V ''box1'', V ''separator'', C ''FALSE'', C ''TRUE'', C ''5''],
     Do ''gtk_widget_show'' [V ''separator''],
     Set ''label'' ''gtk_label_new'' [C ''gtk_hbox_new (FALSE, 0);''],
     Do ''gtk_misc_set_alignment'' [V ''label'', C ''0'', C ''0''],
     Do ''gtk_box_pack_start'' [V ''box1'', V ''label'', C ''FALSE'', C ''FALSE'', C ''0''],
     Do ''gtk_widget_show'' [V ''label'']] @
     make_box ''box2'' False 0 True False 10 @
     [
     Do ''gtk_box_pack_start'' [V ''box1'', V ''box2'', C ''FALSE'', C ''FALSE'', C ''0''],
     Do ''gtk_widget_show'' [V ''box2'']] @
     make_box ''box2'' False 0 True True 10 @
     [
     Do ''gtk_box_pack_start'' [V ''box1'', V ''box2'', C ''FALSE'', C ''FALSE'', C ''0''],
     Do ''gtk_widget_show'' [V ''box2''],
     Set ''separator'' ''gtk_hseparator_new'' [],
     Do ''gtk_box_pack_start'' [V ''box1'', V ''separator'', C ''FALSE'', C ''TRUE'', C ''5''],
     Do ''gtk_widget_show'' [V ''separator'']]"

definition packbox3 :: "stmt list" where
  "packbox3 = make_box ''box2'' False 0 False False 0 @
     [
     Set ''label'' ''gtk_label_new'' [C ''end''],
     Do ''gtk_box_pack_end'' [V ''box2'', V ''label'', C ''FALSE'', C ''FALSE'', C ''0''],
     Do ''gtk_widget_show'' [V ''label''],
     Do ''gtk_box_pack_start'' [V ''box1'', V ''box2'', C ''FALSE'', C ''FALSE'', C ''0''],
     Do ''gtk_widget_show'' [V ''box2''],
     Set ''separator'' ''gtk_hseparator_new'' [],
     Do ''gtk_widget_set_size_request'' [V ''separator'', C ''400'', C ''5''],
     Do ''gtk_box_pack_start'' [V ''box1'', V ''separator'', C ''FALSE'', C ''TRUE'', C ''5''],
     Do ''gtk_widget_show'' [V ''separator'']]"

definition packbox_begin :: "stmt list" where
  "packbox_begin = [
     Set ''window'' ''gtk_window_new'' [C ''GTK_WINDOW_TOPLEVEL''],
     Do ''g_signal_connect'' [V ''window'', C ''delete-event'', C ''delete_event'', C ''NULL''],
     Do ''gtk_container_set_border_width'' [V ''window'', C ''10''],
     Set ''box1'' ''gtk_vbox_new'' [C ''FALSE'', C ''0'']]"

definition packbox_end :: "stmt list" where
  "packbox_end = [
     Set ''quitbox'' ''gtk_hbox_new'' [C ''FALSE'', C ''0''],
     Set ''button'' ''gtk_button_new_with_label'' [C ''Quit''],
     Do ''g_signal_connect_swapped'' [V ''button'', C ''clicked'', C ''gtk_main_quit'', V ''window''],
     Do ''gtk_box_pack_start'' [V ''quitbox'', V ''button'', C ''TRUE'', C ''FALSE'', C ''0''],
     Do ''gtk_box_pack_start'' [V ''box1'', V ''quitbox'', C ''FALSE'', C ''FALSE'', C ''0''],
     Do ''gtk_container_add'' [V ''window'', V ''box1''],
     Do ''gtk_widget_show'' [V ''button''],
     Do ''gtk_widget_show'' [V ''quitbox''],
     Do ''gtk_widget_show'' [V ''box1''],
     Do ''gtk_widget_show'' [V ''window''],
     Do ''gtk_main'' []]"

definition packbox_script :: "int \<Rightarrow> stmt list" where
  "packbox_script which = packbox_begin @
     (if which = 1 then packbox1 else if which = 2 then packbox2 else if which = 3 then packbox3 else []) @ packbox_end"

definition packbox_main :: "string list \<Rightarrow> int prog" where
  "packbox_main argv =
     bind (do_call ''gtk_init'' []) (\<lambda>_.
     if length argv \<noteq> 2 then bind (eprint (''usage: packbox num, where num is 1, 2, or 3.'' @ nl)) (\<lambda>_. exit_with 1)
     else bind (lift (atoi (argv ! 1))) (\<lambda>which. main_of (packbox_script which)))"

section \<open>\<^verbatim>\<open>gtk_range_ctrl.c\<close>\<close>

text \<open>The scales are in two global variables.\<close>

definition cb_pos_menu_select :: "int \<Rightarrow> int \<Rightarrow> string \<Rightarrow> unit prog" where
  "cb_pos_menu_select hscale vscale pos =
     bind (do_call ''gtk_scale_set_value_pos'' [I hscale, S pos]) (\<lambda>_. do_call ''gtk_scale_set_value_pos'' [I vscale, S pos])"

definition cb_update_menu_select :: "int \<Rightarrow> int \<Rightarrow> string \<Rightarrow> unit prog" where
  "cb_update_menu_select hscale vscale policy =
     bind (do_call ''gtk_range_set_update_policy'' [I hscale, S policy]) (\<lambda>_. do_call ''gtk_range_set_update_policy'' [I vscale, S policy])"

text \<open>The conversion of a \<^verbatim>\<open>double\<close> to \<^verbatim>\<open>gint\<close> cuts off the fraction.\<close>

definition c_trunc :: "real \<Rightarrow> int" where
  "c_trunc x = (if x < 0 then - \<lfloor>- x\<rfloor> else \<lfloor>x\<rfloor>)"

definition cb_digits_scale :: "int \<Rightarrow> int \<Rightarrow> real \<Rightarrow> unit prog" where
  "cb_digits_scale hscale vscale adj_value =
     bind (do_call ''gtk_scale_set_digits'' [I hscale, I (c_trunc adj_value)]) (\<lambda>_. do_call ''gtk_scale_set_digits'' [I vscale, I (c_trunc adj_value)])"

text \<open>The fields of a \<^verbatim>\<open>GtkAdjustment\<close> that the callback uses.\<close>

record adjustment =
  adj_value :: real
  lower :: real
  upper :: real
  page_increment :: real
  page_size :: real

text \<open>The macro of GLib.\<close>

definition CLAMP :: "real \<Rightarrow> real \<Rightarrow> real \<Rightarrow> real" where
  "CLAMP x low high = (if x > high then high else if x < low then low else x)"

text \<open>The adjustment after \<^verbatim>\<open>gtk_adjustment_set_value\<close>, and the signal emitted.\<close>

definition cb_page_size :: "(real \<Rightarrow> real) \<Rightarrow> adjustment \<Rightarrow> adjustment \<Rightarrow> adjustment \<times> string" where
  "cb_page_size rnd get_adj set_adj =
     (let s = set_adj\<lparr>page_size := adj_value get_adj\<rparr>;
          s = s\<lparr>page_increment := adj_value get_adj\<rparr> in
      (s\<lparr>adj_value := CLAMP (adj_value s) (lower s) (rnd (upper s - page_size s))\<rparr>, ''changed''))"

definition cb_draw_value :: "int \<Rightarrow> int \<Rightarrow> int \<Rightarrow> unit prog" where
  "cb_draw_value hscale vscale button =
     bind (call_ret ''GtkToggleButton->active'' [I button]) (\<lambda>active.
     bind (do_call ''gtk_scale_set_draw_value'' [I hscale, I active]) (\<lambda>_.
     bind (call_ret ''GtkToggleButton->active'' [I button]) (\<lambda>active.
     do_call ''gtk_scale_set_draw_value'' [I vscale, I active])))"


definition make_menu_item :: "string \<Rightarrow> string \<Rightarrow> string \<Rightarrow> string \<Rightarrow> stmt list" where
  "make_menu_item res name callback udata = [
     Set res ''gtk_menu_item_new_with_label'' [C name],
     Do ''g_signal_connect'' [V res, C ''activate'', C callback, C udata],
     Do ''gtk_widget_show'' [V res]]"

definition scale_set_default_values :: "string \<Rightarrow> stmt list" where
  "scale_set_default_values scale = [
     Do ''gtk_range_set_update_policy'' [V scale, C ''GTK_UPDATE_CONTINUOUS''],
     Do ''gtk_scale_set_digits'' [V scale, C ''1''],
     Do ''gtk_scale_set_value_pos'' [V scale, C ''GTK_POS_TOP''],
     Do ''gtk_scale_set_draw_value'' [V scale, C ''TRUE'']]"

definition range_first :: "stmt list" where
  "range_first = [
     Set ''window'' ''gtk_window_new'' [C ''GTK_WINDOW_TOPLEVEL''],
     Do ''g_signal_connect'' [V ''window'', C ''destroy'', C ''gtk_main_quit'', C ''NULL''],
     Do ''gtk_window_set_title'' [V ''window'', C ''range controls''],
     Set ''box1'' ''gtk_vbox_new'' [C ''FALSE'', C ''0''],
     Do ''gtk_container_add'' [V ''window'', V ''box1''],
     Do ''gtk_widget_show'' [V ''box1''],
     Set ''box2'' ''gtk_hbox_new'' [C ''FALSE'', C ''10''],
     Do ''gtk_container_set_border_width'' [V ''box2'', C ''10''],
     Do ''gtk_box_pack_start'' [V ''box1'', V ''box2'', C ''TRUE'', C ''TRUE'', C ''0''],
     Do ''gtk_widget_show'' [V ''box2''],
     Set ''adj1'' ''gtk_adjustment_new'' [C ''0.0'', C ''0.0'', C ''101.0'', C ''0.1'', C ''1.0'', C ''1.0''],
     Set ''vscale'' ''gtk_vscale_new'' [V ''adj1'']] @
     scale_set_default_values ''vscale'' @
     [
     Do ''gtk_box_pack_start'' [V ''box2'', V ''vscale'', C ''TRUE'', C ''TRUE'', C ''0''],
     Do ''gtk_widget_show'' [V ''vscale''],
     Set ''box3'' ''gtk_vbox_new'' [C ''FALSE'', C ''10''],
     Do ''gtk_box_pack_start'' [V ''box2'', V ''box3'', C ''TRUE'', C ''TRUE'', C ''0''],
     Do ''gtk_widget_show'' [V ''box3''],
     Set ''hscale'' ''gtk_hscale_new'' [V ''adj1''],
     Do ''gtk_widget_set_size_request'' [V ''hscale'', C ''200'', C ''-1'']] @
     scale_set_default_values ''hscale'' @
     [
     Do ''gtk_box_pack_start'' [V ''box3'', V ''hscale'', C ''TRUE'', C ''TRUE'', C ''0''],
     Do ''gtk_widget_show'' [V ''hscale''],
     Set ''scrollbar'' ''gtk_hscrollbar_new'' [V ''adj1''],
     Do ''gtk_range_set_update_policy'' [V ''scrollbar'', C ''GTK_UPDATE_CONTINUOUS''],
     Do ''gtk_box_pack_start'' [V ''box3'', V ''scrollbar'', C ''TRUE'', C ''TRUE'', C ''0''],
     Do ''gtk_widget_show'' [V ''scrollbar''],
     Set ''box2'' ''gtk_hbox_new'' [C ''FALSE'', C ''10''],
     Do ''gtk_container_set_border_width'' [V ''box2'', C ''10''],
     Do ''gtk_box_pack_start'' [V ''box1'', V ''box2'', C ''TRUE'', C ''TRUE'', C ''0''],
     Do ''gtk_widget_show'' [V ''box2''],
     Set ''button'' ''gtk_check_button_new_with_label'' [C ''Display value on scale widgets''],
     Do ''gtk_toggle_button_set_active'' [V ''button'', C ''TRUE''],
     Do ''g_signal_connect'' [V ''button'', C ''toggled'', C ''cb_draw_value'', C ''NULL''],
     Do ''gtk_box_pack_start'' [V ''box2'', V ''button'', C ''TRUE'', C ''TRUE'', C ''0''],
     Do ''gtk_widget_show'' [V ''button''],
     Set ''box2'' ''gtk_hbox_new'' [C ''FALSE'', C ''10''],
     Do ''gtk_container_set_border_width'' [V ''box2'', C ''10''],
     Set ''label'' ''gtk_label_new'' [C ''Scale Value Position:''],
     Do ''gtk_box_pack_start'' [V ''box2'', V ''label'', C ''FALSE'', C ''FALSE'', C ''0''],
     Do ''gtk_widget_show'' [V ''label''],
     Set ''opt'' ''gtk_option_menu_new'' [],
     Set ''menu'' ''gtk_menu_new'' []] @
     make_menu_item ''item'' ''Top'' ''cb_pos_menu_select'' ''GTK_POS_TOP'' @
     [
     Do ''gtk_menu_shell_append'' [V ''menu'', V ''item'']] @
     make_menu_item ''item'' ''Bottom'' ''cb_pos_menu_select'' ''GTK_POS_BOTTOM'' @
     [
     Do ''gtk_menu_shell_append'' [V ''menu'', V ''item'']] @
     make_menu_item ''item'' ''Left'' ''cb_pos_menu_select'' ''GTK_POS_LEFT'' @
     [
     Do ''gtk_menu_shell_append'' [V ''menu'', V ''item'']] @
     make_menu_item ''item'' ''Right'' ''cb_pos_menu_select'' ''GTK_POS_RIGHT'' @
     [
     Do ''gtk_menu_shell_append'' [V ''menu'', V ''item''],
     Do ''gtk_option_menu_set_menu'' [V ''opt'', V ''menu''],
     Do ''gtk_box_pack_start'' [V ''box2'', V ''opt'', C ''TRUE'', C ''TRUE'', C ''0''],
     Do ''gtk_widget_show'' [V ''opt''],
     Do ''gtk_box_pack_start'' [V ''box1'', V ''box2'', C ''TRUE'', C ''TRUE'', C ''0''],
     Do ''gtk_widget_show'' [V ''box2'']]"

definition range_second :: "stmt list" where
  "range_second = [
     Set ''box2'' ''gtk_hbox_new'' [C ''FALSE'', C ''10''],
     Do ''gtk_container_set_border_width'' [V ''box2'', C ''10''],
     Set ''label'' ''gtk_label_new'' [C ''Scale Update Policy:''],
     Do ''gtk_box_pack_start'' [V ''box2'', V ''label'', C ''FALSE'', C ''FALSE'', C ''0''],
     Do ''gtk_widget_show'' [V ''label''],
     Set ''opt'' ''gtk_option_menu_new'' [],
     Set ''menu'' ''gtk_menu_new'' []] @
     make_menu_item ''item'' ''Continuous'' ''cb_update_menu_select'' ''GTK_UPDATE_CONTINUOUS'' @
     [
     Do ''gtk_menu_shell_append'' [V ''menu'', V ''item'']] @
     make_menu_item ''item'' ''Discontinuous'' ''cb_update_menu_select'' ''GTK_UPDATE_DISCONTINUOUS'' @
     [
     Do ''gtk_menu_shell_append'' [V ''menu'', V ''item'']] @
     make_menu_item ''item'' ''Delayed'' ''cb_update_menu_select'' ''GTK_UPDATE_DELAYED'' @
     [
     Do ''gtk_menu_shell_append'' [V ''menu'', V ''item''],
     Do ''gtk_option_menu_set_menu'' [V ''opt'', V ''menu''],
     Do ''gtk_box_pack_start'' [V ''box2'', V ''opt'', C ''TRUE'', C ''TRUE'', C ''0''],
     Do ''gtk_widget_show'' [V ''opt''],
     Do ''gtk_box_pack_start'' [V ''box1'', V ''box2'', C ''TRUE'', C ''TRUE'', C ''0''],
     Do ''gtk_widget_show'' [V ''box2''],
     Set ''box2'' ''gtk_hbox_new'' [C ''FALSE'', C ''10''],
     Do ''gtk_container_set_border_width'' [V ''box2'', C ''10''],
     Set ''label'' ''gtk_label_new'' [C ''Scale Digits:''],
     Do ''gtk_box_pack_start'' [V ''box2'', V ''label'', C ''FALSE'', C ''FALSE'', C ''0''],
     Do ''gtk_widget_show'' [V ''label''],
     Set ''adj2'' ''gtk_adjustment_new'' [C ''1.0'', C ''0.0'', C ''5.0'', C ''1.0'', C ''1.0'', C ''0.0''],
     Do ''g_signal_connect'' [V ''adj2'', C ''value_changed'', C ''cb_digits_scale'', C ''NULL''],
     Set ''scale'' ''gtk_hscale_new'' [V ''adj2''],
     Do ''gtk_scale_set_digits'' [V ''scale'', C ''0''],
     Do ''gtk_box_pack_start'' [V ''box2'', V ''scale'', C ''TRUE'', C ''TRUE'', C ''0''],
     Do ''gtk_widget_show'' [V ''scale''],
     Do ''gtk_box_pack_start'' [V ''box1'', V ''box2'', C ''TRUE'', C ''TRUE'', C ''0''],
     Do ''gtk_widget_show'' [V ''box2''],
     Set ''box2'' ''gtk_hbox_new'' [C ''FALSE'', C ''10''],
     Do ''gtk_container_set_border_width'' [V ''box2'', C ''10''],
     Set ''label'' ''gtk_label_new'' [C ''Scrollbar Page Size:''],
     Do ''gtk_box_pack_start'' [V ''box2'', V ''label'', C ''FALSE'', C ''FALSE'', C ''0''],
     Do ''gtk_widget_show'' [V ''label''],
     Set ''adj2'' ''gtk_adjustment_new'' [C ''1.0'', C ''1.0'', C ''101.0'', C ''1.0'', C ''1.0'', C ''0.0''],
     Do ''g_signal_connect'' [V ''adj2'', C ''value_changed'', C ''cb_page_size'', V ''adj1''],
     Set ''scale'' ''gtk_hscale_new'' [V ''adj2''],
     Do ''gtk_scale_set_digits'' [V ''scale'', C ''0''],
     Do ''gtk_box_pack_start'' [V ''box2'', V ''scale'', C ''TRUE'', C ''TRUE'', C ''0''],
     Do ''gtk_widget_show'' [V ''scale''],
     Do ''gtk_box_pack_start'' [V ''box1'', V ''box2'', C ''TRUE'', C ''TRUE'', C ''0''],
     Do ''gtk_widget_show'' [V ''box2''],
     Set ''separator'' ''gtk_hseparator_new'' [],
     Do ''gtk_box_pack_start'' [V ''box1'', V ''separator'', C ''FALSE'', C ''TRUE'', C ''0''],
     Do ''gtk_widget_show'' [V ''separator''],
     Set ''box2'' ''gtk_vbox_new'' [C ''FALSE'', C ''10''],
     Do ''gtk_container_set_border_width'' [V ''box2'', C ''10''],
     Do ''gtk_box_pack_start'' [V ''box1'', V ''box2'', C ''FALSE'', C ''TRUE'', C ''0''],
     Do ''gtk_widget_show'' [V ''box2''],
     Set ''button'' ''gtk_button_new_with_label'' [C ''Quit''],
     Do ''g_signal_connect_swapped'' [V ''button'', C ''clicked'', C ''gtk_main_quit'', C ''NULL''],
     Do ''gtk_box_pack_start'' [V ''box2'', V ''button'', C ''TRUE'', C ''TRUE'', C ''0''],
     Do ''gtk_widget_set_can_default'' [V ''button'', C ''TRUE''],
     Do ''gtk_widget_grab_default'' [V ''button''],
     Do ''gtk_widget_show'' [V ''button''],
     Do ''gtk_widget_show'' [V ''window'']]"

definition range_main :: "stmt list" where
  "range_main = [Do ''gtk_init'' [C ''&argc'', C ''&argv'']] @ range_first @ range_second @ [Do ''gtk_main'' []]"

section \<open>\<^verbatim>\<open>gtk_spin_button.c\<close>\<close>

definition toggle_snap :: "int \<Rightarrow> int \<Rightarrow> unit prog" where
  "toggle_snap widget spin =
     bind (call_ret ''GtkToggleButton->active'' [I widget]) (\<lambda>active. do_call ''gtk_spin_button_set_snap_to_ticks'' [I spin, I active])"

definition toggle_numeric :: "int \<Rightarrow> int \<Rightarrow> unit prog" where
  "toggle_numeric widget spin =
     bind (call_ret ''GtkToggleButton->active'' [I widget]) (\<lambda>active. do_call ''gtk_spin_button_set_numeric'' [I spin, I active])"

definition change_digits :: "int \<Rightarrow> int \<Rightarrow> unit prog" where
  "change_digits spinner1 spin =
     bind (call_ret ''gtk_spin_button_get_value_as_int'' [I spin]) (\<lambda>n. do_call ''gtk_spin_button_set_digits'' [I spinner1, I n])"

text \<open>The decimal text of a \<^verbatim>\<open>double\<close> is left to \<^verbatim>\<open>g_strdup_printf\<close>.\<close>

definition get_value :: "int \<Rightarrow> int \<Rightarrow> int \<Rightarrow> unit prog" where
  "get_value spinner1 widget udata =
     bind (call_ret ''g_object_get_data'' [I widget, S ''user_data'']) (\<lambda>label.
     bind (if udata = 1 then bind (call_ret ''gtk_spin_button_get_value_as_int'' [I spinner1]) (\<lambda>n. return (show_int n))
           else bind (call_ret ''GtkSpinButton->digits'' [I spinner1]) (\<lambda>digits.
                bind (call_text ''gtk_spin_button_get_value'' [I spinner1]) (\<lambda>v.
                call_text ''g_strdup_printf'' [S ''%0.*f'', I digits, S v]))) (\<lambda>buf.
     bind (do_call ''gtk_label_set_text'' [I label, S buf]) (\<lambda>_. do_call ''g_free'' [S buf])))"

text \<open>The source writes \<^verbatim>\<open>gtk_spin_b utton_new\<close> in line 139, which does not compile; the name meant is used here.\<close>

definition spin_first :: "stmt list" where
  "spin_first = [
     Do ''gtk_init'' [C ''&argc'', C ''&argv''],
     Set ''window'' ''gtk_window_new'' [C ''GTK_WINDOW_TOPLEVEL''],
     Do ''g_signal_connect'' [V ''window'', C ''destroy'', C ''gtk_main_quit'', C ''NULL''],
     Do ''gtk_window_set_title'' [V ''window'', C ''Spin Button''],
     Set ''main_vbox'' ''gtk_vbox_new'' [C ''FALSE'', C ''5''],
     Do ''gtk_container_set_border_width'' [V ''main_vbox'', C ''10''],
     Do ''gtk_container_add'' [V ''window'', V ''main_vbox''],
     Set ''frame'' ''gtk_frame_new'' [C ''Not accelerated''],
     Do ''gtk_box_pack_start'' [V ''main_vbox'', V ''frame'', C ''TRUE'', C ''TRUE'', C ''0''],
     Set ''vbox'' ''gtk_vbox_new'' [C ''FALSE'', C ''0''],
     Do ''gtk_container_set_border_width'' [V ''vbox'', C ''5''],
     Do ''gtk_container_add'' [V ''frame'', V ''vbox''],
     Set ''hbox'' ''gtk_hbox_new'' [C ''FALSE'', C ''0''],
     Do ''gtk_box_pack_start'' [V ''vbox'', V ''hbox'', C ''TRUE'', C ''TRUE'', C ''5''],
     Set ''vbox2'' ''gtk_vbox_new'' [C ''FALSE'', C ''0''],
     Do ''gtk_box_pack_start'' [V ''hbox'', V ''vbox2'', C ''TRUE'', C ''TRUE'', C ''5''],
     Set ''label'' ''gtk_label_new'' [C ''Day :''],
     Do ''gtk_misc_set_alignment'' [V ''label'', C ''0'', C ''0.5''],
     Do ''gtk_box_pack_start'' [V ''vbox2'', V ''label'', C ''FALSE'', C ''TRUE'', C ''0''],
     Set ''adj'' ''gtk_adjustment_new'' [C ''1.0'', C ''1.0'', C ''31.0'', C ''1.0'', C ''5.0'', C ''0.0''],
     Set ''spinner'' ''gtk_spin_button_new'' [V ''adj'', C ''0'', C ''0''],
     Do ''gtk_spin_button_set_wrap'' [V ''spinner'', C ''TRUE''],
     Do ''gtk_box_pack_start'' [V ''vbox2'', V ''spinner'', C ''FALSE'', C ''TRUE'', C ''0''],
     Set ''vbox2'' ''gtk_vbox_new'' [C ''FALSE'', C ''0''],
     Do ''gtk_box_pack_start'' [V ''hbox'', V ''vbox2'', C ''TRUE'', C ''TRUE'', C ''5''],
     Set ''label'' ''gtk_label_new'' [C ''Month :''],
     Do ''gtk_misc_set_alignment'' [V ''label'', C ''0'', C ''0.5''],
     Do ''gtk_box_pack_start'' [V ''vbox2'', V ''label'', C ''FALSE'', C ''TRUE'', C ''0''],
     Set ''adj'' ''gtk_adjustment_new'' [C ''1.0'', C ''1.0'', C ''12.0'', C ''1.0'', C ''5.0'', C ''0.0''],
     Set ''spinner'' ''gtk_spin_button_new'' [V ''adj'', C ''0'', C ''0''],
     Do ''gtk_spin_button_set_wrap'' [V ''spinner'', C ''TRUE''],
     Do ''gtk_box_pack_start'' [V ''vbox2'', V ''spinner'', C ''FALSE'', C ''TRUE'', C ''0''],
     Set ''vbox2'' ''gtk_vbox_new'' [C ''FALSE'', C ''0''],
     Do ''gtk_box_pack_start'' [V ''hbox'', V ''vbox2'', C ''TRUE'', C ''TRUE'', C ''5''],
     Set ''label'' ''gtk_label_new'' [C ''Year :''],
     Do ''gtk_misc_set_alignment'' [V ''label'', C ''0'', C ''0.5''],
     Do ''gtk_box_pack_start'' [V ''vbox2'', V ''label'', C ''FALSE'', C ''TRUE'', C ''0''],
     Set ''adj'' ''gtk_adjustment_new'' [C ''1998.0'', C ''0.0'', C ''2100.0'', C ''1.0'', C ''100.0'', C ''0.0''],
     Set ''spinner'' ''gtk_spin_button_new'' [V ''adj'', C ''0'', C ''0''],
     Do ''gtk_spin_button_set_wrap'' [V ''spinner'', C ''FALSE''],
     Do ''gtk_widget_set_size_request'' [V ''spinner'', C ''55'', C ''-1''],
     Do ''gtk_box_pack_start'' [V ''vbox2'', V ''spinner'', C ''FALSE'', C ''TRUE'', C ''0'']]"

definition spin_second :: "stmt list" where
  "spin_second = [
     Set ''frame'' ''gtk_frame_new'' [C ''Accelerated''],
     Do ''gtk_box_pack_start'' [V ''main_vbox'', V ''frame'', C ''TRUE'', C ''TRUE'', C ''0''],
     Set ''vbox'' ''gtk_vbox_new'' [C ''FALSE'', C ''0''],
     Do ''gtk_container_set_border_width'' [V ''vbox'', C ''5''],
     Do ''gtk_container_add'' [V ''frame'', V ''vbox''],
     Set ''hbox'' ''gtk_hbox_new'' [C ''FALSE'', C ''0''],
     Do ''gtk_box_pack_start'' [V ''vbox'', V ''hbox'', C ''FALSE'', C ''TRUE'', C ''5''],
     Set ''vbox2'' ''gtk_vbox_new'' [C ''FALSE'', C ''0''],
     Do ''gtk_box_pack_start'' [V ''hbox'', V ''vbox2'', C ''TRUE'', C ''TRUE'', C ''5''],
     Set ''label'' ''gtk_label_new'' [C ''Value :''],
     Do ''gtk_misc_set_alignment'' [V ''label'', C ''0'', C ''0.5''],
     Do ''gtk_box_pack_start'' [V ''vbox2'', V ''label'', C ''FALSE'', C ''TRUE'', C ''0''],
     Set ''adj'' ''gtk_adjustment_new'' [C ''0.0'', C ''-10000.0'', C ''10000.0'', C ''0.5'', C ''100.0'', C ''0.0''],
     Set ''spinner1'' ''gtk_spin_button_new'' [V ''adj'', C ''1.0'', C ''2''],
     Do ''gtk_spin_button_set_wrap'' [V ''spinner1'', C ''TRUE''],
     Do ''gtk_widget_set_size_request'' [V ''spinner1'', C ''100'', C ''-1''],
     Do ''gtk_box_pack_start'' [V ''vbox2'', V ''spinner1'', C ''FALSE'', C ''TRUE'', C ''0''],
     Set ''vbox2'' ''gtk_vbox_new'' [C ''FALSE'', C ''0''],
     Do ''gtk_box_pack_start'' [V ''hbox'', V ''vbox2'', C ''TRUE'', C ''TRUE'', C ''5''],
     Set ''label'' ''gtk_label_new'' [C ''Digits :''],
     Do ''gtk_misc_set_alignment'' [V ''label'', C ''0'', C ''0.5''],
     Do ''gtk_box_pack_start'' [V ''vbox2'', V ''label'', C ''FALSE'', C ''TRUE'', C ''0''],
     Set ''adj'' ''gtk_adjustment_new'' [C ''2'', C ''1'', C ''5'', C ''1'', C ''1'', C ''0''],
     Set ''spinner2'' ''gtk_spin_button_new'' [V ''adj'', C ''0.0'', C ''0''],
     Do ''gtk_spin_button_set_wrap'' [V ''spinner2'', C ''TRUE''],
     Do ''g_signal_connect'' [V ''adj'', C ''value_changed'', C ''change_digits'', V ''spinner2''],
     Do ''gtk_box_pack_start'' [V ''vbox2'', V ''spinner2'', C ''FALSE'', C ''TRUE'', C ''0''],
     Set ''hbox'' ''gtk_hbox_new'' [C ''FALSE'', C ''0''],
     Do ''gtk_box_pack_start'' [V ''vbox'', V ''hbox'', C ''FALSE'', C ''TRUE'', C ''5''],
     Set ''button'' ''gtk_check_button_new_with_label'' [C ''Snap to 0.5-ticks''],
     Do ''g_signal_connect'' [V ''button'', C ''clicked'', C ''toggle_snap'', V ''spinner1''],
     Do ''gtk_box_pack_start'' [V ''vbox'', V ''button'', C ''TRUE'', C ''TRUE'', C ''0''],
     Do ''gtk_toggle_button_set_active'' [V ''button'', C ''TRUE''],
     Set ''button'' ''gtk_check_button_new_with_label'' [C ''Numeric only input mode''],
     Do ''g_signal_connect'' [V ''button'', C ''clicked'', C ''toggle_numeric'', V ''spinner1''],
     Do ''gtk_box_pack_start'' [V ''vbox'', V ''button'', C ''TRUE'', C ''TRUE'', C ''0''],
     Do ''gtk_toggle_button_set_active'' [V ''button'', C ''TRUE''],
     Set ''val_label'' ''gtk_label_new'' [C []],
     Set ''hbox'' ''gtk_hbox_new'' [C ''FALSE'', C ''0''],
     Do ''gtk_box_pack_start'' [V ''vbox'', V ''hbox'', C ''FALSE'', C ''TRUE'', C ''5''],
     Set ''button'' ''gtk_button_new_with_label'' [C ''Value as Int''],
     Do ''g_object_set_data'' [V ''button'', C ''user_data'', V ''val_label''],
     Do ''g_signal_connect'' [V ''button'', C ''clicked'', C ''get_value'', C ''1''],
     Do ''gtk_box_pack_start'' [V ''hbox'', V ''button'', C ''TRUE'', C ''TRUE'', C ''5''],
     Set ''button'' ''gtk_button_new_with_label'' [C ''Value as Float''],
     Do ''g_object_set_data'' [V ''button'', C ''user_data'', V ''val_label''],
     Do ''g_signal_connect'' [V ''button'', C ''clicked'', C ''get_value'', C ''2''],
     Do ''gtk_box_pack_start'' [V ''hbox'', V ''button'', C ''TRUE'', C ''TRUE'', C ''5''],
     Do ''gtk_box_pack_start'' [V ''vbox'', V ''val_label'', C ''TRUE'', C ''TRUE'', C ''0''],
     Do ''gtk_label_set_text'' [V ''val_label'', C ''0''],
     Set ''hbox'' ''gtk_hbox_new'' [C ''FALSE'', C ''0''],
     Do ''gtk_box_pack_start'' [V ''main_vbox'', V ''hbox'', C ''FALSE'', C ''TRUE'', C ''0''],
     Set ''button'' ''gtk_button_new_with_label'' [C ''Close''],
     Do ''g_signal_connect_swapped'' [V ''button'', C ''clicked'', C ''gtk_widget_destroy'', V ''window''],
     Do ''gtk_box_pack_start'' [V ''hbox'', V ''button'', C ''TRUE'', C ''TRUE'', C ''5''],
     Do ''gtk_widget_show_all'' [V ''window''],
     Do ''gtk_main'' []]"

definition spin_main :: "stmt list" where
  "spin_main = spin_first @ spin_second"

section \<open>\<^verbatim>\<open>gtk_progress_bar.c\<close>\<close>

definition progress_main :: "stmt list" where
  "progress_main = [
     Do ''gtk_init'' [C ''&argc'', C ''&argv''],
     Set ''pdata'' ''g_malloc'' [C ''sizeof (ProgressData)''],
     Set ''pdata->window'' ''gtk_window_new'' [C ''GTK_WINDOW_TOPLEVEL''],
     Do ''gtk_window_set_resizable'' [V ''pdata->window'', C ''TRUE''],
     Do ''g_signal_connect'' [V ''pdata->window'', C ''destroy'', C ''destroy_progress'', V ''pdata''],
     Do ''gtk_window_set_title'' [V ''pdata->window'', C ''GtkProgressBar''],
     Do ''gtk_container_set_border_width'' [V ''pdata->window'', C ''0''],
     Set ''vbox'' ''gtk_vbox_new'' [C ''FALSE'', C ''5''],
     Do ''gtk_container_set_border_width'' [V ''vbox'', C ''10''],
     Do ''gtk_container_add'' [V ''pdata->window'', V ''vbox''],
     Do ''gtk_widget_show'' [V ''vbox''],
     Set ''align'' ''gtk_alignment_new'' [C ''0.5'', C ''0.5'', C ''0'', C ''0''],
     Do ''gtk_box_pack_start'' [V ''vbox'', V ''align'', C ''FALSE'', C ''FALSE'', C ''5''],
     Do ''gtk_widget_show'' [V ''align''],
     Set ''pdata->pbar'' ''gtk_progress_bar_new'' [],
     Do ''gtk_container_add'' [V ''align'', V ''pdata->pbar''],
     Do ''gtk_widget_show'' [V ''pdata->pbar''],
     Get ''pdata->timer'' ''g_timeout_add'' [C ''100'', C ''progress_timeout'', V ''pdata''],
     Set ''separator'' ''gtk_hseparator_new'' [],
     Do ''gtk_box_pack_start'' [V ''vbox'', V ''separator'', C ''FALSE'', C ''FALSE'', C ''0''],
     Do ''gtk_widget_show'' [V ''separator''],
     Set ''table'' ''gtk_table_new'' [C ''2'', C ''3'', C ''FALSE''],
     Do ''gtk_box_pack_start'' [V ''vbox'', V ''table'', C ''FALSE'', C ''TRUE'', C ''0''],
     Do ''gtk_widget_show'' [V ''table''],
     Set ''check'' ''gtk_check_button_new_with_label'' [C ''Show text''],
     Do ''gtk_table_attach'' [V ''table'', V ''check'', C ''0'', C ''1'', C ''0'', C ''1'', C ''GTK_EXPAND | GTK_FILL'', C ''GTK_EXPAND | GTK_FILL'', C ''5'', C ''5''],
     Do ''g_signal_connect'' [V ''check'', C ''clicked'', C ''toggle_show_text'', V ''pdata''],
     Do ''gtk_widget_show'' [V ''check''],
     Set ''check'' ''gtk_check_button_new_with_label'' [C ''Activity mode''],
     Do ''gtk_table_attach'' [V ''table'', V ''check'', C ''0'', C ''1'', C ''1'', C ''2'', C ''GTK_EXPAND | GTK_FILL'', C ''GTK_EXPAND | GTK_FILL'', C ''5'', C ''5''],
     Do ''g_signal_connect'' [V ''check'', C ''clicked'', C ''toggle_activity_mode'', V ''pdata''],
     Do ''gtk_widget_show'' [V ''check''],
     Set ''check'' ''gtk_check_button_new_with_label'' [C ''Right to Left''],
     Do ''gtk_table_attach'' [V ''table'', V ''check'', C ''0'', C ''1'', C ''2'', C ''3'', C ''GTK_EXPAND | GTK_FILL'', C ''GTK_EXPAND | GTK_FILL'', C ''5'', C ''5''],
     Do ''g_signal_connect'' [V ''check'', C ''clicked'', C ''toggle_orientation'', V ''pdata''],
     Do ''gtk_widget_show'' [V ''check''],
     Set ''button'' ''gtk_button_new_with_label'' [C ''close''],
     Do ''g_signal_connect_swapped'' [V ''button'', C ''clicked'', C ''gtk_widget_destroy'', V ''pdata->window''],
     Do ''gtk_box_pack_start'' [V ''vbox'', V ''button'', C ''FALSE'', C ''FALSE'', C ''0''],
     Do ''gtk_widget_set_can_default'' [V ''button'', C ''TRUE''],
     Do ''gtk_widget_grab_default'' [V ''button''],
     Do ''gtk_widget_show'' [V ''button''],
     Do ''gtk_widget_show'' [V ''pdata->window''],
     Do ''gtk_main'' []]"

record ProgressData =
  window :: int
  pbar :: int
  timer :: int
  activity_mode :: bool

text \<open>A tick of the timer: what is done to the bar, which shows \<open>fraction\<close>, and the result.\<close>

datatype bar_action = Pulse | Set_fraction real

definition progress_timeout :: "(real \<Rightarrow> real) \<Rightarrow> ProgressData \<Rightarrow> real \<Rightarrow> bar_action \<times> bool" where
  "progress_timeout rnd pdata fraction =
     (if activity_mode pdata then (Pulse, True)
      else let new_val = rnd (fraction + rnd (1 / 100)) in (Set_fraction (if new_val > 1 then 0 else new_val), True))"

definition toggle_show_text :: "ProgressData \<Rightarrow> unit prog" where
  "toggle_show_text pdata =
     bind (call_text ''gtk_progress_bar_get_text'' [I (pbar pdata)]) (\<lambda>text.
     do_call ''gtk_progress_bar_set_text'' [I (pbar pdata), S (if text \<noteq> [] then [] else ''some text'')])"

definition toggle_activity_mode :: "ProgressData \<Rightarrow> ProgressData prog" where
  "toggle_activity_mode pdata =
     (let pdata = pdata\<lparr>activity_mode := \<not> activity_mode pdata\<rparr> in
      bind (if activity_mode pdata then do_call ''gtk_progress_bar_pulse'' [I (pbar pdata)]
            else do_call ''gtk_progress_bar_set_fraction'' [I (pbar pdata), S ''0.0'']) (\<lambda>_. return pdata))"

definition toggle_orientation :: "ProgressData \<Rightarrow> unit prog" where
  "toggle_orientation pdata =
     bind (call_ret ''gtk_progress_bar_get_orientation'' [I (pbar pdata)]) (\<lambda>orient.
     if orient = 0 then do_call ''gtk_progress_bar_set_orientation'' [I (pbar pdata), I 1]
     else if orient = 1 then do_call ''gtk_progress_bar_set_orientation'' [I (pbar pdata), I 0]
     else return ())"

definition destroy_progress :: "ProgressData \<Rightarrow> unit prog" where
  "destroy_progress pdata =
     bind (do_call ''g_source_remove'' [I (timer pdata)]) (\<lambda>_.
     bind (do_call ''g_free'' [S ''pdata'']) (\<lambda>_. do_call ''gtk_main_quit'' []))"

section \<open>\<^verbatim>\<open>gtk_notebook.c\<close>\<close>

definition rotate_book :: "int \<Rightarrow> unit prog" where
  "rotate_book notebook =
     bind (call_ret ''GtkNotebook->tab_pos'' [I notebook]) (\<lambda>pos.
     bind (lift (c_bind (c_int (pos + 1)) (\<lambda>p. c_rem p 4))) (\<lambda>p. do_call ''gtk_notebook_set_tab_pos'' [I notebook, I p]))"

definition tabsborder_book :: "int \<Rightarrow> unit prog" where
  "tabsborder_book notebook =
     bind (call_ret ''GtkNotebook->show_tabs'' [I notebook]) (\<lambda>tabs.
     bind (call_ret ''GtkNotebook->show_border'' [I notebook]) (\<lambda>border.
     let tval = (if tabs = 0 then 1 else 0); bval = (if border = 0 then 1 else 0) in
     bind (do_call ''gtk_notebook_set_show_tabs'' [I notebook, I tval]) (\<lambda>_.
     do_call ''gtk_notebook_set_show_border'' [I notebook, I bval])))"

definition remove_book :: "int \<Rightarrow> unit prog" where
  "remove_book notebook =
     bind (call_ret ''gtk_notebook_get_current_page'' [I notebook]) (\<lambda>page.
     bind (do_call ''gtk_notebook_remove_page'' [I notebook, I page]) (\<lambda>_. do_call ''gtk_widget_queue_draw'' [I notebook]))"


definition notebook_main :: "stmt list" where
  "notebook_main = [
     Do ''gtk_init'' [C ''&argc'', C ''&argv''],
     Set ''window'' ''gtk_window_new'' [C ''GTK_WINDOW_TOPLEVEL''],
     Do ''g_signal_connect'' [V ''window'', C ''delete-event'', C ''delete'', C ''NULL''],
     Do ''gtk_container_set_border_width'' [V ''window'', C ''10''],
     Set ''table'' ''gtk_table_new'' [C ''3'', C ''6'', C ''FALSE''],
     Do ''gtk_container_add'' [V ''window'', V ''table''],
     Set ''notebook'' ''gtk_notebook_new'' [],
     Do ''gtk_notebook_set_tab_pos'' [V ''notebook'', C ''GTK_POS_TOP''],
     Do ''gtk_table_attach_defaults'' [V ''table'', V ''notebook'', C ''0'', C ''6'', C ''0'', C ''1''],
     Do ''gtk_widget_show'' [V ''notebook'']] @
   concat (map (\<lambda>i. [
       Set ''frame'' ''gtk_frame_new'' [C (''Append Frame '' @ show_nat (i + 1))],
       Do ''gtk_container_set_border_width'' [V ''frame'', C ''10''],
       Do ''gtk_widget_set_size_request'' [V ''frame'', C ''100'', C ''75''],
       Do ''gtk_widget_show'' [V ''frame''],
       Set ''label'' ''gtk_label_new'' [C (''Append Frame '' @ show_nat (i + 1))],
       Do ''gtk_container_add'' [V ''frame'', V ''label''],
       Do ''gtk_widget_show'' [V ''label''],
       Set ''label'' ''gtk_label_new'' [C (''Page '' @ show_nat (i + 1))],
       Do ''gtk_notebook_append_page'' [V ''notebook'', V ''frame'', V ''label'']]) [0..<5]) @ [
     Set ''checkbutton'' ''gtk_check_button_new_with_label'' [C ''Check me please!''],
     Do ''gtk_widget_set_size_request'' [V ''checkbutton'', C ''100'', C ''75''],
     Do ''gtk_widget_show'' [V ''checkbutton''],
     Set ''label'' ''gtk_label_new'' [C ''Add page''],
     Do ''gtk_notebook_insert_page'' [V ''notebook'', V ''checkbutton'', V ''label'', C ''2'']] @
   concat (map (\<lambda>i. [
       Set ''frame'' ''gtk_frame_new'' [C (''Prepend Frame '' @ show_nat (i + 1))],
       Do ''gtk_container_set_border_width'' [V ''frame'', C ''10''],
       Do ''gtk_widget_set_size_request'' [V ''frame'', C ''100'', C ''75''],
       Do ''gtk_widget_show'' [V ''frame''],
       Set ''label'' ''gtk_label_new'' [C (''Prepend Frame '' @ show_nat (i + 1))],
       Do ''gtk_container_add'' [V ''frame'', V ''label''],
       Do ''gtk_widget_show'' [V ''label''],
       Set ''label'' ''gtk_label_new'' [C (''PPage '' @ show_nat (i + 1))],
       Do ''gtk_notebook_prepend_page'' [V ''notebook'', V ''frame'', V ''label'']]) [0..<5]) @ [
     Do ''gtk_notebook_set_current_page'' [V ''notebook'', C ''3''],
     Set ''button'' ''gtk_button_new_with_label'' [C ''close''],
     Do ''g_signal_connect_swapped'' [V ''button'', C ''clicked'', C ''delete'', C ''NULL''],
     Do ''gtk_table_attach_defaults'' [V ''table'', V ''button'', C ''0'', C ''1'', C ''1'', C ''2''],
     Do ''gtk_widget_show'' [V ''button''],
     Set ''button'' ''gtk_button_new_with_label'' [C ''next page''],
     Do ''g_signal_connect_swapped'' [V ''button'', C ''clicked'', C ''gtk_notebook_next_page'', V ''notebook''],
     Do ''gtk_table_attach_defaults'' [V ''table'', V ''button'', C ''1'', C ''2'', C ''1'', C ''2''],
     Do ''gtk_widget_show'' [V ''button''],
     Set ''button'' ''gtk_button_new_with_label'' [C ''prev page''],
     Do ''g_signal_connect_swapped'' [V ''button'', C ''clicked'', C ''gtk_notebook_prev_page'', V ''notebook''],
     Do ''gtk_table_attach_defaults'' [V ''table'', V ''button'', C ''2'', C ''3'', C ''1'', C ''2''],
     Do ''gtk_widget_show'' [V ''button''],
     Set ''button'' ''gtk_button_new_with_label'' [C ''tab position''],
     Do ''g_signal_connect'' [V ''button'', C ''clicked'', C ''rotate_book'', V ''notebook''],
     Do ''gtk_table_attach_defaults'' [V ''table'', V ''button'', C ''3'', C ''4'', C ''1'', C ''2''],
     Do ''gtk_widget_show'' [V ''button''],
     Set ''button'' ''gtk_button_new_with_label'' [C ''tabs/border on/off''],
     Do ''g_signal_connect'' [V ''button'', C ''clicked'', C ''tabsborder_book'', V ''notebook''],
     Do ''gtk_table_attach_defaults'' [V ''table'', V ''button'', C ''4'', C ''5'', C ''1'', C ''2''],
     Do ''gtk_widget_show'' [V ''button''],
     Set ''button'' ''gtk_button_new_with_label'' [C ''remove page''],
     Do ''g_signal_connect'' [V ''button'', C ''clicked'', C ''remove_book'', V ''notebook''],
     Do ''gtk_table_attach_defaults'' [V ''table'', V ''button'', C ''5'', C ''6'', C ''1'', C ''2''],
     Do ''gtk_widget_show'' [V ''button''],
     Do ''gtk_widget_show'' [V ''table''],
     Do ''gtk_widget_show'' [V ''window''],
     Do ''gtk_main'' []]"

section \<open>\<^verbatim>\<open>gtk_item_factory.c\<close>\<close>

definition factory_print_hello :: "unit prog" where
  "factory_print_hello = do_call ''g_message'' [S (''Hello, World!'' @ nl)]"

definition print_toggle :: "int \<Rightarrow> unit prog" where
  "print_toggle menu_item =
     bind (call_ret ''GtkCheckMenuItem->active'' [I menu_item]) (\<lambda>active.
     do_call ''g_message'' [S (''Check button state - '' @ show_int active @ nl)])"

definition print_selected :: "nat \<Rightarrow> int \<Rightarrow> unit prog" where
  "print_selected callback_action menu_item =
     bind (call_ret ''GtkCheckMenuItem->active'' [I menu_item]) (\<lambda>active.
     if active \<noteq> 0 then do_call ''g_message'' [S (''Radio button '' @ show_nat callback_action @ '' selected'' @ nl)] else return ())"

text \<open>The table of the menu: path, accelerator, callback, action and type.\<close>

definition menu_items :: "(string \<times> string \<times> string \<times> nat \<times> string) list" where
  "menu_items = [
     (''/_File'', ''NULL'', ''NULL'', 0, ''<Branch>''),
     (''/File/_New'', ''<control>N'', ''print_hello'', 0, ''<StockItem>''),
     (''/File/_Open'', ''<control>O'', ''print_hello'', 0, ''<StockItem>''),
     (''/File/_Save'', ''<control>S'', ''print_hello'', 0, ''<StockItem>''),
     (''/File/Save _As'', ''NULL'', ''NULL'', 0, ''<Item>''),
     (''/File/sep1'', ''NULL'', ''NULL'', 0, ''<Separator>''),
     (''/File/_Quit'', ''<CTRL>Q'', ''gtk_main_quit'', 0, ''<StockItem>''),
     (''/_Options'', ''NULL'', ''NULL'', 0, ''<Branch>''),
     (''/Options/tear'', ''NULL'', ''NULL'', 0, ''<Tearoff>''),
     (''/Options/Check'', ''NULL'', ''print_toggle'', 1, ''<CheckItem>''),
     (''/Options/sep'', ''NULL'', ''NULL'', 0, ''<Separator>''),
     (''/Options/Rad1'', ''NULL'', ''print_selected'', 1, ''<RadioItem>''),
     (''/Options/Rad2'', ''NULL'', ''print_selected'', 2, ''/Options/Rad1''),
     (''/Options/Rad3'', ''NULL'', ''print_selected'', 3, ''/Options/Rad1''),
     (''/_Help'', ''NULL'', ''NULL'', 0, ''<LastBranch>''),
     (''/_Help/About'', ''NULL'', ''NULL'', 0, ''<Item>'')]"

text \<open>The popup menu opens on a press of a mouse button only.\<close>

definition popup_cb :: "string \<Rightarrow> int \<Rightarrow> int \<Rightarrow> int \<Rightarrow> bool prog" where
  "popup_cb type button time menu =
     (if type \<noteq> ''GDK_BUTTON_PRESS'' then return False
      else bind (do_call ''gtk_menu_popup'' [I menu, I button, I time]) (\<lambda>_. return True))"

definition get_menubar_menu :: "stmt list" where
  "get_menubar_menu = [
     Set ''accel_group'' ''gtk_accel_group_new'' [],
     Set ''get_menubar_menu item_factory'' ''gtk_item_factory_new'' [C ''GTK_TYPE_MENU_BAR'', C ''<main>'', V ''accel_group''],
     Do ''gtk_item_factory_create_items'' [V ''get_menubar_menu item_factory'', C ''nmenu_items'', C ''menu_items'', C ''NULL''],
     Do ''gtk_window_add_accel_group'' [V ''window'', V ''accel_group''],
     Set ''menubar'' ''gtk_item_factory_get_widget'' [V ''get_menubar_menu item_factory'', C ''<main>'']]"

definition get_popup_menu :: "stmt list" where
  "get_popup_menu = [
     Set ''get_popup_menu item_factory'' ''gtk_item_factory_new'' [C ''GTK_TYPE_MENU'', C ''<main>'', C ''NULL''],
     Do ''gtk_item_factory_create_items'' [V ''get_popup_menu item_factory'', C ''nmenu_items'', C ''menu_items'', C ''NULL''],
     Set ''menu'' ''gtk_item_factory_get_widget'' [V ''get_popup_menu item_factory'', C ''<main>''],
     Set ''popup_button'' ''gtk_button_new_with_label'' [C ''Popup''],
     Do ''g_signal_connect'' [V ''popup_button'', C ''event'', C ''popup_cb'', V ''menu'']]"

definition get_option_menu :: "stmt list" where
  "get_option_menu = [
     Set ''get_option_menu item_factory'' ''gtk_item_factory_new'' [C ''GTK_TYPE_OPTION_MENU'', C ''<main>'', C ''NULL''],
     Do ''gtk_item_factory_create_items'' [V ''get_option_menu item_factory'', C ''nmenu_items'', C ''menu_items'', C ''NULL''],
     Set ''option_menu'' ''gtk_item_factory_get_widget'' [V ''get_option_menu item_factory'', C ''<main>'']]"

definition factory_main :: "stmt list" where
  "factory_main = [
     Do ''gtk_init'' [C ''&argc'', C ''&argv''],
     Set ''window'' ''gtk_window_new'' [C ''GTK_WINDOW_TOPLEVEL''],
     Do ''g_signal_connect'' [V ''window'', C ''destroy'', C ''gtk_main_quit'', C ''NULL''],
     Do ''gtk_window_set_title'' [V ''window'', C ''Item Factory''],
     Do ''gtk_widget_set_size_request'' [V ''window'', C ''300'', C ''200''],
     Set ''main_vbox'' ''gtk_vbox_new'' [C ''FALSE'', C ''1''],
     Do ''gtk_container_set_border_width'' [V ''main_vbox'', C ''1''],
     Do ''gtk_container_add'' [V ''window'', V ''main_vbox'']] @
     get_menubar_menu @ get_popup_menu @ get_option_menu @ [
     Do ''gtk_box_pack_start'' [V ''main_vbox'', V ''menubar'', C ''FALSE'', C ''TRUE'', C ''0''],
     Do ''gtk_box_pack_end'' [V ''main_vbox'', V ''popup_button'', C ''FALSE'', C ''TRUE'', C ''0''],
     Do ''gtk_box_pack_end'' [V ''main_vbox'', V ''option_menu'', C ''FALSE'', C ''TRUE'', C ''0''],
     Do ''gtk_widget_show_all'' [V ''window''],
     Do ''gtk_main'' []]"

section \<open>\<^verbatim>\<open>gtk_menu.c\<close>\<close>

definition menu_main :: "stmt list" where
  "menu_main = [
     Do ''gtk_init'' [C ''&argc'', C ''&argv''],
     Set ''window'' ''gtk_window_new'' [C ''GTK_WINDOW_TOPLEVEL''],
     Do ''gtk_widget_set_size_request'' [V ''window'', C ''200'', C ''100''],
     Do ''gtk_window_set_title'' [V ''window'', C ''GTK Menu Test''],
     Do ''g_signal_connect'' [V ''window'', C ''delete-event'', C ''gtk_main_quit'', C ''NULL''],
     Set ''menu'' ''gtk_menu_new'' []] @
   concat (map (\<lambda>i. [
       Set ''menu_items'' ''gtk_menu_item_new_with_label'' [C (''Test-undermenu - '' @ show_nat i)],
       Do ''gtk_menu_shell_append'' [V ''menu'', V ''menu_items''],
       Do ''g_signal_connect_swapped'' [V ''menu_items'', C ''activate'', C ''menuitem_response'', C (''Test-undermenu - '' @ show_nat i)],
       Do ''gtk_widget_show'' [V ''menu_items'']]) [0..<3]) @ [
     Set ''root_menu'' ''gtk_menu_item_new_with_label'' [C ''Root Menu''],
     Do ''gtk_widget_show'' [V ''root_menu''],
     Do ''gtk_menu_item_set_submenu'' [V ''root_menu'', V ''menu''],
     Set ''vbox'' ''gtk_vbox_new'' [C ''FALSE'', C ''0''],
     Do ''gtk_container_add'' [V ''window'', V ''vbox''],
     Do ''gtk_widget_show'' [V ''vbox''],
     Set ''menu_bar'' ''gtk_menu_bar_new'' [],
     Do ''gtk_box_pack_start'' [V ''vbox'', V ''menu_bar'', C ''FALSE'', C ''FALSE'', C ''2''],
     Do ''gtk_widget_show'' [V ''menu_bar''],
     Set ''button'' ''gtk_button_new_with_label'' [C ''press me''],
     Do ''g_signal_connect_swapped'' [V ''button'', C ''event'', C ''button_press'', V ''menu''],
     Do ''gtk_box_pack_end'' [V ''vbox'', V ''button'', C ''TRUE'', C ''TRUE'', C ''2''],
     Do ''gtk_widget_show'' [V ''button''],
     Do ''gtk_menu_shell_append'' [V ''menu_bar'', V ''root_menu''],
     Do ''gtk_widget_show'' [V ''window''],
     Do ''gtk_main'' []]"

definition button_press :: "string \<Rightarrow> int \<Rightarrow> int \<Rightarrow> int \<Rightarrow> bool prog" where
  "button_press type button time widget =
     (if type = ''GDK_BUTTON_PRESS'' then bind (do_call ''gtk_menu_popup'' [I widget, I button, I time]) (\<lambda>_. return True)
      else return False)"

definition menuitem_response :: "string \<Rightarrow> unit prog" where
  "menuitem_response s = print (s @ nl)"

section \<open>\<^verbatim>\<open>gtk_paned_window.c\<close>\<close>


definition create_list :: "string \<Rightarrow> stmt list" where
  "create_list res = [
     Set res ''gtk_scrolled_window_new'' [C ''NULL'', C ''NULL''],
     Do ''gtk_scrolled_window_set_policy'' [V res, C ''GTK_POLICY_AUTOMATIC'', C ''GTK_POLICY_AUTOMATIC''],
     Set ''model'' ''gtk_list_store_new'' [C ''1'', C ''G_TYPE_STRING''],
     Set ''tree_view'' ''gtk_tree_view_new'' [],
     Do ''gtk_container_add'' [V res, V ''tree_view''],
     Do ''gtk_tree_view_set_model'' [V ''tree_view'', V ''model''],
     Do ''gtk_widget_show'' [V ''tree_view'']] @
   concat (map (\<lambda>i. [
       Do ''gtk_list_store_append'' [V ''model'', C ''&iter''],
       Do ''gtk_list_store_set'' [V ''model'', C ''&iter'', C ''0'', C (''Message #'' @ show_nat i), C ''-1''],
       Do ''g_free'' [C (''Message #'' @ show_nat i)]]) [0..<10]) @ [
     Set ''cell'' ''gtk_cell_renderer_text_new'' [],
     Set ''column'' ''gtk_tree_view_column_new_with_attributes'' [C ''Messages'', V ''cell'', C ''text'', C ''0'', C ''NULL''],
     Do ''gtk_tree_view_append_column'' [V ''tree_view'', V ''column'']]"

definition insert_text :: "stmt list" where
  "insert_text = [
     Do ''gtk_text_buffer_get_iter_at_offset'' [V ''buffer'', C ''&iter'', C ''0''],
     Do ''gtk_text_buffer_insert'' [V ''buffer'', C ''&iter'', C (''From: pathfinder@nasa.gov'' @ nl @ ''To: mom@nasa.gov'' @ nl @ ''Subject: Made it!'' @ nl @ nl @ ''We just got in this morning. The weather has been'' @ nl @ ''great - clear but cold, and there are lots of fun sights.'' @ nl @ ''Sojourner says hi. See you soon.'' @ nl @ '' -Path'' @ nl), C ''-1'']]"

definition create_text :: "string \<Rightarrow> stmt list" where
  "create_text res = [
     Set ''view'' ''gtk_text_view_new'' [],
     Get ''buffer'' ''gtk_text_view_get_buffer'' [V ''view''],
     Set res ''gtk_scrolled_window_new'' [C ''NULL'', C ''NULL''],
     Do ''gtk_scrolled_window_set_policy'' [V res, C ''GTK_POLICY_AUTOMATIC'', C ''GTK_POLICY_AUTOMATIC''],
     Do ''gtk_container_add'' [V res, V ''view'']] @ insert_text @ [
     Do ''gtk_widget_show_all'' [V res]]"

definition paned_main :: "stmt list" where
  "paned_main = [
     Do ''gtk_init'' [C ''&argc'', C ''&argv''],
     Set ''window'' ''gtk_window_new'' [C ''GTK_WINDOW_TOPLEVEL''],
     Do ''gtk_window_set_title'' [V ''window'', C ''Paned Windows''],
     Do ''g_signal_connect'' [V ''window'', C ''destroy'', C ''gtk_main_quit'', C ''NULL''],
     Do ''gtk_container_set_border_width'' [V ''window'', C ''10''],
     Do ''gtk_widget_set_size_request'' [V ''window'', C ''450'', C ''400''],
     Set ''vpaned'' ''gtk_vpaned_new'' [],
     Do ''gtk_container_add'' [V ''window'', V ''vpaned''],
     Do ''gtk_widget_show'' [V ''vpaned'']] @
     create_list ''list'' @ [
     Do ''gtk_paned_add1'' [V ''vpaned'', V ''list''],
     Do ''gtk_widget_show'' [V ''list'']] @
     create_text ''text'' @ [
     Do ''gtk_paned_add2'' [V ''vpaned'', V ''text''],
     Do ''gtk_widget_show'' [V ''text''],
     Do ''gtk_widget_show'' [V ''window''],
     Do ''gtk_main'' []]"

section \<open>\<^verbatim>\<open>gtk_button_box.c\<close>\<close>

text \<open>The width and the height of the buttons are not used.\<close>

definition create_bbox :: "string \<Rightarrow> bool \<Rightarrow> string \<Rightarrow> nat \<Rightarrow> nat \<Rightarrow> nat \<Rightarrow> string \<Rightarrow> stmt list" where
  "create_bbox res horizontal title spacing child_w child_h layout = [
     Set res ''gtk_frame_new'' [C title],
     Set ''create_bbox bbox'' (if horizontal then ''gtk_hbutton_box_new'' else ''gtk_vbutton_box_new'') [],
     Do ''gtk_container_set_border_width'' [V ''create_bbox bbox'', C ''5''],
     Do ''gtk_container_add'' [V res, V ''create_bbox bbox''],
     Do ''gtk_button_box_set_layout'' [V ''create_bbox bbox'', C layout],
     Do ''gtk_box_set_spacing'' [V ''create_bbox bbox'', C (show_nat spacing)],
     Set ''create_bbox button'' ''gtk_button_new_from_stock'' [C ''GTK_STOCK_OK''],
     Do ''gtk_container_add'' [V ''create_bbox bbox'', V ''create_bbox button''],
     Set ''create_bbox button'' ''gtk_button_new_from_stock'' [C ''GTK_STOCK_CANCEL''],
     Do ''gtk_container_add'' [V ''create_bbox bbox'', V ''create_bbox button''],
     Set ''create_bbox button'' ''gtk_button_new_from_stock'' [C ''GTK_STOCK_HELP''],
     Do ''gtk_container_add'' [V ''create_bbox bbox'', V ''create_bbox button'']]"

definition button_box_main :: "stmt list" where
  "button_box_main = [
     Do ''gtk_init'' [C ''&argc'', C ''&argv''],
     Set ''window'' ''gtk_window_new'' [C ''GTK_WINDOW_TOPLEVEL''],
     Do ''gtk_window_set_title'' [V ''window'', C ''Button Boxes''],
     Do ''g_signal_connect'' [V ''window'', C ''destroy'', C ''gtk_main_quit'', C ''NULL''],
     Do ''gtk_container_set_border_width'' [V ''window'', C ''10''],
     Set ''main_vbox'' ''gtk_vbox_new'' [C ''FALSE'', C ''0''],
     Do ''gtk_container_add'' [V ''window'', V ''main_vbox''],
     Set ''frame_horz'' ''gtk_frame_new'' [C ''Horizontal Button Boxes''],
     Do ''gtk_box_pack_start'' [V ''main_vbox'', V ''frame_horz'', C ''TRUE'', C ''TRUE'', C ''10''],
     Set ''vbox'' ''gtk_vbox_new'' [C ''FALSE'', C ''0''],
     Do ''gtk_container_set_border_width'' [V ''vbox'', C ''10''],
     Do ''gtk_container_add'' [V ''frame_horz'', V ''vbox'']] @
     create_bbox ''bbox'' True ''Spread (spacing 40)'' 40 85 20 ''GTK_BUTTONBOX_SPREAD'' @
     [
     Do ''gtk_box_pack_start'' [V ''vbox'', V ''bbox'', C ''TRUE'', C ''TRUE'', C ''0'']] @
     create_bbox ''bbox'' True ''Edge (spacing 30)'' 30 85 20 ''GTK_BUTTONBOX_EDGE'' @
     [
     Do ''gtk_box_pack_start'' [V ''vbox'', V ''bbox'', C ''TRUE'', C ''TRUE'', C ''5'']] @
     create_bbox ''bbox'' True ''Start (spacing 20)'' 20 85 20 ''GTK_BUTTONBOX_START'' @
     [
     Do ''gtk_box_pack_start'' [V ''vbox'', V ''bbox'', C ''TRUE'', C ''TRUE'', C ''5'']] @
     create_bbox ''bbox'' True ''End (spacing 10)'' 10 85 20 ''GTK_BUTTONBOX_END'' @
     [
     Do ''gtk_box_pack_start'' [V ''vbox'', V ''bbox'', C ''TRUE'', C ''TRUE'', C ''5''],
     Set ''frame_vert'' ''gtk_frame_new'' [C ''Vertical Button Boxes''],
     Do ''gtk_box_pack_start'' [V ''main_vbox'', V ''frame_vert'', C ''TRUE'', C ''TRUE'', C ''10''],
     Set ''hbox'' ''gtk_hbox_new'' [C ''FALSE'', C ''0''],
     Do ''gtk_container_set_border_width'' [V ''hbox'', C ''10''],
     Do ''gtk_container_add'' [V ''frame_vert'', V ''hbox'']] @
     create_bbox ''bbox'' False ''Spread (spacing 5)'' 5 85 20 ''GTK_BUTTONBOX_SPREAD'' @
     [
     Do ''gtk_box_pack_start'' [V ''hbox'', V ''bbox'', C ''TRUE'', C ''TRUE'', C ''0'']] @
     create_bbox ''bbox'' False ''Edge (spacing 30)'' 30 85 20 ''GTK_BUTTONBOX_EDGE'' @
     [
     Do ''gtk_box_pack_start'' [V ''hbox'', V ''bbox'', C ''TRUE'', C ''TRUE'', C ''5'']] @
     create_bbox ''bbox'' False ''Start (spacing 20)'' 20 85 20 ''GTK_BUTTONBOX_START'' @
     [
     Do ''gtk_box_pack_start'' [V ''hbox'', V ''bbox'', C ''TRUE'', C ''TRUE'', C ''5'']] @
     create_bbox ''bbox'' False ''End (spacing 20)'' 20 85 20 ''GTK_BUTTONBOX_END'' @
     [
     Do ''gtk_box_pack_start'' [V ''hbox'', V ''bbox'', C ''TRUE'', C ''TRUE'', C ''5''],
     Do ''gtk_widget_show_all'' [V ''window''],
     Do ''gtk_main'' []]"

section \<open>\<^verbatim>\<open>gtk_status_bar.c\<close> and \<^verbatim>\<open>gtk_txt_entry.c\<close>\<close>

definition status_main :: "stmt list" where
  "status_main = [
     Do ''gtk_init'' [C ''&argc'', C ''&argv''],
     Set ''window'' ''gtk_window_new'' [C ''GTK_WINDOW_TOPLEVEL''],
     Do ''gtk_widget_set_size_request'' [V ''window'', C ''200'', C ''100''],
     Do ''gtk_window_set_title'' [V ''window'', C ''GTK Statusbar Example''],
     Do ''g_signal_connect'' [V ''window'', C ''delete-event'', C ''exit'', C ''NULL''],
     Set ''vbox'' ''gtk_vbox_new'' [C ''FALSE'', C ''1''],
     Do ''gtk_container_add'' [V ''window'', V ''vbox''],
     Do ''gtk_widget_show'' [V ''vbox''],
     Set ''status_bar'' ''gtk_statusbar_new'' [],
     Do ''gtk_box_pack_start'' [V ''vbox'', V ''status_bar'', C ''TRUE'', C ''TRUE'', C ''0''],
     Do ''gtk_widget_show'' [V ''status_bar''],
     Get ''context_id'' ''gtk_statusbar_get_context_id'' [V ''status_bar'', C ''Statusbar example''],
     Set ''button'' ''gtk_button_new_with_label'' [C ''push item''],
     Do ''g_signal_connect'' [V ''button'', C ''clicked'', C ''push_item'', V ''context_id''],
     Do ''gtk_box_pack_start'' [V ''vbox'', V ''button'', C ''TRUE'', C ''TRUE'', C ''2''],
     Do ''gtk_widget_show'' [V ''button''],
     Set ''button'' ''gtk_button_new_with_label'' [C ''pop last item''],
     Do ''g_signal_connect'' [V ''button'', C ''clicked'', C ''pop_item'', V ''context_id''],
     Do ''gtk_box_pack_start'' [V ''vbox'', V ''button'', C ''TRUE'', C ''TRUE'', C ''2''],
     Do ''gtk_widget_show'' [V ''button''],
     Do ''gtk_widget_show'' [V ''window''],
     Do ''gtk_main'' []]"

definition entry_main :: "stmt list" where
  "entry_main = [
     Do ''gtk_init'' [C ''&argc'', C ''&argv''],
     Set ''window'' ''gtk_window_new'' [C ''GTK_WINDOW_TOPLEVEL''],
     Do ''gtk_widget_set_size_request'' [V ''window'', C ''200'', C ''100''],
     Do ''gtk_window_set_title'' [V ''window'', C ''GTK Entry''],
     Do ''g_signal_connect'' [V ''window'', C ''destroy'', C ''gtk_main_quit'', C ''NULL''],
     Do ''g_signal_connect_swapped'' [V ''window'', C ''delete-event'', C ''gtk_widget_destroy'', V ''window''],
     Set ''vbox'' ''gtk_vbox_new'' [C ''FALSE'', C ''0''],
     Do ''gtk_container_add'' [V ''window'', V ''vbox''],
     Do ''gtk_widget_show'' [V ''vbox''],
     Set ''entry'' ''gtk_entry_new'' [],
     Do ''gtk_entry_set_max_length'' [V ''entry'', C ''50''],
     Do ''g_signal_connect'' [V ''entry'', C ''activate'', C ''enter_callback'', V ''entry''],
     Do ''gtk_entry_set_text'' [V ''entry'', C ''hello''],
     Get ''tmp_pos'' ''GTK_ENTRY->text_length'' [V ''entry''],
     Do ''gtk_editable_insert_text'' [V ''entry'', C '' world'', C ''-1'', V ''tmp_pos''],
     Get ''text_length'' ''GTK_ENTRY->text_length'' [V ''entry''],
     Do ''gtk_editable_select_region'' [V ''entry'', C ''0'', V ''text_length''],
     Do ''gtk_box_pack_start'' [V ''vbox'', V ''entry'', C ''TRUE'', C ''TRUE'', C ''0''],
     Do ''gtk_widget_show'' [V ''entry''],
     Set ''hbox'' ''gtk_hbox_new'' [C ''FALSE'', C ''0''],
     Do ''gtk_container_add'' [V ''vbox'', V ''hbox''],
     Do ''gtk_widget_show'' [V ''hbox''],
     Set ''check'' ''gtk_check_button_new_with_label'' [C ''Editable''],
     Do ''gtk_box_pack_start'' [V ''hbox'', V ''check'', C ''TRUE'', C ''TRUE'', C ''0''],
     Do ''g_signal_connect'' [V ''check'', C ''toggled'', C ''entry_toggle_editable'', V ''entry''],
     Do ''gtk_toggle_button_set_active'' [V ''check'', C ''TRUE''],
     Do ''gtk_widget_show'' [V ''check''],
     Set ''check'' ''gtk_check_button_new_with_label'' [C ''Visible''],
     Do ''gtk_box_pack_start'' [V ''hbox'', V ''check'', C ''TRUE'', C ''TRUE'', C ''0''],
     Do ''g_signal_connect'' [V ''check'', C ''toggled'', C ''entry_toggle_visibility'', V ''entry''],
     Do ''gtk_toggle_button_set_active'' [V ''check'', C ''TRUE''],
     Do ''gtk_widget_show'' [V ''check''],
     Set ''button'' ''gtk_button_new_from_stock'' [C ''GTK_STOCK_CLOSE''],
     Do ''g_signal_connect_swapped'' [V ''button'', C ''clicked'', C ''gtk_widget_destroy'', V ''window''],
     Do ''gtk_box_pack_start'' [V ''vbox'', V ''button'', C ''TRUE'', C ''TRUE'', C ''0''],
     Do ''gtk_widget_set_can_default'' [V ''button'', C ''TRUE''],
     Do ''gtk_widget_grab_default'' [V ''button''],
     Do ''gtk_widget_show'' [V ''button''],
     Do ''gtk_widget_show'' [V ''window''],
     Do ''gtk_main'' []]"

text \<open>\<^verbatim>\<open>push_item\<close> counts the items in a static variable.\<close>

definition push_item :: "int \<Rightarrow> int \<Rightarrow> int \<Rightarrow> int prog" where
  "push_item status_bar context_id count =
     bind (lift (c_int (count + 1))) (\<lambda>count'.
     bind (do_call ''gtk_statusbar_push'' [I status_bar, I context_id, S (''Item '' @ show_int count)]) (\<lambda>_.
     bind (do_call ''g_free'' [S (''Item '' @ show_int count)]) (\<lambda>_. return count')))"

definition pop_item :: "int \<Rightarrow> int \<Rightarrow> unit prog" where
  "pop_item status_bar context_id = do_call ''gtk_statusbar_pop'' [I status_bar, I context_id]"

definition enter_callback :: "int \<Rightarrow> unit prog" where
  "enter_callback entry =
     bind (call_text ''gtk_entry_get_text'' [I entry]) (\<lambda>entry_text. print (''Entry contents: '' @ entry_text @ nl))"

definition entry_toggle_editable :: "int \<Rightarrow> int \<Rightarrow> unit prog" where
  "entry_toggle_editable checkbutton entry =
     bind (call_ret ''GtkToggleButton->active'' [I checkbutton]) (\<lambda>active. do_call ''gtk_editable_set_editable'' [I entry, I active])"

definition entry_toggle_visibility :: "int \<Rightarrow> int \<Rightarrow> unit prog" where
  "entry_toggle_visibility checkbutton entry =
     bind (call_ret ''GtkToggleButton->active'' [I checkbutton]) (\<lambda>active. do_call ''gtk_entry_set_visibility'' [I entry, I active])"

section \<open>The windows appear\<close>

text \<open>The programs of this theory but \<open>factory_main\<close>, whose popup menu is opened by a callback.\<close>

definition controls :: "stmt list list" where
  "controls = [packbox_script 0, packbox_script 1, packbox_script 2, packbox_script 3, range_main, spin_main, progress_main, notebook_main, menu_main, paned_main, button_box_main, status_main, entry_main]"

lemma packbox0_outcome: "outcome (packbox_script 0) = Some ([], 1)"
  by code_simp

lemma packbox1_outcome: "outcome (packbox_script 1) = Some ([], 1)"
  by code_simp

lemma packbox2_outcome: "outcome (packbox_script 2) = Some ([], 1)"
  by code_simp

lemma packbox3_outcome: "outcome (packbox_script 3) = Some ([], 1)"
  by code_simp

lemma range_outcome: "outcome range_main = Some ([], 1)"
  by code_simp

lemma spin_outcome: "outcome spin_main = Some ([], 1)"
  by code_simp

lemma progress_outcome: "outcome progress_main = Some ([], 1)"
  by code_simp

lemma notebook_outcome: "outcome notebook_main = Some ([], 1)"
  by code_simp

lemma menu_outcome: "outcome menu_main = Some ([], 1)"
  by code_simp

lemma paned_outcome: "outcome paned_main = Some ([], 1)"
  by code_simp

lemma button_box_outcome: "outcome button_box_main = Some ([], 1)"
  by code_simp

lemma status_outcome: "outcome status_main = Some ([], 1)"
  by code_simp

lemma entry_outcome: "outcome entry_main = Some ([], 1)"
  by code_simp

lemma controls_outcome: "ss \<in> set controls \<Longrightarrow> outcome ss = Some ([], 1)"
  by (auto simp: controls_def packbox0_outcome packbox1_outcome packbox2_outcome packbox3_outcome range_outcome spin_outcome progress_outcome notebook_outcome menu_outcome paned_outcome button_box_outcome status_outcome entry_outcome)

lemma factory_outcome: "outcome factory_main = Some ([7], 1)"
  by code_simp

section \<open>What the callbacks do\<close>

text \<open>
  C33: whatever page size between 1 and 101 is chosen, the value of the scrollbar stays between 0 and
  101 less the page size, for every rounding of doubles that is monotone and keeps 0.
\<close>

theorem page_size_in_range:
  assumes "mono rnd" "rnd 0 = 0" "lower set_adj = 0" "upper set_adj = 101" "1 \<le> adj_value get_adj" "adj_value get_adj \<le> 101"
  defines "s \<equiv> fst (cb_page_size rnd get_adj set_adj)"
  shows "0 \<le> adj_value s \<and> adj_value s \<le> rnd (upper s - page_size s) \<and> page_size s = adj_value get_adj \<and> page_increment s = page_size s"
proof -
  have "rnd 0 \<le> rnd (101 - adj_value get_adj)" using monoD [OF assms(1), of 0 "101 - adj_value get_adj"] assms(6) by simp
  then show ?thesis using assms(2-4) by (auto simp: s_def cb_page_size_def CLAMP_def Let_def)
qed

theorem page_size_in_range_witness:
  "let s = fst (cb_page_size id \<lparr>adj_value = 40, lower = 1, upper = 101, page_increment = 1, page_size = 0\<rparr>
     \<lparr>adj_value = 90, lower = 0, upper = 101, page_increment = 1, page_size = 1\<rparr>) in
   adj_value s \<le> 61 \<and> page_size s = 40"
  using page_size_in_range [of id "\<lparr>adj_value = 90, lower = 0, upper = 101, page_increment = 1, page_size = 1\<rparr>"
      "\<lparr>adj_value = 40, lower = 1, upper = 101, page_increment = 1, page_size = 0\<rparr>"]
  by (simp add: Let_def mono_def cb_page_size_def)

text \<open>The progress bar stays between empty and full.\<close>

lemma progress_in_range:
  assumes "mono rnd" "rnd 0 = 0" "0 \<le> f" "progress_timeout rnd pdata f = (Set_fraction f', b)"
  shows "0 \<le> f' \<and> f' \<le> 1 \<and> b"
proof -
  have "rnd 0 \<le> rnd (1 / 100)" using monoD [OF assms(1), of 0 "1 / 100"] by simp
  then have "rnd 0 \<le> rnd (f + rnd (1 / 100))" using monoD [OF assms(1), of 0 "f + rnd (1 / 100)"] assms(2,3) by simp
  then show ?thesis using assms(2,4) by (auto simp: progress_timeout_def Let_def split: if_splits)
qed

text \<open>The toolkit answers a field of the notebook with the value set last; tabs are on top and shown at first.\<close>

definition setting :: "string \<Rightarrow> int \<Rightarrow> int \<Rightarrow> trace \<Rightarrow> int" where
  "setting f w d tr = foldl (\<lambda>v (c, r). case args c of [I w', I v'] \<Rightarrow> if fn c = f \<and> w' = w then v' else v | _ \<Rightarrow> v) d tr"

lemma setting_simps [simp]:
  "setting f w d [] = d"
  "setting f w d (t @ u) = setting f w (setting f w d t) u"
  "setting f w d ((Call g [I x, I v], r) # t) = setting f w (if g = f \<and> x = w then v else d) t"
  "setting f w d ((Call g [I x], r) # t) = setting f w d t"
  by (simp_all add: setting_def)

definition book_law :: "env \<Rightarrow> int \<Rightarrow> bool" where
  "book_law env nb \<longleftrightarrow> (\<forall>tr. ret (env tr (Call ''GtkNotebook->tab_pos'' [I nb])) = setting ''gtk_notebook_set_tab_pos'' nb 2 tr \<and>
     ret (env tr (Call ''GtkNotebook->show_tabs'' [I nb])) = setting ''gtk_notebook_set_show_tabs'' nb 1 tr \<and>
     ret (env tr (Call ''GtkNotebook->show_border'' [I nb])) = setting ''gtk_notebook_set_show_border'' nb 1 tr)"

definition book_state :: "int \<Rightarrow> trace \<Rightarrow> int \<times> int \<times> int" where
  "book_state nb tr = (setting ''gtk_notebook_set_tab_pos'' nb 2 tr, setting ''gtk_notebook_set_show_tabs'' nb 1 tr, setting ''gtk_notebook_set_show_border'' nb 1 tr)"

lemma rotate_run:
  assumes "book_law env nb" "book_state nb tr = (p, a, b)" "0 \<le> p" "p < 4"
  shows "\<exists>t. rotate_book nb env tr = (t, Ok ()) \<and> book_state nb t = ((p + 1) mod 4, a, b)"
  using assms by (auto simp: book_law_def book_state_def rotate_book_def bind_calls io_eval c_int_def INT_MIN_def INT_MAX_def c_rem_nonneg)

lemma tabsborder_run:
  assumes "book_law env nb" "book_state nb tr = (p, a, b)"
  shows "\<exists>t. tabsborder_book nb env tr = (t, Ok ()) \<and> book_state nb t = (p, if a = 0 then 1 else 0, if b = 0 then 1 else 0)"
  using assms by (auto simp: book_law_def book_state_def tabsborder_book_def bind_calls io_eval Let_def)

definition book_click :: "int \<Rightarrow> bool \<Rightarrow> unit \<Rightarrow> unit prog" where
  "book_click nb b = (\<lambda>_. if b then rotate_book nb else tabsborder_book nb)"

text \<open>
  After any sequence of clicks the tabs have been turned a quarter per click on the first button, so
  four clicks restore them, and tabs and border are both shown or both hidden according to the
  parity of the clicks on the second.
\<close>

theorem notebook_clicks:
  assumes "book_law env nb"
  shows "\<exists>t. for_each bs (book_click nb) () env [] = (t, Ok ()) \<and>
    book_state nb t = ((2 + int (count_list bs True)) mod 4, (1 + int (count_list bs False)) mod 2, (1 + int (count_list bs False)) mod 2)"
proof -
  have "\<exists>t. for_each bs (book_click nb) () env tr = (t, Ok ()) \<and>
      book_state nb t = ((p + int (count_list bs True)) mod 4, (a + int (count_list bs False)) mod 2, (a + int (count_list bs False)) mod 2)"
    if "book_state nb tr = (p mod 4, a mod 2, a mod 2)" for tr p a
    using that
  proof (induction bs arbitrary: tr p a)
    case (Cons b bs)
    show ?case
    proof (cases b)
      case True
      obtain t where "rotate_book nb env tr = (t, Ok ())" "book_state nb t = ((p + 1) mod 4, a mod 2, a mod 2)"
        using rotate_run [OF assms Cons.prems] by (auto simp: mod_simps)
      with Cons.IH [of t "p + 1" a] True show ?thesis by (auto simp: book_click_def bind_Ok algebra_simps)
    next
      case False
      have "(if a mod 2 = 0 then 1 else 0) = (a + 1) mod 2" by presburger
      then obtain t where "tabsborder_book nb env tr = (t, Ok ())" "book_state nb t = (p mod 4, (a + 1) mod 2, (a + 1) mod 2)"
        using tabsborder_run [OF assms Cons.prems] by auto
      with Cons.IH [of t p "a + 1"] False show ?thesis by (auto simp: book_click_def bind_Ok algebra_simps)
    qed
  qed (auto simp: io_eval)
  from this [of "[]" 2 1] show ?thesis by (simp add: book_state_def)
qed

definition book_env :: env where
  "book_env tr c = \<lparr>ret = (if fn c = ''GtkNotebook->tab_pos'' then setting ''gtk_notebook_set_tab_pos'' 5 2 tr
     else if fn c = ''GtkNotebook->show_tabs'' then setting ''gtk_notebook_set_show_tabs'' 5 1 tr
     else setting ''gtk_notebook_set_show_border'' 5 1 tr), data = [], errno = 0\<rparr>"

theorem notebook_clicks_witness:
  "\<exists>t. for_each [True, False, True, True] (book_click 5) () book_env [] = (t, Ok ()) \<and> book_state 5 t = (1, 0, 0)"
  using notebook_clicks [of book_env 5 "[True, False, True, True]"] by (simp add: book_law_def book_env_def)

text \<open>The status bar is given the items in the order of their numbers.\<close>

definition pushed :: "trace \<Rightarrow> arg list list" where
  "pushed t = map (\<lambda>e. args (fst e)) (uses ''gtk_statusbar_push'' t)"

lemma push_run:
  assumes "int n + 2 \<le> INT_MAX"
  shows "\<exists>t. push_item status_bar context_id (int n + 1) env tr = (t, Ok (int n + 2)) \<and>
    pushed t = pushed tr @ [[I status_bar, I context_id, S (''Item '' @ show_nat (Suc n))]]"
  using assms by (auto simp: push_item_def c_int_def INT_MIN_def bind_calls io_eval pushed_def show_int_def nat_add_distrib)

lemma push_items:
  assumes "int n < INT_MAX"
  shows "\<exists>t. clicks n (push_item status_bar context_id) 1 env [] = (t, Ok (int n + 1)) \<and>
    pushed t = map (\<lambda>i. [I status_bar, I context_id, S (''Item '' @ show_nat (Suc i))]) [0..<n]"
  using assms
proof (induction n)
  case (Suc n)
  then obtain t where t: "clicks n (push_item status_bar context_id) 1 env [] = (t, Ok (int n + 1))"
    "pushed t = map (\<lambda>i. [I status_bar, I context_id, S (''Item '' @ show_nat (Suc i))]) [0..<n]" by auto
  obtain u where "push_item status_bar context_id (int n + 1) env t = (u, Ok (int n + 2))"
    "pushed u = pushed t @ [[I status_bar, I context_id, S (''Item '' @ show_nat (Suc n))]]"
    using push_run [of n status_bar context_id env t] Suc.prems by auto
  with t show ?case by (auto simp: bind_Ok)
qed (auto simp: io_eval pushed_def)


end
