(* ===== verification/SmallPrograms.thy ===== *)
theory SmallPrograms
  imports Sockets
begin

text \<open>
  Programs of one screen in \<^verbatim>\<open>src/cpp\<close>: \<^verbatim>\<open>set_jump_exception.c\<close>, \<^verbatim>\<open>forkTest.c\<close>, \<^verbatim>\<open>ipc/pipe_test.c\<close>,
  \<^verbatim>\<open>returnline.c\<close> and the conversions of \<^verbatim>\<open>double.c\<close>.  \<^verbatim>\<open>fork\<close> is a call whose reply tells the two
  processes apart.
\<close>

unbundle bit_operations_syntax

section \<open>\<^verbatim>\<open>set_jump_exception.c\<close>\<close>

text \<open>
  \<^verbatim>\<open>if (setjmp (env) == 0) body else handler\<close>: a \<^verbatim>\<open>longjmp\<close> in the body, the result \<open>Inl\<close>, continues
  with the handler.
\<close>

definition setjmp :: "(unit + 'a) prog \<Rightarrow> 'a prog \<Rightarrow> 'a prog" where
  "setjmp body handler = bind body (\<lambda>r. case r of Inl _ \<Rightarrow> handler | Inr x \<Rightarrow> return x)"

text \<open>The comparisons are made in \<^verbatim>\<open>unsigned int\<close>, to which \<^verbatim>\<open>INT_MAX\<close> and \<^verbatim>\<open>INT_MIN\<close> are converted.\<close>

definition check_overflow :: "32 word \<Rightarrow> 32 word \<Rightarrow> unit prog" where
  "check_overflow a b =
     setjmp
       (let result = a + b in
        if result > word_of_int INT_MAX \<or> result < word_of_int INT_MIN then
          bind (print (''Overflow occurred, result = '' @ show_int (sint result) @ nl)) (\<lambda>_. return (Inl ()))
        else bind (print (''Result: '' @ show_int (sint result) @ nl)) (\<lambda>_. return (Inr ())))
       (print (''No overflow occurred.'' @ nl))"

definition jump_main :: "int prog" where
  "jump_main =
     bind (print (''INT_MAX='' @ show_int INT_MAX @ '', INT_MIN='' @ show_int INT_MIN @ '', UINT_MAX='' @ show_int (2 ^ 32 - 1) @
       '', LONG_MIN='' @ show_int (- (2 ^ 63)) @ '', LONG_MAX='' @ show_int (2 ^ 63 - 1) @
       '', LLONG_MIN='' @ show_int (- (2 ^ 63)) @ '', LLONG_MAX='' @ show_int (2 ^ 63 - 1) @ nl)) (\<lambda>_.
     bind (print (''sizeof(int)=4, sizeof(long)=8, sizeof(long long)=8, sizeof(char)=1, sizeof(short)=2, sizeof(float)=4, sizeof(double)=8'' @ nl)) (\<lambda>_.
     bind (check_overflow (- 1) 1) (\<lambda>_.
     bind (check_overflow (- 1) 1) (\<lambda>_. return 0))))"

section \<open>\<^verbatim>\<open>forkTest.c\<close>\<close>

text \<open>The last call prints through a pointer that was never set.\<close>

definition fork_main :: "int prog" where
  "fork_main =
     bind (call_ret ''fork'' []) (\<lambda>fpid.
     bind (if fpid < 0 then bind (print ''error in fork!'') (\<lambda>_. return 0)
           else bind (call_ret ''getpid'' []) (\<lambda>pid.
             bind (print ((if fpid = 0 then ''i am the child process, my process id is '' else ''i am the parent process, my process id is '') @
               show_int pid @ [CHR 0x0D] @ nl @ ''/n'')) (\<lambda>_. return 1))) (\<lambda>count.
     bind (print (''result is : '' @ show_int count @ ''/n'')) (\<lambda>_.
     bind (do_call ''read'' [I 0, I 100]) (\<lambda>_.
     bind (lift (Inl Indeterminate)) (\<lambda>p.
     bind (print p) (\<lambda>_. return 0))))))"

section \<open>\<^verbatim>\<open>ipc/pipe_test.c\<close>\<close>

text \<open>The descriptors are what \<^verbatim>\<open>pipe\<close> stored in \<^verbatim>\<open>pipefd\<close>; the wide colon is three bytes.\<close>

definition colon :: string where
  "colon = map char_of [0xEF, 0xBC, 0x9A :: nat]"

definition pipe_write_pass :: "int \<Rightarrow> unit \<Rightarrow> (unit + unit) prog" where
  "pipe_write_pass fd = (\<lambda>_.
     bind (do_call ''write'' [I fd, S ''hello-linux!'', I 12]) (\<lambda>_.
     bind (do_call ''sleep'' [I 1]) (\<lambda>_. return (Inl ()))))"

definition pipe_read_pass :: "int \<Rightarrow> string \<Rightarrow> (string + unit) prog" where
  "pipe_read_pass fd buffer =
     bind (read_into fd 64 buffer) (\<lambda>(s, buffer).
     if s = 0 then return (Inr ())
     else if s > 0 then
       bind (lift (store buffer (nat s) NUL)) (\<lambda>buffer.
       bind (print_buf (''child say to parent'' @ colon) buffer nl) (\<lambda>_. return (Inl buffer)))
     else return (Inr ()))"

definition pipe_main :: "nat \<Rightarrow> int prog" where
  "pipe_main fuel =
     bind (call_ret ''pipe'' []) (\<lambda>r.
     if r \<noteq> 0 then bind (do_call ''perror'' [S ''pipe error!'']) (\<lambda>_. return 1)
     else
       bind (call_ret ''pipefd'' [I 0]) (\<lambda>p0.
       bind (call_ret ''pipefd'' [I 1]) (\<lambda>p1.
       bind (print (''pipefd[0]'' @ colon @ show_int p0 @ nl)) (\<lambda>_.
       bind (print (''pipefd[1]'' @ colon @ show_int p1 @ nl)) (\<lambda>_.
       bind (call_ret ''fork'' []) (\<lambda>pid.
       if pid = 0 then
         bind (do_call ''close'' [I p0]) (\<lambda>_.
         bind (loop fuel (pipe_write_pass p1) ()) (\<lambda>_. exit_with 0))
       else
         bind (do_call ''close'' [I p1]) (\<lambda>_.
         bind (loop fuel (pipe_read_pass p0) (replicate 64 NUL)) (\<lambda>_. return 0))))))))"

section \<open>\<^verbatim>\<open>returnline.c\<close>\<close>

definition returnline_pass :: "unit \<Rightarrow> (unit + unit) prog" where
  "returnline_pass = (\<lambda>_.
     bind (print ([CHR 0x0D] @ ''this is a test'')) (\<lambda>_.
     bind (do_call ''fflush'' [S ''stdout'']) (\<lambda>_.
     bind (do_call ''sleep'' [I 1]) (\<lambda>_.
     bind (print ([CHR 0x0D] @ ''test a is this'')) (\<lambda>_.
     bind (do_call ''fflush'' [S ''stdout'']) (\<lambda>_.
     bind (do_call ''sleep'' [I 1]) (\<lambda>_. return (Inl ()))))))))"

definition returnline_main :: "nat \<Rightarrow> unit prog" where
  "returnline_main fuel = loop fuel returnline_pass ()"

section \<open>\<^verbatim>\<open>double.c\<close>\<close>

text \<open>A byte is given by its number; as a \<^verbatim>\<open>char\<close> it is signed and the shift is made in 32 bits.\<close>

definition bin_bit :: "nat \<Rightarrow> nat \<Rightarrow> int" where
  "bin_bit c i = sint (drop_bit 7 (push_bit i (word_of_int (if c < 128 then int c else int c - 256) :: 32 word) AND 128))"

definition print_bin :: "nat \<Rightarrow> unit prog" where
  "print_bin c = for_each [0..<8] (\<lambda>i _. print (show_int (bin_bit c i))) ()"

definition hexcharToInt :: "char \<Rightarrow> int" where
  "hexcharToInt c =
     (if of_char c \<ge> (48 :: int) \<and> of_char c \<le> (57 :: int) then of_char c - 48
      else if of_char c \<ge> (65 :: int) \<and> of_char c \<le> (70 :: int) then of_char c - 65 + 10
      else if of_char c \<ge> (97 :: int) \<and> of_char c \<le> (102 :: int) then of_char c - 97 + 10
      else 0)"

definition show_byte :: "nat \<Rightarrow> string" where
  "show_byte b = pad_with CHR ''0'' 2 (show_hex True b)"

text \<open>The pass for \<^verbatim>\<open>i = 2 * k\<close>.  The text is read up to its NUL, which the second digit of a text of odd length is.\<close>

definition hex_pass :: "string \<Rightarrow> nat \<Rightarrow> nat list \<Rightarrow> nat list prog" where
  "hex_pass hex k bin =
     bind (lift (str_at hex (2 * k))) (\<lambda>h.
     bind (lift (str_at hex (2 * k + 1))) (\<lambda>l.
     let b = nat ((push_bit 4 (hexcharToInt h) OR hexcharToInt l) mod 256) in
     bind (lift (store bin k b)) (\<lambda>bin.
     bind (print (''bin['' @ show_nat k @ '']='' @ show_byte b @ nl)) (\<lambda>_. return bin))))"

definition hex2bin :: "nat list \<Rightarrow> string \<Rightarrow> nat list prog" where
  "hex2bin bin hex = for_each [0..<(length hex + 1) div 2] (hex_pass hex) bin"

text \<open>The bytes of \<^verbatim>\<open>x\<close> in memory, least first, and the text \<^verbatim>\<open>%f\<close> prints of the double with these bytes.\<close>

definition x_bytes :: "nat list" where
  "x_bytes = [0x00, 0x00, 0x00, 0x20, 0x66, 0x71, 0xBF, 0x47]"

definition double_text :: "nat list \<Rightarrow> string prog" where
  "double_text bs = call_text ''%f'' (map (\<lambda>b. I (int b)) bs)"

definition print_byte :: "nat \<Rightarrow> nat \<Rightarrow> unit prog" where
  "print_byte i c =
     bind (print (''byte'' @ show_nat i @ ''='')) (\<lambda>_.
     bind (print_bin c) (\<lambda>_. print ('' 0X'' @ show_byte c @ nl)))"

definition y_text :: string where
  "y_text = ''40E743CD1BF68000''"

text \<open>\<^verbatim>\<open>strlen (z)\<close> on the eight bytes of \<^verbatim>\<open>z\<close>, which faults when none of them is zero.\<close>

definition double_main :: "nat list \<Rightarrow> int prog" where
  "double_main z0 =
     bind (print (''unsigned long x='' @ show_hex True 0x47BF716620000000 @ nl)) (\<lambda>_.
     bind (double_text x_bytes) (\<lambda>a.
     bind (print (''double a='' @ a @ '', sizeof(a)=8'' @ nl)) (\<lambda>_.
     bind (for_each (rev [0..<8]) (\<lambda>i _. print_byte i (x_bytes ! i)) ()) (\<lambda>_.
     bind (print nl) (\<lambda>_.
     bind (print ''unsigned char b = 255, 0XFF, 0B'') (\<lambda>_.
     bind (print_bin 255) (\<lambda>_.
     bind (print nl) (\<lambda>_.
     bind (print (''literal hex str: char *y = '' @ y_text @ '', strlen(y)=16'' @ nl)) (\<lambda>_.
     bind (for_each [0..<16] (\<lambda>i _. print (''byte'' @ show_nat i @ ''='' @ [y_text ! i] @ nl)) ()) (\<lambda>_.
     bind (print (''copcy hex str char *y to bin str char *z'' @ nl)) (\<lambda>_.
     bind (hex2bin z0 y_text) (\<lambda>z.
     bind (lift (c_strlen (map char_of z))) (\<lambda>size.
     bind (print (''strlen(z)='' @ show_nat size @ nl)) (\<lambda>_.
     bind (print ''bin char str: unsigned char *z='') (\<lambda>_.
     bind (for_each [0..<8] (\<lambda>i _. bind (lift (load z i)) (\<lambda>c. print (show_byte c))) ()) (\<lambda>_.
     bind (print nl) (\<lambda>_.
     bind (for_each [0..<8] (\<lambda>i _. bind (lift (load z i)) (print_byte i)) ()) (\<lambda>_.
     bind (double_text z) (\<lambda>c.
     bind (print (''double c='' @ c @ nl)) (\<lambda>_.
     bind (lift (for_loop 0 8 (\<lambda>i dz. c_bind (load z (7 - i)) (store dz i)) (replicate 8 0))) (\<lambda>dz.
     bind (print (''bin char str in small end: unsigned char *dz='' @ nl)) (\<lambda>_.
     bind (for_each (rev [0..<8]) (\<lambda>i _. bind (lift (load dz i)) (\<lambda>c. print (show_byte c))) ()) (\<lambda>_.
     bind (double_text dz) (\<lambda>d.
     bind (print (nl @ ''double value of *dz='' @ d @ nl)) (\<lambda>_. return 0)))))))))))))))))))))))))"

section \<open>What the programs do\<close>

lemma every_sum_overflows: "r > 2147483647 \<or> r < (2147483648 :: 32 word)"
  by (simp add: word_less_alt) linarith

text \<open>
  The test for an overflow in \<^verbatim>\<open>check_overflow\<close> (\<^verbatim>\<open>set_jump_exception.c\<close>) succeeds for every two
  arguments, because the unsigned sum is compared with \<^verbatim>\<open>INT_MAX\<close> and with \<^verbatim>\<open>INT_MIN\<close> converted to
  \<^verbatim>\<open>unsigned int\<close>: each call prints that an overflow occurred, jumps, and prints that none occurred.
\<close>

theorem overflow_always:
  "\<exists>u v. check_overflow a b env tr =
     (tr @ [(Call ''printf'' [S (''Overflow occurred, result = '' @ show_int (sint (a + b)) @ nl)], u),
            (Call ''printf'' [S (''No overflow occurred.'' @ nl)], v)], Ok ())"
proof -
  have "(word_of_int INT_MAX :: 32 word) = 2147483647" "(word_of_int INT_MIN :: 32 word) = 2147483648"
    by (simp_all add: INT_MAX_def INT_MIN_def)
  then show ?thesis using every_sum_overflows [of "a + b"]
    by (simp add: check_overflow_def setjmp_def bind_calls bind_assoc Let_def print_eval)
qed

lemma bit_signed_byte: "m < 8 \<Longrightarrow> bit (if c < 128 then int c else int c - 256) m = bit c m"
proof -
  have "take_bit 8 (int c - 256) = take_bit 8 (int c)"
    by (simp add: take_bit_eq_mod mod_diff_eq [symmetric, of _ 256])
  then have "m < 8 \<Longrightarrow> bit (int c - 256) m = bit (int c) m"
    by (metis bit_take_bit_iff)
  then show "m < 8 \<Longrightarrow> ?thesis" by (simp add: bit_of_nat_iff_bit)
qed

lemma bin_bit_bit:
  assumes "i < 8"
  shows "bin_bit c i = of_bool (bit c (7 - i))"
proof -
  define w :: "32 word" where "w = word_of_int (if c < 128 then int c else int c - 256)"
  have "drop_bit 7 (x AND 128) = of_bool (bit x 7)" for x :: "32 word"
    by (rule bit_word_eqI) (auto simp: bit_simps)
  moreover have "bit (push_bit i w) 7 = bit c (7 - i)"
    using assms bit_signed_byte [of "7 - i" c] by (simp add: w_def bit_push_bit_iff bit_word_of_int_iff) linarith
  ultimately show ?thesis by (simp add: bin_bit_def w_def)
qed

lemma zero_char: "char_of (48 :: nat) = CHR ''0''"
  by code_simp

lemma show_byte_digits: "b < 256 \<Longrightarrow> show_byte b = [hex_char True (b div 16), hex_char True (b mod 16)]"
  by (auto simp: show_byte_def pad_with_def show_hex.simps hex_char_def zero_char)

lemma of_char_of_int: "n < 256 \<Longrightarrow> (of_char (char_of n) :: int) = int n"
  by (metis mod_less of_char_of of_nat_of_char)

lemma hex_char_value: "d < 16 \<Longrightarrow> hexcharToInt (hex_char True d) = int d"
  by (auto simp: hexcharToInt_def hex_char_def of_char_of_int)

lemma nibbles_or: "l < 16 \<Longrightarrow> push_bit 4 (int h) OR int l = 16 * int h + int l"
  using concat_bit_def [of 4 "int l" "int h"] concat_bit_eq [of 4 "int l" "int h"]
  by (simp add: take_bit_eq_mod push_bit_eq_mult or.commute)

lemma concat_pairs:
  assumes "k < length bs"
  shows "concat (map (\<lambda>b. [f b, g b]) bs) ! (2 * k) = f (bs ! k)" "concat (map (\<lambda>b. [f b, g b]) bs) ! Suc (2 * k) = g (bs ! k)"
  using assms by (induction bs arbitrary: k) (auto simp: nth_Cons split: nat.splits)

lemma length_concat_pairs: "length (concat (map (\<lambda>b. [f b, g b]) bs)) = 2 * length bs"
  by (induction bs) auto

definition hex_text :: "nat list \<Rightarrow> string" where
  "hex_text bs = concat (map show_byte bs)"

lemma hex_text_digits:
  assumes "\<forall>b \<in> set bs. b < 256"
  shows "length (hex_text bs) = 2 * length bs"
    "k < length bs \<Longrightarrow> hex_text bs ! (2 * k) = hex_char True (bs ! k div 16)"
    "k < length bs \<Longrightarrow> hex_text bs ! Suc (2 * k) = hex_char True (bs ! k mod 16)"
proof -
  have "hex_text bs = concat (map (\<lambda>b. [hex_char True (b div 16), hex_char True (b mod 16)]) bs)"
    unfolding hex_text_def using assms by (intro arg_cong [where f = concat] map_cong) (simp_all add: show_byte_digits)
  then show "length (hex_text bs) = 2 * length bs"
    "k < length bs \<Longrightarrow> hex_text bs ! (2 * k) = hex_char True (bs ! k div 16)"
    "k < length bs \<Longrightarrow> hex_text bs ! Suc (2 * k) = hex_char True (bs ! k mod 16)"
    by (simp_all only: length_concat_pairs concat_pairs)
qed

text \<open>One pass stores the byte of two digits, and faults when the buffer has no room for it.\<close>

lemma hex_pass_byte:
  assumes "\<forall>b \<in> set bs. b < 256" "k < length bs"
  shows "hex_pass (hex_text bs) k bin =
    bind (lift (store bin k (bs ! k))) (\<lambda>bin.
    bind (print (''bin['' @ show_nat k @ '']='' @ show_byte (bs ! k) @ nl)) (\<lambda>_. return bin))"
proof -
  have b: "bs ! k < 256" using assms by auto
  have "push_bit 4 (int (bs ! k div 16)) OR int (bs ! k mod 16) = int (bs ! k)"
    using nibbles_or [of "bs ! k mod 16" "bs ! k div 16"] mult_div_mod_eq [of 16 "int (bs ! k)"]
    by (simp add: zdiv_int zmod_int)
  with b have "nat ((push_bit 4 (int (bs ! k div 16)) OR int (bs ! k mod 16)) mod 256) = bs ! k" by simp
  moreover have "bs ! k div 16 < 16" using b by simp
  ultimately show ?thesis using assms(2)
    by (simp add: hex_pass_def hex_text_digits [OF assms(1)] hex_char_value Let_def)
qed

lemma hex_passes:
  assumes "\<forall>b \<in> set bs. b < 256" "k \<le> length bs" "k \<le> length bin"
  shows "\<exists>t. for_each [k..<length bs] (hex_pass (hex_text bs)) (take k bs @ drop k bin) env tr =
    (t, if length bs \<le> length bin then Ok (bs @ drop (length bs) bin) else Fault OutOfBounds)"
  using assms(2,3)
proof (induction "length bs - k" arbitrary: k tr)
  case 0
  then show ?case by (simp add: io_eval)
next
  case (Suc d)
  then have k: "k < length bs" "[k..<length bs] = k # [Suc k..<length bs]" by (simp_all add: upt_conv_Cons)
  show ?case
  proof (cases "k < length bin")
    case True
    then have "(take k bs @ drop k bin)[k := bs ! k] = take (Suc k) bs @ drop (Suc k) bin"
      using k(1) by (intro nth_equalityI) (auto simp: nth_append nth_list_update less_Suc_eq)
    with True k Suc.prems Suc.hyps(1) [of "Suc k"] Suc.hyps(2) show ?thesis
      unfolding k(2) for_each.simps hex_pass_byte [OF assms(1) k(1)] bind_assoc
      by (simp add: store_in bind_print)
  next
    case False
    with k Suc.prems show ?thesis
      by (simp add: hex_pass_byte [OF assms(1)] store_out io_eval)
  qed
qed

text \<open>
  The function \<^verbatim>\<open>hex2bin\<close> inverts the printing of bytes with \<^verbatim>\<open>%02X\<close>: from the text of any bytes it stores exactly
  these bytes at the front of the buffer and leaves the rest of the buffer alone, and when the buffer is
  shorter than the bytes it writes beyond its end.
\<close>

theorem hex_round_trip:
  assumes "\<forall>b \<in> set bs. b < 256"
  shows "\<exists>t. hex2bin bin (concat (map show_byte bs)) env tr =
    (t, if length bs \<le> length bin then Ok (bs @ drop (length bs) bin) else Fault OutOfBounds)"
  using hex_passes [OF assms, of 0 bin env tr] hex_text_digits(1) [OF assms]
  by (simp add: hex2bin_def hex_text_def)

theorem hex_round_trip_witness:
  "(\<exists>t. hex2bin [0, 0, 9] (concat (map show_byte [0x40, 0xE7])) (\<lambda>_ _. \<lparr>ret = 0, data = [], errno = 0\<rparr>) [] = (t, Ok [0x40, 0xE7, 9])) \<and>
   (\<exists>t. hex2bin [0] (concat (map show_byte [0x40, 0xE7])) (\<lambda>_ _. \<lparr>ret = 0, data = [], errno = 0\<rparr>) [] = (t, Fault OutOfBounds))"
  using hex_round_trip [of "[0x40, 0xE7]" "[0, 0, 9]" "\<lambda>_ _. \<lparr>ret = 0, data = [], errno = 0\<rparr>" "[]"]
    hex_round_trip [of "[0x40, 0xE7]" "[0]" "\<lambda>_ _. \<lparr>ret = 0, data = [], errno = 0\<rparr>" "[]"]
  by simp

text \<open>The replies to \<^verbatim>\<open>read\<close>, the line printed for one, and the replies that leave room for the NUL.\<close>

definition reads :: "trace \<Rightarrow> reply list" where
  "reads tr = map snd (uses ''read'' tr)"

definition printed :: "trace \<Rightarrow> call list" where
  "printed tr = map fst (uses ''printf'' tr)"

definition said :: "reply \<Rightarrow> call" where
  "said r = Call ''printf'' [S (''child say to parent'' @ colon @ cstr (read_data r) @ nl)]"

definition short :: "reply \<Rightarrow> bool" where
  "short r \<longleftrightarrow> 0 < count r \<and> count r < 64"

lemma trace_views [simp]:
  "reads (t @ u) = reads t @ reads u" "reads ((c, r) # t) = (if fn c = ''read'' then r # reads t else reads t)"
  "printed (t @ u) = printed t @ printed u" "printed ((c, r) # t) = (if fn c = ''printf'' then c # printed t else printed t)"
  "reads [] = []" "printed [] = []"
  by (simp_all add: reads_def printed_def)

lemma cstr_terminated: "cstr (d @ NUL # cs) = cstr d"
  by (induction d) (simp_all add: cstr_def)

lemma read_run:
  "bind (read_into fd cap b) (\<lambda>(n, b). k n b) env tr =
     (let x = env tr (Call ''read'' [I fd, I (int cap)]) in
      bind (lift (mem_write b 0 (if ret x < 0 then [] else read_data x))) (k (count x)) env
        (tr @ [(Call ''read'' [I fd, I (int cap)], x)]))"
  by (simp add: read_into_def bind_assoc bind_invoke Let_def)

lemma pipe_read_step:
  assumes "pipe_read_pass fd b env tr = (t, r)" "length b = 64"
  shows "\<exists>x. reads t = reads tr @ [x] \<and> printed t = printed tr @ (if short x then [said x] else []) \<and>
    (case r of Ok (Inl b') \<Rightarrow> short x \<and> length b' = 64 | Ok (Inr _) \<Rightarrow> count x \<le> 0
      | Fault e \<Rightarrow> 64 \<le> count x | _ \<Rightarrow> False)"
proof -
  define x where "x = env tr (Call ''read'' [I fd, I 64])"
  define d where "d = (if ret x < 0 then [] else read_data x)"
  define u where "u = tr @ [(Call ''read'' [I fd, I 64], x)]"
  define k where "k = (\<lambda>s buffer. if s = 0 then return (Inr ()) else if s > 0 then
      bind (lift (store buffer (nat s) NUL)) (\<lambda>buffer.
      bind (print_buf (''child say to parent'' @ colon) buffer nl) (\<lambda>_. return (Inl buffer)))
    else return (Inr ()) :: (string + unit) prog)"
  have run: "bind (lift (mem_write b 0 d)) (k (count x)) env u = (t, r)"
    using assms(1) read_run [of fd 64 b k env tr]
    by (simp add: pipe_read_pass_def Let_def k_def x_def d_def u_def)
  have u: "reads u = reads tr @ [x]" "printed u = printed tr" by (simp_all add: u_def)
  have n: "count x > 0 \<Longrightarrow> count x = int (length d) \<and> d = read_data x" by (auto simp: count_def d_def split: if_splits)
  consider "count x \<le> 0" | "short x" | "count x = 64" | "64 < count x" unfolding short_def by linarith
  then show ?thesis
  proof cases
    case 1
    then have "d = []" by (auto simp: d_def count_def split: if_splits)
    with 1 run have "t = u \<and> r = Ok (Inr ())" by (simp add: k_def mem_write_def return_eval split: if_splits)
    with 1 u show ?thesis by (intro exI [of _ x]) (simp add: short_def)
  next
    case 2
    then have c: "count x > 0" "length d < 64" "nat (count x) = length d" using n by (auto simp: short_def)
    then obtain cs where "drop (length d) b = b ! length d # cs" using assms(2) by (metis Cons_nth_drop_Suc)
    then have b: "store (d @ drop (length d) b) (length d) NUL = Inr (d @ NUL # cs)" "length d + length cs = 63"
      using c assms(2) by (auto simp: dest: arg_cong [of _ _ length])
    have "mem_write b 0 d = Inr (d @ drop (length d) b)" using c assms(2) by (simp add: mem_write_front)
    moreover have "k (count x) (d @ drop (length d) b) =
        bind (print_buf (''child say to parent'' @ colon) (d @ NUL # cs) nl) (\<lambda>_. return (Inl (d @ NUL # cs)))"
      using c by (simp add: k_def b(1) del: store_Inr)
    moreover have "print_buf s (d @ NUL # cs) s' = print (s @ cstr d @ s')" for s s'
      by (simp add: print_buf_def c_strlen_def cstr_terminated)
    ultimately have "\<exists>v. t = u @ [(said x, v)] \<and> r = Ok (Inl (d @ NUL # cs))"
      using run n c(1) by (auto simp: bind_print return_eval said_def)
    with 2 u b(2) show ?thesis by (intro exI [of _ x]) (auto simp: said_def)
  next
    case 3
    with n have d: "length d = 64" by auto
    with assms(2) have "mem_write b 0 d = Inr d" by (simp add: mem_write_def)
    with run 3 d have "t = u \<and> r = Fault OutOfBounds" by (simp add: k_def store_out fault_eval)
    with 3 u show ?thesis by (intro exI [of _ x]) (simp add: short_def)
  next
    case 4
    with n assms(2) have "mem_write b 0 d = Inl OutOfBounds" by (simp add: mem_write_def)
    with run have "t = u \<and> r = Fault OutOfBounds" by (simp add: fault_eval)
    with 4 u show ?thesis by (intro exI [of _ x]) (simp add: short_def)
  qed
qed

lemma pipe_read_loop:
  assumes "loop n (pipe_read_pass fd) b env tr = (t, r)" "length b = 64"
  shows "\<exists>xs. reads t = reads tr @ xs \<and> printed t = printed tr @ map said (filter short xs) \<and>
    ((\<exists>e. r = Fault e) \<longleftrightarrow> (\<exists>x \<in> set xs. 64 \<le> count x))"
  using assms
proof (induction n arbitrary: b tr)
  case 0
  then show ?case by (intro exI [of _ "[]"]) auto
next
  case (Suc n)
  from Suc.prems(1) show ?case unfolding loop.simps
  proof (rule run_bindE, goal_cases)
    case (1 y u)
    from pipe_read_step [OF 1(1) Suc.prems(2)] obtain x where x: "reads u = reads tr @ [x]"
      "printed u = printed tr @ (if short x then [said x] else [])"
      "case y of Inl b' \<Rightarrow> short x \<and> length b' = 64 | Inr _ \<Rightarrow> count x \<le> 0" by auto
    show ?case
    proof (cases y)
      case (Inl b')
      with x 1(2) Suc.IH obtain xs where "reads t = reads u @ xs" "printed t = printed u @ map said (filter short xs)"
        "(\<exists>e. r = Fault e) \<longleftrightarrow> (\<exists>x \<in> set xs. 64 \<le> count x)" by fastforce
      moreover have "short x" "\<not> 64 \<le> count x" using x(3) Inl by (auto simp: short_def)
      ultimately show ?thesis using x by (intro exI [of _ "x # xs"]) auto
    next
      case (Inr c)
      with x 1(2) show ?thesis by (intro exI [of _ "[x]"]) (auto simp: return_eval short_def)
    qed
  next
    case (2 r')
    from pipe_read_step [OF 2(1) Suc.prems(2)] 2(2,3) show ?case
      by (cases r') (fastforce simp: short_def)+
  qed
qed

lemma pipe_write_quiet: "avoids ''read'' (loop n (pipe_write_pass fd) u)" "avoids ''printf'' (loop n (pipe_write_pass fd) u)"
  unfolding pipe_write_pass_def by (intro avoids_rules; simp)+

lemma pipe_write_runs: "\<exists>t. loop n (pipe_write_pass fd) u env tr = (t, Running)"
  by (induction n arbitrary: tr) (simp_all add: pipe_write_pass_def bind_calls bind_assoc)

lemma pipe_parent:
  assumes "bind (loop fuel (pipe_read_pass fd) (replicate 64 NUL)) (\<lambda>_. return 0) env tr = (t, r)"
    "reads tr = []" "length (printed tr) = 2"
  shows "drop 2 (printed t) = map said (filter short (reads t)) \<and>
    ((\<exists>e. r = Fault e) \<longleftrightarrow> (\<exists>x \<in> set (reads t). 64 \<le> count x))"
proof -
  obtain u q where q: "loop fuel (pipe_read_pass fd) (replicate 64 NUL) env tr = (u, q)" by fastforce
  with assms(1) have "t = u" "(\<exists>e. r = Fault e) \<longleftrightarrow> (\<exists>e. q = Fault e)"
    by (auto simp: bind_def return_def split: res.splits)
  with pipe_read_loop [OF q] assms(2,3) show ?thesis by auto
qed

lemma pipe_child:
  assumes "bind (loop fuel (pipe_write_pass fd) ()) (\<lambda>_. exit_with 0) env tr = (t, r)"
    "reads tr = []" "length (printed tr) = 2"
  shows "drop 2 (printed t) = map said (filter short (reads t)) \<and>
    ((\<exists>e. r = Fault e) \<longleftrightarrow> (\<exists>x \<in> set (reads t). 64 \<le> count x))"
proof -
  obtain u where u: "loop fuel (pipe_write_pass fd) () env tr = (u, Running)" using pipe_write_runs by blast
  have "reads u = reads tr" "printed u = printed tr"
    using pipe_write_quiet [THEN avoidsD, OF u] by (simp_all add: reads_def printed_def)
  with u assms show ?thesis by (auto simp: bind_stop)
qed

text \<open>
  C37: the parent of \<^verbatim>\<open>pipe_test.c\<close>, over whole runs of either process: it prints one line for each read
  that delivers between 1 and 63 bytes, with the text these bytes hold, in the order of the reads; and
  the run ends in a fault exactly when a read fills the 64 bytes of \<^verbatim>\<open>buffer\<close>, since \<^verbatim>\<open>buffer[s] = 0\<close>
  then writes behind it.
\<close>

theorem pipe_reader:
  assumes "pipe_main fuel env [] = (t, r)"
  shows "drop 2 (printed t) = map said (filter short (reads t)) \<and>
    ((\<exists>e. r = Fault e) \<longleftrightarrow> (\<exists>x \<in> set (reads t). 64 \<le> count x))"
  using assms unfolding pipe_main_def
  by (elim run_call_retE run_ifE run_do_callE run_printE run_returnE)
    (auto dest!: pipe_parent pipe_child)

definition flood_env :: env where
  "flood_env tr c = \<lparr>ret = (if fn c = ''read'' then 64 else if fn c = ''fork'' then 7 else 0),
     data = replicate 64 CHR ''a'', errno = 0\<rparr>"

theorem pipe_reader_witness:
  "(\<exists>t r. pipe_main 1 flood_env [] = (t, r) \<and> (\<exists>e. r = Fault e) \<and> count (hd (reads t)) = 64)"
proof -
  obtain t r where run: "pipe_main 1 flood_env [] = (t, r)" by fastforce
  moreover have "map count (reads (fst (pipe_main 1 flood_env []))) = [64]" by code_simp
  then have "map count (reads t) = [64]" unfolding run fst_conv .
  ultimately show ?thesis using pipe_reader [OF run] by (cases "reads t") auto
qed

text \<open>Every run of \<^verbatim>\<open>forkTest.c\<close> uses the pointer that was never set, and \<^verbatim>\<open>returnline.c\<close> never returns.\<close>

lemma fork_faults: "\<exists>t. fork_main env tr = (t, Fault Indeterminate)"
  by (simp add: fork_main_def bind_calls bind_assoc bind_if if_eval io_eval)

lemma returnline_endless: "returnline_main fuel env tr \<noteq> (t, Ok x)"
  unfolding returnline_main_def
  by (rule loop_endless) (simp add: returnline_pass_def bind_calls return_eval)

end
