(* ===== verification/BigDivision.thy ===== *)
theory BigDivision
  imports BigInt
begin

text \<open>
  The trial division of \<open>BigInt\<close> with divisors of two limbs: the loops of \<^verbatim>\<open>operator/\<close> and \<^verbatim>\<open>operator%\<close> that
  guess a quotient from the top limbs, subtract and repeat.
\<close>

section \<open>Numbers of two limbs\<close>

lemma two_limbs: "wf_big X \<Longrightarrow> len X = 2 \<Longrightarrow> mag X = limbs X ! 0 + limbs X ! 1 * B32 \<and> limbs X ! 0 < B32 \<and> limbs X ! 1 < B32"
proof -
  assume X: "wf_big X" "len X = 2"
  then have "mag X = lval (take 2 (limbs X))" using lval_take_zero [of 2 "limbs X"] by (simp add: wf_big_def mag_def)
  moreover have l: "length (limbs X) = 128" "limbs_ok (limbs X)" using X by (auto simp: wf_big_def limbs_ok_def)
  then have "take 2 (limbs X) = [limbs X ! 0, limbs X ! 1]" by (simp add: take_Suc_conv_app_nth numeral_2_eq_2)
  ultimately show ?thesis using limbs_ok_nth [OF l(2)] by simp
qed

lemma normal_len: "wf_big X \<Longrightarrow> normal_big X \<Longrightarrow> mag X < B32 ^ k \<Longrightarrow> 1 \<le> k \<Longrightarrow> len X \<le> k"
proof (rule ccontr)
  assume X: "wf_big X" "normal_big X" "mag X < B32 ^ k" "1 \<le> k" "\<not> len X \<le> k"
  then have "B32 ^ k \<le> B32 ^ (len X - 1)" by (intro power_increasing) auto
  also have "\<dots> \<le> mag X" using normal_lower [OF X(1,2)] X(4,5) by linarith
  finally show False using X(3) by simp
qed

lemma sub_sign: "sub_mag 32 X A = Inr D \<Longrightarrow> wf_big X \<Longrightarrow> wf_big A \<Longrightarrow> normal_big X \<Longrightarrow> normal_big A \<Longrightarrow>
    mag A \<le> mag X \<Longrightarrow> signal X = 0 \<Longrightarrow> signal D = 0"
  by (auto simp: sub_mag_def Compare_correct Let_def split: if_splits)

text \<open>Subtraction of numbers of at most two limbs.\<close>

lemma sub_two:
  assumes "wf_big X" "wf_big T" "normal_big X" "normal_big T" "len X \<le> 2" "signal X = 0" "signal T = 0" "mag T \<le> mag X"
  shows "\<exists>D. op_sub 32 X T = Inr D \<and> wf_big D \<and> normal_big D \<and> len D \<le> 2 \<and> signal D = 0 \<and> mag D = mag X - mag T"
proof -
  have T: "len T \<le> 2" using len_less_mag [OF assms(1,2,4)] assms(5,8) by force
  from sub_mag_correct [OF assms(1-4)] assms(6,7) obtain D where
    D: "sub_mag 32 X T = Inr D" "wf_big D" "normal_big D" "len D \<le> max (len X) (len T)" "big D = big X - big T \<longleftrightarrow> exact_mag X T"
    by auto
  have "signal D = 0" using sub_sign [OF D(1) assms(1-4,8,6)] .
  moreover have "big D = big X - big T" using D(5) exact_small [OF assms(1,2,5) T] by simp
  ultimately show ?thesis using D assms T by (auto simp: op_sub_def big_def)
qed

text \<open>One guess: the quotient of the top limbs, its multiple of the divisor and what is left.\<close>

lemma trial_step:
  assumes X: "wf_big X" "normal_big X" "len X = 2" "signal X = 0"
    and A: "wf_big A" "normal_big A" "len A = 2" "signal A = 0"
    and q: "limbs A ! 1 < limbs X ! 1" "q = limbs X ! 1 div (limbs A ! 1 + 1)"
  shows "1 \<le> q \<and> q < B32 \<and> q * mag A \<le> mag X \<and>
    (\<exists>T D. op_mul 32 A (BigNum_u64 32 q) = Inr T \<and> op_sub 32 X T = Inr D \<and> wf_big D \<and> normal_big D \<and> len D \<le> 2 \<and>
      signal D = 0 \<and> mag D = mag X - q * mag A)"
proof -
  let ?x = "limbs X ! 1" and ?a = "limbs A ! 1"
  note x = two_limbs [OF X(1,3)] and a = two_limbs [OF A(1,3)]
  have q1: "1 \<le> q" using q by (simp add: Suc_le_eq div_greater_zero_iff)
  have qx: "q * (?a + 1) \<le> ?x" using q(2) by (metis div_times_less_eq_dividend)
  then have "q * mag A \<le> q * ((?a + 1) * B32)" using a by (intro mult_le_mono2) (simp add: algebra_simps)
  also have "\<dots> \<le> ?x * B32" using mult_le_mono1 [OF qx, of B32] by (simp only: mult.assoc)
  finally have le: "q * mag A \<le> mag X" using x by linarith
  have qB: "q < B32" using qx x q1 by (metis le_less_trans mult.commute mult_le_mono1 nat_mult_1 le_add2 order.trans)
  note z = BigNum_u64_wf [of q]
  have "len (BigNum_u64 32 q) = 1" using qB by (simp add: BigNum_u64_def)
  with op_mul_correct [of A "BigNum_u64 32 q"] A z qB obtain T where
    T: "op_mul 32 A (BigNum_u64 32 q) = Inr T" "wf_big T" "normal_big T" "mag T = mag A * q" "signal T = 0" by auto
  with sub_two [of X T] X le q1 qB show ?thesis by (auto simp: mult.commute)
qed


lemma add_limb:
  assumes "wf_big Y" "normal_big Y" "signal Y = 0" "len Y \<le> 2" "q < B32"
  shows "\<exists>S. op_add 32 Y (BigNum_u64 32 q) = Inr S \<and> wf_big S \<and> normal_big S \<and> signal S = 0 \<and> mag S = mag Y + q"
proof -
  have "len (BigNum_u64 32 q) = 1" using assms(5) by (simp add: BigNum_u64_def)
  with add_mag_correct [of Y "BigNum_u64 32 q"] BigNum_u64_wf [of q] assms show ?thesis by (auto simp: op_add_def)
qed

lemma shift_nothing: "wf_big Z \<Longrightarrow> shift_limbs Z 0 = Inr Z"
proof -
  assume Z: "wf_big Z"
  have "\<exists>a. for_down 0 (len Z) (\<lambda>i a. c_bind (load a i) (store a i)) (limbs Z) = Inr a \<and> a = limbs Z"
    by (rule for_down_total [where I = "\<lambda>_ a. a = limbs Z"]) (use Z in \<open>auto simp: wf_big_def limbs_ok_def load_in\<close>)
  then show ?thesis by (simp add: shift_limbs_def)
qed

lemma tops:
  assumes "wf_big X" "wf_big A" "len X = 2" "len A = 2"
  shows "limbs X ! 1 < limbs A ! 1 \<Longrightarrow> mag X < mag A"
    "limbs X ! 1 = limbs A ! 1 \<Longrightarrow> mag A \<le> mag X \<Longrightarrow> mag X - mag A < B32"
  using two_limbs [OF assms(1,3)] two_limbs [OF assms(2,4)] by auto

lemma normal_two: "wf_big A \<Longrightarrow> normal_big A \<Longrightarrow> len A = 2 \<Longrightarrow> B32 \<le> mag A"
  using normal_lower [of A] by simp

lemma quot_one: "(a :: nat) \<le> x \<Longrightarrow> x - a < a \<Longrightarrow> x div a = 1 \<and> x mod a = x - a"
  by (simp add: le_div_geq le_mod_geq)

text \<open>A multiple of the divisor taken off.\<close>

lemma take_off:
  assumes "(d :: nat) = y - q * a" "q * a \<le> y" "0 < a" "1 \<le> q" "y div a < Suc fuel"
  shows "y div a = q + d div a" "y mod a = d mod a" "d div a < fuel"
proof -
  have "y = d + q * a" using assms(1,2) by simp
  then show "y div a = q + d div a" "y mod a = d mod a" using assms(3) by simp_all
  then show "d div a < fuel" using assms(4,5) by simp
qed

section \<open>The remainder\<close>

lemma mod_loop_two:
  assumes A: "wf_big A" "normal_big A" "len A = 2" "signal A = 0"
  shows "wf_big Y \<Longrightarrow> normal_big Y \<Longrightarrow> len Y \<le> 2 \<Longrightarrow> signal Y = 0 \<Longrightarrow> mag Y div mag A < fuel \<Longrightarrow>
    \<exists>R. mod_loop 32 fuel A Y = Inr R \<and> wf_big R \<and> normal_big R \<and> signal R = 0 \<and> mag R = mag Y mod mag A"
proof (induction fuel arbitrary: Y)
  case (Suc fuel)
  note Y = Suc.prems(1-4)
  note cmp = Compare_correct [OF Y(1) A(1) Y(2) A(2)]
  have A32: "B32 \<le> mag A" by (rule normal_two [OF A(1-3)])
  show ?case
  proof (cases "mag Y < mag A")
    case True
    with Y cmp show ?thesis by simp
  next
    case False
    then have ge: "mag A \<le> mag Y" by simp
    then have l: "len Y = 2" using len_less_mag [OF Y(1) A(1,2)] A(3) Y(3) by force
    have ld: "load (limbs Y) 1 = Inr (limbs Y ! 1)" "load (limbs A) 1 = Inr (limbs A ! 1)"
      using Y(1) A(1) by (auto simp: wf_big_def limbs_ok_def)
    have a: "limbs A ! 1 < B32" using two_limbs [OF A(1,3)] by simp
    have go: "mod_loop 32 (Suc fuel) A Y = c_bind (mod_trial Y A) (\<lambda>q. case q of None \<Rightarrow> op_sub 32 Y A
       | Some (q, k) \<Rightarrow> c_bind (if k = 0 then Inr (BigNum_u64 32 q) else shift_limbs (BigNum_u64 32 q) k) (\<lambda>Z.
           c_bind (op_mul 32 A Z) (\<lambda>T. c_bind (op_sub 32 Y T) (mod_loop 32 fuel A))))"
      using cmp ge by simp
    show ?thesis
    proof (cases "limbs Y ! 1 = limbs A ! 1")
      case True
      then have "mod_trial Y A = Inr None" using ld l A(3) by (simp add: mod_trial_def)
      moreover have "mag Y mod mag A = mag Y - mag A"
        using quot_one [OF ge] tops(2) [OF Y(1) A(1) l A(3) True ge] A32 by simp
      ultimately show ?thesis unfolding go using sub_two [OF Y(1) A(1) Y(2) A(2) Y(3,4) A(4) ge] by auto
    next
      case False
      then have gt: "limbs A ! 1 < limbs Y ! 1" using tops(1) [OF Y(1) A(1) l A(3)] ge by force
      define q where "q = limbs Y ! 1 div (limbs A ! 1 + 1)"
      have "mod_trial Y A = Inr (Some (q, 0))"
        using ld l A(3) gt a by (simp add: mod_trial_def q_def c_div_def u64_def)
      moreover from trial_step [OF Y(1,2) l Y(4) A gt q_def] obtain T D where
        t: "1 \<le> q" "q * mag A \<le> mag Y" "op_mul 32 A (BigNum_u64 32 q) = Inr T" "op_sub 32 Y T = Inr D"
          "wf_big D" "normal_big D" "len D \<le> 2" "signal D = 0" "mag D = mag Y - q * mag A" by auto
      moreover note take_off [OF t(9,2) _ t(1) Suc.prems(5)]
      ultimately show ?thesis unfolding go using Suc.IH [of D] A32 by simp
    qed
  qed
qed simp


section \<open>The quotient\<close>

lemma div_loop_two:
  assumes A: "wf_big A" "normal_big A" "len A = 2" "signal A = 0"
  shows "wf_big X \<Longrightarrow> normal_big X \<Longrightarrow> len X \<le> 2 \<Longrightarrow> signal X = 0 \<Longrightarrow> mag X div mag A < fuel \<Longrightarrow>
    wf_big Y \<Longrightarrow> normal_big Y \<Longrightarrow> signal Y = 0 \<Longrightarrow> mag Y + mag X div mag A < B32 \<Longrightarrow>
    \<exists>R Q. div_loop 32 fuel A X Y = Inr (R, Q) \<and> wf_big R \<and> normal_big R \<and> wf_big Q \<and> normal_big Q \<and> signal Q = 0 \<and>
      len Q \<le> 2 \<and> mag Q + of_bool (mag R = mag A) = mag Y + mag X div mag A"
proof (induction fuel arbitrary: X Y)
  case (Suc fuel)
  note X = Suc.prems(1-4) and Y = Suc.prems(6-8)
  note cmp = Compare_correct [OF X(1) A(1) X(2) A(2)]
  have A32: "B32 \<le> mag A" by (rule normal_two [OF A(1-3)])
  have lY: "len Y \<le> 1" using normal_len [OF Y(1,2), of 1] Suc.prems(9) by simp
  show ?case
  proof (cases "mag X \<le> mag A")
    case True
    then have "mag X div mag A = (if mag X = mag A then 1 else 0)" using A32 by auto
    with True X Y lY cmp show ?thesis by auto
  next
    case False
    then have ge: "mag A \<le> mag X" "mag A < mag X" by simp_all
    then have l: "len X = 2" using len_less_mag [OF X(1) A(1,2)] A(3) X(3) by force
    have ld: "load (limbs X) 1 = Inr (limbs X ! 1)" "load (limbs A) 1 = Inr (limbs A ! 1)"
      using X(1) A(1) by (auto simp: wf_big_def limbs_ok_def)
    have x: "limbs X ! 1 < B32" using two_limbs [OF X(1) l] by simp
    have go: "div_loop 32 (Suc fuel) A X Y = c_bind (div_trial 32 X A) (\<lambda>q. case q of
         None \<Rightarrow> c_bind (op_add 32 Y (BigNum_u64 32 1)) (\<lambda>Y. Inr (X, Y))
       | Some (q, k) \<Rightarrow> c_bind (shift_limbs (BigNum_u64 32 q) k) (\<lambda>Z. c_bind (op_add 32 Y Z) (\<lambda>Y.
           c_bind (op_mul 32 A Z) (\<lambda>Z. c_bind (op_sub 32 X Z) (\<lambda>X. div_loop 32 fuel A X Y)))))"
      using cmp ge by simp
    show ?thesis
    proof (cases "limbs X ! 1 = limbs A ! 1")
      case True
      then have "div_trial 32 X A = Inr None" using ld l A(3) by (simp add: div_trial_def)
      moreover have "mag X div mag A = 1"
        using quot_one [OF ge(1)] tops(2) [OF X(1) A(1) l A(3) True ge(1)] A32 by simp
      moreover from add_limb [OF Y, of 1] lY obtain S where
        S: "op_add 32 Y (BigNum_u64 32 1) = Inr S" "wf_big S" "normal_big S" "signal S = 0" "mag S = mag Y + 1" by auto
      moreover have "len S \<le> 1" using normal_len [OF S(2,3), of 1] S(5) calculation(2) Suc.prems(9) by simp
      ultimately show ?thesis unfolding go using X ge by auto
    next
      case False
      then have gt: "limbs A ! 1 < limbs X ! 1" using tops(1) [OF X(1) A(1) l A(3)] ge by force
      define q where "q = limbs X ! 1 div (limbs A ! 1 + 1)"
      have "div_trial 32 X A = Inr (Some (q, 0))"
        using ld l A(3) gt x by (simp add: div_trial_def q_def c_div_def ul32)
      moreover from trial_step [OF X(1,2) l X(4) A gt q_def] obtain T D where
        t: "1 \<le> q" "q < B32" "q * mag A \<le> mag X" "op_mul 32 A (BigNum_u64 32 q) = Inr T" "op_sub 32 X T = Inr D"
          "wf_big D" "normal_big D" "len D \<le> 2" "signal D = 0" "mag D = mag X - q * mag A" by auto
      moreover have "shift_limbs (BigNum_u64 32 q) 0 = Inr (BigNum_u64 32 q)"
        using BigNum_u64_wf(1) [of q] t(2) by (intro shift_nothing) simp
      moreover from add_limb [OF Y _ t(2)] lY obtain S where
        S: "op_add 32 Y (BigNum_u64 32 q) = Inr S" "wf_big S" "normal_big S" "signal S = 0" "mag S = mag Y + q" by auto
      moreover note take_off [OF t(10,3) _ t(1) Suc.prems(5)]
      ultimately show ?thesis unfolding go using Suc.IH [of D S] A32 Suc.prems(9) by (simp add: add.assoc)
    qed
  qed
qed simp

text \<open>
  C11: for numbers below \<open>2 ^ 64\<close> that are not negative, and a divisor of two limbs, the trial division of
  \<^verbatim>\<open>operator/\<close> and \<^verbatim>\<open>operator%\<close> ends after at most one pass per unit of the quotient and returns the quotient
  and the remainder, although the guess from the top limbs is only a lower bound.
\<close>

theorem two_limb_division:
  assumes "wf_big X" "normal_big X" "len X \<le> 2" "signal X = 0" "wf_big A" "normal_big A" "len A = 2" "signal A = 0"
    and "mag X div mag A < fuel"
  shows "(\<exists>Q. op_div 32 fuel X A = Inr Q \<and> wf_big Q \<and> normal_big Q \<and> big Q = big X div big A) \<and>
    (\<exists>R. op_mod 32 fuel X A = Inr R \<and> wf_big R \<and> normal_big R \<and> big R = big X mod big A)"
proof
  note A = assms(5-8)
  have A32: "B32 \<le> mag A" by (rule normal_two [OF A(1-3)])
  have "mag X < B32 * B32" using mag_upper [OF assms(1)] power_increasing [OF assms(3), of B32] by (simp add: power2_eq_square)
  also have "\<dots> \<le> B32 * mag A" using A32 by (intro mult_le_mono2)
  finally have q: "mag X div mag A < B32" using A32 by (simp add: div_less_iff_less_mult)
  have zero: "wf_big BigNum0" "normal_big BigNum0" "signal BigNum0 = 0" "mag BigNum0 = 0"
    by (simp_all add: BigNum0_def wf_big_def normal_big_def limbs_ok_def zero_from_def)
  from div_loop_two [OF A assms(1-4,9) zero(1-3)] zero(4) q obtain R Q where
    r: "div_loop 32 fuel A X BigNum0 = Inr (R, Q)" "wf_big R" "normal_big R" "wf_big Q" "normal_big Q" "signal Q = 0" "len Q \<le> 2"
      "mag Q + of_bool (mag R = mag A) = mag X div mag A" by auto
  note cmp = Compare_correct [OF r(2) A(1) r(3) A(2)]
  have "\<exists>S. op_div 32 fuel X A = Inr S \<and> wf_big S \<and> normal_big S \<and> signal S = 0 \<and> mag S = mag X div mag A"
  proof (cases "mag R = mag A")
    case True
    with add_limb [OF r(4-7), of 1] r(1,8) cmp assms(4) A show ?thesis by (auto simp: op_div_def)
  next
    case False
    with r cmp assms(4) A show ?thesis by (auto simp: op_div_def)
  qed
  then show "\<exists>Q. op_div 32 fuel X A = Inr Q \<and> wf_big Q \<and> normal_big Q \<and> big Q = big X div big A"
    using assms(4,8) by (auto simp: big_def zdiv_int)
  show "\<exists>R. op_mod 32 fuel X A = Inr R \<and> wf_big R \<and> normal_big R \<and> big R = big X mod big A"
    using mod_loop_two [OF A assms(1-4,9)] assms(4) A by (auto simp: op_mod_def big_def zmod_int)
qed

theorem two_limb_division_witness:
  "\<exists>Q R. op_div 32 1000 (BigNum_u64 32 (2 ^ 63)) (BigNum_u64 32 (2 ^ 60 + 1)) = Inr Q \<and> big Q = 7 \<and>
     op_mod 32 1000 (BigNum_u64 32 (2 ^ 63)) (BigNum_u64 32 (2 ^ 60 + 1)) = Inr R \<and> big R = 2 ^ 60 - 7"
proof -
  have l: "len (BigNum_u64 32 (2 ^ 63)) = 2" "len (BigNum_u64 32 (2 ^ 60 + 1)) = 2" by (simp_all add: BigNum_u64_def)
  have "big (BigNum_u64 32 (2 ^ 63)) = 2 ^ 63" "big (BigNum_u64 32 (2 ^ 60 + 1)) = 2 ^ 60 + 1"
    by (simp_all add: big_def BigNum_u64_wf)
  with two_limb_division [of "BigNum_u64 32 (2 ^ 63)" "BigNum_u64 32 (2 ^ 60 + 1)" 1000] BigNum_u64_wf [of "2 ^ 63"] BigNum_u64_wf [of "2 ^ 60 + 1"] l
  show ?thesis by auto
qed

end
