(* ===== verification/Tetris.thy ===== *)
theory Tetris
  imports C_Prelude Complex_Main
begin

text \<open>
  The rating of a position of a falling block game: \<^verbatim>\<open>src/cpp/test/eipd.c\<close>, \<^verbatim>\<open>util.c\<close> and \<^verbatim>\<open>config.c\<close>.
  A board is an array with one \<^verbatim>\<open>int\<close> per row, the lowest row first, whose bit \<open>j\<close> is the cell of column \<open>j\<close>.
  The loops that count are compared with the sets of cells they are meant to count.
\<close>

unbundle bit_operations_syntax

section \<open>Shifts and cells\<close>

text \<open>\<^verbatim>\<open>r >> j\<close> and \<^verbatim>\<open>r << j\<close> on \<^verbatim>\<open>int\<close>; a shift by a negative amount or by the width is undefined, and so is a left shift that loses a bit.\<close>

definition shr :: "int \<Rightarrow> int \<Rightarrow> int c_result" where
  "shr r j = (if 0 \<le> j \<and> j < 32 then Inr (drop_bit (nat j) r) else Inl InvalidShift)"

definition shl :: "int \<Rightarrow> int \<Rightarrow> int c_result" where
  "shl r j = (if 0 \<le> j \<and> j < 32 \<and> 0 \<le> r then c_int (r * 2 ^ nat j) else Inl InvalidShift)"

text \<open>\<^verbatim>\<open>(r >> j) & 1\<close>\<close>

definition cell :: "int \<Rightarrow> int \<Rightarrow> int c_result" where
  "cell r j = c_bind (shr r j) (\<lambda>s. Inr (s AND 1))"

text \<open>\<^verbatim>\<open>brd[i]\<close> for an index of type \<^verbatim>\<open>int\<close>.\<close>

definition row_at :: "int list \<Rightarrow> int \<Rightarrow> int c_result" where
  "row_at brd i = (if i < 0 then Inl OutOfBounds else load brd (nat i))"

section \<open>\<^verbatim>\<open>eipd.c\<close>\<close>

text \<open>The functions that are not written yet return their argument.\<close>

definition rvs :: "int list \<Rightarrow> int list" where
  "rvs brd = brd"

definition get_len :: "int list \<Rightarrow> int" where
  "get_len array = 0"

definition get_rw_n :: "int list \<Rightarrow> int" where
  "get_rw_n brd = get_len brd"

definition pop_i :: "int list \<Rightarrow> int \<Rightarrow> int list" where
  "pop_i array i = array"

definition insert_i :: "int list \<Rightarrow> int \<Rightarrow> int \<Rightarrow> int list" where
  "insert_i array i i_v = array"

text \<open>The loop counter of \<^verbatim>\<open>get_ld_h\<close> is not initialised.\<close>

definition ld_pass :: "int list \<Rightarrow> int \<Rightarrow> int \<Rightarrow> nat \<Rightarrow> int \<times> int \<Rightarrow> (int \<times> int) c_result" where
  "ld_pass pce_x pos_y rw_n i = (\<lambda>(p_h, c).
     c_bind (load pce_x i) (\<lambda>x.
     if x \<noteq> 0 then Inr (p_h, c)
     else
       c_bind (c_int (c + 1)) (\<lambda>c.
       c_bind (c_int (rw_n - 1)) (\<lambda>top.
       c_bind (c_int (pos_y + int i)) (\<lambda>y.
       c_bind (c_int (top - y)) (\<lambda>h.
       c_bind (c_int (p_h + h)) (\<lambda>p_h. Inr (p_h, c))))))))"

definition get_ld_h :: "int list \<Rightarrow> int \<Rightarrow> int \<Rightarrow> int \<Rightarrow> int c_result" where
  "get_ld_h pce_x pce_x_size pos_y rw_n =
     c_bind (Inl Indeterminate) (\<lambda>i.
     c_bind (for_loop i (nat pce_x_size) (ld_pass pce_x pos_y rw_n) (0, 0)) (\<lambda>(p_h, c). c_quot p_h c))"

text \<open>\<open>n\<close> is the number of rows from \<open>i\<close> on.\<close>

fun rm_from :: "int list \<Rightarrow> int \<Rightarrow> int \<Rightarrow> nat \<Rightarrow> nat \<Rightarrow> int \<Rightarrow> int c_result" where
  "rm_from brd col_max rw_n 0 i c = Inr c"
| "rm_from brd col_max rw_n (Suc n) i c =
     c_bind (load brd i) (\<lambda>row.
     if row = col_max then
       c_bind (c_int (c + 1)) (\<lambda>c.
       rm_from (insert_i (pop_i brd (int i)) (rw_n - 1) 0) col_max rw_n n (Suc i) c)
     else if row = 0 then Inr c
     else rm_from brd col_max rw_n n (Suc i) c)"

definition get_rw_rm :: "int list \<Rightarrow> int \<Rightarrow> int \<Rightarrow> int c_result" where
  "get_rw_rm brd col_max rw_n = rm_from brd col_max rw_n (nat rw_n) 0 0"

text \<open>The state of the loops of \<^verbatim>\<open>get_rw_t\<close> is \<^verbatim>\<open>t\<close>, \<^verbatim>\<open>last_bit\<close> and \<^verbatim>\<open>bit\<close>.\<close>

definition rw_cell :: "int \<Rightarrow> nat \<Rightarrow> int \<times> int \<times> int \<Rightarrow> (int \<times> int \<times> int) c_result" where
  "rw_cell row j = (\<lambda>(t, last_bit, _).
     c_bind (cell row (int j)) (\<lambda>bit.
     if bit \<noteq> last_bit then c_bind (c_int (t + 1)) (\<lambda>t. Inr (t, bit, bit))
     else Inr (t, last_bit, bit)))"

definition rw_pass :: "int list \<Rightarrow> int \<Rightarrow> nat \<Rightarrow> int \<times> int \<times> int \<Rightarrow> (int \<times> int \<times> int) c_result" where
  "rw_pass brd col i = (\<lambda>(t, last_bit, bit).
     c_bind (load brd i) (\<lambda>row.
     if row = 0 then c_bind (c_int (t + 2)) (\<lambda>t. Inr (t, 1, bit))
     else
       c_bind (for_loop 0 (nat col) (rw_cell row) (t, last_bit, bit)) (\<lambda>(t, last_bit, bit).
       c_bind (if bit = 0 then c_int (t + 1) else Inr t) (\<lambda>t. Inr (t, 1, bit)))))"

definition get_rw_t :: "int list \<Rightarrow> int \<Rightarrow> int \<Rightarrow> int c_result" where
  "get_rw_t brd col rw_n =
     c_bind (for_loop 0 (nat rw_n) (rw_pass brd col) (0, 1, 0)) (\<lambda>(t, _, _). Inr t)"

text \<open>The loop over the bits of \<^verbatim>\<open>xor\<close>.\<close>

definition count_ones :: "int \<Rightarrow> int \<Rightarrow> int \<Rightarrow> int c_result" where
  "count_ones col x t =
     for_loop 0 (nat col) (\<lambda>j t. c_bind (cell x (int j)) (\<lambda>b. if b \<noteq> 0 then c_int (t + 1) else Inr t)) t"

definition get_col_t :: "int list \<Rightarrow> int \<Rightarrow> int \<Rightarrow> int \<Rightarrow> int c_result" where
  "get_col_t brd col rw_n col_max =
     c_bind (load brd 0) (\<lambda>row.
     c_bind (count_ones col (row XOR col_max) 0)
       (for_loop 1 (nat rw_n) (\<lambda>i t.
          c_bind (load brd i) (\<lambda>row.
          c_bind (load brd (i - 1)) (\<lambda>below. count_ones col (row XOR below) t)))))"

text \<open>The inner counter of \<^verbatim>\<open>get_col_t1\<close> is not initialised.\<close>

definition col_cell :: "int list \<Rightarrow> nat \<Rightarrow> nat \<Rightarrow> int \<times> int \<Rightarrow> (int \<times> int) c_result" where
  "col_cell brd i j = (\<lambda>(t, last_bit).
     c_bind (load brd j) (\<lambda>row.
     c_bind (cell row (int i)) (\<lambda>bit.
     c_bind (if bit \<noteq> last_bit then c_int (t + 1) else Inr t) (\<lambda>t. Inr (t, bit)))))"

definition get_col_t1 :: "int list \<Rightarrow> int \<Rightarrow> int \<Rightarrow> int \<Rightarrow> int c_result" where
  "get_col_t1 brd col rw_n col_max =
     c_bind (for_loop 0 (nat col) (\<lambda>i s.
       c_bind (Inl Indeterminate) (\<lambda>j.
       c_bind (for_loop j (nat rw_n) (col_cell brd i) s) (\<lambda>(t, last_bit). Inr (t, 1)))) (0, 1)) (\<lambda>(t, _). Inr t)"

text \<open>The state of the loop of \<^verbatim>\<open>gt_hl\<close> is \<^verbatim>\<open>hl\<close>, \<^verbatim>\<open>rw_hl\<close> and \<^verbatim>\<open>p_rw\<close>.\<close>

definition hl_pass :: "int list \<Rightarrow> int \<Rightarrow> nat \<Rightarrow> int \<times> int \<times> int \<Rightarrow> (int \<times> int \<times> int) c_result" where
  "hl_pass brd col i = (\<lambda>(hl, rw_hl, p_rw).
     c_bind (load brd i) (\<lambda>c_rw.
     let rw_hl = NOT c_rw AND (p_rw OR rw_hl) in
     c_bind (for_loop 0 (nat col) (\<lambda>j hl. c_bind (cell rw_hl (int j)) (\<lambda>b. c_int (hl + b))) hl) (\<lambda>hl.
     Inr (hl, rw_hl, c_rw))))"

definition gt_hl :: "int list \<Rightarrow> int \<Rightarrow> int \<Rightarrow> int c_result" where
  "gt_hl brd col rw_n =
     c_bind (row_at brd (rw_n - 1)) (\<lambda>p_rw.
     c_bind (for_down 1 (nat (rw_n - 1)) (hl_pass brd col) (0, 0, p_rw)) (\<lambda>(hl, _, _). Inr hl))"

text \<open>
  \<^verbatim>\<open>!(r >> i) & 1\<close> negates the shifted row, not its lowest bit: it is 1 when no cell from column
  \<open>i\<close> on is filled.
\<close>

definition not_shr :: "int \<Rightarrow> int \<Rightarrow> int c_result" where
  "not_shr r i = c_bind (shr r i) (\<lambda>s. Inr ((if s = 0 then 1 else 0) AND 1))"

text \<open>\<^verbatim>\<open>for (int k = j - 1; j > 0; j--)\<close>: the loop counts down the \<^verbatim>\<open>j\<close> of the loop around it.\<close>

fun wl_shared :: "int list \<Rightarrow> int \<Rightarrow> nat \<Rightarrow> nat \<Rightarrow> int \<Rightarrow> (int \<times> nat) c_result" where
  "wl_shared brd i k j wl_s =
     (if j > 0 then
        c_bind (load brd k) (\<lambda>row.
        c_bind (cell row i) (\<lambda>b.
        if b = 0 then c_bind (c_int (wl_s + 1)) (wl_shared brd i k (j - 1)) else Inr (wl_s, j)))
      else Inr (wl_s, j))"

declare wl_shared.simps [simp del]

lemma wl_shared_le: "wl_shared brd i k j wl_s = Inr (w, j') \<Longrightarrow> j' \<le> j"
  by (induction brd i k j wl_s rule: wl_shared.induct)
    (subst (asm) (2) wl_shared.simps, fastforce split: if_splits)

function wl_mid :: "int list \<Rightarrow> int \<Rightarrow> nat \<Rightarrow> int \<Rightarrow> int c_result" where
  "wl_mid brd i j wl_s =
     (if j > 0 then
        c_bind (load brd j) (\<lambda>row.
        c_bind (not_shr row i) (\<lambda>a.
        c_bind (if a = 0 then Inr 0 else cell row (i - 1)) (\<lambda>b.
        c_bind (if b = 0 then Inr 0 else cell row (i + 1)) (\<lambda>c.
        if c \<noteq> 0 then
          c_bind (c_int (wl_s + 1)) (\<lambda>wl_s.
          c_bind (wl_shared brd i (j - 1) j wl_s) (\<lambda>(wl_s, j). wl_mid brd i (j - 1) wl_s))
        else wl_mid brd i (j - 1) wl_s))))
      else Inr wl_s)"
  by pat_completeness auto
termination by (relation "measure (\<lambda>(_, _, j, _). j)") (auto dest: wl_shared_le)

declare wl_mid.simps [simp del]

text \<open>\<^verbatim>\<open>for (int k = j - 1; k > 0; k--)\<close> of the two walls.\<close>

fun wl_down :: "int list \<Rightarrow> int \<Rightarrow> nat \<Rightarrow> int \<Rightarrow> int c_result" where
  "wl_down brd i 0 wl_s = Inr wl_s"
| "wl_down brd i (Suc k) wl_s =
     c_bind (load brd (Suc k)) (\<lambda>row.
     c_bind (cell row i) (\<lambda>b.
     if b = 0 then c_bind (c_int (wl_s + 1)) (wl_down brd i k) else Inr wl_s))"

definition wl_left :: "int list \<Rightarrow> nat \<Rightarrow> int \<Rightarrow> int c_result" where
  "wl_left brd j wl_s =
     c_bind (load brd j) (\<lambda>row.
     c_bind (not_shr row 0) (\<lambda>a.
     c_bind (if a = 0 then Inr 0 else cell row 1) (\<lambda>b.
     if b \<noteq> 0 then c_bind (c_int (wl_s + 1)) (wl_down brd 0 (j - 1)) else Inr wl_s)))"

definition wl_right :: "int list \<Rightarrow> int \<Rightarrow> nat \<Rightarrow> int \<Rightarrow> int c_result" where
  "wl_right brd col j wl_s =
     c_bind (load brd j) (\<lambda>row.
     c_bind (cell row (col - 1)) (\<lambda>a.
     c_bind (if a \<noteq> 0 then Inr 0 else cell row (col - 2)) (\<lambda>b.
     if b \<noteq> 0 then c_bind (c_int (wl_s + 1)) (wl_down brd (col - 1) (j - 1)) else Inr wl_s)))"

definition gt_wl :: "int list \<Rightarrow> int \<Rightarrow> int \<Rightarrow> int c_result" where
  "gt_wl brd col rw_n =
     c_bind (for_loop 1 (nat (col - 1)) (\<lambda>i. wl_mid brd (int i) (nat (rw_n - 1))) 0) (\<lambda>wl_s.
     c_bind (for_down 1 (nat rw_n) (wl_left brd) wl_s)
       (for_down 1 (nat rw_n) (wl_right brd col)))"

text \<open>Values of \<^verbatim>\<open>double\<close> are reals; \<open>rnd\<close> is the rounding of an operation to a double.\<close>

definition weigh :: "(real \<Rightarrow> real) \<Rightarrow> real \<Rightarrow> int \<Rightarrow> real \<Rightarrow> real" where
  "weigh rnd w x scr = rnd (scr + rnd (of_int x * rnd w))"

definition evl :: "(real \<Rightarrow> real) \<Rightarrow> int list \<Rightarrow> int list \<Rightarrow> int \<Rightarrow> int \<Rightarrow> int \<Rightarrow> int \<Rightarrow> real c_result" where
  "evl rnd brd pce_x pos_y col col_max rw_n =
     (let brd = rvs brd in
      c_bind (get_ld_h pce_x 4 pos_y rw_n) (\<lambda>ld_h.
      c_bind (get_rw_rm brd col_max rw_n) (\<lambda>rw_rm.
      c_bind (get_rw_t brd col rw_n) (\<lambda>rw_t.
      c_bind (get_col_t brd col rw_n col_max) (\<lambda>col_t.
      c_bind (gt_hl brd col rw_n) (\<lambda>hl.
      c_bind (gt_wl brd col rw_n) (\<lambda>wl.
      Inr (weigh rnd (- 3.3855972247263626) wl
          (weigh rnd (- 7.899265427351652) hl
          (weigh rnd (- 9.348695305445199) col_t
          (weigh rnd (- 3.2178882868487753) rw_t
          (weigh rnd 3.4181268101392694 rw_rm
          (weigh rnd (- 4.500158825082766) ld_h 0)))))))))))))"

section \<open>\<^verbatim>\<open>util.c\<close>\<close>

definition get_matrix :: "int list \<Rightarrow> nat \<Rightarrow> nat \<Rightarrow> int list list \<Rightarrow> int list list c_result" where
  "get_matrix b size_b col_n =
     for_loop 0 size_b (\<lambda>i.
       for_loop 0 col_n (\<lambda>j c.
         c_bind (load b i) (\<lambda>x.
         c_bind (cell x (int j)) (\<lambda>v.
         c_bind (load c i) (\<lambda>row.
         c_bind (store row j v) (store c i))))))"

text \<open>
  \<^verbatim>\<open>tmp += m[i][j] * pow (2, j)\<close>: the sum is formed in \<^verbatim>\<open>double\<close>, which holds the products and every sum
  in the range of \<^verbatim>\<open>int\<close> exactly, and is undefined when the sum does not fit \<^verbatim>\<open>int\<close> again; from
  the exponent 1024 on \<^verbatim>\<open>pow\<close> is not finite.
\<close>

definition add_power :: "int \<Rightarrow> nat \<Rightarrow> int \<Rightarrow> int c_result" where
  "add_power x j tmp = (if j < 1024 then c_int (tmp + x * 2 ^ j) else Inl SignedOverflow)"

definition get_bin :: "int list list \<Rightarrow> nat \<Rightarrow> nat \<Rightarrow> int list \<Rightarrow> int list c_result" where
  "get_bin m row_n col_n =
     for_loop 0 row_n (\<lambda>i b.
       c_bind (for_loop 0 col_n (\<lambda>j tmp.
         c_bind (load m i) (\<lambda>row. c_bind (load row j) (\<lambda>x. add_power x j tmp))) 0) (store b i))"

definition shift :: "int list \<Rightarrow> nat \<Rightarrow> int \<Rightarrow> int list c_result" where
  "shift bin_l bin_size x =
     for_loop 0 bin_size (\<lambda>i bin_l. c_bind (load bin_l i) (\<lambda>r. c_bind (shl r x) (store bin_l i))) bin_l"

section \<open>\<^verbatim>\<open>config.c\<close>\<close>

record rot_piece =
  r_lmt :: int
  piece_type :: int
  rot :: int
  piece :: "int list list"

record config =
  base_url :: string
  config_file :: string
  pcs :: "rot_piece option list"
  cols :: int
  rows :: int
  pce_col :: int
  pce_row :: int
  col_bd_msk :: int
  col_max :: int
  new_pce_pos :: "int list"

text \<open>The fourth piece is never set.\<close>

definition get_config :: config where
  "get_config =
     \<lparr>base_url = ''http://127.0.0.1:8000/'', config_file = ''config.txt'',
      pcs =
       [Some \<lparr>r_lmt = 4, piece_type = 2, rot = 0, piece =
          [[0b0010, 0b0111, 0b0000, 0b0000],
           [0b0010, 0b0110, 0b0010, 0b0000],
           [0b0000, 0b0111, 0b0010, 0b0000],
           [0b0010, 0b0011, 0b0010, 0b0000]]\<rparr>,
        Some \<lparr>r_lmt = 4, piece_type = 0, rot = 0, piece =
          [[0b0000, 0b0110, 0b0110, 0b0000],
           [0b0000, 0b0110, 0b0110, 0b0000],
           [0b0000, 0b0110, 0b0110, 0b0000],
           [0b0000, 0b0110, 0b0110, 0b0000]]\<rparr>,
        Some \<lparr>r_lmt = 4, piece_type = 1, rot = 0, piece =
          [[0b0000, 0b1111, 0b0000, 0b0000],
           [0b0100, 0b0100, 0b0100, 0b0100],
           [0b0000, 0b0000, 0b1111, 0b0000],
           [0b0010, 0b0010, 0b0010, 0b0010]]\<rparr>,
        None],
      cols = 10, rows = 20, pce_col = 4, pce_row = 4,
      col_bd_msk = 2 ^ (10 - 1), col_max = 2 ^ 10 - 1, new_pce_pos = [- 3, 1]\<rparr>"

section \<open>Counting\<close>

lemma sum_of_bool_card: "(\<Sum>j<n. of_bool (P j)) = int (card {j :: nat. j < n \<and> P j})"
  by (subst sum_of_bool_eq) (auto intro!: arg_cong [where f = card])

lemma card_less_le: "card {j. j < n \<and> P j} \<le> n"
  using card_mono [of "{..<n}" "{j. j < n \<and> P j}"] by auto

lemma cell_bit [simp]: "j < 32 \<Longrightarrow> cell r (int j) = Inr (of_bool (bit r j))"
  by (simp add: cell_def shr_def and_one_eq bit_iff_odd_drop_bit mod_2_eq_odd)

lemma shr_in [simp]: "j < 32 \<Longrightarrow> shr r (int j) = Inr (drop_bit j r)"
  by (simp add: shr_def)

lemma count_ones_card:
  assumes "n \<le> 32" "0 \<le> t" "t + int n \<le> INT_MAX"
  shows "count_ones (int n) x t = Inr (t + int (card {j. j < n \<and> bit x j}))"
proof -
  let ?w = "\<lambda>j. of_bool (bit x j) :: int"
  have "(\<Sum>j<n. ?w j) \<le> int n" using card_less_le [of n "bit x"] by (simp add: sum_of_bool_card)
  then have "count_ones (int n) x t = Inr (t + (\<Sum>j<n. ?w j))" unfolding count_ones_def nat_int
    using assms by (intro for_loop_add) (auto simp: c_int_in INT_MIN_def)
  then show ?thesis by (simp only: sum_of_bool_card)
qed

section \<open>What the features count\<close>

text \<open>The row below, which is the floor for the lowest row.\<close>

definition below :: "int list \<Rightarrow> int \<Rightarrow> nat \<Rightarrow> int" where
  "below brd flr i = (if i = 0 then flr else brd ! (i - 1))"

text \<open>A cell is a hole when it is empty and a cell above it in its column is filled.\<close>

definition hole :: "int list \<Rightarrow> nat \<Rightarrow> nat \<Rightarrow> nat \<Rightarrow> bool" where
  "hole brd h i j \<longleftrightarrow> \<not> bit (brd ! i) j \<and> (\<exists>k. i < k \<and> k < h \<and> bit (brd ! k) j)"

text \<open>The cells of a row between its walls, which are filled.\<close>

definition walled :: "nat \<Rightarrow> int \<Rightarrow> nat \<Rightarrow> bool" where
  "walled n row j \<longleftrightarrow> j = 0 \<or> j = Suc n \<or> bit row (j - 1)"

lemma sum_le_rect:
  assumes "\<And>i. i < h \<Longrightarrow> f i \<le> n"
  shows "(\<Sum>i<h. int (f i)) \<le> int (h * n)"
proof -
  have "(\<Sum>i<h. int (f i)) \<le> (\<Sum>i<h. int n)" using assms by (intro sum_mono) simp
  then show ?thesis by simp
qed

text \<open>The changes between filled and empty along the columns, from the floor upwards.\<close>

lemma get_col_t_changes:
  assumes "n \<le> 32" "0 < h" "h \<le> length brd" "int (h * n) \<le> INT_MAX"
  shows "get_col_t brd (int n) (int h) flr =
    Inr (\<Sum>i<h. int (card {j. j < n \<and> bit (brd ! i) j \<noteq> bit (below brd flr i) j}))"
proof -
  define c where "c i = card {j. j < n \<and> bit (brd ! i XOR below brd flr i) j}" for i
  have c: "c i = card {j. j < n \<and> bit (brd ! i) j \<noteq> bit (below brd flr i) j}" for i
    by (simp add: c_def bit_xor_iff)
  have cn: "c i \<le> n" for i by (simp add: c_def card_less_le)
  have "\<exists>t. for_loop 1 h (\<lambda>i t. c_bind (load brd i) (\<lambda>row. c_bind (load brd (i - 1)) (\<lambda>below. count_ones (int n) (row XOR below) t))) (int (c 0)) = Inr t
      \<and> t = (\<Sum>i<h. int (c i))"
  proof (rule for_loop_total [where I = "\<lambda>i t. t = (\<Sum>i<i. int (c i))"], goal_cases)
    case (3 i s)
    have "(\<Sum>i<i. int (c i)) \<le> int (i * n)" by (rule sum_le_rect) (rule cn)
    moreover have "int (i * n) + int n \<le> int (h * n)"
      using 3(2) mult_le_mono1 [of "Suc i" h n] by (simp add: algebra_simps flip: of_nat_add of_nat_mult)
    ultimately have "s + int n \<le> INT_MAX" "0 \<le> s" using 3(3) assms(4) by (auto simp: sum_nonneg)
    with 3 assms show ?case by (auto simp: load_in count_ones_card c_def below_def)
  qed (use assms in auto)
  moreover have "count_ones (int n) (brd ! 0 XOR flr) 0 = Inr (int (c 0))"
    using assms by (subst count_ones_card) (auto simp: c_def below_def INT_MAX_def)
  ultimately show ?thesis using assms by (auto simp: get_col_t_def load_in c)
qed


text \<open>The holes.\<close>

lemma count_bits_card:
  assumes "n \<le> 32" "0 \<le> t" "t + int n \<le> INT_MAX"
  shows "for_loop 0 n (\<lambda>j hl. c_bind (cell x (int j)) (\<lambda>b. c_int (hl + b))) t = Inr (t + int (card {j. j < n \<and> bit x j}))"
proof -
  have "(\<Sum>j<n. of_bool (bit x j) :: int) \<le> int n" using card_less_le [of n "bit x"] by (simp add: sum_of_bool_card)
  then have "for_loop 0 n (\<lambda>j hl. c_bind (cell x (int j)) (\<lambda>b. c_int (hl + b))) t = Inr (t + (\<Sum>j<n. of_bool (bit x j)))"
    using assms by (intro for_loop_add) (auto simp: c_int_in INT_MIN_def)
  then show ?thesis by (simp only: sum_of_bool_card)
qed

lemma covered_step:
  assumes "\<forall>j. bit a j \<longleftrightarrow> (\<exists>k. Suc i \<le> k \<and> k < h \<and> bit (brd ! k) j)" "i < h"
  shows "bit (NOT (brd ! i) AND a) j \<longleftrightarrow> hole brd h i j"
    "bit (brd ! i OR (NOT (brd ! i) AND a)) j \<longleftrightarrow> (\<exists>k. i \<le> k \<and> k < h \<and> bit (brd ! k) j)"
proof -
  show "bit (NOT (brd ! i) AND a) j \<longleftrightarrow> hole brd h i j"
    using assms(1) by (auto simp: bit_simps hole_def Suc_le_eq)
  have "(\<exists>k. i \<le> k \<and> k < h \<and> bit (brd ! k) j) \<longleftrightarrow> bit (brd ! i) j \<or> (\<exists>k. Suc i \<le> k \<and> k < h \<and> bit (brd ! k) j)"
    using assms(2) by (metis Suc_leD Suc_leI le_neq_implies_less order_refl)
  then show "bit (brd ! i OR (NOT (brd ! i) AND a)) j \<longleftrightarrow> (\<exists>k. i \<le> k \<and> k < h \<and> bit (brd ! k) j)"
    using assms(1) by (auto simp: bit_simps)
qed

lemma hl_pass_holes:
  assumes "n \<le> 32" "i < h" "h \<le> length brd" "0 \<le> hl" "hl + int n \<le> INT_MAX"
    and "\<forall>j. bit (p OR r) j \<longleftrightarrow> (\<exists>k. Suc i \<le> k \<and> k < h \<and> bit (brd ! k) j)"
  shows "\<exists>r'. hl_pass brd (int n) i (hl, r, p) = Inr (hl + int (card {j. j < n \<and> hole brd h i j}), r', brd ! i) \<and>
    (\<forall>j. bit (brd ! i OR r') j \<longleftrightarrow> (\<exists>k. i \<le> k \<and> k < h \<and> bit (brd ! k) j))"
  using assms covered_step [OF assms(6,2)] count_bits_card [OF assms(1,4,5)]
  by (simp add: hl_pass_def load_in Let_def)

lemma gt_hl_sum:
  assumes "n \<le> 32" "0 < h" "h \<le> length brd" "int (h * n) \<le> INT_MAX"
  shows "gt_hl brd (int n) (int h) = Inr (\<Sum>i \<in> {1..<h - 1}. int (card {j. j < n \<and> hole brd h i j}))"
proof (cases "h = 1")
  case True
  with assms show ?thesis by (auto simp: gt_hl_def row_at_def load_in for_down_def)
next
  case False
  define c where "c i = card {j. j < n \<and> hole brd h i j}" for i
  let ?I = "\<lambda>i (hl, r, p). hl = (\<Sum>k \<in> {i..<h - 1}. int (c k)) \<and> (\<forall>j. bit (p OR r) j \<longleftrightarrow> (\<exists>k. i \<le> k \<and> k < h \<and> bit (brd ! k) j))"
  have "\<exists>s. for_down 1 (h - 1) (hl_pass brd (int n)) (0, 0, brd ! (h - 1)) = Inr s \<and> ?I 1 s"
  proof (rule for_down_total [where I = ?I], goal_cases)
    case 2
    have "h - 1 \<le> k \<and> k < h \<longleftrightarrow> k = h - 1" for k using assms(2) by auto
    then show ?case by (simp add: bit_simps conj_assoc [symmetric])
  next
    case (3 i s)
    obtain hl r p where s: "s = (hl, r, p)" by (cases s) auto
    have sum: "hl = (\<Sum>k \<in> {Suc i..<h - 1}. int (c k))" using 3(3) s by simp
    have "(\<Sum>k \<in> {Suc i..<h - 1}. int (c k)) \<le> (\<Sum>k \<in> {Suc i..<h - 1}. int n)"
      by (intro sum_mono) (simp add: c_def card_less_le)
    then have "hl + int n \<le> int (h - 1 - Suc i) * int n + int n" using sum by simp
    also have "\<dots> \<le> int h * int n"
      using 3(2) by (simp add: algebra_simps flip: of_nat_mult of_nat_add)
    finally have "hl + int n \<le> INT_MAX" "0 \<le> hl" using assms(4) sum by (auto simp: sum_nonneg)
    moreover have "i < h" "(\<Sum>k \<in> {i..<h - 1}. int (c k)) = hl + int (c i)"
      using 3(2) sum by (auto simp: sum.atLeast_Suc_lessThan)
    ultimately show ?case
      using hl_pass_holes [of n i h brd hl p r] 3(3) s assms by (auto simp: c_def)
  qed (use False assms in auto)
  moreover have "nat (int h - 1) = h - 1" "row_at brd (int h - 1) = Inr (brd ! (h - 1))"
    using assms by (auto simp: row_at_def nat_diff_distrib)
  ultimately show ?thesis by (auto simp: gt_hl_def c_def)
qed


text \<open>
  C12: \<^verbatim>\<open>gt_hl\<close>, which carries a mask of covered columns down the board, counts exactly the empty cells
  above the lowest row that have a filled cell above them in their column, on every board
  of at most 32 columns; the holes of the lowest row are not counted.
\<close>

theorem gt_hl_counts_holes:
  assumes "n \<le> 32" "0 < h" "h \<le> length brd" "int (h * n) \<le> INT_MAX"
  shows "gt_hl brd (int n) (int h) = Inr (int (card {(i, j). 0 < i \<and> i < h \<and> j < n \<and> hole brd h i j}))"
proof -
  have "{(i, j). 0 < i \<and> i < h \<and> j < n \<and> hole brd h i j} = (SIGMA i : {1..<h - 1}. {j. j < n \<and> hole brd h i j})"
    by (auto simp: hole_def)
  then show ?thesis using gt_hl_sum [OF assms] by simp
qed

theorem gt_hl_counts_holes_witness:
  "gt_hl [0b101, 0b001, 0b110, 0b011] 3 4 = Inr (int (card {(i, j). 0 < i \<and> i < 4 \<and> j < 3 \<and> hole [0b101, 0b001, 0b110, 0b011] 4 i j})) \<and>
   gt_hl [0b101, 0b001, 0b110, 0b011] 3 4 = Inr 3"
proof
  show "gt_hl [0b101, 0b001, 0b110, 0b011] 3 4 = Inr (int (card {(i, j). 0 < i \<and> i < 4 \<and> j < 3 \<and> hole [0b101, 0b001, 0b110, 0b011] 4 i j}))"
    using gt_hl_counts_holes [of 3 4 "[0b101, 0b001, 0b110, 0b011]"] by (simp add: INT_MAX_def)
  show "gt_hl [0b101, 0b001, 0b110, 0b011] 3 4 = Inr 3" by code_simp
qed

text \<open>The changes between filled and empty along a row with its walls.\<close>

definition edges :: "nat \<Rightarrow> int \<Rightarrow> nat \<Rightarrow> nat" where
  "edges n row m = card {k. k < m \<and> walled n row k \<noteq> walled n row (Suc k)}"

lemma edges_Suc: "edges n row (Suc m) = edges n row m + of_bool (walled n row m \<noteq> walled n row (Suc m))"
proof -
  have "{k. k < Suc m \<and> P k} = {k. k < m \<and> P k} \<union> (if P m then {m} else {})" for P :: "nat \<Rightarrow> bool"
    by (auto simp: less_Suc_eq)
  then show ?thesis by (simp add: edges_def)
qed

lemma edges_0 [simp]: "edges n row 0 = 0"
  by (simp add: edges_def)

lemma edges_le: "edges n row m \<le> m"
  by (simp add: edges_def card_less_le)

lemma edges_empty_row: "0 < n \<Longrightarrow> edges n 0 (Suc n) = 2"
proof -
  assume "0 < n"
  then have "{k. k < Suc n \<and> walled n 0 k \<noteq> walled n 0 (Suc k)} = {0, n}" by (auto simp: walled_def)
  with \<open>0 < n\<close> show ?thesis by (simp add: edges_def)
qed

lemma rw_cells:
  assumes "n \<le> 32" "0 \<le> t" "t + int n \<le> INT_MAX" "0 < n"
  shows "for_loop 0 n (rw_cell row) (t, 1, b) = Inr (t + int (edges n row n), of_bool (bit row (n - 1)), of_bool (bit row (n - 1)))"
proof -
  let ?I = "\<lambda>j (u, l, b). u = t + int (edges n row j) \<and> l = of_bool (walled n row j) \<and> (0 < j \<longrightarrow> b = of_bool (bit row (j - 1)))"
  have "\<exists>s. for_loop 0 n (rw_cell row) (t, 1, b) = Inr s \<and> ?I n s"
  proof (rule for_loop_total [where I = ?I], goal_cases)
    case (3 j s)
    have "edges n row (Suc j) \<le> n" using edges_le [of n row "Suc j"] 3(2) by simp
    then have "t + int (edges n row j) + 1 \<le> INT_MAX \<or> walled n row j = walled n row (Suc j)"
      using assms(3) by (cases "walled n row j = walled n row (Suc j)") (simp_all add: edges_Suc)
    moreover have "walled n row (Suc j) = bit row j" using 3(2) by (simp add: walled_def)
    ultimately show ?case using 3 assms(1,2)
      by (cases s) (auto simp: rw_cell_def edges_Suc c_int_in INT_MIN_def)
  qed (simp_all add: walled_def)
  then show ?thesis using assms(4) by (auto simp: walled_def)
qed

lemma get_rw_t_changes:
  assumes "0 < n" "n \<le> 32" "h \<le> length brd" "int (h * (n + 1)) \<le> INT_MAX"
  shows "get_rw_t brd (int n) (int h) = Inr (\<Sum>i<h. int (edges n (brd ! i) (Suc n)))"
proof -
  let ?I = "\<lambda>i (t, l, b). t = (\<Sum>k<i. int (edges n (brd ! k) (Suc n))) \<and> l = 1"
  have "\<exists>s. for_loop 0 h (rw_pass brd (int n)) (0, 1, 0) = Inr s \<and> ?I h s"
  proof (rule for_loop_total [where I = ?I], goal_cases)
    case (3 i s)
    obtain t l b where s: "s = (t, l, b)" by (cases s) auto
    have t: "t = (\<Sum>k<i. int (edges n (brd ! k) (Suc n)))" "l = 1" using 3(3) s by auto
    have "t \<le> int (i * Suc n)" unfolding t by (rule sum_le_rect) (rule edges_le)
    moreover have "int (i * Suc n) + int (Suc n) \<le> int (h * (n + 1))"
      using 3(2) mult_le_mono1 [of "Suc i" h "Suc n"] by (simp add: algebra_simps flip: of_nat_add of_nat_mult)
    ultimately have b: "t + int (Suc n) \<le> INT_MAX" "0 \<le> t" using assms(4) t by (auto simp: sum_nonneg)
    have e: "edges n (brd ! i) (Suc n) = edges n (brd ! i) n + of_bool (\<not> bit (brd ! i) (n - 1))"
      using assms(1) by (simp add: edges_Suc walled_def)
    show ?case
    proof (cases "brd ! i = 0")
      case True
      with b s t 3(2) assms(1,3) show ?thesis
        by (auto simp: rw_pass_def load_in edges_empty_row c_int_in INT_MIN_def)
    next
      case False
      have "edges n (brd ! i) n \<le> n" by (rule edges_le)
      with False b s t 3(2) assms e rw_cells [of n t "brd ! i" b] show ?thesis
        by (auto simp: rw_pass_def load_in c_int_in INT_MIN_def)
    qed
  qed auto
  then show ?thesis by (auto simp: get_rw_t_def)
qed


section \<open>Wells\<close>

text \<open>
  The tests for a well inside the board and at the left wall ask for a filled cell to the right of a
  column from which on the row is empty, so they never succeed.
\<close>

lemma not_shr_in [simp]: "j < 32 \<Longrightarrow> not_shr r (int j) = Inr (of_bool (drop_bit j r = 0))"
  by (simp add: not_shr_def)

lemma no_bit_beyond: "drop_bit i r = 0 \<Longrightarrow> i \<le> j \<Longrightarrow> \<not> bit r j" for r :: int
proof -
  have "i \<le> j \<Longrightarrow> bit r j = bit (drop_bit i r) (j - i)" by (simp add: bit_drop_bit_eq)
  then show "drop_bit i r = 0 \<Longrightarrow> i \<le> j \<Longrightarrow> \<not> bit r j" by simp
qed

lemma wl_mid_none:
  assumes "0 < i" "i < 31" "j < length brd"
  shows "wl_mid brd (int i) j wl_s = Inr wl_s"
  using assms(3)
proof (induction j arbitrary: wl_s)
  case 0
  show ?case by (simp add: wl_mid.simps)
next
  case (Suc j)
  have "cell r (int i - 1) = Inr (of_bool (bit r (i - 1)))" "cell r (int i + 1) = Inr (of_bool (bit r (Suc i)))" for r
    using assms cell_bit [of "i - 1" r] cell_bit [of "Suc i" r] by (simp_all add: of_nat_diff add.commute)
  then show ?case using Suc assms no_bit_beyond [of i "brd ! Suc j" "Suc i"]
    by (cases "drop_bit i (brd ! Suc j) = 0") (simp_all add: wl_mid.simps [of brd _ "Suc j"] load_in)
qed

lemma wl_left_none: "j < length brd \<Longrightarrow> wl_left brd j wl_s = Inr wl_s"
  using not_shr_in [of 0 "brd ! j"] cell_bit [of 1 "brd ! j"]
  by (cases "brd ! j = 0") (simp_all add: wl_left_def load_in)

text \<open>The number of empty cells of column \<open>c\<close> below row \<open>j\<close>, down to the first filled one or to row 1.\<close>

definition depth :: "int list \<Rightarrow> nat \<Rightarrow> nat \<Rightarrow> nat" where
  "depth brd c j = length (takeWhile (\<lambda>k. \<not> bit (brd ! k) c) (rev [1..<j]))"

lemma depth_le: "depth brd c j \<le> j - 1"
  using length_takeWhile_le [of "\<lambda>k. \<not> bit (brd ! k) c" "rev [1..<j]"] by (simp add: depth_def)

lemma wl_down_depth:
  assumes "c < 32" "k < length brd" "0 \<le> t" "t + int k \<le> INT_MAX"
  shows "wl_down brd (int c) k t = Inr (t + int (depth brd c (Suc k)))"
  using assms(2-4)
proof (induction k arbitrary: t)
  case (Suc k)
  then show ?case using assms(1) by (auto simp: load_in c_int_in INT_MIN_def depth_def)
qed (simp add: depth_def)

text \<open>What row \<open>j\<close> adds: a well at the right wall.\<close>

definition right_well :: "int list \<Rightarrow> nat \<Rightarrow> nat \<Rightarrow> nat" where
  "right_well brd n j =
     (if \<not> bit (brd ! j) (n - 1) \<and> bit (brd ! j) (n - 2) then 1 + depth brd (n - 1) j else 0)"

lemma right_well_le: "0 < j \<Longrightarrow> right_well brd n j \<le> j"
  using depth_le [of brd "n - 1" j] by (auto simp: right_well_def)

lemma wl_right_adds:
  assumes "2 \<le> n" "n \<le> 32" "0 < j" "j < length brd" "0 \<le> t" "t + int j \<le> INT_MAX"
  shows "wl_right brd (int n) j t = Inr (t + int (right_well brd n j))"
proof -
  have n: "int n - 1 = int (n - 1)" "int n - 2 = int (n - 2)" using assms(1) by auto
  have "wl_down brd (int (n - 1)) (j - 1) (t + 1) = Inr (t + 1 + int (depth brd (n - 1) j))"
    using wl_down_depth [of "n - 1" "j - 1" brd "t + 1"] assms by simp
  then show ?thesis using assms unfolding wl_right_def n right_well_def
    by (auto simp: load_in c_int_in INT_MIN_def simp del: of_nat_diff)
qed

text \<open>
  C39: \<^verbatim>\<open>gt_wl\<close> counts the wells at the right wall only: for every board of 2 to 32 columns its result is the
  sum over the rows above the lowest of the depth of the well that starts there beside the
  right wall.  The loops over the inner columns and the left wall never count a cell,
  because \<^verbatim>\<open>!(brd[j] >> i) & 1\<close> negates the whole shifted row.
\<close>

theorem gt_wl_right_wall_only:
  assumes "2 \<le> n" "n \<le> 32" "0 < h" "h \<le> length brd" "int (h * h) \<le> INT_MAX"
  shows "gt_wl brd (int n) (int h) = Inr (\<Sum>j \<in> {1..<h}. int (right_well brd n j))"
proof -
  have "for_loop 1 (n - 1) (\<lambda>i. wl_mid brd (int i) (h - 1)) 0 = Inr 0"
    using for_loop_total [of 1 "n - 1" "\<lambda>_ t. t = 0" 0 "\<lambda>i. wl_mid brd (int i) (h - 1)"] assms
    by (force simp: wl_mid_none)
  moreover have "for_down 1 h (wl_left brd) 0 = Inr 0"
    using for_down_total [of 1 h "\<lambda>_ t. t = 0" 0 "wl_left brd"] assms by (force simp: wl_left_none)
  moreover have "\<exists>t. for_down 1 h (wl_right brd (int n)) 0 = Inr t \<and> t = (\<Sum>j \<in> {1..<h}. int (right_well brd n j))"
  proof (rule for_down_total [where I = "\<lambda>i t. t = (\<Sum>j \<in> {i..<h}. int (right_well brd n j))"], goal_cases)
    case (3 i t)
    have "(\<Sum>j \<in> {Suc i..<h}. int (right_well brd n j)) \<le> (\<Sum>j \<in> {Suc i..<h}. int h)"
    proof (rule sum_mono)
      fix j
      assume "j \<in> {Suc i..<h}"
      then show "int (right_well brd n j) \<le> int h" using right_well_le [of j brd n] by simp
    qed
    then have "t + int i \<le> int (h - Suc i) * int h + int h" using 3(2,3) by simp
    also have "\<dots> \<le> int h * int h"
      using 3(2) mult_le_mono1 [of "Suc (h - Suc i)" h h] by (simp add: algebra_simps flip: of_nat_mult of_nat_add)
    finally have "t + int i \<le> INT_MAX" "0 \<le> t" using assms(5) 3(3) by (auto simp: sum_nonneg)
    with 3 assms show ?case by (auto simp: wl_right_adds sum.atLeast_Suc_lessThan)
  qed (use assms in auto)
  moreover have "nat (int n - 1) = n - 1" "nat (int h - 1) = h - 1" using assms by auto
  ultimately show ?thesis by (auto simp: gt_wl_def)
qed

theorem gt_wl_right_wall_only_witness:
  "gt_wl [0b000, 0b000, 0b011, 0b101] 3 4 = Inr (\<Sum>j \<in> {1..<4}. int (right_well [0b000, 0b000, 0b011, 0b101] 3 j)) \<and>
   gt_wl [0b000, 0b000, 0b011, 0b101] 3 4 = Inr 2"
proof
  show "gt_wl [0b000, 0b000, 0b011, 0b101] 3 4 = Inr (\<Sum>j \<in> {1..<4}. int (right_well [0b000, 0b000, 0b011, 0b101] 3 j))"
    using gt_wl_right_wall_only [of 3 4 "[0b000, 0b000, 0b011, 0b101]"] by (simp add: INT_MAX_def)
  show "gt_wl [0b000, 0b000, 0b011, 0b101] 3 4 = Inr 2" by code_simp
qed

lemma evl_faults: "evl rnd brd pce_x pos_y col full rw_n = Inl Indeterminate"
  by (simp add: evl_def get_ld_h_def)

lemma get_col_t1_faults: "0 < col \<Longrightarrow> get_col_t1 brd col rw_n full = Inl Indeterminate"
  by (simp add: get_col_t1_def for_loop_step)

lemma get_rw_rm_full_rows:
  assumes "h \<le> length brd" "int h \<le> INT_MAX"
  shows "get_rw_rm brd full (int h) = Inr (int (length (filter (\<lambda>r. r = full) (takeWhile (\<lambda>r. r = full \<or> r \<noteq> 0) (take h brd)))))"
proof -
  have "i + k \<le> length brd \<Longrightarrow> 0 \<le> c \<Longrightarrow> c + int k \<le> INT_MAX \<Longrightarrow> rm_from brd full rw_n k i c =
      Inr (c + int (length (filter (\<lambda>r. r = full) (takeWhile (\<lambda>r. r = full \<or> r \<noteq> 0) (take k (drop i brd))))))" for k i c rw_n
  proof (induction k arbitrary: i c)
    case (Suc k)
    then have "drop i brd = brd ! i # drop (Suc i) brd" by (simp add: Cons_nth_drop_Suc)
    with Suc show ?case by (auto simp: load_in c_int_in INT_MIN_def insert_i_def pop_i_def)
  qed simp
  from this [of 0 h 0] assms show ?thesis by (simp add: get_rw_rm_def)
qed


section \<open>Rows and matrices\<close>

lemma get_matrix_row:
  assumes "n \<le> 32" "i < length b" "i < length c" "n \<le> length (c ! i)"
  shows "for_loop 0 n (\<lambda>j c. c_bind (load b i) (\<lambda>x. c_bind (cell x (int j)) (\<lambda>v.
      c_bind (load c i) (\<lambda>row. c_bind (store row j v) (store c i))))) c =
    Inr (c[i := map (\<lambda>j. of_bool (bit (b ! i) j)) [0..<n] @ drop n (c ! i)])"
proof -
  let ?r = "\<lambda>j. c[i := map (\<lambda>j. of_bool (bit (b ! i) j)) [0..<j] @ drop j (c ! i)]"
  have "\<exists>s. for_loop 0 n (\<lambda>j c. c_bind (load b i) (\<lambda>x. c_bind (cell x (int j)) (\<lambda>v.
      c_bind (load c i) (\<lambda>row. c_bind (store row j v) (store c i))))) c = Inr s \<and> s = ?r n"
  proof (rule for_loop_total [where I = "\<lambda>j s. s = ?r j"], goal_cases)
    case (3 j s)
    then have "(map (\<lambda>j. of_bool (bit (b ! i) j)) [0..<j] @ drop j (c ! i))[j := of_bool (bit (b ! i) j)] =
        map (\<lambda>j. of_bool (bit (b ! i) j)) [0..<Suc j] @ drop (Suc j) (c ! i)"
      using assms(4) by (simp add: list_update_append Cons_nth_drop_Suc [symmetric])
    with 3 assms show ?case by (simp add: load_in store_in)
  qed (use assms in \<open>auto\<close>)
  then show ?thesis by simp
qed

lemma get_matrix_bits:
  assumes "n \<le> 32" "h \<le> length b" "length c = h" "\<forall>r \<in> set c. length r = n"
  shows "get_matrix b h n c = Inr (map (\<lambda>i. map (\<lambda>j. of_bool (bit (b ! i) j)) [0..<n]) [0..<h])"
proof -
  let ?m = "\<lambda>i. map (\<lambda>j. of_bool (bit (b ! i) j)) [0..<n] :: int list"
  have "\<exists>s. get_matrix b h n c = Inr s \<and> s = map ?m [0..<h] @ drop h c" unfolding get_matrix_def
  proof (rule for_loop_total [where I = "\<lambda>i s. s = map ?m [0..<i] @ drop i c"], goal_cases)
    case (3 i s)
    then have s: "s ! i = c ! i" "length s = h" "i < length s" using assms(3) by (auto simp: nth_append)
    then have "length (s ! i) = n" using assms(3,4) by simp
    moreover have "s[i := ?m i] = map ?m [0..<Suc i] @ drop (Suc i) c"
      using 3 assms(3) by (simp add: list_update_append Cons_nth_drop_Suc [symmetric])
    ultimately show ?case using get_matrix_row [of n i b s] 3 s assms by simp
  qed auto
  then show ?thesis using assms(3) by simp
qed

text \<open>The number whose bits a row of zeros and ones gives.\<close>

definition row_value :: "int list \<Rightarrow> nat \<Rightarrow> int" where
  "row_value r n = (\<Sum>j<n. r ! j * 2 ^ j)"

lemma row_value_bounds:
  assumes "\<forall>x \<in> set r. x = 0 \<or> x = 1" "n \<le> length r"
  shows "0 \<le> row_value r n \<and> row_value r n < 2 ^ n"
  using assms(2)
proof (induction n)
  case (Suc n)
  then have "r ! n = 0 \<or> r ! n = 1" using assms(1) by simp
  with Suc show ?case by (auto simp: row_value_def)
qed (simp add: row_value_def)

lemma get_bin_row:
  assumes "n \<le> 31" "\<forall>x \<in> set r. x = 0 \<or> x = 1" "length r = n" "i < length m" "m ! i = r"
  shows "for_loop 0 n (\<lambda>j tmp. c_bind (load m i) (\<lambda>row. c_bind (load row j) (\<lambda>x. add_power x j tmp))) 0 = Inr (row_value r n)"
proof -
  have "\<exists>s. for_loop 0 n (\<lambda>j tmp. c_bind (load m i) (\<lambda>row. c_bind (load row j) (\<lambda>x. add_power x j tmp))) 0 = Inr s \<and> s = row_value r n"
  proof (rule for_loop_total [where I = "\<lambda>j s. s = row_value r j"], goal_cases)
    case (3 j s)
    have "row_value r (Suc j) \<le> 2 ^ Suc j - 1" "0 \<le> row_value r (Suc j)" using row_value_bounds [of r "Suc j"] assms(2,3) 3(2) by auto
    moreover have "(2 :: int) ^ Suc j \<le> 2 ^ 31" using 3(2) assms(1) by (intro power_increasing) auto
    ultimately have "c_int (row_value r (Suc j)) = Inr (row_value r (Suc j))" by (simp add: c_int_in INT_MAX_def INT_MIN_def)
    with 3 assms show ?case by (simp add: load_in add_power_def row_value_def)
  qed (simp_all add: row_value_def)
  then show ?thesis by simp
qed

lemma get_bin_values:
  assumes "n \<le> 31" "length m = h" "\<forall>r \<in> set m. length r = n \<and> (\<forall>x \<in> set r. x = 0 \<or> x = 1)" "length b = h"
  shows "get_bin m h n b = Inr (map (\<lambda>r. row_value r n) m)"
proof -
  have "\<exists>s. get_bin m h n b = Inr s \<and> s = map (\<lambda>r. row_value r n) (take h m) @ drop h b" unfolding get_bin_def
  proof (rule for_loop_total [where I = "\<lambda>i s. s = map (\<lambda>r. row_value r n) (take i m) @ drop i b"], goal_cases)
    case (3 i s)
    then have "s[i := row_value (m ! i) n] = map (\<lambda>r. row_value r n) (take (Suc i) m) @ drop (Suc i) b"
      using assms(2,4) by (simp add: list_update_append Cons_nth_drop_Suc [symmetric] take_Suc_conv_app_nth)
    moreover have "length (m ! i) = n" "\<forall>x \<in> set (m ! i). x = 0 \<or> x = 1" using 3(2) assms(2,3) nth_mem by blast+
    then have "for_loop 0 n (\<lambda>j tmp. c_bind (load m i) (\<lambda>row. c_bind (load row j) (\<lambda>x. add_power x j tmp))) 0 = Inr (row_value (m ! i) n)"
      using 3(2) assms(1,2) by (intro get_bin_row) auto
    ultimately show ?case using 3 assms(2,4) by (simp add: store_in)
  qed auto
  then show ?thesis using assms by simp
qed

lemma bits_row_value:
  assumes "0 \<le> x" "x < 2 ^ n"
  shows "row_value (map (\<lambda>j. of_bool (bit x j)) [0..<n]) n = x"
proof -
  have "row_value (map (\<lambda>j. of_bool (bit x j)) [0..<n]) n = (\<Sum>j<n. of_bool (bit x j) * 2 ^ j)"
    unfolding row_value_def by (intro sum.cong) auto
  also have "\<dots> = take_bit n x" by (simp add: take_bit_sum horner_sum_eq_sum atLeast0LessThan push_bit_eq_mult)
  also have "\<dots> = x" using assms by (simp add: take_bit_int_eq_self)
  finally show ?thesis .
qed


lemma row_value_bits:
  assumes "\<forall>x \<in> set r. x = 0 \<or> x = 1" "length r = n"
  shows "map (\<lambda>j. of_bool (bit (row_value r n) j)) [0..<n] = r"
proof -
  have r01: "j < n \<Longrightarrow> r ! j = of_bool (r ! j = 1)" for j using assms by (metis nth_mem of_bool_eq)
  have "row_value r n = (\<Sum>j<n. of_bool (r ! j = 1) * 2 ^ j)"
    unfolding row_value_def by (intro sum.cong arg_cong2 [where f = "(*)"]) (use r01 in auto)
  also have "\<dots> = horner_sum of_bool 2 (map (\<lambda>x. x = 1) r)"
    using assms(2) by (simp add: horner_sum_eq_sum atLeast0LessThan)
  finally have "j < n \<Longrightarrow> bit (row_value r n) j \<longleftrightarrow> r ! j = 1" for j
    using assms(2) by (simp add: bit_horner_sum_bit_iff)
  then show ?thesis using assms(2) r01 by (intro nth_equalityI) auto
qed

text \<open>
  C38: \<^verbatim>\<open>get_matrix\<close> and \<^verbatim>\<open>get_bin\<close> are inverse to each other: the rows of a board of up to 31 columns
  survive the way to a matrix of zeros and ones and back, and so does every such matrix
  the way to rows, whatever the target arrays held before.
\<close>

theorem matrix_round_trip:
  assumes "n \<le> 31" "length b = h" "\<forall>x \<in> set b. 0 \<le> x \<and> x < 2 ^ n"
    and "length m = h" "\<forall>r \<in> set m. length r = n \<and> (\<forall>x \<in> set r. x = 0 \<or> x = 1)"
    and "length b' = h" "length c = h" "\<forall>r \<in> set c. length r = n"
  shows "c_bind (get_matrix b h n c) (\<lambda>m. get_bin m h n b') = Inr b \<and>
    c_bind (get_bin m h n b') (\<lambda>b. get_matrix b h n c) = Inr m"
proof
  let ?m = "map (\<lambda>i. map (\<lambda>j. of_bool (bit (b ! i) j)) [0..<n]) [0..<h] :: int list list"
  have "get_matrix b h n c = Inr ?m" using assms by (intro get_matrix_bits) auto
  moreover have "get_bin ?m h n b' = Inr (map (\<lambda>r. row_value r n) ?m)" using assms by (intro get_bin_values) auto
  moreover have "map (\<lambda>r. row_value r n) ?m = b"
    using assms(2,3) by (intro nth_equalityI) (auto simp: bits_row_value)
  ultimately show "c_bind (get_matrix b h n c) (\<lambda>m. get_bin m h n b') = Inr b" by simp
  have "get_bin m h n b' = Inr (map (\<lambda>r. row_value r n) m)" using assms by (intro get_bin_values) auto
  moreover have "get_matrix (map (\<lambda>r. row_value r n) m) h n c =
      Inr (map (\<lambda>i. map (\<lambda>j. of_bool (bit (map (\<lambda>r. row_value r n) m ! i) j)) [0..<n]) [0..<h])"
    using assms by (intro get_matrix_bits) auto
  moreover have "map (\<lambda>i. map (\<lambda>j. of_bool (bit (map (\<lambda>r. row_value r n) m ! i) j)) [0..<n]) [0..<h] = m"
  proof (rule nth_equalityI)
    fix i
    assume "i < length (map (\<lambda>i. map (\<lambda>j. of_bool (bit (map (\<lambda>r. row_value r n) m ! i) j)) [0..<n]) [0..<h])"
    then have "i < h" by simp
    then have "length (m ! i) = n" "\<forall>x \<in> set (m ! i). x = 0 \<or> x = 1" using assms(4,5) nth_mem by blast+
    with \<open>i < h\<close> assms(4) show "map (\<lambda>i. map (\<lambda>j. of_bool (bit (map (\<lambda>r. row_value r n) m ! i) j)) [0..<n]) [0..<h] ! i = m ! i"
      by (simp add: row_value_bits del: map_eq_conv)
  qed (use assms(4) in simp)
  ultimately show "c_bind (get_bin m h n b') (\<lambda>b. get_matrix b h n c) = Inr m" by simp
qed

theorem matrix_round_trip_witness:
  "c_bind (get_matrix [5, 3] 2 3 [[9, 9, 9], [9, 9, 9]]) (\<lambda>m. get_bin m 2 3 [7, 7]) = Inr [5, 3] \<and>
   c_bind (get_bin [[1, 0, 1], [0, 1, 1]] 2 3 [7, 7]) (\<lambda>b. get_matrix b 2 3 [[9, 9, 9], [9, 9, 9]]) = Inr [[1, 0, 1], [0, 1, 1]]"
  by (rule matrix_round_trip) auto

text \<open>A shift moves every cell by the same number of columns while it fits the \<^verbatim>\<open>int\<close>.\<close>

lemma shift_moves:
  assumes "x < 32" "\<forall>r \<in> set b. 0 \<le> r \<and> r * 2 ^ x \<le> INT_MAX"
  shows "shift b (length b) (int x) = Inr (map (push_bit x) b)"
proof -
  have "\<exists>s. shift b (length b) (int x) = Inr s \<and> s = map (push_bit x) (take (length b) b) @ drop (length b) b" unfolding shift_def
  proof (rule for_loop_total [where I = "\<lambda>i s. s = map (push_bit x) (take i b) @ drop i b"], goal_cases)
    case (3 i s)
    then have "s ! i = b ! i" by (simp add: nth_append)
    moreover have "s[i := push_bit x (b ! i)] = map (push_bit x) (take (Suc i) b) @ drop (Suc i) b"
      using 3 by (simp add: list_update_append Cons_nth_drop_Suc [symmetric] take_Suc_conv_app_nth)
    moreover have "0 \<le> b ! i \<and> b ! i * 2 ^ x \<le> INT_MAX" using 3(2) assms(2) by simp
    then have v: "0 \<le> b ! i" "0 \<le> b ! i * 2 ^ x" "b ! i * 2 ^ x \<le> INT_MAX" by auto
    then have "c_int (b ! i * 2 ^ x) = Inr (b ! i * 2 ^ x)" by (intro c_int_in) (auto intro: order_trans [of _ 0] simp: INT_MIN_def simp del: zero_le_mult_iff)
    with v(1) have "shl (b ! i) (int x) = Inr (push_bit x (b ! i))"
      using assms(1) by (simp add: shl_def push_bit_eq_mult)
    ultimately show ?case using 3 by (auto simp: load_in store_in)
  qed auto
  then show ?thesis by simp
qed

text \<open>Every rotation of the three pieces that are set has four cells, and fits the four columns of a piece.\<close>

lemma pieces_have_four_cells:
  "list_all (\<lambda>p. case p of None \<Rightarrow> True | Some q \<Rightarrow> int (length (piece q)) = r_lmt q \<and>
      list_all (\<lambda>r. length r = 4 \<and> sum_list (map (\<lambda>x. sum_list (map (\<lambda>j. of_bool (bit x j)) [0..<4])) r) = (4 :: int) \<and> list_all (\<lambda>x. x < 2 ^ 4) r) (piece q))
    (pcs get_config)"
  by code_simp

end
