(* ===== verification/GetRoot.thy ===== *)
theory GetRoot
  imports C_IO Complex_Main
begin

text \<open>
  \<^verbatim>\<open>src/cpp/algorithm/get_root.c\<close>: roots by bisection.  Values of \<^verbatim>\<open>double\<close> are reals, and \<open>rnd\<close> is the
  rounding of an operation to a double; \<open>to_double\<close> is the rounding of the machine, to the nearest
  double with ties to even, and the properties are about it.  The loop has fuel, and \<open>None\<close> says
  that it is still running.
\<close>

section \<open>The program\<close>

definition ACCURACY :: real where
  "ACCURACY = 0.000001"

text \<open>\<^verbatim>\<open>tmp\<close> after the inner loop.\<close>

primrec power_loop :: "(real \<Rightarrow> real) \<Rightarrow> real \<Rightarrow> nat \<Rightarrow> real \<Rightarrow> real" where
  "power_loop rnd mid 0 tmp = tmp"
| "power_loop rnd mid (Suc i) tmp = power_loop rnd mid i (rnd (tmp * mid))"

primrec root_loop :: "(real \<Rightarrow> real) \<Rightarrow> real \<Rightarrow> nat \<Rightarrow> nat \<Rightarrow> real \<Rightarrow> real \<Rightarrow> real option" where
  "root_loop rnd n pow 0 low high = None"
| "root_loop rnd n pow (Suc fuel) low high =
     (if low \<le> high then
        let mid = rnd (rnd (low + high) / 2);
            tmp = power_loop rnd mid pow 1
        in if rnd (tmp - n) \<le> rnd ACCURACY \<and> rnd (tmp - n) \<ge> rnd (rnd ACCURACY * - 1) then Some mid
           else if tmp > n then root_loop rnd n pow fuel low mid
           else root_loop rnd n pow fuel mid high
      else Some (- 1))"

definition get_root :: "(real \<Rightarrow> real) \<Rightarrow> nat \<Rightarrow> real \<Rightarrow> int \<Rightarrow> real option" where
  "get_root rnd fuel n pow =
     (if n > 1 then root_loop rnd n (nat pow) fuel 1 n else root_loop rnd n (nat pow) fuel n 1)"

text \<open>
  One pass of \<^verbatim>\<open>main\<close>.  \<open>scanned\<close> and \<open>shown\<close> are what \<^verbatim>\<open>%lf\<close> reads and prints; \<^verbatim>\<open>n\<close> keeps its value, or stays
  unset, when \<^verbatim>\<open>scanf\<close> converts nothing.
\<close>

definition root_pass ::
  "(real \<Rightarrow> real) \<Rightarrow> (string \<Rightarrow> real) \<Rightarrow> (real \<Rightarrow> string) \<Rightarrow> nat \<Rightarrow> real option \<Rightarrow> (real option + unit) prog" where
  "root_pass rnd scanned shown fuel n =
     bind (invoke ''scanf'' [S ''%lf'']) (\<lambda>r.
     if ret r = - 1 then return (Inr ())
     else
       let n = (if ret r = 1 then Some (scanned (data r)) else n) in
       case n of
         None \<Rightarrow> fault Indeterminate
       | Some x \<Rightarrow>
           (case get_root rnd fuel x 12 of
              None \<Rightarrow> (\<lambda>env tr. (tr, Running))
            | Some res \<Rightarrow> bind (print (shown res @ nl)) (\<lambda>_. return (Inl n))))"

definition root_main :: "(real \<Rightarrow> real) \<Rightarrow> (string \<Rightarrow> real) \<Rightarrow> (real \<Rightarrow> string) \<Rightarrow> nat \<Rightarrow> int prog" where
  "root_main rnd scanned shown fuel =
     bind (loop fuel (root_pass rnd scanned shown fuel) None) (\<lambda>_. return 0)"

section \<open>Doubles\<close>

text \<open>
  The rounding of a real number to a \<^verbatim>\<open>double\<close>, to the nearest with ties to even: 53 significant bits
  and no bit below \<open>2 ^ -1074\<close>.  The largest double is left out of the definition; no value the
  properties speak of comes near it.
\<close>

definition round_even :: "real \<Rightarrow> int" where
  "round_even y =
     (let f = \<lfloor>y\<rfloor>; r = y - real_of_int f in
      if r < 1 / 2 then f else if r > 1 / 2 then f + 1 else if even f then f else f + 1)"

definition ulp_exponent :: "real \<Rightarrow> int" where
  "ulp_exponent x = max \<lfloor>log 2 \<bar>x\<bar>\<rfloor> (- 1022) - 52"

definition to_double :: "real \<Rightarrow> real" where
  "to_double x = (let q = 2 powr real_of_int (ulp_exponent x) in real_of_int (round_even (x / q)) * q)"

lemma round_even_error: "\<bar>real_of_int (round_even y) - y\<bar> \<le> 1 / 2"
proof -
  define f where "f = \<lfloor>y\<rfloor>"
  then have "real_of_int f \<le> y" "y < real_of_int f + 1" using floor_correct [of y] by simp_all
  then show ?thesis unfolding round_even_def Let_def f_def [symmetric] by (simp add: abs_if)
qed

lemma to_double_sign: "0 \<le> x \<Longrightarrow> 0 \<le> to_double x"
  by (auto simp: to_double_def round_even_def Let_def intro!: mult_nonneg_nonneg)

lemma to_double_0 [simp]: "to_double 0 = 0"
  by (simp add: to_double_def round_even_def Let_def)

lemma half_powr: "1 / 2 * (2 powr x :: real) = 2 powr (x - 1)"
  by (simp add: powr_diff)

lemma to_double_error: "\<bar>to_double x - x\<bar> \<le> 1 / 2 ^ 53 * \<bar>x\<bar> + 2 powr - 1075"
proof (cases "x = 0")
  case False
  let ?q = "2 powr real_of_int (ulp_exponent x) :: real"
  have "to_double x - x = (real_of_int (round_even (x / ?q)) - x / ?q) * ?q"
    by (simp add: to_double_def Let_def left_diff_distrib)
  then have "\<bar>to_double x - x\<bar> = \<bar>real_of_int (round_even (x / ?q)) - x / ?q\<bar> * ?q" by (simp add: abs_mult)
  also have "\<dots> \<le> 1 / 2 * ?q" by (intro mult_right_mono round_even_error) simp
  also have "\<dots> = 2 powr (real_of_int (ulp_exponent x) - 1)" by (rule half_powr)
  also have "\<dots> \<le> 1 / 2 ^ 53 * \<bar>x\<bar> + 2 powr - 1075"
  proof (cases "- 1022 \<le> \<lfloor>log 2 \<bar>x\<bar>\<rfloor>")
    case True
    then have "(2::real) powr (real_of_int (ulp_exponent x) - 1) \<le> 2 powr (log 2 \<bar>x\<bar> - 53)"
      by (simp add: ulp_exponent_def max_def)
    also have "\<dots> = 1 / 2 ^ 53 * \<bar>x\<bar>" using False by (simp add: powr_diff powr_realpow)
    finally show ?thesis by (simp add: add_increasing2)
  qed (simp add: ulp_exponent_def max_def)
  finally show ?thesis .
qed simp

section \<open>Bisection in double arithmetic\<close>

text \<open>The powers of two numbers up to \<open>M\<close> differ by a multiple of their distance.\<close>

lemma power_diff_le:
  fixes a b M :: real
  assumes "0 \<le> a" "a \<le> b" "b \<le> M" "1 \<le> M"
  shows "b ^ k - a ^ k \<le> real k * M ^ k * (b - a)"
proof (induction k)
  case (Suc k)
  have "b ^ Suc k - a ^ Suc k = b * (b ^ k - a ^ k) + a ^ k * (b - a)" by (simp add: algebra_simps)
  also have "b * (b ^ k - a ^ k) \<le> M * (real k * M ^ k * (b - a))"
    using assms Suc power_mono [OF assms(2,1), of k] by (intro mult_mono) auto
  also have "a ^ k * (b - a) \<le> M ^ Suc k * (b - a)"
  proof (rule mult_right_mono)
    have "a ^ k \<le> M ^ k" using assms by (intro power_mono) auto
    also have "\<dots> \<le> M ^ Suc k" using assms by (intro power_increasing) auto
    finally show "a ^ k \<le> M ^ Suc k" .
  qed (use assms in auto)
  finally show ?case by (simp add: algebra_simps)
qed simp

lemma accuracy_value: "ACCURACY = 1 / 1000000"
  by (simp add: ACCURACY_def)

text \<open>The test of the loop on a computed power \<open>t\<close>.\<close>

definition root_accepted :: "(real \<Rightarrow> real) \<Rightarrow> real \<Rightarrow> real \<Rightarrow> bool" where
  "root_accepted rnd n t \<longleftrightarrow> rnd (t - n) \<le> rnd ACCURACY \<and> rnd (t - n) \<ge> rnd (rnd ACCURACY * - 1)"

text \<open>
  What the bisection needs of the rounding: a relative error of at most \<open>2 ^ -53\<close>, a tiny absolute
  one near zero, and the sign.
\<close>

locale near_double =
  fixes rnd :: "real \<Rightarrow> real"
  assumes error: "\<bar>rnd x - x\<bar> \<le> 1 / 2 ^ 53 * \<bar>x\<bar> + 1 / 2 ^ 100"
    and sign: "0 \<le> x \<Longrightarrow> 0 \<le> rnd x"
begin

lemma rnd_near:
  assumes "0 \<le> x"
  shows "rnd x - x \<le> x / 9007199254740992 + 1 / 1000000000000000000000000000000"
    and "x - rnd x \<le> x / 9007199254740992 + 1 / 1000000000000000000000000000000"
  using error [of x] assms by (simp_all add: abs_le_iff)

lemma mid_error:
  assumes "0 \<le> low" "low \<le> high" "1 \<le> H" "high \<le> H"
  shows "\<bar>rnd (rnd (low + high) / 2) - (low + high) / 2\<bar> \<le> 3 / 9007199254740992 * H"
proof -
  define s where "s = low + high"
  define a where "a = rnd s"
  define b where "b = rnd (a / 2)"
  have pos: "0 \<le> s" "0 \<le> a / 2" "s \<le> 2 * H" using assms by (simp_all add: s_def a_def sign)
  note a = rnd_near [OF pos(1), folded a_def] and b = rnd_near [OF pos(2), folded b_def]
  have "b - s / 2 \<le> 3 / 9007199254740992 * H" using a(1) b(1) pos assms(3) by linarith
  moreover have "s / 2 - b \<le> 3 / 9007199254740992 * H" using a b(2) pos assms(3) by linarith
  ultimately have "\<bar>b - s / 2\<bar> \<le> 3 / 9007199254740992 * H" by linarith
  then show ?thesis by (simp only: b_def a_def s_def)
qed

lemma power_error:
  assumes "0 \<le> m"
  shows "\<bar>power_loop rnd m k t - t * m ^ k\<bar> \<le> ((1 + 2 / 2 ^ 53) ^ k - 1) * max 1 m ^ k * max 1 \<bar>t\<bar>"
proof (induction k arbitrary: t)
  case (Suc k)
  define c :: real where "c = 1 + 2 / 2 ^ 53"
  define M where "M = max 1 m"
  define T where "T = max 1 \<bar>t\<bar>"
  have M: "1 \<le> M" "m \<le> M" "m ^ k \<le> M ^ k" and T: "1 \<le> T" "\<bar>t\<bar> \<le> T" and c: "1 \<le> c" "1 \<le> c ^ k"
    using assms by (auto simp: M_def T_def c_def intro!: power_mono one_le_power)
  define r where "r = rnd (t * m)"
  have tm: "\<bar>t * m\<bar> \<le> T * M" using M T assms by (auto simp: abs_mult intro!: mult_mono)
  have TM: "1 \<le> T * M" using M T by (metis mult_mono mult_1 zero_le_one order_trans)
  have r: "\<bar>r - t * m\<bar> \<le> (c - 1) * (T * M)"
    using error [of "t * m"] tm TM unfolding r_def c_def by simp
  then have "\<bar>r\<bar> \<le> c * (T * M)" using tm by (simp add: algebra_simps)
  moreover have "1 \<le> c * (T * M)" using TM c(1) by (metis mult_mono mult_1 zero_le_one order_trans)
  ultimately have R: "max 1 \<bar>r\<bar> \<le> c * (T * M)" by simp
  have "\<bar>power_loop rnd m k r - r * m ^ k\<bar> \<le> (c ^ k - 1) * M ^ k * max 1 \<bar>r\<bar>"
    using Suc.IH [of r] by (simp add: c_def M_def)
  also have "\<dots> \<le> (c ^ k - 1) * M ^ k * (c * (T * M))"
    using R c M by (intro mult_left_mono mult_nonneg_nonneg) auto
  finally have 1: "\<bar>power_loop rnd m k r - r * m ^ k\<bar> \<le> (c ^ Suc k - c) * M ^ Suc k * T"
    by (simp add: algebra_simps)
  have "\<bar>r * m ^ k - t * m ^ Suc k\<bar> = \<bar>r - t * m\<bar> * m ^ k"
    using assms abs_mult [of "r - t * m" "m ^ k"] by (simp add: algebra_simps)
  also have "\<dots> \<le> (c - 1) * (T * M) * M ^ k" using r M assms by (intro mult_mono) auto
  finally have 2: "\<bar>r * m ^ k - t * m ^ Suc k\<bar> \<le> (c - 1) * M ^ Suc k * T" by (simp add: algebra_simps)
  have "\<bar>power_loop rnd m k r - t * m ^ Suc k\<bar> \<le> (c ^ Suc k - c) * M ^ Suc k * T + (c - 1) * M ^ Suc k * T"
    using 1 2 by linarith
  then show ?case by (simp add: algebra_simps r_def c_def M_def T_def)
qed simp

text \<open>The twelfth power of \<^verbatim>\<open>mid\<close>.\<close>

lemma power12_error:
  assumes "0 \<le> m"
  shows "\<bar>power_loop rnd m 12 1 - m ^ 12\<bar> \<le> 1 / 2 ^ 48 * max 1 (m ^ 12)"
proof -
  have "((1 + 2 / 2 ^ 53) ^ 12 - 1 :: real) \<le> 1 / 2 ^ 48" by (simp add: power_divide)
  then have "((1 + 2 / 2 ^ 53) ^ 12 - 1) * max 1 (m ^ 12) \<le> 1 / 2 ^ 48 * max 1 (m ^ 12)"
    by (rule mult_right_mono) simp
  moreover have "max 1 m ^ 12 = max 1 (m ^ 12)"
    using assms power_mono [of m 1 12] one_le_power [of m 12] by (auto simp: max_def)
  ultimately show ?thesis using power_error [OF assms, of 12 1] by (auto simp only: abs_one max.idem mult_1 mult_1_right)
qed

text \<open>The test of the loop, from both sides.\<close>

lemma rnd_coarse: "\<bar>rnd x - x\<bar> \<le> \<bar>x\<bar> / 1000 + 1 / 1000000000000"
  using error [of x] by simp

lemma accuracy_bounds:
  "9 / 10 * ACCURACY \<le> rnd ACCURACY" "rnd ACCURACY \<le> 101 / 100 * ACCURACY"
  "rnd (rnd ACCURACY * - 1) \<le> - (9 / 10 * ACCURACY)" "- (102 / 100 * ACCURACY) \<le> rnd (rnd ACCURACY * - 1)"
  using rnd_coarse [of ACCURACY] rnd_coarse [of "rnd ACCURACY * - 1"] accuracy_value by linarith+

lemma accepted_close:
  assumes "\<bar>t - n\<bar> \<le> ACCURACY / 2"
  shows "root_accepted rnd n t"
proof -
  define d where "d = t - n"
  have "\<bar>rnd d - d\<bar> \<le> \<bar>d\<bar> / 1000 + 1 / 1000000000000" by (rule rnd_coarse)
  then have "\<bar>rnd d\<bar> \<le> 6 / 10 * ACCURACY" using assms accuracy_value unfolding d_def [symmetric] by linarith
  then show ?thesis using accuracy_bounds(1,3) accuracy_value unfolding root_accepted_def d_def [symmetric] by linarith
qed

lemma accepted_bound:
  assumes "root_accepted rnd n t"
  shows "\<bar>t - n\<bar> \<le> 105 / 100 * ACCURACY"
proof -
  define d where "d = t - n"
  have "\<bar>rnd d\<bar> \<le> 102 / 100 * ACCURACY"
    using assms accuracy_bounds(2,4) accuracy_value unfolding root_accepted_def d_def [symmetric] by linarith
  moreover have "\<bar>rnd d - d\<bar> \<le> \<bar>d\<bar> / 1000 + 1 / 1000000000000" by (rule rnd_coarse)
  ultimately show ?thesis using accuracy_value unfolding d_def [symmetric] by linarith
qed

text \<open>Near a number up to a million the computed power is close to the power.\<close>

lemma power12_close:
  assumes "0 \<le> m" "t = power_loop rnd m 12 1" "t \<le> 1000001 \<or> m ^ 12 \<le> 1000001"
  shows "\<bar>t - m ^ 12\<bar> \<le> ACCURACY / 100"
proof -
  define P where "P = m ^ 12"
  have near: "\<bar>t - P\<bar> \<le> max 1 P / 281474976710656" using power12_error [OF assms(1)] assms(2) by (simp add: P_def)
  then have "max 1 P \<le> 1000002" using assms(3) unfolding P_def [symmetric] by linarith
  with near have "\<bar>t - P\<bar> \<le> 1 / 100000000" by linarith
  then show ?thesis using accuracy_value by (simp add: P_def)
qed

text \<open>
  A number \<open>m\<close> that is tested: when the test fails, the comparison of the computed power
  with \<open>n\<close> is right; when it succeeds, the power of \<open>m\<close> is close to \<open>n\<close>.
\<close>

lemma tested:
  assumes "0 \<le> m" "t = power_loop rnd m 12 1" "0 \<le> n" "n \<le> 10 ^ 6"
  shows "root_accepted rnd n t \<Longrightarrow> \<bar>m ^ 12 - n\<bar> \<le> 11 / 10 * ACCURACY"
    and "\<not> root_accepted rnd n t \<Longrightarrow> t > n \<Longrightarrow> n \<le> m ^ 12"
    and "\<not> root_accepted rnd n t \<Longrightarrow> \<not> t > n \<Longrightarrow> m ^ 12 \<le> n"
    and "\<bar>m ^ 12 - n\<bar> \<le> 49 / 100 * ACCURACY \<Longrightarrow> root_accepted rnd n t"
proof -
  have n: "n \<le> 1000000" using assms(4) by simp
  note close = power12_close [OF assms(1,2)]
  show "\<bar>m ^ 12 - n\<bar> \<le> 11 / 10 * ACCURACY" if "root_accepted rnd n t"
    using accepted_bound [OF that] close n accuracy_value by linarith
  show "n \<le> m ^ 12" if "\<not> root_accepted rnd n t" "t > n"
    using accepted_close [of t n] that close n accuracy_value by linarith
  show "m ^ 12 \<le> n" if "\<not> root_accepted rnd n t" "\<not> t > n"
    using accepted_close [of t n] that close n accuracy_value by linarith
  show "root_accepted rnd n t" if "\<bar>m ^ 12 - n\<bar> \<le> 49 / 100 * ACCURACY"
    using accepted_close [of t n] that close n accuracy_value by linarith
qed

text \<open>The middle of an interval around the root: a contraction while the interval is wide, and close to the root when it is not.\<close>

lemma middle:
  assumes "0 \<le> low" "low \<le> r" "r \<le> high" "R = max 1 r" "m = rnd (rnd (low + high) / 2)"
  shows "0 \<le> m"
    and "high - low > R / 140737488355328 \<Longrightarrow> low \<le> m \<and> m \<le> high \<and>
      m - low \<le> 5 / 8 * (high - low) \<and> high - m \<le> 5 / 8 * (high - low)"
    and "high - low \<le> R / 140737488355328 \<Longrightarrow> \<bar>m - r\<bar> \<le> R / 140737488355328"
proof -
  define H where "H = max 1 high"
  have H: "1 \<le> H" "high \<le> H" "H \<le> R + (high - low)" using assms(2-4) unfolding H_def by linarith+
  have e: "\<bar>m - (low + high) / 2\<bar> \<le> 3 / 9007199254740992 * H"
    using mid_error [of low high H] assms H by simp
  show "0 \<le> m" using assms by (auto intro!: sign divide_nonneg_nonneg)
  show "low \<le> m \<and> m \<le> high \<and> m - low \<le> 5 / 8 * (high - low) \<and> high - m \<le> 5 / 8 * (high - low)"
    if "high - low > R / 140737488355328"
  proof -
    define w where "w = high - low"
    have "3 / 9007199254740992 * H \<le> w / 8" using that H(3) assms(4) unfolding w_def [symmetric] by linarith
    with e have "\<bar>m - (low + high) / 2\<bar> \<le> w / 8" by linarith
    moreover define d where "d = m - (low + high) / 2"
    ultimately have "d \<le> w / 8" "- d \<le> w / 8" by (simp_all only: abs_le_iff)
    moreover have "m = low + w / 2 + d" "high = low + w" "0 \<le> w"
      using assms(2,3) by (simp_all add: w_def d_def field_simps)
    ultimately show ?thesis by simp
  qed
  show "\<bar>m - r\<bar> \<le> R / 140737488355328" if w: "high - low \<le> R / 140737488355328"
  proof -
    define c where "c = (low + high) / 2"
    define w where "w = high - low"
    have "1 \<le> R" using assms(4) by simp
    then have "3 / 9007199254740992 * H \<le> 6 / 9007199254740992 * R" using w H(3) by linarith
    with e have d: "m - c \<le> 6 / 9007199254740992 * R" "c - m \<le> 6 / 9007199254740992 * R"
      unfolding abs_le_iff c_def by linarith+
    have "c - r \<le> w / 2" "r - c \<le> w / 2" using assms(2,3) by (simp_all add: c_def w_def field_simps)
    with d w [folded w_def] \<open>1 \<le> R\<close> have "m - r \<le> R / 140737488355328" "r - m \<le> R / 140737488355328" by linarith+
    then show ?thesis by linarith
  qed
qed

lemma power_near_root:
  assumes "0 \<le> m" "0 \<le> r" "r ^ 12 = n" "n \<le> 10 ^ 6" "R = max 1 r" "\<bar>m - r\<bar> \<le> R / 140737488355328"
  shows "\<bar>m ^ 12 - n\<bar> \<le> 49 / 100 * ACCURACY"
proof -
  define M where "M = R * (1 + 1 / 140737488355328)"
  have "r \<le> 4"
  proof (rule ccontr)
    assume "\<not> r \<le> 4"
    then have "4 ^ 12 \<le> r ^ 12" using assms(2) by (intro power_mono) auto
    then show False using assms(3,4) by simp
  qed
  then have R: "1 \<le> R" "R \<le> 4" "r \<le> R" using assms(5) by auto
  have "R ^ 12 \<le> 10 ^ 6" using assms(3-5) by (auto simp: max_def)
  moreover have "(1 + 1 / 140737488355328 :: real) ^ 12 \<le> 101 / 100" by (simp add: power_divide)
  ultimately have M12: "M ^ 12 \<le> 10 ^ 6 * (101 / 100)"
    unfolding M_def power_mult_distrib by (intro mult_mono) auto
  have "M = R + R / 140737488355328" by (simp add: M_def algebra_simps)
  then have M: "1 \<le> M" "m \<le> M" "r \<le> M" using R assms(6) by linarith+
  have "\<bar>m ^ 12 - r ^ 12\<bar> \<le> 12 * M ^ 12 * \<bar>m - r\<bar>"
    using power_diff_le [of r m M 12] power_diff_le [of m r M 12] power_mono [of r m 12] power_mono [of m r 12]
      assms(1,2) M by (cases "r \<le> m") auto
  also have "\<dots> \<le> 12 * (10 ^ 6 * (101 / 100)) * (4 / 140737488355328)"
    using M12 assms(6) R by (intro mult_mono) auto
  also have "\<dots> \<le> 49 / 100 * ACCURACY" by (simp add: accuracy_value)
  finally show ?thesis using assms(3) by simp
qed

lemma root_step:
  assumes "low \<le> high" "m = rnd (rnd (low + high) / 2)" "t = power_loop rnd m p 1"
  shows "root_loop rnd n p (Suc f) low high =
    (if root_accepted rnd n t then Some m else if t > n then root_loop rnd n p f low m else root_loop rnd n p f m high)"
  using assms(1) unfolding root_loop.simps(2) Let_def assms(2) [symmetric] assms(3) [symmetric] root_accepted_def by simp

lemma root_loop_ends:
  assumes "0 \<le> low" "low \<le> r" "r \<le> high" "0 \<le> r" "r ^ 12 = n" "n \<le> 10 ^ 6"
    and "high - low \<le> (8 / 5) ^ f / 140737488355328"
  shows "\<exists>m. root_loop rnd n 12 (Suc f) low high = Some m \<and> 0 \<le> m \<and> \<bar>m ^ 12 - n\<bar> \<le> 11 / 10 * ACCURACY"
  using assms
proof (induction f arbitrary: low high)
  case (0 low high)
  define m where "m = rnd (rnd (low + high) / 2)"
  define t where "t = power_loop rnd m 12 1"
  have R: "high - low \<le> max 1 r / 140737488355328" using 0(7) by simp
  note mid = middle [OF 0(1-3) refl m_def]
  have n: "0 \<le> n" using 0(4,5) by auto
  have "root_accepted rnd n t"
    by (rule tested(4) [OF mid(1) t_def n 0(6)], rule power_near_root [OF mid(1) 0(4-6) refl mid(3) [OF R]])
  moreover have "low \<le> high" using 0(2,3) by simp
  ultimately show ?case using root_step [OF _ m_def t_def] tested(1) [OF mid(1) t_def n 0(6)] mid(1) by simp
next
  case (Suc f low high)
  define m where "m = rnd (rnd (low + high) / 2)"
  define t where "t = power_loop rnd m 12 1"
  note mid = middle [OF Suc.prems(1-3) refl m_def]
  have n: "0 \<le> n" using Suc.prems(4,5) by auto
  have "low \<le> high" using Suc.prems(2,3) by simp
  note step = root_step [OF this m_def t_def]
  note test = tested [OF mid(1) t_def n Suc.prems(6)]
  show ?case
  proof (cases "root_accepted rnd n t")
    case True
    then show ?thesis using step test(1) mid(1) by simp
  next
    case False
    then have wide: "high - low > max 1 r / 140737488355328"
      using test(4) power_near_root [OF mid(1) Suc.prems(4-6) refl] mid(3) by fastforce
    have half: "m - low \<le> (8 / 5) ^ f / 140737488355328" "high - m \<le> (8 / 5) ^ f / 140737488355328"
      using mid(2) [OF wide] Suc.prems(7) by simp_all
    show ?thesis
    proof (cases "t > n")
      case True
      have "r \<le> m" using test(2) [OF False True] Suc.prems(4,5) mid(1) by (metis power_mono_iff zero_less_numeral)
      then show ?thesis using Suc.IH [OF Suc.prems(1,2) _ Suc.prems(4-6) half(1)] step False True by simp
    next
      case less: False
      have "m \<le> r" using test(3) [OF False less] Suc.prems(4,5) mid(1) by (metis power_mono_iff zero_less_numeral)
      then show ?thesis using Suc.IH [OF mid(1) _ Suc.prems(3-6) half(2)] step False less by simp
    qed
  qed
qed

lemma get_root_ends:
  assumes "0 \<le> n" "n \<le> 10 ^ 6" "110 < fuel"
  shows "\<exists>m. get_root rnd fuel n 12 = Some m \<and> 0 \<le> m \<and> \<bar>m ^ 12 - n\<bar> \<le> 11 / 10 * ACCURACY"
proof -
  define r where "r = root 12 n"
  have r: "0 \<le> r" "r ^ 12 = n" using assms(1) by (simp_all add: r_def)
  obtain f where f: "fuel = Suc f" "110 \<le> f" using assms(3) by (cases fuel) auto
  have "(10 ^ 6 :: real) \<le> (8 / 5) ^ 110 / 140737488355328" by (simp add: power_divide)
  also have "\<dots> \<le> (8 / 5) ^ f / 140737488355328" using f(2) by (intro divide_right_mono power_increasing) auto
  finally have width: "(10 ^ 6 :: real) \<le> (8 / 5) ^ f / 140737488355328" .
  show ?thesis
  proof (cases "n > 1")
    case True
    have "1 \<le> r" "r \<le> n"
      using True r power_less_one_iff [of r 12] self_le_power [of r 12] by (auto simp: not_less)
    then show ?thesis using root_loop_ends [of 1 r n n f] r assms True f(1) width by (simp add: get_root_def)
  next
    case False
    have "r \<le> 1" using False r one_less_power [of r 12] by linarith
    moreover have "n \<le> r" using r power_decreasing [of 1 12 r] \<open>r \<le> 1\<close> by simp
    ultimately show ?thesis using root_loop_ends [of n r 1 n f] r assms False f(1) width by (simp add: get_root_def)
  qed
qed

end

interpretation double: near_double to_double
proof
  have "2 powr - 1075 \<le> 2 powr (- 100 :: real)" by simp
  also have "\<dots> = 1 / 2 ^ 100" by (simp add: powr_minus_divide)
  finally show "\<bar>to_double x - x\<bar> \<le> 1 / 2 ^ 53 * \<bar>x\<bar> + 1 / 2 ^ 100" for x
    using to_double_error [of x] by linarith
qed (rule to_double_sign)



section \<open>Order and signs of doubles\<close>

lemma round_even_mono: "x \<le> y \<Longrightarrow> round_even x \<le> round_even y"
proof -
  assume "x \<le> y"
  define f g where "f = \<lfloor>x\<rfloor>" and "g = \<lfloor>y\<rfloor>"
  have "f \<le> g" using \<open>x \<le> y\<close> by (simp add: f_def g_def floor_mono)
  then consider "f = g" | "f + 1 \<le> g" by linarith
  then show ?thesis
  proof cases
    case 1
    then show ?thesis using \<open>x \<le> y\<close> unfolding round_even_def Let_def f_def [symmetric] g_def [symmetric] by simp
  next
    case 2
    then show ?thesis unfolding round_even_def Let_def f_def [symmetric] g_def [symmetric] by simp
  qed
qed

lemma round_even_int [simp]: "round_even (real_of_int k) = k"
  by (simp add: round_even_def)

lemma round_even_minus: "round_even (- y) = - round_even y"
proof (cases "y = real_of_int \<lfloor>y\<rfloor>")
  case True
  then obtain k where "y = real_of_int k" ..
  then show ?thesis using round_even_int [of "- k"] by simp
next
  case False
  define f where "f = \<lfloor>y\<rfloor>"
  have "real_of_int f < y" "y < real_of_int f + 1" using False floor_correct [of y] unfolding f_def by linarith+
  then have "\<lfloor>- y\<rfloor> = - f - 1" by (simp add: floor_eq_iff)
  then show ?thesis unfolding round_even_def Let_def f_def [symmetric] by auto
qed

lemma to_double_minus: "to_double (- x) = - to_double x"
  by (simp add: to_double_def ulp_exponent_def Let_def round_even_minus)

text \<open>A positive number lies below the next power of two, and above the last unless it is tiny.\<close>

lemma below_binade:
  assumes "0 < x" "e = ulp_exponent x"
  shows "to_double x \<le> 2 powr (real_of_int e + 53)"
proof -
  have "log 2 x \<le> real_of_int e + 53" using assms by (simp add: ulp_exponent_def) linarith
  then have "x \<le> 2 powr (real_of_int e + 53)" using assms(1) by (simp add: log_le_iff)
  then have "x / 2 powr real_of_int e \<le> real_of_int (2 ^ 53)"
    by (simp add: powr_add powr_realpow divide_le_eq mult.commute)
  from round_even_mono [OF this] have "real_of_int (round_even (x / 2 powr real_of_int e)) \<le> real_of_int (2 ^ 53)"
    by (simp only: round_even_int of_int_le_iff)
  then show ?thesis unfolding to_double_def Let_def assms(2) [symmetric] powr_add
    by (simp add: powr_realpow mult.commute)
qed

lemma above_binade:
  assumes "0 < x" "e = ulp_exponent x" "- 1074 < e"
  shows "2 powr (real_of_int e + 52) \<le> to_double x"
proof -
  have "real_of_int e + 52 \<le> log 2 x" using assms by (simp add: ulp_exponent_def) linarith
  then have "2 powr (real_of_int e + 52) \<le> x" using assms(1) by (simp add: le_log_iff)
  then have "real_of_int (2 ^ 52) \<le> x / 2 powr real_of_int e"
    by (simp add: powr_add powr_realpow le_divide_eq mult.commute)
  from round_even_mono [OF this] have "real_of_int (2 ^ 52) \<le> real_of_int (round_even (x / 2 powr real_of_int e))"
    by (simp only: round_even_int of_int_le_iff)
  then show ?thesis unfolding to_double_def Let_def assms(2) [symmetric] powr_add
    by (simp add: powr_realpow mult.commute)
qed

lemma to_double_mono_pos:
  assumes "0 < x" "x \<le> y"
  shows "to_double x \<le> to_double y"
proof (cases "ulp_exponent x = ulp_exponent y")
  case True
  then show ?thesis using round_even_mono [of "x / 2 powr real_of_int (ulp_exponent y)" "y / 2 powr real_of_int (ulp_exponent y)"] assms
    by (simp add: to_double_def Let_def divide_right_mono mult_right_mono)
next
  case False
  have "log 2 x \<le> log 2 y" using assms by simp
  then have "\<lfloor>log 2 x\<rfloor> \<le> \<lfloor>log 2 y\<rfloor>" by (rule floor_mono)
  then have e: "ulp_exponent x + 1 \<le> ulp_exponent y" "- 1074 < ulp_exponent y"
    using False assms by (auto simp: ulp_exponent_def)
  have "to_double x \<le> 2 powr (real_of_int (ulp_exponent x) + 53)" using below_binade assms(1) by blast
  also have "\<dots> \<le> 2 powr (real_of_int (ulp_exponent y) + 52)" using e(1) by simp
  also have "\<dots> \<le> to_double y" using above_binade e(2) assms by auto
  finally show ?thesis .
qed

lemma to_double_mono: "mono to_double"
proof
  fix x y :: real
  assume "x \<le> y"
  then consider "0 < x" | "y < 0" | "x \<le> 0" "0 \<le> y" by linarith
  then show "to_double x \<le> to_double y"
  proof cases
    case 1
    then show ?thesis using \<open>x \<le> y\<close> by (rule to_double_mono_pos)
  next
    case 2
    then show ?thesis using \<open>x \<le> y\<close> to_double_mono_pos [of "- y" "- x"] by (simp add: to_double_minus)
  next
    case 3
    then show ?thesis using to_double_sign [of "- x"] to_double_sign [of y] by (simp add: to_double_minus)
  qed
qed

text \<open>The double of a double is one.\<close>

lemma to_double_twice:
  assumes "to_double x = x"
  shows "to_double (2 * x) = 2 * x"
proof (cases "x = 0")
  case False
  define q where "q = (2::real) powr real_of_int (ulp_exponent x)"
  define k where "k = round_even (x / q)"
  have k: "x = real_of_int k * q" using assms by (simp add: to_double_def Let_def flip: q_def k_def)
  have "log 2 \<bar>2 * x\<bar> = log 2 \<bar>x\<bar> + 1" using False by (simp add: log_mult abs_mult)
  then have "ulp_exponent (2 * x) = ulp_exponent x + 1 \<or> ulp_exponent (2 * x) = ulp_exponent x"
    by (auto simp: ulp_exponent_def)
  then show ?thesis
  proof
    assume "ulp_exponent (2 * x) = ulp_exponent x + 1"
    then have "2 powr real_of_int (ulp_exponent (2 * x)) = 2 * q" by (simp add: q_def powr_add)
    moreover have "2 * x / (2 * q) = real_of_int k" by (subst k) (simp add: q_def)
    ultimately show ?thesis using k unfolding to_double_def Let_def by (simp only: round_even_int mult.assoc mult.left_commute)
  next
    assume "ulp_exponent (2 * x) = ulp_exponent x"
    then have "2 powr real_of_int (ulp_exponent (2 * x)) = q" by (simp add: q_def)
    moreover have "2 * x / q = real_of_int (2 * k)" by (subst k) (simp add: q_def)
    ultimately show ?thesis using k unfolding to_double_def Let_def by (simp only: round_even_int)
  qed
qed simp

section \<open>Negative numbers\<close>

text \<open>An even power is not negative, however the products are rounded.\<close>

lemma power_loop_add: "power_loop rnd m (a + b) t = power_loop rnd m b (power_loop rnd m a t)"
  by (induction a arbitrary: t) auto

lemma rounded_sign:
  fixes rnd :: "real \<Rightarrow> real"
  assumes "mono rnd" "rnd 0 = 0"
  shows "0 \<le> x \<Longrightarrow> 0 \<le> rnd x" "x \<le> 0 \<Longrightarrow> rnd x \<le> 0"
  using monoD [OF assms(1), of 0 x] monoD [OF assms(1), of x 0] assms(2) by auto

lemma even_power_nonneg:
  assumes "mono rnd" "rnd 0 = 0" "0 \<le> t"
  shows "0 \<le> power_loop rnd m (2 * k) t"
  using assms(3)
proof (induction k arbitrary: t)
  case (Suc k)
  note sign = rounded_sign [OF assms(1,2)]
  have "0 \<le> rnd (rnd (t * m) * m)"
  proof (cases "0 \<le> m")
    case True
    with Suc.prems show ?thesis by (intro sign(1) mult_nonneg_nonneg) auto
  next
    case False
    with Suc.prems show ?thesis by (intro sign(1) mult_nonpos_nonpos sign(2)) (auto intro: mult_nonneg_nonpos)
  qed
  from Suc.IH [OF this] show ?case by simp
qed simp

text \<open>Bisection between a negative number and a bound above it never ends.\<close>

lemma negative_endless:
  assumes "mono rnd" "rnd 0 = 0" "rnd n = n" "rnd (2 * n) = 2 * n" "rnd ACCURACY < rnd (- n)" "n < 0" "even pow" "0 < pow"
  shows "get_root rnd fuel n pow = None"
proof -
  obtain k where k: "nat pow = 2 * k" using assms(7,8) by (metis even_nat_iff evenE less_imp_le)
  have "n \<le> high \<Longrightarrow> root_loop rnd n (2 * k) fuel n high = None" for high
  proof (induction fuel arbitrary: high)
    case (Suc fuel)
    define m where "m = rnd (rnd (n + high) / 2)"
    define t where "t = power_loop rnd m (2 * k) 1"
    have "rnd (2 * n) \<le> rnd (n + high)" using Suc.prems by (intro monoD [OF assms(1)]) simp
    then have "rnd n \<le> m" unfolding m_def using assms(4) by (intro monoD [OF assms(1)]) simp
    moreover have "0 \<le> t" unfolding t_def using assms(1,2) by (intro even_power_nonneg) auto
    moreover have "rnd (- n) \<le> rnd (t - n)" using \<open>0 \<le> t\<close> by (intro monoD [OF assms(1)]) simp
    ultimately show ?case using Suc assms(3,5,6) by (simp add: Let_def flip: m_def) (simp flip: t_def)
  qed simp
  with assms(6) k show ?thesis by (simp add: get_root_def)
qed



end
