(* ===== verification/TestPrograms.thy ===== *)
theory TestPrograms
  imports HttpServer Sorting
begin

text \<open>
  Programs that try out a library: \<^verbatim>\<open>http/test.c\<close>, \<^verbatim>\<open>redis_test.c\<close>, \<^verbatim>\<open>algorithm/rsa_test.c\<close> and \<^verbatim>\<open>random_xid.c\<close> of
  \<^verbatim>\<open>src/cpp\<close>, and the native methods of \<^verbatim>\<open>src/src/main/java/richard/test/jni/TestJNIImpl.cpp\<close>.
\<close>

definition bytes :: "nat list \<Rightarrow> string" where
  "bytes bs = map char_of bs"

section \<open>\<^verbatim>\<open>http/test.c\<close>\<close>

definition test_body :: string where
  \<open>test_body =
      ''{"data":"6800EB03008188C1E000E1E55B9988776655443300110101000000000013FFFFFFFF03149A0FEC01000100010100000000000'' @
      ''00000584AD45FB958C43F878129C981AA7587AC372EF3C21116C07E8EC7A55BB0BEE5BB50467015B1A81172D66EDD9B169E0C07311B501'' @
      ''EB6EEBA5FB0A6D86BD1E15CEF058E5EBE6E57391861501FFA388EB61EB817A691A4DC92274579EAEAE681C9DC49F83CF6C7E5CD6631291'' @
      ''A28D15DE8144EF11806CFC5C8D965282448E1F558A68852B243A1F657B2B68FC2E7DD721B8A1EE1254C36D8C7C3CAB9E08B2F7DBF8CA37'' @
      ''8C9477FC86D08A98B480D5E62464E189361000016","transId":"T20211212091414-89F4BE38C6964238","deviceId":"89F4BE38C6'' @
      ''964238","timestamp":1635756025000}''\<close>

definition httpreq :: "nat \<Rightarrow> unit prog" where
  "httpreq fuel =
     bind (req fuel ''11.10.36.1'' 19061 ''POST'' ''/industry/api/upMsgProcess'' test_body (replicate 8096 NUL) 8096 2) (\<lambda>resp.
     log_line ''test.c'' 18 (''resp body'' @ nl @ cstr resp @ nl))"

definition test_json :: string where
  \<open>test_json = ''{"key1":"value1", "key2":"value2", "key3":"value3"}''\<close>

definition http_test :: "unit prog" where
  "http_test =
     bind (lift (getjsonv test_json (replicate 256 NUL) ''key3'' 256)) (\<lambda>(jsonv, out).
     bind (if out = [] then return () else print out) (\<lambda>_.
     bind (lift (c_strlen jsonv)) (\<lambda>_. print (''jsonv:'' @ cstr jsonv @ nl))))"

definition http_test_main :: "int prog" where
  "http_test_main = bind http_test (\<lambda>_. return 0)"

section \<open>\<^verbatim>\<open>redis_test.c\<close>\<close>

text \<open>
  A reply is reached through its handle: \<^verbatim>\<open>c->err\<close> and the like are calls that reply the member.  A member of
  the null pointer faults.
\<close>

definition member :: "string \<Rightarrow> int \<Rightarrow> reply prog" where
  "member f p = (if p = 0 then fault NullPointer else invoke f [I p])"

definition redis_main :: "int \<Rightarrow> int prog" where
  "redis_main REDIS_REPLY_ERROR =
     bind (call_ret ''redisConnect'' [S ''127.0.0.1'', I 6379]) (\<lambda>c.
     bind (if c = 0 then return True else bind (member ''err'' c) (\<lambda>e. return (ret e \<noteq> 0))) (\<lambda>bad.
     bind (if bad then
             if c \<noteq> 0 then bind (member ''errstr'' c) (\<lambda>e. bind (print (''err: '' @ cstr (data e) @ nl)) (\<lambda>_. return True))
             else bind (print (''can'' @ [CHR 0x27] @ ''t allocate redis context'' @ nl)) (\<lambda>_. return False)
           else return False) (\<lambda>stop.
     if stop then return (- 1)
     else
       bind (call_ret ''redisCommand'' [I c, S ''AUTH %s'', S ''your_psword'']) (\<lambda>reply.
       bind (member ''type'' reply) (\<lambda>ty.
       if ret ty = REDIS_REPLY_ERROR then
         bind (member ''str'' reply) (\<lambda>s.
         bind (print (''auth_failed, cause: '' @ cstr (data s) @ nl)) (\<lambda>_.
         bind (do_call ''freeReplyObject'' [I reply]) (\<lambda>_.
         bind (do_call ''redisFree'' [I c]) (\<lambda>_. return (- 1)))))
       else
         bind (do_call ''freeReplyObject'' [I reply]) (\<lambda>_.
         bind (print (''connected to 127.0.0.1:6379, auth your_psword'' @ nl)) (\<lambda>_.
         bind (call_ret ''redisCommand'' [I c, S ''keys *'']) (\<lambda>reply.
         bind (member ''str'' reply) (\<lambda>s.
         bind (print (''cmd result '' @ cstr (data s) @ nl)) (\<lambda>_.
         bind (do_call ''freeReplyObject'' [I reply]) (\<lambda>_.
         bind (do_call ''redisFree'' [I c]) (\<lambda>_. return 0)))))))))))) "

section \<open>\<^verbatim>\<open>rsa_test.c\<close>\<close>

text \<open>\<^verbatim>\<open>pkey\<close> is a null pointer to a pointer, and \<^verbatim>\<open>*pkey\<close> reads through it.\<close>

definition rsa_decrypt :: "string \<Rightarrow> int prog" where
  "rsa_decrypt inp =
     bind (call_ret ''fopen'' [S ''private.pem'', S ''r'']) (\<lambda>fp.
     bind (do_call ''PEM_read'' [I fp, I 0]) (\<lambda>_.
     bind (do_call ''fclose'' [I fp]) (\<lambda>_.
     bind (lift (Inl NullPointer)) (\<lambda>key.
     bind (do_call ''EVP_PKEY_CTX_new'' [I key, I 0]) (\<lambda>_.
     bind (do_call ''EVP_PKEY_decrypt_init'' [I 0]) (\<lambda>_.
     bind (invoke ''EVP_PKEY_decrypt'' [I 0, S inp]) (\<lambda>r.
     bind (print (''dec_data: '' @ cstr (data r) @ nl)) (\<lambda>_.
     bind (do_call ''EVP_PKEY_CTX_free'' [I 0]) (\<lambda>_.
     bind (do_call ''EVP_PKEY_free'' [I key]) (\<lambda>_.
     bind (do_call ''OPENSSL_free'' [S ''out'']) (\<lambda>_. return 0)))))))))))"

text \<open>
  The encryption between reading the keys and \<^verbatim>\<open>end\<close>: the context and the buffer.  \<^verbatim>\<open>*len\<close> replies what the call
  before it stored in \<^verbatim>\<open>len\<close>.
\<close>

definition rsa_encrypt :: "int \<Rightarrow> (int \<times> int) prog" where
  "rsa_encrypt pub_key =
     bind (call_ret ''EVP_PKEY_CTX_new'' [I pub_key, I 0]) (\<lambda>ctx.
     bind (do_call ''EVP_PKEY_encrypt_init'' [I ctx]) (\<lambda>_.
     bind (print (''pln_txt, Hello World'' @ nl)) (\<lambda>_.
     bind (do_call ''EVP_PKEY_encrypt'' [I ctx, I 0, S ''Hello World'']) (\<lambda>_.
     bind (call_ret ''*len'' []) (\<lambda>n.
     bind (call_ret ''malloc'' [I n]) (\<lambda>buffer.
     bind (if buffer = 0 \<and> n \<noteq> 0 then fault NullPointer else do_call ''bzero'' [I buffer, I n]) (\<lambda>_.
     bind (invoke ''EVP_PKEY_encrypt'' [I ctx, I buffer, S ''Hello World'']) (\<lambda>r.
     bind (lift (mem_write (replicate (nat n) NUL) 0 (data r))) (\<lambda>b.
     bind (call_ret ''*len'' []) (\<lambda>n.
     bind (print ''encrypt_hex: '') (\<lambda>_.
     bind (for_each [0..<nat n] (\<lambda>i _. bind (lift (load b i)) (\<lambda>c. print (pad_with CHR ''0'' 2 (show_hex False (of_char c))))) ()) (\<lambda>_.
     bind (print nl) (\<lambda>_.
     bind (rsa_decrypt (take (nat n) b)) (\<lambda>_. return (ctx, buffer)))))))))))))))"

definition rsa_test_main :: "int prog" where
  "rsa_test_main =
     bind (do_call ''OpenSSL_add_all_algorithms'' []) (\<lambda>_.
     bind (call_ret ''fopen'' [S ''public.pem'', S ''r'']) (\<lambda>pub_fp.
     bind (call_ret ''fopen'' [S ''private.pem'', S ''r'']) (\<lambda>priv_fp.
     bind (call_ret ''PEM_read_PUBKEY'' [I pub_fp]) (\<lambda>pub_key.
     bind (if pub_key = 0 then bind (print (bytes [0xE5, 0x85, 0xAC, 0xE9, 0x92, 0xA5, 0xE8, 0xAF, 0xBB, 0xE5, 0x8F, 0x96, 0xE5, 0xA4, 0xB1, 0xE8, 0xB4, 0xA5] @ nl)) (\<lambda>_. return (0, 0, 0))
           else
             bind (call_ret ''PEM_read_PrivateKey'' [I priv_fp]) (\<lambda>priv_key.
             if priv_key = 0 then bind (print (bytes [0xE7, 0xA7, 0x81, 0xE9, 0x92, 0xA5, 0xE8, 0xAF, 0xBB, 0xE5, 0x8F, 0x96, 0xE5, 0xA4, 0xB1, 0xE8, 0xB4, 0xA5] @ nl)) (\<lambda>_. return (0, 0, 0))
             else bind (rsa_encrypt pub_key) (\<lambda>(ctx, buffer). return (priv_key, ctx, buffer)))) (\<lambda>(priv_key, ctx, buffer).
     bind (do_call ''free'' [I buffer]) (\<lambda>_.
     bind (do_call ''EVP_PKEY_free'' [I pub_key]) (\<lambda>_.
     bind (do_call ''EVP_PKEY_free'' [I priv_key]) (\<lambda>_.
     bind (do_call ''EVP_PKEY_CTX_free'' [I ctx]) (\<lambda>_.
     bind (do_call ''fclose'' [I pub_fp]) (\<lambda>_.
     bind (do_call ''fclose'' [I priv_fp]) (\<lambda>_. return 0)))))))))))"

section \<open>\<^verbatim>\<open>random_xid.c\<close>\<close>

text \<open>The eight bytes of \<^verbatim>\<open>seed\<close>, least first; a shorter read leaves some of them unset.\<close>

definition seed_of :: "reply \<Rightarrow> int c_result" where
  "seed_of r =
     (let d = take (nat (ret r)) (data r) in
      if length d < 8 then Inl Indeterminate
      else Inr (sint (word_of_int (horner_sum of_char 256 (take 8 d)) :: 64 word)))"

definition xid_seed :: "int \<Rightarrow> int prog" where
  "xid_seed fd =
     bind (if fd < 0 then return None
           else bind (invoke ''read'' [I fd, I 8]) (\<lambda>r. return (if ret r < 0 then None else Some r))) (\<lambda>got.
     case got of
       Some r \<Rightarrow> lift (seed_of r)
     | None \<Rightarrow>
         bind (call_text ''strerror'' []) (\<lambda>s.
         bind (print (''Could not load seed from /dev/urandom: '' @ s)) (\<lambda>_. call_ret ''time'' [I 0])))"

text \<open>The result and the new value of \<^verbatim>\<open>initialized\<close>.\<close>

definition xid :: "int \<Rightarrow> (int \<times> int) prog" where
  "xid ini =
     bind (if ini = 0 then
             bind (call_ret ''open'' [S ''/dev/urandom'', I 0]) (\<lambda>fd.
             bind (xid_seed fd) (\<lambda>seed.
             bind (if fd \<ge> 0 then do_call ''close'' [I fd] else return ()) (\<lambda>_.
             bind (print (''seed='' @ show_int seed @ nl)) (\<lambda>_.
             bind (do_call ''srand'' [I (seed mod 2 ^ 32)]) (\<lambda>_. return (ini + 1))))))
           else return ini) (\<lambda>ini.
     bind (call_ret ''rand'' []) (\<lambda>x. return (x, ini)))"

definition xid_main :: "int prog" where
  "xid_main = bind (xid 0) (\<lambda>(l, _). bind (print (''l='' @ show_int l @ nl)) (\<lambda>_. return 0))"

section \<open>\<^verbatim>\<open>TestJNIImpl.cpp\<close>\<close>

definition jni_go :: "unit prog" where
  "jni_go = print (''I am going....'' @ nl)"

definition jni_run :: "unit prog" where
  "jni_run = print (''I am running....'' @ nl)"

definition jni_getName :: "int prog" where
  "jni_getName =
     bind (print (''I am GDUTtiantian, go with me.'' @ nl)) (\<lambda>_. call_ret ''NewStringUTF'' [S ''GDUTtiantian''])"

definition jni_step :: "nat \<Rightarrow> nat \<Rightarrow> int list \<Rightarrow> int list c_result" where
  "jni_step i j arr =
     c_bind (load arr i) (\<lambda>x. c_bind (load arr j) (\<lambda>y.
     if x > y then c_bind (store arr i y) (\<lambda>arr. store arr j x) else Inr arr))"

definition jni_loops :: "nat \<Rightarrow> int list \<Rightarrow> int list c_result" where
  "jni_loops n arr = for_loop 0 n (\<lambda>i. for_loop (Suc i) n (jni_step i)) arr"

text \<open>\<open>arr\<close> is what \<^verbatim>\<open>GetIntArrayElements\<close> gives of the array; the result is the handle of the new array.\<close>

definition jni_sort :: "int list \<Rightarrow> int prog" where
  "jni_sort arr =
     bind (do_call ''GetIntArrayElements'' []) (\<lambda>_.
     bind (do_call ''GetArrayLength'' []) (\<lambda>_.
     let n = length arr in
     bind (lift (jni_loops n arr)) (\<lambda>arr.
     bind (for_each [0..<n] (\<lambda>i _. bind (lift (load arr i)) (\<lambda>x. print (show_int x @ '' ''))) ()) (\<lambda>_.
     bind (print (nl @ bytes [0xE6, 0x8E, 0x92, 0xE5, 0xBA, 0x8F, 0xE5, 0xAE, 0x8C, 0xE6, 0x88, 0x90] @ nl)) (\<lambda>_.
     bind (print ''hello'') (\<lambda>_.
     bind (call_ret ''NewIntArray'' [I (int n)]) (\<lambda>javaArray.
     bind (do_call ''SetIntArrayRegion'' ([I javaArray, I 0, I (int n)] @ map I arr)) (\<lambda>_. return javaArray))))))))"

section \<open>The sort\<close>

text \<open>
  The loops are those of \<^verbatim>\<open>popup\<close> in \<^verbatim>\<open>algorithm.c\<close> for the opposite order: on the negated numbers each step does
  the same.
\<close>

definition mirrors :: "nat \<Rightarrow> sort_state \<Rightarrow> int list \<Rightarrow> bool" where
  "mirrors n st arr \<longleftrightarrow> cells st = map uminus arr \<and> length arr = n"

lemma jni_step_mirrors:
  assumes "popup_step i j st = Inr st'" "mirrors n st arr"
  shows "\<exists>arr'. jni_step i j arr = Inr arr' \<and> mirrors n st' arr'"
  using assms by (auto simp: popup_step_def jni_step_def mirrors_def Let_def load_in map_update split: if_splits)

lemma popup_first: "i < length (cells st) \<Longrightarrow> popup_step i i st = Inr (st\<lparr>rounds := Suc (rounds st)\<rparr>)"
  by (simp add: popup_step_def load_in)

lemma jni_loops_sort: "jni_loops (length xs) xs = Inr (sort xs)"
proof -
  let ?st = "\<lparr>cells = map uminus xs, rounds = 0, printed = []\<rparr>" and ?n = "length xs"
  from popup_loops_correct [of ?n ?st] obtain st' where
    st': "popup_loops ?n ?st = Inr st'" "mset (cells st') = mset (map uminus xs)" "sorted (rev (cells st'))" by auto
  have "\<exists>arr'. jni_loops ?n xs = Inr arr' \<and> mirrors ?n st' arr'" unfolding jni_loops_def
  proof (rule for_loop_related [OF st'(1) [unfolded popup_loops_def], where R = "mirrors ?n"], goal_cases)
    case (3 i s s' arr)
    have "length (cells s) = ?n" "mirrors ?n (s\<lparr>rounds := Suc (rounds s)\<rparr>) arr" using 3(4) by (simp_all add: mirrors_def)
    with 3(2,3) have "for_loop (Suc i) ?n (popup_step i) (s\<lparr>rounds := Suc (rounds s)\<rparr>) = Inr s'"
      "mirrors ?n (s\<lparr>rounds := Suc (rounds s)\<rparr>) arr" by (simp_all add: for_loop_step popup_first)
    then show ?case using 3(2) by (intro for_loop_related [where R = "mirrors ?n"]) (auto intro: jni_step_mirrors)
  qed (auto simp: mirrors_def)
  then obtain arr where arr: "jni_loops ?n xs = Inr arr" "cells st' = map uminus arr" by (auto simp: mirrors_def)
  have "sorted arr" using st'(3) arr(2) by (simp add: rev_map sorted_map sorted_wrt_rev)
  moreover have "mset arr = mset xs"
  proof -
    have "image_mset uminus (mset arr) = image_mset uminus (mset xs)" using st'(2) arr(2) by (simp add: mset_map)
    then have "image_mset uminus (image_mset uminus (mset arr)) = image_mset uminus (image_mset uminus (mset xs))" by simp
    then show ?thesis by (simp add: multiset.map_comp comp_def)
  qed
  ultimately show ?thesis using arr(1) by (metis properties_for_sort)
qed


lemma print_numbers:
  assumes "set is \<subseteq> {..<length arr}"
  shows "\<exists>t. for_each is (\<lambda>i _. bind (lift (load arr i)) (\<lambda>x. print (show_int x @ '' ''))) () env tr = (t, Ok ())"
  using assms by (induction "is" arbitrary: tr) (auto simp: io_eval load_in bind_print)

text \<open>
  The native method \<^verbatim>\<open>sort\<close> hands a new Java array the elements of its argument in ascending order.
\<close>

theorem jni_sort_sorts:
  "\<exists>t h r. jni_sort xs env tr = (t @ [(Call ''SetIntArrayRegion'' ([I h, I 0, I (int (length xs))] @ map I (sort xs)), r)], Ok h)"
proof -
  have "set [0..<length xs] \<subseteq> {..<length (sort xs)}" by auto
  from print_numbers [OF this] obtain t where "for_each [0..<length xs] (\<lambda>i _. bind (lift (load (sort xs) i)) (\<lambda>x. print (show_int x @ '' ''))) () env
      (tr @ [(Call ''GetIntArrayElements'' [], env tr (Call ''GetIntArrayElements'' []))] @
       [(Call ''GetArrayLength'' [], env (tr @ [(Call ''GetIntArrayElements'' [], env tr (Call ''GetIntArrayElements'' []))]) (Call ''GetArrayLength'' []))]) = (t, Ok ())"
    by blast
  then show ?thesis
    by (simp add: jni_sort_def jni_loops_sort bind_do_call Let_def bind_Ok) (simp add: bind_calls return_eval)
qed

section \<open>Calls and crashes\<close>

text \<open>\<^verbatim>\<open>http/test.c\<close> finds the third value of its text.\<close>

lemma http_test_finds: "\<exists>r. http_test_main env tr = (tr @ [(Call ''printf'' [S (''jsonv:value3'' @ nl)], r)], Ok 0)"
proof -
  have "getjsonv test_json (replicate 256 NUL) ''key3'' 256 = Inr (''value3'' @ replicate 250 NUL, [])" by code_simp
  moreover have "cstr (''value3'' @ replicate 250 NUL) = ''value3''" "c_strlen (''value3'' @ replicate 250 NUL) = Inr 6" by code_simp+
  ultimately show ?thesis unfolding http_test_main_def http_test_def bind_assoc by (simp add: bind_print return_eval)
qed

text \<open>The program of \<^verbatim>\<open>rsa_test.c\<close> ends only when a key cannot be read: the decryption always reads through a null pointer.\<close>

definition never :: "'a prog \<Rightarrow> bool" where
  "never m \<longleftrightarrow> (\<forall>env tr t v. m env tr \<noteq> (t, Ok v))"

lemma never_bind: "never m \<Longrightarrow> never (bind m f)" "(\<And>x. never (f x)) \<Longrightarrow> never (bind m f)"
  unfolding never_def by (metis bind_OkE)+

lemma rsa_decrypt_crashes: "\<exists>t. rsa_decrypt b env tr = (t, Fault NullPointer)"
  by (simp add: rsa_decrypt_def bind_calls fault_eval)

lemma rsa_encrypt_never: "never (rsa_encrypt k)"
proof -
  have "never (rsa_decrypt b)" for b using rsa_decrypt_crashes [of b] unfolding never_def by (metis prod.inject res.distinct(1))
  then have last: "never (bind (rsa_decrypt b) f)" for b and f :: "int \<Rightarrow> (int \<times> int) prog" by (rule never_bind(1))
  show ?thesis unfolding rsa_encrypt_def by (rule last never_bind(2))+
qed

lemma run_neverE: "bind (rsa_encrypt k) f env tr = (t, Ok v) \<Longrightarrow> P"
  using never_bind(1) [OF rsa_encrypt_never] unfolding never_def by metis

lemma rsa_test_never_decrypts:
  assumes "rsa_test_main env [] = (t, Ok v)"
  shows "uses ''EVP_PKEY_encrypt'' t = []"
  using assms unfolding rsa_test_main_def by (elim run_neverE runE; simp; elim runE; simp)

text \<open>
  When \<^verbatim>\<open>redisConnect\<close> returns a null pointer the program goes on with it; when the context has an error it
  is never freed.
\<close>

lemma redis_goes_on:
  assumes "ret (env [] (Call ''redisConnect'' [S ''127.0.0.1'', I 6379])) = 0" "redis_main E env [] = (t, r)"
  shows "\<exists>x. (Call ''redisCommand'' [I 0, S ''AUTH %s'', S ''your_psword''], x) \<in> set t"
  using assms(2) unfolding redis_main_def member_def bind_call_ret [where f = "''redisConnect''"] assms(1)
  by simp (elim runE; simp; elim runE; force)

lemma redis_leak:
  assumes "ret (env [] (Call ''redisConnect'' [S ''127.0.0.1'', I 6379])) = c" "c \<noteq> 0"
    and "\<And>tr. ret (env tr (Call ''err'' [I c])) \<noteq> 0"
  shows "\<exists>t. redis_main E env [] = (t, Ok (- 1)) \<and> uses ''redisFree'' t = []"
  using assms by (simp add: redis_main_def member_def bind_calls bind_assoc return_eval)

text \<open>The random identifier: the device is closed once it has been opened, and the generator is seeded once.\<close>

lemma xid_seed_avoids: "f \<notin> {''read'', ''strerror'', ''printf'', ''time''} \<Longrightarrow> avoids f (xid_seed fd)"
  unfolding xid_seed_def by (intro avoids_bind avoids_if) (auto intro!: avoids_rules split: option.split)

lemma xid_session:
  assumes "xid_main env [] = (t, Ok v)"
  shows "v = 0 \<and> length (uses ''srand'' t) = 1 \<and> length (uses ''rand'' t) = 1 \<and>
    map fst (uses ''close'' t) = map (\<lambda>e. Call ''close'' [I (ret (snd e))]) (filter (\<lambda>e. 0 \<le> ret (snd e)) (uses ''open'' t))"
proof -
  from assms obtain x u seed where u: "xid_seed (ret x) env [(Call ''open'' [S ''/dev/urandom'', I 0], x)] = (u, Ok seed)"
    and rest: "bind (if ret x \<ge> 0 then do_call ''close'' [I (ret x)] else return ()) (\<lambda>_.
      bind (print (''seed='' @ show_int seed @ nl)) (\<lambda>_. bind (do_call ''srand'' [I (seed mod 2 ^ 32)]) (\<lambda>_.
      bind (call_ret ''rand'' []) (\<lambda>l. bind (print (''l='' @ show_int l @ nl)) (\<lambda>_. return 0))))) env u = (t, Ok v)"
    unfolding xid_main_def xid_def bind_assoc if_True simp_thms bind_return prod.case append_Nil
    by (elim run_call_retE) (erule bind_OkE, simp add: bind_assoc)
  note quiet = xid_seed_avoids [THEN avoidsD, OF _ u]
  from rest quiet [of "''srand''"] quiet [of "''rand''"] quiet [of "''close''"] quiet [of "''open''"] show ?thesis
    by (elim runE) simp_all
qed

end
