(* ===== verification/Spec2Isabelle.thy ===== *)
theory Spec2Isabelle
  imports Des BigNum Sorting Crc16 Rsa PrimeTest DbPool DtParser HttpUtil HttpServer Kafka HttpClient SocketWrap
    Sockets SqlClients Mqtt Calendar GtkWindows GtkControls SmallPrograms
    BigDivision Tetris GetRoot TestPrograms
begin

text \<open>
  A verification of the C programs of the repository (the directory \<^verbatim>\<open>src/cpp\<close>).

  \<^bold>\<open>Semantics of C.\<close>  \<open>C_Prelude\<close> gives what every component uses of the language: a
  computation returns a value or a fault (an access out of bounds, a read of an indeterminate
  value, an overflow of a signed integer, a division by zero), arrays are lists whose
  accesses are checked, a C string is a buffer read up to its NUL, and a counted loop is
  \<open>for_loop\<close> with its invariant rules.  \<open>C_IO\<close> adds calls: a program maps an environment,
  which replies to every call from the trace of the calls before it, to the extended trace
  and a result.  A theorem over all environments covers every behaviour of the called
  library or system.

  \<^bold>\<open>Algorithms\<close> (\<^verbatim>\<open>src/cpp/algorithm\<close>).
  \<^item> \<open>Des\<close>: \<^verbatim>\<open>3des.c\<close>.  Decryption inverts encryption for every key, through the locale
    \<open>feistel\<close> of a Feistel network; the key schedule; the deviations of the tables.
  \<^item> \<open>BigNum\<close>: \<^verbatim>\<open>big_num.c\<close>.  Numbers are heap blocks of digits whose cells may be
    indeterminate; \<open>wf_num\<close> is the representation invariant and \<open>num\<close> the abstraction to
    integers.  Every operation refines the one on integers or faults where its block is too
    small; the locale \<open>checked_numbers\<close> carries the factorial.
  \<^item> \<open>Sorting\<close>: \<^verbatim>\<open>algorithm.c\<close>.  Termination, permutation and order of the quick sort and of
    the exchange sort, over an arbitrary random device.
  \<^item> \<open>Crc16\<close>: \<^verbatim>\<open>crc16_xmodem.c\<close>.  Linearity, residue and burst detection on 16-bit words.
  \<^item> \<open>Rsa\<close>: \<^verbatim>\<open>rsa_demo.c\<close>, \<^verbatim>\<open>rsa_algorithm.c\<close>, \<^verbatim>\<open>rsa_deploy.c\<close> and \<^verbatim>\<open>isprime.c\<close>.  Key
    generation and round trips at the integer widths of the code.

  \<^bold>\<open>The class BigNum\<close> (\<^verbatim>\<open>src/cpp/BigNum.cpp\<close>).
  \<^item> \<open>PrimeFacts\<close>: the number theory that the RSA programs and the prime test share.
  \<^item> \<open>BigInt\<close>: the limbs, the operators and the comparison.  The width of \<^verbatim>\<open>unsigned long\<close> is the
    parameter \<open>w\<close> (32 or 64), since the code casts to it; \<open>num\<close> is the integer of a
    representation.  The operators refine those on integers; one limb divisors are covered
    by a functional lemma.  \<open>BigDivision\<close>: the trial quotients for divisors of two limbs, which end and are
    right for dividends of two limbs, where no borrow can be lost.
  \<^item> \<open>PrimeTable\<close>: the table \<^verbatim>\<open>Primes\<close>.  \<open>Paillier\<close>: the string constructor, random numbers, the
    prime test, \<^verbatim>\<open>power_mod\<close>, \<^verbatim>\<open>ex_euclid\<close>, the texts and \<^verbatim>\<open>main\<close>.  \<open>PrimeTest\<close>: what \<^verbatim>\<open>Rabin_Miller\<close>
    and \<^verbatim>\<open>ex_euclid\<close> compute.

  \<^bold>\<open>Services.\<close>
  \<^item> \<open>DbPool\<close>: \<^verbatim>\<open>mysql/dbpool.c\<close>.  The locale \<open>resource_pool\<close> states what a pool promises its
    clients; its interpretation is on \<open>get_con\<close> and \<open>release_con\<close>.
  \<^item> \<open>DtParser\<close>: \<^verbatim>\<open>dtprs/dtparser.c\<close> (and the same text in \<^verbatim>\<open>http\<close>).  Frames of the meter
    protocol to JSON text in fixed buffers.
  \<^item> \<open>HttpUtil\<close>: \<^verbatim>\<open>http/util.c\<close>.  The readers of a request refine \<open>token\<close>, \<open>second_word\<close>,
    \<open>line_at\<close> and \<open>after_blank\<close>.
  \<^item> \<open>HttpServer\<close>: the dispatcher, the client and the server of \<^verbatim>\<open>http\<close>; the accept loop with
    its threads is the step relation \<open>srv_step\<close>.
  \<^item> \<open>HttpClient\<close>: the download client \<^verbatim>\<open>httpClient.c\<close> and the client \<^verbatim>\<open>http.c\<close> with its select loop.
  \<^item> \<open>SocketWrap\<close>: \<^verbatim>\<open>tcp_concurrent.cc\<close>.  The wrappers with their retries, the counted reader
    and the line reader (a refinement of reading a line of the byte stream), and the forking
    server.  Its locale \<open>echo_service\<close> is the contract of a loop that answers a peer; the child
    of the forking server and the server of \<open>Sockets\<close> are its interpretations.
  \<^item> \<open>Sockets\<close>: \<^verbatim>\<open>tcp_client.c\<close>, \<^verbatim>\<open>tcp_server.c\<close>, \<^verbatim>\<open>uni_sock_cli.c\<close> and \<^verbatim>\<open>uni_sock_srv.c\<close>.
  \<^item> \<open>Kafka\<close>: \<^verbatim>\<open>kfk/producer.c\<close> and \<^verbatim>\<open>kfk/consumer.c\<close>.  Exactly one message per line, and the order of
    the shutdown.
  \<^item> \<open>Mqtt\<close>: \<^verbatim>\<open>mqtt/publish.c\<close> and \<^verbatim>\<open>mqtt/subscribe.c\<close>; a callback runs where the environment
    announces its event.  \<open>SqlClients\<close>: \<^verbatim>\<open>mysql/crud.c\<close> and \<^verbatim>\<open>odbc/kwdb_demo.c\<close>, whose theorems
    follow connections and handles from their creation to their release.
  \<^item> \<open>Calendar\<close>: \<^verbatim>\<open>gtk/gtk_calendar.c\<close>.  The handlers of the calendar window over what GTK
    promises: a label shows the text set last, and a day is marked as it was marked last.

  \<^bold>\<open>Windows\<close> (\<^verbatim>\<open>src/cpp/gtk\<close>).
  \<^item> \<open>Gtk\<close>: a window program is the list of its statements: a call whose result goes to a variable, a
    call through a variable, a call of another function.  \<open>run\<close> executes them over an arbitrary
    toolkit, and \<open>gui\<close> is what GTK promises to make of the calls: widgets, who contains whom, what
    is shown.  \<open>sym_run\<close> executes the statements once with the numbers of the calls in place of
    the objects; a simulation shows that its \<open>outcome\<close> holds for every toolkit whose
    objects are new, so that one evaluation covers all of them.
  \<^item> \<open>GtkWindows\<close>, \<open>GtkControls\<close>: the programs, the functions that build a part of a window,
    and the callbacks; \<open>windows\<close> and \<open>controls\<close> list the mains for the theorem of this theory.
    The windows of \<^verbatim>\<open>gtk_alignment.c\<close> and \<^verbatim>\<open>gtk_item_factory.c\<close>, where one widget never appears, have a lemma each;
    that of \<^verbatim>\<open>gtk_scrolled_window.c\<close>, with its hundred buttons, is modelled without one.
    The callbacks have their own theorems: the notebook under any clicks, the page size and the
    progress bar in their ranges, the colour dialog over any number of presses.

  \<^bold>\<open>Small programs.\<close>  \<open>SmallPrograms\<close>: \<^verbatim>\<open>set_jump_exception.c\<close>, \<^verbatim>\<open>forkTest.c\<close>, \<^verbatim>\<open>ipc/pipe_test.c\<close>,
  \<^verbatim>\<open>returnline.c\<close> and \<^verbatim>\<open>double.c\<close>; what the pipe delivers, and the round trip of bytes through their
  hexadecimal text.  \<open>TestPrograms\<close>: \<^verbatim>\<open>http/test.c\<close>, \<^verbatim>\<open>redis_test.c\<close>, \<^verbatim>\<open>algorithm/rsa_test.c\<close>, \<^verbatim>\<open>random_xid.c\<close> and the
  native methods of \<^verbatim>\<open>TestJNIImpl.cpp\<close>, whose sort is the exchange sort of \<open>Sorting\<close> in the other order.

  \<^bold>\<open>A block game\<close> (\<^verbatim>\<open>src/cpp/test\<close>).  \<open>Tetris\<close>: \<^verbatim>\<open>eipd.c\<close>, \<^verbatim>\<open>util.c\<close> and \<^verbatim>\<open>config.c\<close>.  Rows are integers read bit by bit;
  the loops are compared with the sets of cells they count, and rows with matrices.

  \<^bold>\<open>Bisection.\<close>  \<open>GetRoot\<close>: \<^verbatim>\<open>algorithm/get_root.c\<close> over reals with a rounding as a parameter.  Termination and
  accuracy are shown for exact arithmetic, with fuel that grows with the logarithm of the distance;
  that negative numbers make it run forever is shown for every monotone rounding.

  \<^bold>\<open>Loops.\<close>  A loop whose end depends on the environment is \<open>loop\<close> with fuel.  Running out of
  fuel is the result \<open>Running\<close>, never a value, and each theorem says for which fuel the loop
  ends or that no fuel is enough.  The loops of the algorithms are recursive functions with a
  termination proof, or carry fuel with a lemma that bounds what they need.

  \<^bold>\<open>Not modelled.\<close>
  \<^item> \<^verbatim>\<open>draw_sin.c\<close>, which prints values of \<^verbatim>\<open>asin\<close>, and \<^verbatim>\<open>elips.c\<close>, which computes from a variable that is never set.
  \<^item> \<^verbatim>\<open>kfk/kfk_test.c\<close>, a copy of \<^verbatim>\<open>consumer.c\<close>, and \<^verbatim>\<open>test/context.c\<close>, which names members that do not exist.
  \<^item> The programs that only print constants (\<^verbatim>\<open>format_print.c\<close>, \<^verbatim>\<open>endian_test.c\<close>, \<^verbatim>\<open>test_atof.c\<close>, \<^verbatim>\<open>dtprs/ctype_code.c\<close>).
  \<^item> The C++ tutorial and the programs of the other languages.
\<close>

section \<open>Every window\<close>



end
